(* ===== verification/Raft_Prelude.thy ===== *)
theory Raft_Prelude
  imports Main "HOL-Library.AList" "HOL-Library.Sublist" "HOL-Library.Code_Target_Nat"
begin

text \<open>
  Shared ground of the development: unsigned 64-bit arithmetic, the result type of fallible
  operations, association lists used as the crate's key/value maps, and generic facts on lists
  that several components use.  The collections \<open>u64_simps\<close> and \<open>sum_simps\<close> hold the rewrite
  rules that component proofs name.
\<close>

named_theorems u64_simps \<open>arithmetic on u64 values that do not overflow\<close>
named_theorems sum_simps \<open>case distinctions on results\<close>

section \<open>Unsigned 64-bit integers\<close>

text \<open>
  \<open>NodeId\<close>, \<open>Term\<close> and \<open>LogIndex\<close> are all \<open>u64\<close>.  A value is a \<open>nat\<close>; every addition and
  subtraction of the source goes through the operators below, which wrap at \<open>2 ^ 64\<close> as a
  release build does (a debug build panics instead).  The limit is a constant of its own, so the
  simplifier does not expand the numeral.
\<close>

definition u64_limit :: nat where
  "u64_limit = 2 ^ 64"

definition u64_add :: "nat \<Rightarrow> nat \<Rightarrow> nat" where
  "u64_add a b = (a + b) mod u64_limit"

definition u64_sub :: "nat \<Rightarrow> nat \<Rightarrow> nat" where
  "u64_sub a b = (if b \<le> a then a - b else (a + u64_limit - b) mod u64_limit)"

lemma u64_add_small [u64_simps]: "a + b < u64_limit \<Longrightarrow> u64_add a b = a + b"
  by (simp add: u64_add_def)

lemma u64_add_one [u64_simps]: "Suc a < u64_limit \<Longrightarrow> u64_add a 1 = Suc a"
  by (simp add: u64_add_def)

lemma u64_add_Suc0 [u64_simps]: "Suc a < u64_limit \<Longrightarrow> u64_add a (Suc 0) = Suc a"
  by (simp add: u64_add_def)

lemma u64_sub_small [u64_simps]: "b \<le> a \<Longrightarrow> u64_sub a b = a - b"
  by (simp add: u64_sub_def)

lemma u64_add_bound: "u64_add a b < u64_limit"
  by (simp add: u64_add_def u64_limit_def)

lemma u64_add_le_add: "u64_add a b \<le> a + b"
  by (simp add: u64_add_def)

lemma u64_limit_gt_1: "1 < u64_limit"
  by (simp add: u64_limit_def)

section \<open>Results\<close>

text \<open>A Rust \<open>Result<T, E>\<close> is \<open>E + T\<close>: \<open>Inl\<close> is \<open>Err\<close>, \<open>Inr\<close> is \<open>Ok\<close>.\<close>

definition ok_or :: "'a \<Rightarrow> 'e + 'a \<Rightarrow> 'a" where
  "ok_or d r = (case r of Inl _ \<Rightarrow> d | Inr v \<Rightarrow> v)"

lemma ok_or_simps [simp, sum_simps]: "ok_or d (Inr v) = v" "ok_or d (Inl e) = d"
  by (simp_all add: ok_or_def)

section \<open>Lists\<close>

definition nth_opt :: "'a list \<Rightarrow> nat \<Rightarrow> 'a option" where
  \<comment> \<open>Rust's \<open>slice.get(i)\<close>.\<close>
  "nth_opt xs i = (if i < length xs then Some (xs ! i) else None)"

lemma nth_opt_Some_iff: "nth_opt xs i = Some x \<longleftrightarrow> i < length xs \<and> xs ! i = x"
  by (simp add: nth_opt_def)

lemma nth_opt_in_set: "nth_opt xs i = Some x \<Longrightarrow> x \<in> set xs"
  by (auto simp: nth_opt_Some_iff)

lemma nth_opt_append1: "i < length xs \<Longrightarrow> nth_opt (xs @ ys) i = nth_opt xs i"
  by (simp add: nth_opt_def nth_append)

definition slice_get :: "'a list \<Rightarrow> nat \<Rightarrow> nat \<Rightarrow> 'a list option" where
  \<comment> \<open>Rust's \<open>slice.get(a..b)\<close>: \<open>None\<close> when the range does not lie inside the slice.\<close>
  "slice_get xs a b = (if a \<le> b \<and> b \<le> length xs then Some (take (b - a) (drop a xs)) else None)"

lemma set_take_drop: "set (take n (drop m xs)) \<subseteq> set xs"
  by (meson order_trans set_drop_subset set_take_subset)

lemma take_prefix_append: "n \<le> length xs \<Longrightarrow> take n (xs @ ys) = take n xs"
  by simp

section \<open>Order statistics\<close>

text \<open>
  The element at position \<open>k\<close> of the sorted list: at least \<open>length xs - k\<close> elements reach it, and
  it is the largest value that so many elements reach.
\<close>

lemma length_filter_sort: "length (filter P (sort xs)) = length (filter P xs)"
  by (simp add: filter_sort)

lemma sorted_nth_count:
  assumes "k < length xs"
  shows "length xs - k \<le> length (filter (\<lambda>x. sort xs ! k \<le> x) xs)"
proof -
  let ?s = "sort xs" and ?P = "\<lambda>x. sort xs ! k \<le> x"
  have "filter ?P (drop k ?s) = drop k ?s"
  proof (rule filter_True, rule ballI)
    fix x assume "x \<in> set (drop k ?s)"
    then obtain j where "j < length ?s - k" and "x = ?s ! (k + j)"
      by (auto simp: in_set_conv_nth)
    then show "?P x"
      using assms by (simp add: sorted_nth_mono)
  qed
  moreover have "length (filter ?P ?s)
      = length (filter ?P (take k ?s)) + length (filter ?P (drop k ?s))"
    by (metis append_take_drop_id filter_append length_append)
  ultimately have "length xs - k \<le> length (filter ?P ?s)"
    by simp
  then show ?thesis by (simp add: length_filter_sort)
qed

lemma sorted_nth_greatest:
  assumes "k < length xs" and "length xs - k \<le> length (filter (\<lambda>y. x \<le> y) xs)"
  shows "x \<le> sort xs ! k"
proof (rule ccontr)
  let ?s = "sort xs" and ?P = "\<lambda>y. x \<le> y"
  assume "\<not> x \<le> ?s ! k"
  then have small: "\<not> ?P (?s ! j)" if "j \<le> k" for j
    using that assms(1) sorted_nth_mono [of ?s j k] by auto
  have "filter ?P (take (Suc k) ?s) = []"
    using small assms(1) by (auto simp: filter_empty_conv in_set_conv_nth)
  then have "filter ?P ?s = filter ?P (drop (Suc k) ?s)"
    by (metis append_Nil append_take_drop_id filter_append)
  then have "length (filter ?P ?s) \<le> length xs - Suc k"
    by (metis length_drop length_filter_le length_sort)
  with assms show False
    by (simp add: length_filter_sort)
qed

section \<open>Evaluation\<close>

text \<open>
  The runs of the witnesses are evaluated inside the logic.  The code equations of \<open>Code_Target_Nat\<close>
  leave a sum as it stands until it is compared with another number; these compute it at once, and
  the ones for \<open>fold\<close> pass on a state that has been computed.
\<close>

lemma nat_arith_code [code]:
  "m + n = nat_of_integer (integer_of_nat m + integer_of_nat n)"
  "m - n = nat_of_integer (integer_of_nat m - integer_of_nat n)"
  "m * n = nat_of_integer (integer_of_nat m * integer_of_nat n)"
  "m div n = nat_of_integer (integer_of_nat m div integer_of_nat n)"
  "m mod n = nat_of_integer (integer_of_nat m mod integer_of_nat n)"
  by (simp_all add: nat_of_integer.rep_eq integer_of_nat.rep_eq nat_add_distrib nat_mult_distrib
      nat_div_distrib nat_mod_distrib)

lemma fold_code_step [code]:
  "fold f [] s = s" "fold f (x # xs) s = fold f xs (f x s)"
  by simp_all

section \<open>Majorities\<close>

text \<open>
  Two sets of members that together hold more elements than there are members share one: the
  counting argument behind every quorum intersection of the development.
\<close>

lemma pigeonhole_subsets:
  assumes "finite M" and "A \<subseteq> M" and "B \<subseteq> M" and "card M < card A + card B"
  shows "A \<inter> B \<noteq> {}"
proof
  assume "A \<inter> B = {}"
  moreover have "finite A" and "finite B"
    using assms finite_subset by blast+
  ultimately have "card (A \<union> B) = card A + card B"
    by (simp add: card_Un_disjoint)
  moreover have "card (A \<union> B) \<le> card M"
    using assms by (intro card_mono) auto
  ultimately show False
    using assms(4) by simp
qed

lemma card_set_filter_le: "card (set (filter P xs)) \<le> length (filter P xs)"
  by (rule card_length)

end
