(* ===== verification/Raft_Types.thy ===== *)
theory Raft_Types
  imports Raft_Prelude "HOL-Library.Word"
begin

text \<open>
  The data of \<open>core/src\<close>: \<open>types.rs\<close>, \<open>node_state.rs\<close>, \<open>log_entry.rs\<close>, \<open>raft_messages.rs\<close>,
  \<open>snapshot.rs\<close>, \<open>event.rs\<close>, the timer kinds of \<open>timer_service.rs\<close>, the vocabulary of
  \<open>observer.rs\<close>, and the error types of the components.  A payload is any type \<open>'p\<close>; a snapshot
  and a snapshot chunk are byte lists, as in every implementation of the repository.
\<close>

section \<open>Evaluation of words\<close>

text \<open>As for the naturals, sums and products are computed at once.\<close>

lemma word_arith_code [code]:
  "(v :: 'a :: len word) + w = word_of_int (Word.the_int v + Word.the_int w)"
  "(v :: 'a :: len word) * w = word_of_int (Word.the_int v * Word.the_int w)"
  by (transfer; simp add: take_bit_add take_bit_mult)+

section \<open>Identifiers, roles and log entries\<close>

type_synonym node_id = nat
type_synonym log_term = nat
type_synonym log_index = nat
type_synonym bytes = "8 word list"

datatype node_state = Follower | Candidate | Leader

datatype configuration_change = AddServer node_id | RemoveServer node_id

datatype 'p entry_type = Command 'p | ConfigChange configuration_change

record 'p log_entry =
  entry_term :: log_term
  entry_kind :: "'p entry_type"

definition is_command :: "'p log_entry \<Rightarrow> bool" where
  "is_command e = (case entry_kind e of Command _ \<Rightarrow> True | ConfigChange _ \<Rightarrow> False)"

section \<open>Messages and events\<close>

text \<open>The fields of each message stand in the order of the Rust variants.\<close>

datatype 'p raft_msg =
    RequestVote log_term node_id log_index log_term
  | RequestVoteResponse log_term bool
  | PreVoteRequest log_term node_id log_index log_term
  | PreVoteResponse log_term bool
  | AppendEntries log_term log_index log_term "'p log_entry list" log_index
  | AppendEntriesResponse log_term bool log_index
  | InstallSnapshot log_term node_id log_index log_term nat bytes bool
  | InstallSnapshotResponse log_term bool

datatype timer_kind = Election | Heartbeat

datatype 'p event =
    Message node_id "'p raft_msg"
  | TimerFired timer_kind
  | ClientCommand 'p
  | ConfigChangeEvent configuration_change

section \<open>Snapshots\<close>

record snapshot_metadata =
  last_included_index :: log_index
  last_included_term :: log_term

record snapshot =
  metadata :: snapshot_metadata
  snap_data :: bytes

record snapshot_chunk =
  chunk_offset :: nat
  chunk_data :: bytes
  chunk_done :: bool

datatype snapshot_build_error = InvalidOffset | Incomplete | OutOfBounds

datatype snapshot_error =
    CorruptData | IncompatibleVersion | DeserializationFailed
  | NoEntriesToSnapshot | EntryNotFound | SnapshotNotLeader

section \<open>Errors of the components\<close>

datatype config_error =
    NotLeader | ConfigChangeInProgress | NodeAlreadyExists | NodeNotFound | CannotRemoveLastNode

datatype client_error = ClientNotLeader "node_id option"

datatype read_error = NotLeaderOrNoLease "node_id option"

section \<open>What a node reports to its observer\<close>

datatype role = RoleFollower | RoleCandidate | RoleLeader

datatype observer_timer_kind = ObserverElection | ObserverHeartbeat

text \<open>
  One constructor per method of the \<open>Observer\<close> trait that the core calls.  Observers cannot
  influence a node, so the model keeps the list of the calls made.
\<close>

datatype 'p obs_event =
    LeaderElected node_id log_term
  | RoleChanged node_id role role log_term
  | LeaderLost node_id log_term log_term
  | ElectionStarted node_id log_term
  | ElectionTimeout node_id log_term
  | PreVoteStarted node_id log_term
  | PreVoteRequested node_id node_id log_term log_index log_term
  | PreVoteGranted node_id node_id bool log_term
  | PreVoteSucceeded node_id log_term
  | CommitAdvanced node_id log_index log_index
  | VotedFor node_id node_id log_term
  | ObsTimerFired node_id observer_timer_kind log_term
  | ConfigurationChangeApplied node_id node_id bool
  | StateMachineApplied node_id log_index 'p
  | StateMachineRead node_id string bool

section \<open>The timers that have expired\<close>

text \<open>
  \<open>ExpiredTimers\<close> of \<open>core/src/timer_service.rs\<close>: an array of two slots and a count.  The slots
  are a list of length two, and a push past the second slot is ignored.
\<close>

record expired_timers =
  et_timers :: "timer_kind option list"
  et_count :: nat

definition expired_new :: expired_timers where
  "expired_new = \<lparr>et_timers = [None, None], et_count = 0\<rparr>"

definition expired_push :: "timer_kind \<Rightarrow> expired_timers \<Rightarrow> expired_timers" where
  "expired_push k et =
     (if et_count et < 2
      then et\<lparr>et_timers := (et_timers et)[et_count et := Some k], et_count := et_count et + 1\<rparr>
      else et)"

definition expired_iter :: "expired_timers \<Rightarrow> timer_kind list" where
  "expired_iter et = List.map_filter (\<lambda>t. t) (take (et_count et) (et_timers et))"

definition expired_is_empty :: "expired_timers \<Rightarrow> bool" where
  "expired_is_empty et = (et_count et = 0)"

text \<open>The invariant of the structure: every slot below the count is filled.\<close>

definition expired_wf :: "expired_timers \<Rightarrow> bool" where
  "expired_wf et \<longleftrightarrow> length (et_timers et) = 2 \<and> et_count et \<le> 2 \<and>
     (\<forall>i < et_count et. et_timers et ! i \<noteq> None)"

lemma expired_wf_new: "expired_wf expired_new"
  by (simp add: expired_wf_def expired_new_def)

lemma expired_wf_push: "expired_wf et \<Longrightarrow> expired_wf (expired_push k et)"
  by (auto simp: expired_wf_def expired_push_def nth_list_update less_Suc_eq)

lemma expired_iter_new [simp]: "expired_iter expired_new = []"
  by (simp add: expired_iter_def expired_new_def)

lemma expired_iter_push:
  assumes "expired_wf et"
  shows "expired_iter (expired_push k et) =
           (if et_count et < 2 then expired_iter et @ [k] else expired_iter et)"
proof (cases "et_count et < 2")
  case True
  with assms have "et_count et < length (et_timers et)"
    by (simp add: expired_wf_def)
  then show ?thesis
    using True
    by (simp add: expired_iter_def expired_push_def take_Suc_conv_app_nth map_filter_simps
        map_filter_def)
next
  case False
  then show ?thesis by (simp add: expired_push_def)
qed

end
