(* ===== verification/Raft_Collections.thy ===== *)
theory Raft_Collections
  imports Raft_Types
begin

text \<open>
  The collection traits of \<open>core/src/collections\<close> and \<open>Configuration\<close>.

  A \<open>NodeCollection\<close> is the list that its \<open>iter\<close> yields, a \<open>ConfigChangeCollection\<close> likewise, a
  \<open>MapCollection\<close> is an association list read by \<open>get\<close>.  What differs between the
  implementations (whether a full collection refuses an element) is a dictionary of operations:
  the core theories take the dictionary as an argument, the way the Rust code is generic in the
  trait.  The laws of the traits are locales, interpreted for the unbounded collections of
  \<open>test-utils\<close> and the bounded ones of \<open>embassy\<close>.
\<close>

section \<open>Vectors with a capacity\<close>

datatype collection_error = Full

type_synonym capacity = "nat option"

definition has_room :: "capacity \<Rightarrow> nat \<Rightarrow> bool" where
  "has_room cap n = (case cap of None \<Rightarrow> True | Some c \<Rightarrow> n < c)"

definition vec_push :: "capacity \<Rightarrow> 'a \<Rightarrow> 'a list \<Rightarrow> collection_error + 'a list" where
  \<comment> \<open>\<open>std::vec::Vec\<close> for \<open>None\<close>, \<open>heapless::Vec<_, N>\<close> for \<open>Some N\<close>.\<close>
  "vec_push cap x xs = (if has_room cap (length xs) then Inr (xs @ [x]) else Inl Full)"

definition push_ok :: "('a \<Rightarrow> 'a list \<Rightarrow> collection_error + 'a list) \<Rightarrow> 'a \<Rightarrow> 'a list \<Rightarrow> 'a list" where
  \<comment> \<open>\<open>c.push(x).ok()\<close> and \<open>let _ = c.push(x)\<close>: an error leaves the collection as it was.\<close>
  "push_ok push x xs = ok_or xs (push x xs)"

definition extend_ok :: "('a \<Rightarrow> 'a list \<Rightarrow> collection_error + 'a list) \<Rightarrow> 'a list \<Rightarrow> 'a list \<Rightarrow> 'a list" where
  \<comment> \<open>\<open>for x in xs { c.push(x).ok(); }\<close>\<close>
  "extend_ok push xs acc = fold (push_ok push) xs acc"

lemma has_room_None [simp]: "has_room None n"
  by (simp add: has_room_def)

lemma vec_push_unbounded [simp]: "vec_push None x xs = Inr (xs @ [x])"
  by (simp add: vec_push_def)

lemma push_ok_unbounded [simp]: "push_ok (vec_push None) x xs = xs @ [x]"
  by (simp add: push_ok_def)

lemma extend_ok_unbounded [simp]: "extend_ok (vec_push None) xs acc = acc @ xs"
  by (induction xs arbitrary: acc) (simp_all add: extend_ok_def)

lemma extend_ok_bounded:
  "length acc \<le> n \<Longrightarrow> extend_ok (vec_push (Some n)) xs acc = acc @ take (n - length acc) xs"
proof (induction xs arbitrary: acc)
  case Nil
  then show ?case by (simp add: extend_ok_def)
next
  case (Cons x xs)
  show ?case
  proof (cases "length acc < n")
    case True
    have "extend_ok (vec_push (Some n)) (x # xs) acc = extend_ok (vec_push (Some n)) xs (acc @ [x])"
      using True by (simp add: extend_ok_def push_ok_def vec_push_def has_room_def)
    also have "\<dots> = (acc @ [x]) @ take (n - length (acc @ [x])) xs"
      using True by (intro Cons.IH) simp
    also have "\<dots> = acc @ take (n - length acc) (x # xs)"
      using True by (simp add: take_Cons' Suc_diff_Suc [symmetric] del: Suc_diff_Suc)
    finally show ?thesis .
  next
    case False
    with Cons.prems have "length acc = n" by simp
    with Cons.IH [of acc] show ?thesis
      by (simp add: extend_ok_def push_ok_def vec_push_def has_room_def)
  qed
qed

section \<open>Configuration\<close>

record configuration =
  members :: "node_id list"

definition config_new :: "node_id list \<Rightarrow> configuration" where
  "config_new ms = \<lparr>members = ms\<rparr>"

definition config_contains :: "configuration \<Rightarrow> node_id \<Rightarrow> bool" where
  "config_contains c n = list_ex (\<lambda>i. i = n) (members c)"

definition config_size :: "configuration \<Rightarrow> nat" where
  "config_size c = length (members c)"

definition quorum_size :: "configuration \<Rightarrow> nat" where
  "quorum_size c = (if config_size c = 0 then 0 else config_size c div 2 + 1)"

definition has_quorum :: "configuration \<Rightarrow> nat \<Rightarrow> bool" where
  "has_quorum c count \<longleftrightarrow> quorum_size c \<le> count"

definition peers :: "configuration \<Rightarrow> node_id \<Rightarrow> node_id list" where
  "peers c self_id = filter (\<lambda>i. i \<noteq> self_id) (members c)"

lemma config_contains_iff [simp]: "config_contains c n \<longleftrightarrow> n \<in> set (members c)"
  by (auto simp: config_contains_def list_ex_iff)

lemma set_peers [simp]: "set (peers c i) = set (members c) - {i}"
  by (auto simp: peers_def)

text \<open>
  Quorums of one configuration intersect, and so do a quorum of a configuration and a quorum of
  the configuration with one server more: what makes adding and removing a single server safe.
\<close>

lemma quorums_intersect:
  assumes "distinct (members c)" and "members c \<noteq> []"
    and "A \<subseteq> set (members c)" and "B \<subseteq> set (members c)"
    and "has_quorum c (card A)" and "has_quorum c (card B)"
  shows "A \<inter> B \<noteq> {}"
proof (rule pigeonhole_subsets)
  have "card (set (members c)) = length (members c)"
    using assms(1) by (rule distinct_card)
  then show "card (set (members c)) < card A + card B"
    using assms(2,5,6) by (auto simp: has_quorum_def quorum_size_def config_size_def)
qed (use assms in auto)

lemma quorums_intersect_after_add:
  assumes "distinct (members c)" and "members c \<noteq> []" and "x \<notin> set (members c)"
    and "c' = config_new (members c @ [x])"
    and "A \<subseteq> set (members c)" and "B \<subseteq> set (members c')"
    and "has_quorum c (card A)" and "has_quorum c' (card B)"
  shows "A \<inter> B \<noteq> {}"
proof (rule pigeonhole_subsets)
  have "card (set (members c')) = Suc (length (members c))"
    using assms(1,3,4) by (simp add: config_new_def distinct_card)
  then show "card (set (members c')) < card A + card B"
    using assms(2,4,7,8)
    by (auto simp: has_quorum_def quorum_size_def config_size_def config_new_def)
  show "A \<subseteq> set (members c')"
    using assms(4,5) by (auto simp: config_new_def)
qed (use assms in auto)

section \<open>The traits as dictionaries\<close>

record node_ops =
  nc_push :: "node_id \<Rightarrow> node_id list \<Rightarrow> collection_error + node_id list"
  nc_remove :: "node_id \<Rightarrow> node_id list \<Rightarrow> node_id list"

type_synonym node_map = "(node_id \<times> log_index) list"

record map_ops =
  mc_insert :: "node_id \<Rightarrow> log_index \<Rightarrow> node_map \<Rightarrow> node_map"
  mc_get :: "node_map \<Rightarrow> node_id \<Rightarrow> log_index option"
  mc_remove :: "node_id \<Rightarrow> node_map \<Rightarrow> node_map"
  mc_compute_median ::
    "node_map \<Rightarrow> log_index \<Rightarrow> configuration \<Rightarrow> node_map \<Rightarrow> node_id \<Rightarrow> log_index option"

record change_ops =
  cc_push :: "log_index \<Rightarrow> configuration_change \<Rightarrow> (log_index \<times> configuration_change) list
    \<Rightarrow> collection_error + (log_index \<times> configuration_change) list"

section \<open>Laws of the node collection\<close>

locale node_collection =
  fixes push :: "node_id \<Rightarrow> node_id list \<Rightarrow> collection_error + node_id list"
  assumes push_snoc: "push x xs = Inr ys \<Longrightarrow> ys = xs @ [x]"
    and push_first: "\<exists>ys. push x [] = Inr ys"
begin

lemma push_ok_cases: "push_ok push x xs = xs \<or> push_ok push x xs = xs @ [x]"
  by (cases "push x xs") (auto simp: push_ok_def dest: push_snoc)

lemma push_ok_Nil: "push_ok push x [] = [x]"
  using push_first [of x] by (auto simp: push_ok_def dest: push_snoc)

lemma push_ok_subset: "set (push_ok push x xs) \<subseteq> insert x (set xs)"
  using push_ok_cases [of x xs] by auto

lemma push_ok_grows: "set xs \<subseteq> set (push_ok push x xs)"
  using push_ok_cases [of x xs] by auto

lemma extend_ok_subset: "set (extend_ok push xs acc) \<subseteq> set xs \<union> set acc"
proof (induction xs arbitrary: acc)
  case Nil
  then show ?case by (simp add: extend_ok_def)
next
  case (Cons x xs)
  have "set (extend_ok push (x # xs) acc) \<subseteq> set xs \<union> set (push_ok push x acc)"
    using Cons.IH [of "push_ok push x acc"] by (simp add: extend_ok_def)
  with push_ok_subset [of x acc] show ?case by auto
qed

lemma extend_ok_prefix: "\<exists>zs. subseq zs xs \<and> extend_ok push xs acc = acc @ zs"
proof (induction xs arbitrary: acc)
  case Nil
  then show ?case by (simp add: extend_ok_def)
next
  case (Cons x xs)
  from Cons.IH [of "push_ok push x acc"] obtain zs where
    zs: "subseq zs xs" "extend_ok push xs (push_ok push x acc) = push_ok push x acc @ zs"
    by blast
  from push_ok_cases [of x acc] show ?case
  proof
    assume "push_ok push x acc = acc"
    with zs show ?thesis
      by (intro exI [of _ zs]) (auto simp: extend_ok_def)
  next
    assume "push_ok push x acc = acc @ [x]"
    with zs show ?thesis
      by (intro exI [of _ "x # zs"]) (auto simp: extend_ok_def)
  qed
qed

end

section \<open>Laws of the map collection\<close>

text \<open>
  An insert is either seen by \<open>get\<close> or dropped (a bounded map may be full), and it is never
  dropped for a key that is present.
\<close>

locale map_collection =
  fixes insert :: "node_id \<Rightarrow> log_index \<Rightarrow> node_map \<Rightarrow> node_map"
    and get :: "node_map \<Rightarrow> node_id \<Rightarrow> log_index option"
    and remove :: "node_id \<Rightarrow> node_map \<Rightarrow> node_map"
  assumes get_insert_other: "k' \<noteq> k \<Longrightarrow> get (insert k v m) k' = get m k'"
    and get_insert_cases: "get (insert k v m) k = Some v \<or> insert k v m = m"
    and get_insert_present: "get m k \<noteq> None \<Longrightarrow> get (insert k v m) k = Some v"
    and get_remove: "get (remove k m) k' = (if k' = k then None else get m k')"
begin

lemma get_insert_mono:
  assumes "get m k' = Some w" and "k' = k \<Longrightarrow> w \<le> v"
  shows "\<exists>w'. get (insert k v m) k' = Some w' \<and> w \<le> w'"
proof (cases "k' = k")
  case True
  with assms show ?thesis using get_insert_present [of m k v] by auto
next
  case False
  with assms show ?thesis by (simp add: get_insert_other)
qed

end

section \<open>The median of the match indices\<close>

text \<open>
  \<open>compute_median\<close> is the same code in \<open>test-utils\<close> and \<open>embassy\<close> but for the buffer the indices
  are pushed to; \<open>push\<close> stands for that buffer.
\<close>

definition voter_index :: "(node_id \<Rightarrow> log_index option) \<Rightarrow> node_id \<Rightarrow> log_index" where
  "voter_index get n = (case get n of Some i \<Rightarrow> i | None \<Rightarrow> 0)"

fun collect_voters ::
  "(log_index \<Rightarrow> log_index list \<Rightarrow> collection_error + log_index list) \<Rightarrow>
   (node_id \<Rightarrow> log_index option) \<Rightarrow> (node_id \<Rightarrow> log_index option) \<Rightarrow> node_id \<Rightarrow>
   node_id list \<Rightarrow> log_index list \<Rightarrow> log_index list" where
  "collect_voters push get catching leader_id [] acc = acc"
| "collect_voters push get catching leader_id (member # ms) acc =
     (if member = leader_id then collect_voters push get catching leader_id ms acc
      else if catching member \<noteq> None then collect_voters push get catching leader_id ms acc
      else case get member of
             Some match_idx \<Rightarrow>
               collect_voters push get catching leader_id ms (push_ok push match_idx acc)
           | None \<Rightarrow> collect_voters push get catching leader_id ms (push_ok push 0 acc))"

definition median_of :: "log_index list \<Rightarrow> log_index option" where
  "median_of indices =
     (if indices = [] then None else Some (sort indices ! ((length indices - 1) div 2)))"

text \<open>The members whose acknowledgement counts: neither the leader nor catching up.\<close>

definition voting_peers :: "configuration \<Rightarrow> (node_id \<Rightarrow> log_index option) \<Rightarrow> node_id \<Rightarrow> node_id list" where
  "voting_peers c catching leader_id =
     filter (\<lambda>m. m \<noteq> leader_id \<and> catching m = None) (members c)"

lemma collect_voters_unbounded:
  "collect_voters (vec_push None) get catching leader_id ms acc =
     acc @ map (voter_index get) (filter (\<lambda>m. m \<noteq> leader_id \<and> catching m = None) ms)"
  by (induction ms arbitrary: acc) (auto simp: voter_index_def split: option.splits)

lemma median_of_majority:
  assumes "median_of xs = Some m"
  shows "length xs div 2 + 1 \<le> length (filter (\<lambda>x. m \<le> x) xs)"
proof -
  from assms have ne: "xs \<noteq> []" and m: "m = sort xs ! ((length xs - 1) div 2)"
    by (auto simp: median_of_def split: if_splits)
  have "length xs - (length xs - 1) div 2 \<le> length (filter (\<lambda>x. m \<le> x) xs)"
    unfolding m using ne by (intro sorted_nth_count) (cases xs; simp)
  moreover have "length xs - (length xs - 1) div 2 = length xs div 2 + 1"
    using ne by (cases xs) auto
  ultimately show ?thesis by simp
qed

lemma median_of_greatest:
  assumes "median_of xs = Some m" and "length xs div 2 + 1 \<le> length (filter (\<lambda>y. x \<le> y) xs)"
  shows "x \<le> m"
proof -
  from assms(1) have ne: "xs \<noteq> []" and m: "m = sort xs ! ((length xs - 1) div 2)"
    by (auto simp: median_of_def split: if_splits)
  have "length xs - (length xs - 1) div 2 = length xs div 2 + 1"
    using ne by (cases xs) auto
  with assms(2) show ?thesis
    unfolding m using ne by (intro sorted_nth_greatest) (cases xs; simp)+
qed

section \<open>The collections of test-utils\<close>

definition in_memory_node_push :: "node_id \<Rightarrow> node_id list \<Rightarrow> collection_error + node_id list" where
  "in_memory_node_push node nodes = vec_push None node nodes"

definition in_memory_node_remove :: "node_id \<Rightarrow> node_id list \<Rightarrow> node_id list" where
  "in_memory_node_remove node nodes = filter (\<lambda>n. n \<noteq> node) nodes"

definition in_memory_node_ops :: node_ops where
  "in_memory_node_ops = \<lparr>nc_push = in_memory_node_push, nc_remove = in_memory_node_remove\<rparr>"

definition in_memory_map_insert :: "node_id \<Rightarrow> log_index \<Rightarrow> node_map \<Rightarrow> node_map" where
  "in_memory_map_insert k v m = AList.update k v m"

definition in_memory_map_get :: "node_map \<Rightarrow> node_id \<Rightarrow> log_index option" where
  "in_memory_map_get m k = map_of m k"

definition in_memory_map_remove :: "node_id \<Rightarrow> node_map \<Rightarrow> node_map" where
  "in_memory_map_remove k m = AList.delete k m"

definition in_memory_compute_median ::
  "node_map \<Rightarrow> log_index \<Rightarrow> configuration \<Rightarrow> node_map \<Rightarrow> node_id \<Rightarrow> log_index option" where
  "in_memory_compute_median m leader_last_index config catching_up_servers leader_id =
     median_of (collect_voters (vec_push None) (in_memory_map_get m)
       (in_memory_map_get catching_up_servers) leader_id (members config) [leader_last_index])"

definition in_memory_map_ops :: map_ops where
  "in_memory_map_ops = \<lparr>mc_insert = in_memory_map_insert, mc_get = in_memory_map_get,
     mc_remove = in_memory_map_remove, mc_compute_median = in_memory_compute_median\<rparr>"

definition in_memory_change_push ::
  "log_index \<Rightarrow> configuration_change \<Rightarrow> (log_index \<times> configuration_change) list
   \<Rightarrow> collection_error + (log_index \<times> configuration_change) list" where
  "in_memory_change_push index change changes = vec_push None (index, change) changes"

definition in_memory_change_ops :: change_ops where
  "in_memory_change_ops = \<lparr>cc_push = in_memory_change_push\<rparr>"

interpretation mem_nodes: node_collection in_memory_node_push
  by unfold_locales (simp_all add: in_memory_node_push_def)

interpretation mem_maps: map_collection in_memory_map_insert in_memory_map_get in_memory_map_remove
  by unfold_locales
    (auto simp: in_memory_map_insert_def in_memory_map_get_def in_memory_map_remove_def
      update_conv' delete_conv')

section \<open>The collections of embassy\<close>

text \<open>
  \<open>EmbassyNodeCollection\<close> and \<open>EmbassyConfigChangeCollection\<close> hold at most ten elements,
  \<open>EmbassyMapCollection\<close> at most eight keys, and the buffer of its \<open>compute_median\<close> ten indices.
\<close>

definition embassy_node_push :: "node_id \<Rightarrow> node_id list \<Rightarrow> collection_error + node_id list" where
  "embassy_node_push node nodes = vec_push (Some 10) node nodes"

definition embassy_node_remove :: "node_id \<Rightarrow> node_id list \<Rightarrow> node_id list" where
  "embassy_node_remove node nodes = filter (\<lambda>n. n \<noteq> node) nodes"

definition embassy_node_ops :: node_ops where
  "embassy_node_ops = \<lparr>nc_push = embassy_node_push, nc_remove = embassy_node_remove\<rparr>"

definition embassy_map_insert :: "node_id \<Rightarrow> log_index \<Rightarrow> node_map \<Rightarrow> node_map" where
  "embassy_map_insert k v m =
     (if map_of m k \<noteq> None \<or> length m < 8 then AList.update k v m else m)"

definition embassy_map_get :: "node_map \<Rightarrow> node_id \<Rightarrow> log_index option" where
  "embassy_map_get m k = map_of m k"

definition embassy_map_remove :: "node_id \<Rightarrow> node_map \<Rightarrow> node_map" where
  "embassy_map_remove k m = AList.delete k m"

definition embassy_compute_median ::
  "node_map \<Rightarrow> log_index \<Rightarrow> configuration \<Rightarrow> node_map \<Rightarrow> node_id \<Rightarrow> log_index option" where
  "embassy_compute_median m leader_last_index config catching_up_servers leader_id =
     median_of (collect_voters (vec_push (Some 10)) (embassy_map_get m)
       (embassy_map_get catching_up_servers) leader_id (members config)
       (push_ok (vec_push (Some 10)) leader_last_index []))"

definition embassy_map_ops :: map_ops where
  "embassy_map_ops = \<lparr>mc_insert = embassy_map_insert, mc_get = embassy_map_get,
     mc_remove = embassy_map_remove, mc_compute_median = embassy_compute_median\<rparr>"

definition embassy_change_push ::
  "log_index \<Rightarrow> configuration_change \<Rightarrow> (log_index \<times> configuration_change) list
   \<Rightarrow> collection_error + (log_index \<times> configuration_change) list" where
  "embassy_change_push index change changes = vec_push (Some 10) (index, change) changes"

definition embassy_change_ops :: change_ops where
  "embassy_change_ops = \<lparr>cc_push = embassy_change_push\<rparr>"

interpretation emb_nodes: node_collection embassy_node_push
  by unfold_locales (auto simp: embassy_node_push_def vec_push_def has_room_def split: if_splits)

interpretation emb_maps: map_collection embassy_map_insert embassy_map_get embassy_map_remove
  by unfold_locales
    (auto simp: embassy_map_insert_def embassy_map_get_def embassy_map_remove_def
      update_conv' delete_conv')

text \<open>
  The bounded buffer is no restriction for clusters it was sized for: with at most ten members,
  the embassy median is the median of \<open>test-utils\<close>.
\<close>

lemma collect_voters_bounded:
  "length acc + length ms \<le> n \<Longrightarrow>
   collect_voters (vec_push (Some n)) get catching leader_id ms acc =
   collect_voters (vec_push None) get catching leader_id ms acc"
  by (induction ms arbitrary: acc)
    (auto simp: push_ok_def vec_push_def has_room_def split: option.splits)

end
