(* ===== verification/Storage_Interface.thy ===== *)
theory Storage_Interface
  imports Raft_Collections
begin

text \<open>
  The \<open>Storage\<close> and \<open>StateMachine\<close> traits of \<open>core/src/storage.rs\<close> and
  \<open>core/src/state_machine.rs\<close> as dictionaries of operations, the abstract view of a storage, and
  the contract between a storage and the core as two locales.  \<open>storage_frame\<close> holds for every
  state; \<open>raft_storage\<close> adds what each operation does to a storage within its capacity.

  \<open>begin_snapshot_transfer\<close> and \<open>finalize_snapshot\<close> are operations of the trait that the core
  never calls; the storages model them, the dictionary leaves them out.
\<close>

section \<open>The dictionaries\<close>

record ('s, 'p) storage_ops =
  st_current_term :: "'s \<Rightarrow> log_term"
  st_set_current_term :: "log_term \<Rightarrow> 's \<Rightarrow> 's"
  st_voted_for :: "'s \<Rightarrow> node_id option"
  st_set_voted_for :: "node_id option \<Rightarrow> 's \<Rightarrow> 's"
  st_last_log_index :: "'s \<Rightarrow> log_index"
  st_last_log_term :: "'s \<Rightarrow> log_term"
  st_get_entry :: "'s \<Rightarrow> log_index \<Rightarrow> 'p log_entry option"
  st_get_entries :: "'s \<Rightarrow> log_index \<Rightarrow> log_index \<Rightarrow> 'p log_entry list"
  st_append_entries :: "'p log_entry list \<Rightarrow> 's \<Rightarrow> 's"
  st_truncate_after :: "log_index \<Rightarrow> 's \<Rightarrow> 's"
  st_save_snapshot :: "snapshot \<Rightarrow> 's \<Rightarrow> 's"
  st_load_snapshot :: "'s \<Rightarrow> snapshot option"
  st_snapshot_metadata :: "'s \<Rightarrow> snapshot_metadata option"
  st_get_snapshot_chunk :: "'s \<Rightarrow> nat \<Rightarrow> nat \<Rightarrow> snapshot_chunk option"
  st_apply_snapshot_chunk ::
    "nat \<Rightarrow> bytes \<Rightarrow> bool \<Rightarrow> log_index \<Rightarrow> log_term \<Rightarrow> 's \<Rightarrow> 's \<times> (snapshot_error + unit)"
  st_discard_entries_before :: "log_index \<Rightarrow> 's \<Rightarrow> 's"
  st_first_log_index :: "'s \<Rightarrow> log_index"

record ('sm, 'p) state_machine_ops =
  sm_apply :: "'p \<Rightarrow> 'sm \<Rightarrow> 'sm"
  sm_get :: "'sm \<Rightarrow> string \<Rightarrow> string option"
  sm_create_snapshot :: "'sm \<Rightarrow> bytes"
  sm_restore_from_snapshot :: "bytes \<Rightarrow> 'sm \<Rightarrow> 'sm \<times> (snapshot_error + unit)"

definition usize_max :: nat where
  "usize_max = u64_limit - 1"

section \<open>The abstract view of a storage\<close>

text \<open>
  The log of a view starts at index \<open>v_first\<close>: entry \<open>i\<close> of the log has the log index
  \<open>v_first + i\<close>, and everything below \<open>v_first\<close> has been compacted into the snapshot.
\<close>

record 'p log_view =
  v_term :: log_term
  v_vote :: "node_id option"
  v_first :: log_index
  v_log :: "'p log_entry list"
  v_snap :: "snapshot option"

definition v_next :: "'p log_view \<Rightarrow> log_index" where
  \<comment> \<open>The index the next appended entry gets.\<close>
  "v_next v = v_first v + length (v_log v)"

definition v_entry :: "'p log_view \<Rightarrow> log_index \<Rightarrow> 'p log_entry option" where
  "v_entry v i = (if i < v_first v then None else nth_opt (v_log v) (i - v_first v))"

definition v_segment :: "'p log_view \<Rightarrow> log_index \<Rightarrow> log_index \<Rightarrow> 'p log_entry list" where
  "v_segment v a b = take (b - a) (drop (a - v_first v) (v_log v))"

definition v_last_term :: "'p log_view \<Rightarrow> log_term" where
  "v_last_term v =
     (if v_log v \<noteq> [] then entry_term (last (v_log v))
      else case v_snap v of Some sn \<Rightarrow> last_included_term (metadata sn) | None \<Rightarrow> 0)"

definition v_truncate :: "log_index \<Rightarrow> 'p log_view \<Rightarrow> 'p log_view" where
  "v_truncate i v = v\<lparr>v_log := take (Suc i - v_first v) (v_log v)\<rparr>"

definition v_discard :: "log_index \<Rightarrow> 'p log_view \<Rightarrow> 'p log_view" where
  "v_discard i v =
     (if i \<le> v_first v then v
      else v\<lparr>v_log := drop (i - v_first v) (v_log v), v_first := i\<rparr>)"

text \<open>
  The log continues the snapshot without a gap.  The core breaks this only between storing a
  snapshot and discarding the entries it covers.
\<close>

definition compacted :: "'p log_view \<Rightarrow> bool" where
  "compacted v \<longleftrightarrow>
     v_first v = (case v_snap v of None \<Rightarrow> 1 | Some sn \<Rightarrow> last_included_index (metadata sn) + 1)"

definition view_ok :: "'p log_view \<Rightarrow> bool" where
  "view_ok v \<longleftrightarrow> compacted v \<and> v_next v < u64_limit"

definition clip :: "capacity \<Rightarrow> 'a list \<Rightarrow> 'a list" where
  "clip cap xs = (case cap of None \<Rightarrow> xs | Some n \<Rightarrow> take n xs)"

lemma clip_None [simp]: "clip None xs = xs"
  by (simp add: clip_def)

lemma set_clip: "set (clip cap xs) \<subseteq> set xs"
  by (auto simp: clip_def dest: in_set_takeD split: option.splits)

lemma clip_prefix: "\<exists>n. clip cap xs = take n xs"
  by (cases cap) (auto simp: clip_def intro: exI [of _ "length xs"])

lemma v_entry_in_log: "v_entry v i = Some e \<Longrightarrow> e \<in> set (v_log v)"
  by (auto simp: v_entry_def dest: nth_opt_in_set split: if_splits)

lemma v_segment_in_log: "set (v_segment v a b) \<subseteq> set (v_log v)"
  by (simp add: v_segment_def set_take_drop)

lemma compacted_pos: "compacted v \<Longrightarrow> 0 < v_first v"
  by (auto simp: compacted_def split: option.splits)

lemma v_entry_Some_iff:
  "v_entry v i = Some e \<longleftrightarrow> v_first v \<le> i \<and> i < v_next v \<and> v_log v ! (i - v_first v) = e"
  by (auto simp: v_entry_def v_next_def nth_opt_Some_iff)

lemma v_entry_None_iff: "v_entry v i = None \<longleftrightarrow> i < v_first v \<or> v_next v \<le> i"
  by (auto simp: v_entry_def v_next_def nth_opt_def)

lemma v_entry_frame [simp]:
  "v_entry (v\<lparr>v_snap := sn\<rparr>) i = v_entry v i" "v_entry (v\<lparr>v_term := t\<rparr>) i = v_entry v i"
  "v_entry (v\<lparr>v_vote := vo\<rparr>) i = v_entry v i"
  by (simp_all add: v_entry_def)

lemma v_truncate_simps [simp]:
  "v_term (v_truncate i v) = v_term v" "v_vote (v_truncate i v) = v_vote v"
  "v_first (v_truncate i v) = v_first v" "v_snap (v_truncate i v) = v_snap v"
  "v_log (v_truncate i v) = take (Suc i - v_first v) (v_log v)"
  by (simp_all add: v_truncate_def)

lemma v_discard_simps [simp]:
  "v_term (v_discard i v) = v_term v" "v_vote (v_discard i v) = v_vote v"
  "v_snap (v_discard i v) = v_snap v" "v_first (v_discard i v) = max i (v_first v)"
  by (simp_all add: v_discard_def)

lemma v_log_discard_subset: "set (v_log (v_discard i v)) \<subseteq> set (v_log v)"
  by (auto simp: v_discard_def dest: in_set_dropD)

lemma v_entry_truncate:
  "v_entry (v_truncate i v) j = (if j \<le> i then v_entry v j else None)"
  by (auto simp: v_entry_def nth_opt_def)

lemma v_entry_discard: "v_entry (v_discard i v) j = (if i \<le> j then v_entry v j else
    if i \<le> v_first v then v_entry v j else None)"
  by (auto simp: v_entry_def v_discard_def nth_opt_def)

section \<open>The contract\<close>

text \<open>What holds of a storage in every state, whatever its capacity.\<close>

locale storage_frame =
  fixes S :: "('s, 'p) storage_ops"
    and view :: "'s \<Rightarrow> 'p log_view"
  assumes get_term: "st_current_term S s = v_term (view s)"
    and get_vote: "st_voted_for S s = v_vote (view s)"
    and set_term: "view (st_set_current_term S t s) = (view s)\<lparr>v_term := t\<rparr>"
    and set_vote: "view (st_set_voted_for S vote s) = (view s)\<lparr>v_vote := vote\<rparr>"
    and append_some:
      "\<exists>n. view (st_append_entries S es s) = (view s)\<lparr>v_log := v_log (view s) @ take n es\<rparr>"
    and truncate_some:
      "\<exists>n. view (st_truncate_after S i s) = (view s)\<lparr>v_log := take n (v_log (view s))\<rparr>"
    and discard_some:
      "\<exists>xs f. set xs \<subseteq> set (v_log (view s)) \<and>
         view (st_discard_entries_before S i s) = (view s)\<lparr>v_log := xs, v_first := f\<rparr>"
    and save_snapshot: "view (st_save_snapshot S sn s) = (view s)\<lparr>v_snap := Some sn\<rparr>"
    and load_snapshot: "st_load_snapshot S s = v_snap (view s)"
    and snapshot_metadata: "st_snapshot_metadata S s = map_option metadata (v_snap (view s))"
    and apply_chunk_some:
      "\<exists>sn. view (fst (st_apply_snapshot_chunk S ofs d dn lii lit s)) = (view s)\<lparr>v_snap := sn\<rparr>"
    and get_entry_in_log: "st_get_entry S s i = Some e \<Longrightarrow> e \<in> set (v_log (view s))"
    and get_entries_in_log: "set (st_get_entries S s a b) \<subseteq> set (v_log (view s))"
begin

text \<open>Nothing but the two setters touches the term and the vote.\<close>

lemma append_frame [simp]:
  "v_term (view (st_append_entries S es s)) = v_term (view s)"
  "v_vote (view (st_append_entries S es s)) = v_vote (view s)"
  using append_some [of es s] by auto

lemma truncate_frame [simp]:
  "v_term (view (st_truncate_after S i s)) = v_term (view s)"
  "v_vote (view (st_truncate_after S i s)) = v_vote (view s)"
  using truncate_some [of i s] by auto

lemma discard_frame [simp]:
  "v_term (view (st_discard_entries_before S i s)) = v_term (view s)"
  "v_vote (view (st_discard_entries_before S i s)) = v_vote (view s)"
  using discard_some [of s i] by auto

lemma save_snapshot_frame [simp]:
  "v_term (view (st_save_snapshot S sn s)) = v_term (view s)"
  "v_vote (view (st_save_snapshot S sn s)) = v_vote (view s)"
  "v_log (view (st_save_snapshot S sn s)) = v_log (view s)"
  by (simp_all add: save_snapshot)

lemma apply_chunk_frame [simp]:
  "v_term (view (fst (st_apply_snapshot_chunk S ofs d dn lii lit s))) = v_term (view s)"
  "v_vote (view (fst (st_apply_snapshot_chunk S ofs d dn lii lit s))) = v_vote (view s)"
  "v_log (view (fst (st_apply_snapshot_chunk S ofs d dn lii lit s))) = v_log (view s)"
  using apply_chunk_some [of ofs d dn lii lit s] by auto

lemma append_log_subset: "set (v_log (view (st_append_entries S es s))) \<subseteq> set (v_log (view s)) \<union> set es"
  using append_some [of es s] by (auto dest: in_set_takeD)

lemma truncate_log_subset: "set (v_log (view (st_truncate_after S i s))) \<subseteq> set (v_log (view s))"
  using truncate_some [of i s] by (auto dest: in_set_takeD)

lemma discard_log_subset:
  "set (v_log (view (st_discard_entries_before S i s))) \<subseteq> set (v_log (view s))"
  using discard_some [of s i] by auto

lemmas frame_simps = get_term get_vote set_term set_vote load_snapshot snapshot_metadata

end

text \<open>
  What the operations do to a storage whose representation fits its capacity (\<open>fits\<close>), with
  \<open>room\<close> for the entries appended; \<open>batch\<close> bounds the entries one call of \<open>get_entries\<close> returns
  and \<open>chunk_room\<close> the size of a snapshot that travels as one chunk.
\<close>

locale raft_storage = storage_frame S view
  for S :: "('s, 'p) storage_ops" and view :: "'s \<Rightarrow> 'p log_view" +
  fixes fits :: "'s \<Rightarrow> bool"
    and room :: "'s \<Rightarrow> nat \<Rightarrow> bool"
    and batch :: capacity
    and chunk_room :: "nat \<Rightarrow> bool"
  assumes first_index: "st_first_log_index S s = v_first (view s)"
    and last_index: "view_ok (view s) \<Longrightarrow> st_last_log_index S s = v_next (view s) - 1"
    and last_term: "st_last_log_term S s = v_last_term (view s)"
    and get_entry: "st_get_entry S s i = v_entry (view s) i"
    and get_entries: "v_first (view s) \<le> a \<Longrightarrow> a < b \<Longrightarrow> b \<le> v_next (view s) \<Longrightarrow>
      st_get_entries S s a b = clip batch (v_segment (view s) a b)"
    and get_entries_none: "a < v_first (view s) \<or> b \<le> a \<Longrightarrow> st_get_entries S s a b = []"
    and append: "fits s \<Longrightarrow> room s (length es) \<Longrightarrow>
      view (st_append_entries S es s) = (view s)\<lparr>v_log := v_log (view s) @ es\<rparr>"
    and truncate: "fits s \<Longrightarrow> Suc i < u64_limit \<Longrightarrow>
      view (st_truncate_after S i s) = v_truncate i (view s)"
    and discard: "fits s \<Longrightarrow> view (st_discard_entries_before S i s) = v_discard i (view s)"
    and whole_chunk: "v_snap (view s) = Some sn \<Longrightarrow> chunk_room (length (snap_data sn)) \<Longrightarrow>
      st_get_snapshot_chunk S s 0 usize_max =
        (if snap_data sn = [] then None
         else Some \<lparr>chunk_offset = 0, chunk_data = snap_data sn, chunk_done = True\<rparr>)"
    and no_chunk: "v_snap (view s) = None \<Longrightarrow> st_get_snapshot_chunk S s ofs n = None"
    and apply_whole: "chunk_room (length d) \<Longrightarrow>
      \<exists>s'. st_apply_snapshot_chunk S 0 d True lii lit s = (s', Inr ()) \<and>
        view s' = (view s)\<lparr>v_snap := Some \<lparr>metadata = \<lparr>last_included_index = lii,
          last_included_term = lit\<rparr>, snap_data = d\<rparr>\<rparr>"
    and fits_set_term: "fits (st_set_current_term S t s) = fits s"
    and fits_set_vote: "fits (st_set_voted_for S vote s) = fits s"
    and fits_append: "fits s \<Longrightarrow> fits (st_append_entries S es s)"
    and fits_truncate: "fits s \<Longrightarrow> fits (st_truncate_after S i s)"
    and room_truncate: "room s n \<Longrightarrow> room (st_truncate_after S i s) n"
    and room_set_term: "room (st_set_current_term S t s) n = room s n"
    and room_set_vote: "room (st_set_voted_for S vote s) n = room s n"
    and fits_discard: "fits s \<Longrightarrow> fits (st_discard_entries_before S i s)"
    and fits_save: "fits (st_save_snapshot S sn s) = fits s"
    and fits_apply: "fits (fst (st_apply_snapshot_chunk S ofs d dn lii lit s)) = fits s"
begin

lemma view_ok_append:
  "view_ok (view s) \<Longrightarrow> fits s \<Longrightarrow> room s (length es) \<Longrightarrow>
   v_next (view s) + length es < u64_limit \<Longrightarrow> view_ok (view (st_append_entries S es s))"
  by (simp add: append view_ok_def compacted_def v_next_def)

lemma view_ok_truncate:
  "view_ok (view s) \<Longrightarrow> fits s \<Longrightarrow> Suc i < u64_limit \<Longrightarrow> view_ok (view (st_truncate_after S i s))"
  by (auto simp: truncate view_ok_def compacted_def v_next_def)

text \<open>
  Storing a snapshot of an index inside the log and discarding what it covers restores the
  invariant: the two calls of \<open>SnapshotManager::create\<close>.
\<close>

lemma view_ok_compact:
  assumes "view_ok (view s)" and "fits s"
    and "v_first (view s) \<le> last_included_index (metadata sn)"
    and "last_included_index (metadata sn) < v_next (view s)"
  shows "view_ok (view (st_discard_entries_before S (last_included_index (metadata sn) + 1)
           (st_save_snapshot S sn s)))"
  using assms
  by (auto simp: discard fits_save save_snapshot view_ok_def compacted_def v_next_def v_discard_def)

text \<open>A snapshot sent as one chunk arrives as it was stored.\<close>

lemma chunk_roundtrip:
  assumes "v_snap (view s) = Some sn" and "chunk_room (length (snap_data sn))"
    and "st_get_snapshot_chunk S s 0 usize_max = Some ch"
    and "st_apply_snapshot_chunk S (chunk_offset ch) (chunk_data ch) (chunk_done ch)
           (last_included_index (metadata sn)) (last_included_term (metadata sn)) t = (t', r)"
  shows "r = Inr () \<and> v_snap (view t') = Some sn"
  using assms apply_whole [of "snap_data sn" "last_included_index (metadata sn)"
      "last_included_term (metadata sn)" t]
  by (auto simp: whole_chunk split: if_splits)

end

end
