(* ===== verification/In_Memory_Storage.thy ===== *)
theory In_Memory_Storage
  imports Storage_Interface
begin

text \<open>
  \<open>test-utils/src/in_memory_storage.rs\<close> and the snapshot types of
  \<open>test-utils/src/snapshot_types.rs\<close>: the storage of the deterministic test clusters.  The theory
  ends with its dictionary \<open>in_memory_storage_ops\<close> and the proof that it keeps the storage
  contract.
\<close>

section \<open>Snapshot data and its builder\<close>

text \<open>
  \<open>chunk_at\<close> computes \<open>offset + max_len\<close>, which panics on overflow in a debug build; the core only
  calls it with offset 0.
\<close>

definition sim_chunk_at :: "bytes \<Rightarrow> nat \<Rightarrow> nat \<Rightarrow> bytes option" where
  "sim_chunk_at data offset max_len =
     (if length data \<le> offset then None
      else let end_pos = min (u64_add offset max_len) (length data)
           in Some (take (end_pos - offset) (drop offset data)))"

record sim_snapshot_builder =
  sb_data :: bytes
  sb_expected_offset :: nat

definition sim_builder_new :: sim_snapshot_builder where
  "sim_builder_new = \<lparr>sb_data = [], sb_expected_offset = 0\<rparr>"

definition sim_builder_add_chunk ::
  "nat \<Rightarrow> bytes \<Rightarrow> sim_snapshot_builder \<Rightarrow> sim_snapshot_builder \<times> (snapshot_build_error + unit)" where
  "sim_builder_add_chunk offset data b =
     (if offset \<noteq> sb_expected_offset b then (b, Inl InvalidOffset)
      else (b\<lparr>sb_data := sb_data b @ data,
              sb_expected_offset := sb_expected_offset b + length data\<rparr>, Inr ()))"

definition sim_builder_is_complete :: "sim_snapshot_builder \<Rightarrow> nat \<Rightarrow> bool" where
  "sim_builder_is_complete b expected_size = (sb_expected_offset b = expected_size)"

definition sim_builder_build :: "sim_snapshot_builder \<Rightarrow> snapshot_build_error + bytes" where
  "sim_builder_build b = Inr (sb_data b)"

section \<open>The storage\<close>

record 'p mem_storage =
  ms_current_term :: log_term
  ms_voted_for :: "node_id option"
  ms_log :: "'p log_entry list"
  ms_snapshot :: "snapshot option"
  ms_pending :: bytes
  ms_first_index :: log_index

definition mem_new :: "'p mem_storage" where
  "mem_new = \<lparr>ms_current_term = 0, ms_voted_for = None, ms_log = [], ms_snapshot = None,
     ms_pending = [], ms_first_index = 1\<rparr>"

definition mem_current_term :: "'p mem_storage \<Rightarrow> log_term" where
  "mem_current_term s = ms_current_term s"

definition mem_set_current_term :: "log_term \<Rightarrow> 'p mem_storage \<Rightarrow> 'p mem_storage" where
  "mem_set_current_term t s = s\<lparr>ms_current_term := t\<rparr>"

definition mem_voted_for :: "'p mem_storage \<Rightarrow> node_id option" where
  "mem_voted_for s = ms_voted_for s"

definition mem_set_voted_for :: "node_id option \<Rightarrow> 'p mem_storage \<Rightarrow> 'p mem_storage" where
  "mem_set_voted_for vote s = s\<lparr>ms_voted_for := vote\<rparr>"

definition mem_last_log_index :: "'p mem_storage \<Rightarrow> log_index" where
  "mem_last_log_index s =
     (if ms_log s = [] then ms_first_index s - 1
      else u64_sub (u64_add (ms_first_index s) (length (ms_log s))) 1)"

definition mem_last_log_term :: "'p mem_storage \<Rightarrow> log_term" where
  "mem_last_log_term s =
     (if ms_log s \<noteq> [] then entry_term (last (ms_log s))
      else case ms_snapshot s of
             Some sn \<Rightarrow> last_included_term (metadata sn)
           | None \<Rightarrow> 0)"

definition mem_get_entry :: "'p mem_storage \<Rightarrow> log_index \<Rightarrow> 'p log_entry option" where
  "mem_get_entry s index =
     (if index < ms_first_index s then None else nth_opt (ms_log s) (index - ms_first_index s))"

definition mem_get_entries :: "'p mem_storage \<Rightarrow> log_index \<Rightarrow> log_index \<Rightarrow> 'p log_entry list" where
  "mem_get_entries s start end_index =
     (if start < ms_first_index s \<or> end_index \<le> start then []
      else case slice_get (ms_log s) (start - ms_first_index s) (end_index - ms_first_index s) of
             Some entries \<Rightarrow> entries
           | None \<Rightarrow> [])"

definition mem_append_entries :: "'p log_entry list \<Rightarrow> 'p mem_storage \<Rightarrow> 'p mem_storage" where
  "mem_append_entries entries s = s\<lparr>ms_log := extend_ok (vec_push None) entries (ms_log s)\<rparr>"

definition mem_truncate_after :: "log_index \<Rightarrow> 'p mem_storage \<Rightarrow> 'p mem_storage" where
  "mem_truncate_after index s =
     (if index < ms_first_index s then s\<lparr>ms_log := []\<rparr>
      else s\<lparr>ms_log := take (u64_add (index - ms_first_index s) 1) (ms_log s)\<rparr>)"

definition mem_save_snapshot :: "snapshot \<Rightarrow> 'p mem_storage \<Rightarrow> 'p mem_storage" where
  "mem_save_snapshot sn s = s\<lparr>ms_snapshot := Some sn\<rparr>"

definition mem_load_snapshot :: "'p mem_storage \<Rightarrow> snapshot option" where
  "mem_load_snapshot s = ms_snapshot s"

definition mem_snapshot_metadata :: "'p mem_storage \<Rightarrow> snapshot_metadata option" where
  "mem_snapshot_metadata s = map_option metadata (ms_snapshot s)"

definition mem_get_snapshot_chunk :: "'p mem_storage \<Rightarrow> nat \<Rightarrow> nat \<Rightarrow> snapshot_chunk option" where
  "mem_get_snapshot_chunk s offset max_size =
     (case ms_snapshot s of
        None \<Rightarrow> None
      | Some sn \<Rightarrow>
          (case sim_chunk_at (snap_data sn) offset max_size of
             None \<Rightarrow> None
           | Some chunk \<Rightarrow>
               Some \<lparr>chunk_offset = offset, chunk_data = chunk,
                     chunk_done = (length (snap_data sn) \<le> offset + length chunk)\<rparr>))"

definition mem_apply_snapshot_chunk ::
  "nat \<Rightarrow> bytes \<Rightarrow> bool \<Rightarrow> log_index \<Rightarrow> log_term \<Rightarrow> 'p mem_storage
   \<Rightarrow> 'p mem_storage \<times> (snapshot_error + unit)" where
  "mem_apply_snapshot_chunk offset chunk done_flag lii lit s =
     (let s1 = (if offset = 0 then s\<lparr>ms_pending := []\<rparr> else s) in
      if offset \<noteq> length (ms_pending s1) then (s1, Inl CorruptData)
      else
        let s2 = s1\<lparr>ms_pending := ms_pending s1 @ chunk\<rparr> in
        if done_flag then
          let sn = \<lparr>metadata = \<lparr>last_included_index = lii, last_included_term = lit\<rparr>,
                    snap_data = ms_pending s2\<rparr>
          in ((mem_save_snapshot sn s2)\<lparr>ms_pending := []\<rparr>, Inr ())
        else (s2, Inr ()))"

definition mem_begin_snapshot_transfer :: "'p mem_storage \<Rightarrow> sim_snapshot_builder" where
  "mem_begin_snapshot_transfer s = sim_builder_new"

definition mem_finalize_snapshot ::
  "sim_snapshot_builder \<Rightarrow> snapshot_metadata \<Rightarrow> 'p mem_storage
   \<Rightarrow> 'p mem_storage \<times> (snapshot_error + unit)" where
  "mem_finalize_snapshot builder md s =
     (case sim_builder_build builder of
        Inl _ \<Rightarrow> (s, Inl CorruptData)
      | Inr data \<Rightarrow>
          (s\<lparr>ms_first_index := u64_add (last_included_index md) 1,
             ms_snapshot := Some \<lparr>metadata = md, snap_data = data\<rparr>\<rparr>, Inr ()))"

definition mem_discard_entries_before :: "log_index \<Rightarrow> 'p mem_storage \<Rightarrow> 'p mem_storage" where
  "mem_discard_entries_before index s =
     (if index \<le> ms_first_index s then s
      else
        let num_to_discard = index - ms_first_index s in
        if length (ms_log s) \<le> num_to_discard then s\<lparr>ms_log := [], ms_first_index := index\<rparr>
        else s\<lparr>ms_log := drop num_to_discard (ms_log s), ms_first_index := index\<rparr>)"

definition mem_first_log_index :: "'p mem_storage \<Rightarrow> log_index" where
  "mem_first_log_index s = ms_first_index s"

definition in_memory_storage_ops :: "('p mem_storage, 'p) storage_ops" where
  "in_memory_storage_ops =
     \<lparr>st_current_term = mem_current_term,
      st_set_current_term = mem_set_current_term,
      st_voted_for = mem_voted_for,
      st_set_voted_for = mem_set_voted_for,
      st_last_log_index = mem_last_log_index,
      st_last_log_term = mem_last_log_term,
      st_get_entry = mem_get_entry,
      st_get_entries = mem_get_entries,
      st_append_entries = mem_append_entries,
      st_truncate_after = mem_truncate_after,
      st_save_snapshot = mem_save_snapshot,
      st_load_snapshot = mem_load_snapshot,
      st_snapshot_metadata = mem_snapshot_metadata,
      st_get_snapshot_chunk = mem_get_snapshot_chunk,
      st_apply_snapshot_chunk = mem_apply_snapshot_chunk,
      st_discard_entries_before = mem_discard_entries_before,
      st_first_log_index = mem_first_log_index\<rparr>"

lemmas mem_ops_defs = in_memory_storage_ops_def mem_current_term_def mem_set_current_term_def
  mem_voted_for_def mem_set_voted_for_def mem_last_log_index_def mem_last_log_term_def
  mem_get_entry_def mem_get_entries_def mem_append_entries_def mem_truncate_after_def
  mem_save_snapshot_def mem_load_snapshot_def mem_snapshot_metadata_def
  mem_get_snapshot_chunk_def mem_apply_snapshot_chunk_def mem_discard_entries_before_def
  mem_first_log_index_def

section \<open>The storage keeps the contract\<close>

definition mem_view :: "'p mem_storage \<Rightarrow> 'p log_view" where
  "mem_view s = \<lparr>v_term = ms_current_term s, v_vote = ms_voted_for s, v_first = ms_first_index s,
     v_log = ms_log s, v_snap = ms_snapshot s\<rparr>"

definition mem_chunk_room :: "nat \<Rightarrow> bool" where
  "mem_chunk_room n \<longleftrightarrow> n \<le> usize_max"

lemma mem_view_simps [simp]:
  "v_term (mem_view s) = ms_current_term s" "v_vote (mem_view s) = ms_voted_for s"
  "v_first (mem_view s) = ms_first_index s" "v_log (mem_view s) = ms_log s"
  "v_snap (mem_view s) = ms_snapshot s"
  by (simp_all add: mem_view_def)

lemma mem_view_new: "view_ok (mem_view mem_new)"
  by (simp add: view_ok_def compacted_def v_next_def mem_new_def u64_limit_def)

lemma mem_last_index:
  "view_ok (mem_view s) \<Longrightarrow> mem_last_log_index s = v_next (mem_view s) - 1"
  by (auto simp: mem_last_log_index_def view_ok_def v_next_def u64_simps
      dest: compacted_pos)

lemma mem_slice:
  assumes "ms_first_index s \<le> a" and "a < b" and "b \<le> v_next (mem_view s)"
  shows "mem_get_entries s a b = v_segment (mem_view s) a b"
  using assms
  by (auto simp: mem_get_entries_def slice_get_def v_segment_def v_next_def)

lemma sim_chunk_whole:
  "length d \<le> usize_max \<Longrightarrow> sim_chunk_at d 0 usize_max = (if d = [] then None else Some d)"
  by (simp add: sim_chunk_at_def usize_max_def u64_add_def u64_limit_def)

lemma mem_discard_view:
  "mem_view (mem_discard_entries_before i s) = v_discard i (mem_view s)"
  by (auto simp: mem_discard_entries_before_def mem_view_def v_discard_def Let_def)

interpretation mem: storage_frame in_memory_storage_ops mem_view
proof (unfold_locales, goal_cases)
  case (5 es s)
  show ?case
    by (rule exI [of _ "length es"]) (simp add: mem_ops_defs mem_view_def)
next
  case (6 i s)
  show ?case
    by (cases "i < ms_first_index s")
      (auto simp: mem_ops_defs mem_view_def intro: exI [of _ 0])
next
  case (7 s i)
  show ?case
    by (rule exI [of _ "v_log (mem_view (mem_discard_entries_before i s))"],
        rule exI [of _ "v_first (mem_view (mem_discard_entries_before i s))"])
      (auto simp: mem_ops_defs mem_view_def Let_def dest: in_set_dropD)
next
  case (11 ofs d dn lii lit s)
  show ?case
    by (rule exI [of _ "ms_snapshot (fst (mem_apply_snapshot_chunk ofs d dn lii lit s))"])
      (auto simp: mem_ops_defs mem_view_def Let_def)
next
  case (12 s i e)
  then show ?case
    by (auto simp: mem_ops_defs dest: nth_opt_in_set split: if_splits)
next
  case (13 s a b)
  show ?case
    by (auto simp: mem_ops_defs slice_get_def dest!: in_set_takeD in_set_dropD
        split: if_splits option.splits)
qed (simp_all add: mem_ops_defs mem_view_def)

interpretation mem: raft_storage in_memory_storage_ops mem_view
  "\<lambda>_. True" "\<lambda>_ _. True" None mem_chunk_room
proof (unfold_locales, goal_cases)
  case (2 s)
  then show ?case by (simp add: in_memory_storage_ops_def mem_last_index)
next
  case (5 s a b)
  then show ?case by (simp add: in_memory_storage_ops_def mem_slice)
next
  case (8 s i)
  then show ?case
    by (auto simp: mem_ops_defs mem_view_def v_truncate_def u64_simps Suc_diff_le)
next
  case (9 s i)
  show ?case by (simp add: in_memory_storage_ops_def mem_discard_view)
next
  case (10 s sn)
  then show ?case
    by (auto simp: mem_ops_defs mem_chunk_room_def sim_chunk_whole)
next
  case (12 d lii lit s)
  show ?case
    by (simp add: mem_ops_defs mem_view_def Let_def)
qed (auto simp: mem_ops_defs mem_view_def v_entry_def v_last_term_def)

end
