(* ===== verification/Clock_Timers.thy ===== *)
theory Clock_Timers
  imports Raft_Types
begin

unbundle bit_operations_syntax

text \<open>
  Time: \<open>Instant\<close> of \<open>core/src/clock.rs\<close>, the leader lease of
  \<open>core/src/components/leader_lease.rs\<close>, the \<open>TimerService\<close> trait as a dictionary, and the timer
  services of \<open>test-utils\<close>.  A clock is its current reading in milliseconds; time passes by
  storing a later reading, which is what \<open>MockClock::advance\<close> does to the shared cell.
\<close>

section \<open>Instants\<close>

type_synonym instant = nat

definition instant_from_millis :: "nat \<Rightarrow> instant" where
  "instant_from_millis millis = millis"

definition instant_as_millis :: "instant \<Rightarrow> nat" where
  "instant_as_millis i = i"

definition instant_add :: "instant \<Rightarrow> nat \<Rightarrow> instant" where
  "instant_add i rhs = u64_add i rhs"

definition instant_sub :: "instant \<Rightarrow> instant \<Rightarrow> nat" where
  \<comment> \<open>\<open>saturating_sub\<close>\<close>
  "instant_sub i rhs = i - rhs"

definition has_elapsed :: "instant \<Rightarrow> instant \<Rightarrow> nat \<Rightarrow> bool" where
  "has_elapsed now_reading i duration_millis \<longleftrightarrow> duration_millis \<le> instant_sub now_reading i"

section \<open>The leader lease\<close>

record leader_lease =
  lease_expiration :: "instant option"
  lease_duration_millis :: nat
  lease_clock :: instant

definition lease_new :: "nat \<Rightarrow> instant \<Rightarrow> leader_lease" where
  "lease_new duration clk =
     \<lparr>lease_expiration = None, lease_duration_millis = duration, lease_clock = clk\<rparr>"

definition lease_grant :: "leader_lease \<Rightarrow> leader_lease" where
  "lease_grant l =
     l\<lparr>lease_expiration := Some (instant_add (lease_clock l) (lease_duration_millis l))\<rparr>"

definition lease_is_valid :: "leader_lease \<Rightarrow> bool" where
  "lease_is_valid l =
     (case lease_expiration l of None \<Rightarrow> False | Some expiration \<Rightarrow> lease_clock l < expiration)"

definition lease_revoke :: "leader_lease \<Rightarrow> leader_lease" where
  "lease_revoke l = l\<lparr>lease_expiration := None\<rparr>"

definition lease_time_remaining :: "leader_lease \<Rightarrow> nat option" where
  "lease_time_remaining l =
     (case lease_expiration l of
        None \<Rightarrow> None
      | Some expiration \<Rightarrow>
          (let now_reading = lease_clock l
           in if now_reading < expiration then Some (instant_sub expiration now_reading) else None))"

definition lease_advance :: "nat \<Rightarrow> leader_lease \<Rightarrow> leader_lease" where
  \<comment> \<open>The clock the lease reads moves on by \<open>millis\<close>.\<close>
  "lease_advance millis l = l\<lparr>lease_clock := lease_clock l + millis\<rparr>"

lemma lease_revoked_invalid [simp]: "\<not> lease_is_valid (lease_revoke l)"
  by (simp add: lease_is_valid_def lease_revoke_def)

lemma lease_grant_advance_valid:
  assumes "lease_clock l + lease_duration_millis l < u64_limit"
  shows "lease_is_valid (lease_advance d (lease_grant l)) \<longleftrightarrow> d < lease_duration_millis l"
  using assms
  by (auto simp: lease_is_valid_def lease_grant_def lease_advance_def instant_add_def u64_simps)

lemma lease_valid_iff_remaining: "lease_is_valid l \<longleftrightarrow> lease_time_remaining l \<noteq> None"
  by (auto simp: lease_is_valid_def lease_time_remaining_def Let_def split: option.splits)

lemma lease_remaining_pos: "lease_time_remaining l = Some r \<Longrightarrow> 0 < r"
  by (auto simp: lease_time_remaining_def instant_sub_def Let_def split: option.splits if_splits)

section \<open>The timer service trait\<close>

record 'ts timer_ops =
  ts_reset_election :: "'ts \<Rightarrow> 'ts"
  ts_reset_heartbeat :: "'ts \<Rightarrow> 'ts"
  ts_stop_timers :: "'ts \<Rightarrow> 'ts"
  ts_check_expired :: "'ts \<Rightarrow> expired_timers"

section \<open>The frozen timer of test-utils\<close>

definition frozen_timer_ops :: "unit timer_ops" where
  "frozen_timer_ops = \<lparr>ts_reset_election = (\<lambda>t. t), ts_reset_heartbeat = (\<lambda>t. t),
     ts_stop_timers = (\<lambda>t. t), ts_check_expired = (\<lambda>_. expired_new)\<rparr>"

definition frozen_clock_now :: instant where
  "frozen_clock_now = instant_from_millis 0"

section \<open>The mock timer of test-utils\<close>

record mock_timer =
  mt_election_deadline :: "nat option"
  mt_heartbeat_deadline :: "nat option"
  mt_election_timeout_min :: nat
  mt_election_timeout_max :: nat
  mt_heartbeat_interval :: nat
  mt_clock :: instant
  mt_node_id :: node_id

definition mock_timer_new :: "nat \<Rightarrow> nat \<Rightarrow> nat \<Rightarrow> instant \<Rightarrow> node_id \<Rightarrow> mock_timer" where
  "mock_timer_new tmin tmax interval clk node =
     \<lparr>mt_election_deadline = None, mt_heartbeat_deadline = None, mt_election_timeout_min = tmin,
      mt_election_timeout_max = tmax, mt_heartbeat_interval = interval, mt_clock = clk,
      mt_node_id = node\<rparr>"

definition mock_clock_advance :: "nat \<Rightarrow> instant \<Rightarrow> instant" where
  "mock_clock_advance millis clk = u64_add clk millis"

text \<open>The seed is mixed on wrapping 64-bit words, as in the source.\<close>

definition mock_seed :: "nat \<Rightarrow> nat \<Rightarrow> 64 word" where
  "mock_seed now_millis node =
     (let seed0 = word_of_nat now_millis * 31 + word_of_nat node * 97;
          seed1 = seed0 XOR drop_bit 16 seed0;
          seed2 = seed1 * 0x85ebca6b
      in seed2 XOR drop_bit 13 seed2)"

definition random_election_timeout :: "mock_timer \<Rightarrow> nat" where
  "random_election_timeout t =
     (let range = u64_sub (mt_election_timeout_max t) (mt_election_timeout_min t) in
      if range = 0 then mt_election_timeout_min t
      else u64_add (mt_election_timeout_min t) (unat (mock_seed (mt_clock t) (mt_node_id t)) mod range))"

definition mock_reset_election :: "mock_timer \<Rightarrow> mock_timer" where
  "mock_reset_election t =
     t\<lparr>mt_election_deadline := Some (u64_add (mt_clock t) (random_election_timeout t))\<rparr>"

definition mock_reset_heartbeat :: "mock_timer \<Rightarrow> mock_timer" where
  "mock_reset_heartbeat t =
     t\<lparr>mt_heartbeat_deadline := Some (u64_add (mt_clock t) (mt_heartbeat_interval t))\<rparr>"

definition mock_stop_timers :: "mock_timer \<Rightarrow> mock_timer" where
  "mock_stop_timers t = t\<lparr>mt_election_deadline := None, mt_heartbeat_deadline := None\<rparr>"

definition mock_check_expired :: "mock_timer \<Rightarrow> expired_timers" where
  "mock_check_expired t =
     (let expired = expired_new;
          now_millis = mt_clock t;
          expired1 =
            (case mt_election_deadline t of
               Some deadline \<Rightarrow> if deadline \<le> now_millis then expired_push Election expired else expired
             | None \<Rightarrow> expired)
      in case mt_heartbeat_deadline t of
           Some deadline \<Rightarrow> if deadline \<le> now_millis then expired_push Heartbeat expired1 else expired1
         | None \<Rightarrow> expired1)"

definition mock_timer_ops :: "mock_timer timer_ops" where
  "mock_timer_ops = \<lparr>ts_reset_election = mock_reset_election,
     ts_reset_heartbeat = mock_reset_heartbeat, ts_stop_timers = mock_stop_timers,
     ts_check_expired = mock_check_expired\<rparr>"

text \<open>The timeout lies in the configured window, and below its upper end when the window is open.\<close>

lemma random_election_timeout_window:
  assumes "mt_election_timeout_min t \<le> mt_election_timeout_max t"
    and "mt_election_timeout_max t < u64_limit"
  shows "mt_election_timeout_min t \<le> random_election_timeout t \<and>
         random_election_timeout t \<le> mt_election_timeout_max t \<and>
         (mt_election_timeout_min t < mt_election_timeout_max t \<longrightarrow>
            random_election_timeout t < mt_election_timeout_max t)"
proof (cases "mt_election_timeout_min t = mt_election_timeout_max t")
  case True
  then show ?thesis by (simp add: random_election_timeout_def u64_simps)
next
  case False
  let ?lo = "mt_election_timeout_min t" and ?hi = "mt_election_timeout_max t"
  let ?r = "unat (mock_seed (mt_clock t) (mt_node_id t)) mod (?hi - ?lo)"
  from False assms have lt: "?lo < ?hi" by simp
  then have r: "?r < ?hi - ?lo" by simp
  with lt assms have "?lo + ?r < ?hi" by linarith
  moreover from this assms have "u64_add ?lo ?r = ?lo + ?r"
    by (intro u64_add_small) linarith
  ultimately show ?thesis
    using lt by (simp add: random_election_timeout_def u64_sub_small Let_def)
qed

lemma mock_check_expired_iter:
  "expired_iter (mock_check_expired t) =
     (case mt_election_deadline t of Some d \<Rightarrow> if d \<le> mt_clock t then [Election] else [] | None \<Rightarrow> []) @
     (case mt_heartbeat_deadline t of Some d \<Rightarrow> if d \<le> mt_clock t then [Heartbeat] else [] | None \<Rightarrow> [])"
  by (auto simp: mock_check_expired_def expired_push_def expired_new_def expired_iter_def
      map_filter_simps Let_def split: option.splits)

end
