(* ===== verification/Election_Manager.thy ===== *)
theory Election_Manager
  imports In_Memory_Storage Clock_Timers
begin

text \<open>
  \<open>core/src/components/election_manager.rs\<close>: the votes a node has collected, the pre-vote phase and
  the rule by which it grants its own vote.  Every operation takes the dictionaries it uses
  (\<open>NO\<close> node collection, \<open>TO\<close> timer service, \<open>S\<close> storage) and returns what the Rust method
  changes through its \<open>&mut\<close> parameters, then its result.
\<close>

section \<open>State and operations\<close>

record 'ts election_manager =
  votes_received :: "node_id list"
  pre_votes_received :: "node_id list"
  in_pre_vote :: bool
  timer_service :: 'ts

definition election_new :: "'ts \<Rightarrow> 'ts election_manager" where
  "election_new ts = \<lparr>votes_received = [], pre_votes_received = [], in_pre_vote = False,
     timer_service = ts\<rparr>"

definition em_reset_election_timer :: "'ts timer_ops \<Rightarrow> 'ts election_manager \<Rightarrow> 'ts election_manager" where
  "em_reset_election_timer TO em = em\<lparr>timer_service := ts_reset_election TO (timer_service em)\<rparr>"

text \<open>
  The \<open>unwrap\<close> of the push into the cleared collection cannot panic: a push into an empty
  collection succeeds (law \<open>push_first\<close> of \<open>node_collection\<close>).
\<close>

definition em_start_pre_vote ::
  "node_ops \<Rightarrow> 'ts timer_ops \<Rightarrow> ('s, 'p) storage_ops \<Rightarrow> node_id \<Rightarrow> log_term \<Rightarrow> 's
   \<Rightarrow> 'ts election_manager \<Rightarrow> 'ts election_manager \<times> 'p raft_msg" where
  "em_start_pre_vote NO TO S node_id current_term st em =
     (let em1 = em\<lparr>pre_votes_received := push_ok (nc_push NO) node_id []\<rparr>;
          em2 = em1\<lparr>in_pre_vote := True\<rparr>;
          em3 = em_reset_election_timer TO em2
      in (em3, PreVoteRequest current_term node_id (st_last_log_index S st) (st_last_log_term S st)))"

definition is_log_up_to_date :: "('s, 'p) storage_ops \<Rightarrow> log_index \<Rightarrow> log_term \<Rightarrow> 's \<Rightarrow> bool" where
  "is_log_up_to_date S candidate_last_log_index candidate_last_log_term st =
     (let our_term = st_last_log_term S st;
          our_index = st_last_log_index S st
      in our_term < candidate_last_log_term \<or>
         (candidate_last_log_term = our_term \<and> our_index \<le> candidate_last_log_index))"

definition em_handle_pre_vote_request ::
  "('s, 'p) storage_ops \<Rightarrow> log_term \<Rightarrow> log_index \<Rightarrow> log_term \<Rightarrow> log_term \<Rightarrow> 's \<Rightarrow> 'p raft_msg" where
  "em_handle_pre_vote_request S trm last_log_index last_log_term current_term st =
     (let vote_granted = (if trm < current_term then False
                          else is_log_up_to_date S last_log_index last_log_term st)
      in PreVoteResponse current_term vote_granted)"

definition em_handle_pre_vote_response ::
  "node_ops \<Rightarrow> node_id \<Rightarrow> bool \<Rightarrow> configuration \<Rightarrow> 'ts election_manager
   \<Rightarrow> 'ts election_manager \<times> bool" where
  "em_handle_pre_vote_response NO from vote_granted config em =
     (if \<not> in_pre_vote em \<or> \<not> vote_granted then (em, False)
      else
        let em1 = em\<lparr>pre_votes_received := push_ok (nc_push NO) from (pre_votes_received em)\<rparr>;
            pre_votes = length (pre_votes_received em1)
        in if has_quorum config pre_votes then (em1\<lparr>in_pre_vote := False\<rparr>, True) else (em1, False))"

definition em_start_election ::
  "node_ops \<Rightarrow> 'ts timer_ops \<Rightarrow> ('s, 'p) storage_ops \<Rightarrow> node_id \<Rightarrow> log_term \<Rightarrow> 's
   \<Rightarrow> 'ts election_manager \<Rightarrow> 'ts election_manager \<times> log_term \<times> 's \<times> node_state \<times> 'p raft_msg" where
  "em_start_election NO TO S node_id current_term st em =
     (let t = u64_add current_term 1;
          st1 = st_set_current_term S t st;
          st2 = st_set_voted_for S (Some node_id) st1;
          em1 = em\<lparr>votes_received := push_ok (nc_push NO) node_id []\<rparr>;
          em2 = em1\<lparr>in_pre_vote := False\<rparr>;
          em3 = em_reset_election_timer TO em2
      in (em3, t, st2, Candidate,
          RequestVote t node_id (st_last_log_index S st2) (st_last_log_term S st2)))"

definition should_grant_vote ::
  "('s, 'p) storage_ops \<Rightarrow> log_term \<Rightarrow> log_term \<Rightarrow> node_id \<Rightarrow> log_index \<Rightarrow> log_term \<Rightarrow> 's \<Rightarrow> bool" where
  "should_grant_vote S trm current_term candidate_id last_log_index last_log_term st =
     (if trm < current_term then False
      else case st_voted_for S st of
             Some voted \<Rightarrow>
               if voted \<noteq> candidate_id then False
               else is_log_up_to_date S last_log_index last_log_term st
           | None \<Rightarrow> is_log_up_to_date S last_log_index last_log_term st)"

definition em_handle_vote_request ::
  "'ts timer_ops \<Rightarrow> ('s, 'p) storage_ops \<Rightarrow> log_term \<Rightarrow> node_id \<Rightarrow> log_index \<Rightarrow> log_term
   \<Rightarrow> log_term \<Rightarrow> 's \<Rightarrow> 'ts election_manager \<Rightarrow> 'ts election_manager \<times> log_term \<times> 's \<times> 'p raft_msg" where
  "em_handle_vote_request TO S trm candidate_id last_log_index last_log_term current_term st em =
     (let (t1, st1) =
            (if current_term < trm
             then (trm, st_set_voted_for S None (st_set_current_term S trm st))
             else (current_term, st));
          vote_granted =
            should_grant_vote S trm t1 candidate_id last_log_index last_log_term st1;
          (em2, st2) =
            (if vote_granted
             then (em_reset_election_timer TO em, st_set_voted_for S (Some candidate_id) st1)
             else (em, st1))
      in (em2, t1, st2, RequestVoteResponse t1 vote_granted))"

definition em_handle_vote_response ::
  "node_ops \<Rightarrow> node_id \<Rightarrow> log_term \<Rightarrow> bool \<Rightarrow> log_term \<Rightarrow> node_state \<Rightarrow> configuration
   \<Rightarrow> 'ts election_manager \<Rightarrow> 'ts election_manager \<times> bool" where
  "em_handle_vote_response NO from trm vote_granted current_term rl config em =
     (if current_term < trm then (em, False)
      else if rl \<noteq> Candidate \<or> trm \<noteq> current_term \<or> \<not> vote_granted then (em, False)
      else
        let em1 = em\<lparr>votes_received := push_ok (nc_push NO) from (votes_received em)\<rparr>;
            votes = length (votes_received em1)
        in (em1, has_quorum config votes))"

section \<open>Log positions\<close>

text \<open>
  The abstract rule of the protocol: positions (last term, last index) in their lexicographic
  order, as an instance of the library's linear orders.
\<close>

datatype log_position = Pos (pos_term: log_term) (pos_index: log_index)

instantiation log_position :: linorder
begin

definition less_eq_log_position :: "log_position \<Rightarrow> log_position \<Rightarrow> bool" where
  "a \<le> b \<longleftrightarrow> pos_term a < pos_term b \<or> (pos_term a = pos_term b \<and> pos_index a \<le> pos_index b)"

definition less_log_position :: "log_position \<Rightarrow> log_position \<Rightarrow> bool" where
  "a < b \<longleftrightarrow> pos_term a < pos_term b \<or> (pos_term a = pos_term b \<and> pos_index a < pos_index b)"

instance
  by standard
    (auto simp: less_eq_log_position_def less_log_position_def log_position.expand)

end

definition view_position :: "'p log_view \<Rightarrow> log_position" where
  "view_position v = Pos (v_last_term v) (v_next v - 1)"

section \<open>What the operations do\<close>

lemma em_reset_simps [simp]:
  "votes_received (em_reset_election_timer TO em) = votes_received em"
  "pre_votes_received (em_reset_election_timer TO em) = pre_votes_received em"
  "in_pre_vote (em_reset_election_timer TO em) = in_pre_vote em"
  by (simp_all add: em_reset_election_timer_def)

lemma handle_vote_response_votes:
  "em_handle_vote_response NO from trm granted ct rl config em = (em', won) \<Longrightarrow>
   won \<Longrightarrow> rl = Candidate \<and> trm = ct \<and> granted \<and> has_quorum config (length (votes_received em'))"
  by (auto simp: em_handle_vote_response_def Let_def split: if_splits)

lemma handle_pre_vote_response_frame:
  "em_handle_pre_vote_response NO from granted config em = (em', start) \<Longrightarrow>
   votes_received em' = votes_received em \<and> timer_service em' = timer_service em \<and>
   (start \<longrightarrow> in_pre_vote em \<and> granted \<and> \<not> in_pre_vote em' \<and>
      has_quorum config (length (pre_votes_received em')))"
  by (auto simp: em_handle_pre_vote_response_def Let_def split: if_splits)

context raft_storage begin

lemma up_to_date_iff:
  "view_ok (view s) \<Longrightarrow>
   is_log_up_to_date S lli llt s \<longleftrightarrow> view_position (view s) \<le> Pos llt lli"
  by (auto simp: is_log_up_to_date_def last_term last_index less_eq_log_position_def view_position_def)

end

context storage_frame begin

text \<open>
  The voting rule: a vote is granted for a term that is not old, to the candidate already voted
  for if there is one, and only to a log that is up to date.  It is recorded durably together
  with the term, and within a term it is never given to a second candidate.
\<close>

lemma handle_vote_request_spec:
  assumes "em_handle_vote_request TO S trm cand lli llt ct s em = (em', ct', s', msg)"
  obtains granted where "msg = RequestVoteResponse ct' granted"
    and "ct' = max ct trm"
    and "v_log (view s') = v_log (view s)" and "v_snap (view s') = v_snap (view s)"
    and "v_first (view s') = v_first (view s)"
    and "v_term (view s') = (if ct < trm then trm else v_term (view s))"
    and "granted \<Longrightarrow> trm = ct' \<and> v_vote (view s') = Some cand \<and>
           (ct < trm \<or> v_vote (view s) = None \<or> v_vote (view s) = Some cand)"
    and "\<not> granted \<Longrightarrow> v_vote (view s') = (if ct < trm then None else v_vote (view s))"
    and "votes_received em' = votes_received em"
proof -
  define s1 where "s1 = (if ct < trm then st_set_voted_for S None (st_set_current_term S trm s) else s)"
  define g where "g = should_grant_vote S trm (max ct trm) cand lli llt s1"
  have view1: "view s1 = (if ct < trm then (view s)\<lparr>v_term := trm, v_vote := None\<rparr> else view s)"
    by (simp add: s1_def set_term set_vote)
  have "(em', ct', s', msg) = ((if g then em_reset_election_timer TO em else em), max ct trm,
      (if g then st_set_voted_for S (Some cand) s1 else s1), RequestVoteResponse (max ct trm) g)"
    using assms by (auto simp: em_handle_vote_request_def g_def s1_def Let_def max_def split: if_splits)
  moreover have "g \<Longrightarrow> trm = max ct trm \<and> (v_vote (view s1) = None \<or> v_vote (view s1) = Some cand)"
    by (auto simp: g_def should_grant_vote_def get_vote split: if_splits option.splits)
  ultimately show ?thesis
    by (intro that [of g]) (auto simp: view1 set_vote split: if_splits)
qed

end

end
