(* ===== verification/Log_Replication.thy ===== *)
theory Log_Replication
  imports Election_Manager
begin

text \<open>
  \<open>core/src/components/log_replication_manager.rs\<close>: what a leader knows of its followers, the
  consistency check and repair of a follower's log, the commit index and the application of
  committed entries, and the transfer of snapshots.
\<close>

section \<open>State\<close>

record replication =
  next_index :: node_map
  match_index :: node_map
  commit_index :: log_index
  last_applied :: log_index
  catching_up_servers :: node_map

definition replication_new :: replication where
  "replication_new = \<lparr>next_index = [], match_index = [], commit_index = 0, last_applied = 0,
     catching_up_servers = []\<rparr>"

definition set_last_applied :: "log_index \<Rightarrow> replication \<Rightarrow> replication" where
  "set_last_applied index lrm = lrm\<lparr>last_applied := index\<rparr>"

type_synonym changes = "(log_index \<times> configuration_change) list"

section \<open>Leader state and outgoing entries\<close>

definition initialize_leader_state ::
  "map_ops \<Rightarrow> ('s, 'p) storage_ops \<Rightarrow> node_id list \<Rightarrow> 's \<Rightarrow> replication \<Rightarrow> replication" where
  "initialize_leader_state MO S peer_ids st lrm =
     (let next_log_index = u64_add (st_last_log_index S st) 1 in
      fold (\<lambda>peer r. r\<lparr>next_index := mc_insert MO peer next_log_index (next_index r),
                       match_index := mc_insert MO peer 0 (match_index r)\<rparr>) peer_ids lrm)"

definition unwrap_or :: "'a \<Rightarrow> 'a option \<Rightarrow> 'a" where
  "unwrap_or d x = (case x of Some v \<Rightarrow> v | None \<Rightarrow> d)"

lemma unwrap_or_simps [simp]: "unwrap_or d None = d" "unwrap_or d (Some v) = v"
  by (simp_all add: unwrap_or_def)

definition get_append_entries_for_follower ::
  "map_ops \<Rightarrow> ('s, 'p) storage_ops \<Rightarrow> node_id \<Rightarrow> log_term \<Rightarrow> 's \<Rightarrow> replication \<Rightarrow> 'p raft_msg" where
  "get_append_entries_for_follower MO S peer current_term st lrm =
     (let next_idx = unwrap_or 1 (mc_get MO (next_index lrm) peer);
          prev_log_index = next_idx - 1;
          prev_log_term =
            (if prev_log_index = 0 then 0
             else case st_get_entry S st prev_log_index of
                    Some entry \<Rightarrow> entry_term entry
                  | None \<Rightarrow>
                      (case st_load_snapshot S st of
                         Some sn \<Rightarrow>
                           if prev_log_index = last_included_index (metadata sn)
                           then last_included_term (metadata sn) else 0
                       | None \<Rightarrow> 0));
          entries = st_get_entries S st next_idx (u64_add (st_last_log_index S st) 1)
      in AppendEntries current_term prev_log_index prev_log_term entries (commit_index lrm))"

definition get_append_entries_for_peer ::
  "map_ops \<Rightarrow> ('s, 'p) storage_ops \<Rightarrow> node_id \<Rightarrow> node_id \<Rightarrow> 's \<Rightarrow> replication \<Rightarrow> 'p raft_msg" where
  "get_append_entries_for_peer MO S peer leader_id st lrm =
     (let next_idx = unwrap_or 1 (mc_get MO (next_index lrm) peer);
          first_idx = st_first_log_index S st;
          current_term = st_current_term S st;
          fallback = get_append_entries_for_follower MO S peer current_term st lrm
      in if next_idx < first_idx
         then case st_get_snapshot_chunk S st 0 usize_max of
                Some chunk \<Rightarrow>
                  (case st_snapshot_metadata S st of
                     Some md \<Rightarrow>
                       InstallSnapshot current_term leader_id (last_included_index md)
                         (last_included_term md) (chunk_offset chunk) (chunk_data chunk)
                         (chunk_done chunk)
                   | None \<Rightarrow> fallback)
              | None \<Rightarrow> fallback
         else fallback)"

section \<open>The follower's side\<close>

definition check_log_consistency ::
  "('s, 'p) storage_ops \<Rightarrow> log_index \<Rightarrow> log_term \<Rightarrow> 's \<Rightarrow> bool" where
  "check_log_consistency S prev_log_index prev_log_term st =
     (if prev_log_index = 0 then True
      else case st_get_entry S st prev_log_index of
             Some entry \<Rightarrow> entry_term entry = prev_log_term
           | None \<Rightarrow>
               (case st_snapshot_metadata S st of
                  Some md \<Rightarrow>
                    if prev_log_index = last_included_index md
                    then prev_log_term = last_included_term md else False
                | None \<Rightarrow> False))"

text \<open>
  The loop \<open>while self.last_applied < self.commit_index\<close>.  It returns the new \<open>last_applied\<close>, the
  state machine, the observer's calls and the configuration changes met on the way; a full
  change collection drops a change (\<open>let _ = config_changes.push(..)\<close>).
\<close>

function apply_loop ::
  "('s, 'p) storage_ops \<Rightarrow> ('sm, 'p) state_machine_ops \<Rightarrow> change_ops \<Rightarrow> node_id \<Rightarrow> 's \<Rightarrow> log_index
   \<Rightarrow> log_index \<Rightarrow> 'sm \<Rightarrow> 'p obs_event list \<Rightarrow> changes
   \<Rightarrow> log_index \<times> 'sm \<times> 'p obs_event list \<times> changes" where
  "apply_loop S SM CO node_id st commit la sm obs cs =
     (if la < commit then
        (case st_get_entry S st (la + 1) of
           Some entry \<Rightarrow>
             (case entry_kind entry of
                Command payload \<Rightarrow>
                  apply_loop S SM CO node_id st commit (la + 1) (sm_apply SM payload sm)
                    (obs @ [StateMachineApplied node_id (la + 1) payload]) cs
              | ConfigChange change \<Rightarrow>
                  apply_loop S SM CO node_id st commit (la + 1) sm obs
                    (ok_or cs (cc_push CO (la + 1) change cs)))
         | None \<Rightarrow> apply_loop S SM CO node_id st commit (la + 1) sm obs cs)
      else (la, sm, obs, cs))"
  by pat_completeness auto
termination
  by (relation "measure (\<lambda>(S, SM, CO, node_id, st, commit, la, sm, obs, cs). commit - la)") auto

declare apply_loop.simps [simp del]

definition apply_committed_entries ::
  "('s, 'p) storage_ops \<Rightarrow> ('sm, 'p) state_machine_ops \<Rightarrow> change_ops \<Rightarrow> node_id \<Rightarrow> 's \<Rightarrow> 'sm
   \<Rightarrow> 'p obs_event list \<Rightarrow> replication
   \<Rightarrow> replication \<times> 'sm \<times> 'p obs_event list \<times> changes" where
  "apply_committed_entries S SM CO node_id st sm obs lrm =
     (let (la, sm', obs', cs) =
        apply_loop S SM CO node_id st (commit_index lrm) (last_applied lrm) sm obs []
      in (lrm\<lparr>last_applied := la\<rparr>, sm', obs', cs))"

definition try_append_entries ::
  "('s, 'p) storage_ops \<Rightarrow> ('sm, 'p) state_machine_ops \<Rightarrow> change_ops \<Rightarrow> node_id
   \<Rightarrow> log_index \<Rightarrow> log_term \<Rightarrow> 'p log_entry list \<Rightarrow> log_index
   \<Rightarrow> 's \<Rightarrow> 'sm \<Rightarrow> 'p obs_event list \<Rightarrow> replication
   \<Rightarrow> replication \<times> 's \<times> 'sm \<times> 'p obs_event list \<times> changes option" where
  "try_append_entries S SM CO node_id prev_log_index prev_log_term entries leader_commit st sm obs lrm =
     (if \<not> check_log_consistency S prev_log_index prev_log_term st
      then (lrm, st, sm, obs, None)
      else
        let st2 =
              (if entries \<noteq> [] then
                 let last_index = st_last_log_index S st;
                     st1 = (if prev_log_index < last_index
                            then st_truncate_after S prev_log_index st else st)
                 in st_append_entries S entries st1
               else st)
        in if commit_index lrm < leader_commit then
             let lrm1 = lrm\<lparr>commit_index := min leader_commit (st_last_log_index S st2)\<rparr>;
                 (lrm2, sm2, obs2, cs) = apply_committed_entries S SM CO node_id st2 sm obs lrm1
             in (lrm2, st2, sm2, obs2, Some cs)
           else (lrm, st2, sm, obs, Some []))"

definition lrm_handle_append_entries ::
  "('s, 'p) storage_ops \<Rightarrow> ('sm, 'p) state_machine_ops \<Rightarrow> change_ops \<Rightarrow> node_id
   \<Rightarrow> log_term \<Rightarrow> log_index \<Rightarrow> log_term \<Rightarrow> 'p log_entry list \<Rightarrow> log_index
   \<Rightarrow> log_term \<Rightarrow> 's \<Rightarrow> 'sm \<Rightarrow> node_state \<Rightarrow> 'p obs_event list \<Rightarrow> replication
   \<Rightarrow> replication \<times> log_term \<times> 's \<times> 'sm \<times> node_state \<times> 'p obs_event list \<times> 'p raft_msg \<times> changes" where
  "lrm_handle_append_entries S SM CO node_id trm prev_log_index prev_log_term entries leader_commit
     current_term st sm rl obs lrm =
     (let (ct, st1, rl1) =
            (if current_term < trm
             then (trm, st_set_voted_for S None (st_set_current_term S trm st), Follower)
             else if trm = current_term \<and> rl = Candidate then (current_term, st, Follower)
             else (current_term, st, rl));
          (lrm2, st2, sm2, obs2, success, cs) =
            (if trm < ct then (lrm, st1, sm, obs, False, [])
             else
               let (lrm', st', sm', obs', res) =
                     try_append_entries S SM CO node_id prev_log_index prev_log_term entries
                       leader_commit st1 sm obs lrm
               in case res of
                    Some config_changes \<Rightarrow> (lrm', st', sm', obs', True, config_changes)
                  | None \<Rightarrow> (lrm', st', sm', obs', False, []))
      in (lrm2, ct, st2, sm2, rl1, obs2,
          AppendEntriesResponse ct success (st_last_log_index S st2), cs))"

section \<open>The leader's side\<close>

definition check_and_promote_caught_up_server ::
  "map_ops \<Rightarrow> node_id \<Rightarrow> replication \<Rightarrow> replication" where
  "check_and_promote_caught_up_server MO node_id lrm =
     (if mc_get MO (catching_up_servers lrm) node_id \<noteq> None then
        let match_idx = unwrap_or 0 (mc_get MO (match_index lrm) node_id) in
        if commit_index lrm \<le> match_idx
        then lrm\<lparr>catching_up_servers := mc_remove MO node_id (catching_up_servers lrm)\<rparr>
        else lrm
      else lrm)"

definition mark_server_catching_up :: "map_ops \<Rightarrow> node_id \<Rightarrow> replication \<Rightarrow> replication" where
  "mark_server_catching_up MO node_id lrm =
     lrm\<lparr>catching_up_servers := mc_insert MO node_id 1 (catching_up_servers lrm)\<rparr>"

definition is_catching_up :: "map_ops \<Rightarrow> node_id \<Rightarrow> replication \<Rightarrow> bool" where
  "is_catching_up MO node_id lrm \<longleftrightarrow> mc_get MO (catching_up_servers lrm) node_id \<noteq> None"

definition advance_commit_index ::
  "map_ops \<Rightarrow> ('s, 'p) storage_ops \<Rightarrow> ('sm, 'p) state_machine_ops \<Rightarrow> change_ops
   \<Rightarrow> configuration \<Rightarrow> node_id \<Rightarrow> node_id \<Rightarrow> 's \<Rightarrow> 'sm \<Rightarrow> 'p obs_event list \<Rightarrow> replication
   \<Rightarrow> replication \<times> 'sm \<times> 'p obs_event list \<times> changes" where
  "advance_commit_index MO S SM CO config leader_id node_id st sm obs lrm =
     (let leader_index = st_last_log_index S st in
      case mc_compute_median MO (match_index lrm) leader_index config (catching_up_servers lrm) leader_id of
        Some new_commit \<Rightarrow>
          if commit_index lrm < new_commit then
            (case st_get_entry S st new_commit of
               Some entry \<Rightarrow>
                 if entry_term entry = st_current_term S st
                 then apply_committed_entries S SM CO node_id st sm obs
                        (lrm\<lparr>commit_index := new_commit\<rparr>)
                 else (lrm, sm, obs, [])
             | None \<Rightarrow> (lrm, sm, obs, []))
          else (lrm, sm, obs, [])
      | None \<Rightarrow> (lrm, sm, obs, []))"

definition lrm_handle_append_entries_response ::
  "map_ops \<Rightarrow> ('s, 'p) storage_ops \<Rightarrow> ('sm, 'p) state_machine_ops \<Rightarrow> change_ops
   \<Rightarrow> node_id \<Rightarrow> bool \<Rightarrow> log_index \<Rightarrow> configuration \<Rightarrow> node_id \<Rightarrow> node_id
   \<Rightarrow> 's \<Rightarrow> 'sm \<Rightarrow> 'p obs_event list \<Rightarrow> replication
   \<Rightarrow> replication \<times> 'sm \<times> 'p obs_event list \<times> changes" where
  "lrm_handle_append_entries_response MO S SM CO from success mi config leader_id node_id st sm obs lrm =
     (if success then
        let current_match = unwrap_or 0 (mc_get MO (match_index lrm) from) in
        if current_match < mi then
          let lrm1 = lrm\<lparr>match_index := mc_insert MO from mi (match_index lrm)\<rparr>;
              lrm2 = lrm1\<lparr>next_index := mc_insert MO from (u64_add mi 1) (next_index lrm1)\<rparr>;
              lrm3 = check_and_promote_caught_up_server MO from lrm2
          in advance_commit_index MO S SM CO config leader_id node_id st sm obs lrm3
        else (lrm, sm, obs, [])
      else
        let nxt = unwrap_or 1 (mc_get MO (next_index lrm) from) in
        if 1 < nxt
        then (lrm\<lparr>next_index := mc_insert MO from (nxt - 1) (next_index lrm)\<rparr>, sm, obs, [])
        else (lrm, sm, obs, []))"

section \<open>Snapshot transfer\<close>

definition lrm_handle_install_snapshot ::
  "('s, 'p) storage_ops \<Rightarrow> ('sm, 'p) state_machine_ops
   \<Rightarrow> log_term \<Rightarrow> node_id \<Rightarrow> log_index \<Rightarrow> log_term \<Rightarrow> nat \<Rightarrow> bytes \<Rightarrow> bool
   \<Rightarrow> log_term \<Rightarrow> 's \<Rightarrow> 'sm \<Rightarrow> node_state \<Rightarrow> replication
   \<Rightarrow> replication \<times> log_term \<times> 's \<times> 'sm \<times> node_state \<times> 'p raft_msg" where
  "lrm_handle_install_snapshot S SM trm leader_id lii lit offset data done_flag current_term st sm rl lrm =
     (if trm < current_term
      then (lrm, current_term, st, sm, rl, InstallSnapshotResponse current_term False)
      else
        let (ct, st1, rl1) =
              (if current_term < trm
               then (trm, st_set_voted_for S None (st_set_current_term S trm st), Follower)
               else if trm = current_term \<and> rl = Candidate then (current_term, st, Follower)
               else (current_term, st, rl))
        in if (case st_snapshot_metadata S st1 of
                 Some md \<Rightarrow> lii \<le> last_included_index md
               | None \<Rightarrow> False)
           then (lrm, ct, st1, sm, rl1, InstallSnapshotResponse ct False)
           else
             (case st_apply_snapshot_chunk S offset data done_flag lii lit st1 of
                (st2, Inr _) \<Rightarrow>
                  let (lrm3, st3, sm3) =
                        (if done_flag then
                           (case st_load_snapshot S st2 of
                              Some sn \<Rightarrow>
                                (lrm\<lparr>commit_index := max (commit_index lrm) lii,
                                     last_applied := max (last_applied lrm) lii\<rparr>,
                                 st_discard_entries_before S (u64_add lii 1) st2,
                                 fst (sm_restore_from_snapshot SM (snap_data sn) sm))
                            | None \<Rightarrow> (lrm, st2, sm))
                         else (lrm, st2, sm))
                  in (lrm3, ct, st3, sm3, rl1, InstallSnapshotResponse ct True)
              | (st2, Inl _) \<Rightarrow> (lrm, ct, st2, sm, rl1, InstallSnapshotResponse ct False)))"

definition lrm_handle_install_snapshot_response ::
  "map_ops \<Rightarrow> node_id \<Rightarrow> bool \<Rightarrow> log_index \<Rightarrow> replication \<Rightarrow> replication" where
  "lrm_handle_install_snapshot_response MO peer success lii lrm =
     (if success then
        check_and_promote_caught_up_server MO peer
          (lrm\<lparr>next_index := mc_insert MO peer (u64_add lii 1) (next_index lrm),
               match_index := mc_insert MO peer lii (match_index lrm)\<rparr>)
      else lrm)"

end
