(* ===== verification/Config_Change.thy ===== *)
theory Config_Change
  imports Log_Replication
begin

text \<open>
  \<open>core/src/components/config_change_manager.rs\<close>: the validation of a membership change, the
  pending change of which there is at most one, and the application of committed changes to the
  configuration and to the leader's bookkeeping.
\<close>

section \<open>State and operations\<close>

record config_manager =
  cm_config :: configuration
  pending_change :: "log_index option"

definition config_manager_new :: "configuration \<Rightarrow> config_manager" where
  "config_manager_new config = \<lparr>cm_config = config, pending_change = None\<rparr>"

definition is_change_committed :: "log_index \<Rightarrow> log_index \<Rightarrow> bool" where
  "is_change_committed index commit \<longleftrightarrow> index \<le> commit"

definition cm_add_server ::
  "node_id \<Rightarrow> node_id \<Rightarrow> bool \<Rightarrow> log_index \<Rightarrow> config_manager \<Rightarrow> config_error + configuration_change" where
  "cm_add_server node_id self_id is_leader commit cm =
     (if \<not> is_leader then Inl NotLeader
      else if (case pending_change cm of
                 Some pending_index \<Rightarrow> \<not> is_change_committed pending_index commit
               | None \<Rightarrow> False)
      then Inl ConfigChangeInProgress
      else if node_id = self_id \<or> config_contains (cm_config cm) node_id
      then Inl NodeAlreadyExists
      else Inr (AddServer node_id))"

definition cm_remove_server ::
  "node_id \<Rightarrow> node_id \<Rightarrow> bool \<Rightarrow> log_index \<Rightarrow> config_manager \<Rightarrow> config_error + configuration_change" where
  "cm_remove_server node_id self_id is_leader commit cm =
     (if \<not> is_leader then Inl NotLeader
      else if (case pending_change cm of
                 Some pending_index \<Rightarrow> \<not> is_change_committed pending_index commit
               | None \<Rightarrow> False)
      then Inl ConfigChangeInProgress
      else if config_size (cm_config cm) = 1 then Inl CannotRemoveLastNode
      else if node_id \<noteq> self_id \<and> \<not> config_contains (cm_config cm) node_id
      then Inl NodeNotFound
      else Inr (RemoveServer node_id))"

definition track_pending_change :: "log_index \<Rightarrow> config_manager \<Rightarrow> config_manager" where
  "track_pending_change index cm = cm\<lparr>pending_change := Some index\<rparr>"

text \<open>One round of the loop over the changes; the state is what the method mutates.\<close>

type_synonym 'p config_state = "config_manager \<times> replication \<times> 'p obs_event list \<times> node_state"

definition members_after_add :: "node_ops \<Rightarrow> node_id list \<Rightarrow> node_id \<Rightarrow> node_id list" where
  "members_after_add NO ms node_id = push_ok (nc_push NO) node_id (extend_ok (nc_push NO) ms [])"

definition members_after_remove :: "node_ops \<Rightarrow> node_id list \<Rightarrow> node_id \<Rightarrow> node_id list" where
  "members_after_remove NO ms node_id = extend_ok (nc_push NO) (filter (\<lambda>i. i \<noteq> node_id) ms) []"

definition clear_pending :: "log_index \<Rightarrow> config_manager \<Rightarrow> config_manager" where
  "clear_pending index cm =
     (case pending_change cm of
        Some pending_index \<Rightarrow> if index = pending_index then cm\<lparr>pending_change := None\<rparr> else cm
      | None \<Rightarrow> cm)"

fun apply_change ::
  "node_ops \<Rightarrow> map_ops \<Rightarrow> node_id \<Rightarrow> log_index \<Rightarrow> log_index \<times> configuration_change
   \<Rightarrow> 'p config_state \<Rightarrow> 'p config_state" where
  "apply_change NO MO self_id last_log_index (index, AddServer node_id) (cm, lrm, obs, rl) =
     (let obs1 = obs @ [ConfigurationChangeApplied self_id node_id True];
          cm1 = cm\<lparr>cm_config := config_new (members_after_add NO (members (cm_config cm)) node_id)\<rparr>;
          lrm1 = (if rl = Leader then
                    let nxt = u64_add last_log_index 1 in
                    mark_server_catching_up MO node_id
                      (lrm\<lparr>next_index := mc_insert MO node_id nxt (next_index lrm),
                           match_index := mc_insert MO node_id 0 (match_index lrm)\<rparr>)
                  else lrm)
      in (clear_pending index cm1, lrm1, obs1, rl))"
| "apply_change NO MO self_id last_log_index (index, RemoveServer node_id) (cm, lrm, obs, rl) =
     (let obs1 = obs @ [ConfigurationChangeApplied self_id node_id False];
          cm1 = cm\<lparr>cm_config := config_new (members_after_remove NO (members (cm_config cm)) node_id)\<rparr>;
          lrm1 = (if rl = Leader then
                    lrm\<lparr>next_index := mc_remove MO node_id (next_index lrm),
                        match_index := mc_remove MO node_id (match_index lrm)\<rparr>
                  else lrm);
          rl1 = (if node_id = self_id then Follower else rl)
      in (clear_pending index cm1, lrm1, obs1, rl1))"

definition cm_apply_changes ::
  "node_ops \<Rightarrow> map_ops \<Rightarrow> changes \<Rightarrow> node_id \<Rightarrow> log_index \<Rightarrow> 'p config_state \<Rightarrow> 'p config_state" where
  "cm_apply_changes NO MO cs self_id last_log_index st =
     fold (apply_change NO MO self_id last_log_index) cs st"

section \<open>Facts\<close>

lemma cm_apply_changes_Nil [simp]: "cm_apply_changes NO MO [] self_id lli st = st"
  by (simp add: cm_apply_changes_def)

lemma members_after_in_memory:
  "members_after_add in_memory_node_ops ms n = ms @ [n]"
  "members_after_remove in_memory_node_ops ms n = filter (\<lambda>i. i \<noteq> n) ms"
proof -
  have push: "nc_push in_memory_node_ops = vec_push None"
    by (intro ext) (simp add: in_memory_node_ops_def in_memory_node_push_def)
  show "members_after_add in_memory_node_ops ms n = ms @ [n]"
    "members_after_remove in_memory_node_ops ms n = filter (\<lambda>i. i \<noteq> n) ms"
    by (simp_all add: members_after_add_def members_after_remove_def push)
qed

text \<open>A change is only accepted by a leader with no uncommitted change.\<close>

definition no_uncommitted_change :: "config_manager \<Rightarrow> log_index \<Rightarrow> bool" where
  "no_uncommitted_change cm commit \<longleftrightarrow>
     (\<forall>i. pending_change cm = Some i \<longrightarrow> i \<le> commit)"

lemma add_server_ok_iff:
  "cm_add_server n self is_leader commit cm = Inr c \<longleftrightarrow>
     is_leader \<and> no_uncommitted_change cm commit \<and> n \<noteq> self \<and>
     n \<notin> set (members (cm_config cm)) \<and> c = AddServer n"
  by (auto simp: cm_add_server_def no_uncommitted_change_def is_change_committed_def
      split: option.splits)

lemma remove_server_ok_iff:
  "cm_remove_server n self is_leader commit cm = Inr c \<longleftrightarrow>
     is_leader \<and> no_uncommitted_change cm commit \<and> config_size (cm_config cm) \<noteq> 1 \<and>
     (n = self \<or> n \<in> set (members (cm_config cm))) \<and> c = RemoveServer n"
  by (auto simp: cm_remove_server_def no_uncommitted_change_def is_change_committed_def
      split: option.splits)

lemma clear_pending_config [simp]: "cm_config (clear_pending i cm) = cm_config cm"
  by (simp add: clear_pending_def split: option.splits)

lemma apply_change_role:
  "apply_change NO MO self lli ch (cm, lrm, obs, rl) = (cm', lrm', obs', rl') \<Longrightarrow>
   rl' = rl \<or> (rl' = Follower \<and> snd ch = RemoveServer self)"
  by (cases ch; cases "snd ch") (auto simp: Let_def split: if_splits)

lemma apply_change_indices:
  "apply_change NO MO self lli ch (cm, lrm, obs, rl) = (cm', lrm', obs', rl') \<Longrightarrow>
   commit_index lrm' = commit_index lrm \<and> last_applied lrm' = last_applied lrm"
  by (cases ch; cases "snd ch") (auto simp: Let_def mark_server_catching_up_def split: if_splits)

lemma cm_apply_changes_indices:
  "cm_apply_changes NO MO cs self lli (cm, lrm, obs, rl) = (cm', lrm', obs', rl') \<Longrightarrow>
   commit_index lrm' = commit_index lrm \<and> last_applied lrm' = last_applied lrm"
proof (induction cs arbitrary: cm lrm obs rl)
  case Nil
  then show ?case by simp
next
  case (Cons c cs)
  obtain cm1 lrm1 obs1 rl1 where st:
    "apply_change NO MO self lli c (cm, lrm, obs, rl) = (cm1, lrm1, obs1, rl1)"
    by (metis prod_cases4)
  with Cons.prems have "cm_apply_changes NO MO cs self lli (cm1, lrm1, obs1, rl1)
      = (cm', lrm', obs', rl')"
    by (simp add: cm_apply_changes_def)
  from Cons.IH [OF this] apply_change_indices [OF st] show ?case by simp
qed

text \<open>
  The role after a list of changes: a node steps down exactly when it is removed itself, and no
  change makes it a candidate or a leader.
\<close>

lemma cm_apply_changes_role:
  "cm_apply_changes NO MO cs self lli (cm, lrm, obs, rl) = (cm', lrm', obs', rl') \<Longrightarrow>
   rl' = (if RemoveServer self \<in> snd ` set cs then Follower else rl)"
proof (induction cs arbitrary: cm lrm obs rl)
  case Nil
  then show ?case by simp
next
  case (Cons c cs)
  obtain cm1 lrm1 obs1 rl1 where st:
    "apply_change NO MO self lli c (cm, lrm, obs, rl) = (cm1, lrm1, obs1, rl1)"
    by (metis prod_cases4)
  with Cons.prems have "cm_apply_changes NO MO cs self lli (cm1, lrm1, obs1, rl1)
      = (cm', lrm', obs', rl')"
    by (simp add: cm_apply_changes_def)
  note IH = Cons.IH [OF this]
  have "rl1 = (if snd c = RemoveServer self then Follower else rl)"
    using st by (cases c; cases "snd c") (auto simp: Let_def)
  with IH show ?case by auto
qed

text \<open>
  The configuration of the unbounded collections follows the changes: the abstract membership
  as a set.
\<close>

fun change_set :: "configuration_change \<Rightarrow> node_id set \<Rightarrow> node_id set" where
  "change_set (AddServer n) M = insert n M"
| "change_set (RemoveServer n) M = M - {n}"

lemma cm_apply_changes_members:
  "cm_apply_changes in_memory_node_ops MO cs self lli (cm, lrm, obs, rl) = (cm', lrm', obs', rl') \<Longrightarrow>
   set (members (cm_config cm')) = fold (\<lambda>c. change_set (snd c)) cs (set (members (cm_config cm)))"
proof (induction cs arbitrary: cm lrm obs rl)
  case Nil
  then show ?case by simp
next
  case (Cons c cs)
  obtain cm1 lrm1 obs1 rl1 where st:
    "apply_change in_memory_node_ops MO self lli c (cm, lrm, obs, rl) = (cm1, lrm1, obs1, rl1)"
    by (metis prod_cases4)
  with Cons.prems have "cm_apply_changes in_memory_node_ops MO cs self lli (cm1, lrm1, obs1, rl1)
      = (cm', lrm', obs', rl')"
    by (simp add: cm_apply_changes_def)
  note IH = Cons.IH [OF this]
  have "set (members (cm_config cm1)) = change_set (snd c) (set (members (cm_config cm)))"
    using st by (cases c; cases "snd c")
      (auto simp: Let_def members_after_in_memory config_new_def)
  with IH show ?case by simp
qed

end
