(* ===== verification/Snapshot_Manager.thy ===== *)
theory Snapshot_Manager
  imports In_Memory_Storage
begin

text \<open>
  \<open>core/src/components/snapshot_manager.rs\<close>: when a snapshot is taken, how it is stored and how
  the log is compacted behind it.
\<close>

record snapshot_manager =
  threshold :: log_index

definition snapshot_manager_new :: "log_index \<Rightarrow> snapshot_manager" where
  "snapshot_manager_new t = \<lparr>threshold = t\<rparr>"

definition should_create :: "('s, 'p) storage_ops \<Rightarrow> log_index \<Rightarrow> 's \<Rightarrow> snapshot_manager \<Rightarrow> bool" where
  "should_create S commit st mgr =
     (if commit < threshold mgr then False
      else case st_load_snapshot S st of
             Some sn \<Rightarrow> if threshold mgr \<le> last_included_index (metadata sn) then False else True
           | None \<Rightarrow> True)"

definition compact_log :: "('s, 'p) storage_ops \<Rightarrow> log_index \<Rightarrow> 's \<Rightarrow> 's" where
  "compact_log S last_included st = st_discard_entries_before S (u64_add last_included 1) st"

definition create_snapshot ::
  "('s, 'p) storage_ops \<Rightarrow> ('sm, 'p) state_machine_ops \<Rightarrow> log_index \<Rightarrow> 's \<Rightarrow> 'sm
   \<Rightarrow> 's \<times> (snapshot_error + log_index)" where
  "create_snapshot S SM last_applied_index st sm =
     (if last_applied_index = 0 then (st, Inl NoEntriesToSnapshot)
      else case st_get_entry S st last_applied_index of
             None \<Rightarrow> (st, Inl EntryNotFound)
           | Some e \<Rightarrow>
               let sn = \<lparr>metadata = \<lparr>last_included_index = last_applied_index,
                                     last_included_term = entry_term e\<rparr>,
                         snap_data = sm_create_snapshot SM sm\<rparr>;
                   st1 = st_save_snapshot S sn st
               in (compact_log S last_applied_index st1, Inr last_applied_index))"

context raft_storage begin

text \<open>
  A snapshot is created exactly when its index is an entry of the log; it records that entry's
  term and the state machine, and leaves the entries behind it as they were.
\<close>

lemma create_snapshot_ok:
  assumes run: "create_snapshot S SM i s sm = (s', Inr j)"
    and ok: "view_ok (view s)" and fit: "fits s"
  shows "j = i" and "view_ok (view s')"
    and "\<exists>e. v_entry (view s) i = Some e \<and> v_snap (view s') =
           Some \<lparr>metadata = \<lparr>last_included_index = i, last_included_term = entry_term e\<rparr>,
                 snap_data = sm_create_snapshot SM sm\<rparr>"
    and "\<forall>k > i. v_entry (view s') k = v_entry (view s) k"
    and "v_first (view s') = Suc i" and "v_next (view s') = v_next (view s)"
    and "v_term (view s') = v_term (view s) \<and> v_vote (view s') = v_vote (view s)"
proof -
  from run obtain e where e: "v_entry (view s) i = Some e" and j: "j = i"
    and s': "s' = compact_log S i (st_save_snapshot S
      \<lparr>metadata = \<lparr>last_included_index = i, last_included_term = entry_term e\<rparr>,
       snap_data = sm_create_snapshot SM sm\<rparr> s)"
    by (auto simp: create_snapshot_def get_entry Let_def split: if_splits option.splits)
  have range: "v_first (view s) \<le> i" "i < v_next (view s)" "v_next (view s) < u64_limit"
    using e ok by (auto simp: v_entry_Some_iff view_ok_def)
  then have view': "view s' = v_discard (Suc i) ((view s)\<lparr>v_snap := Some
      \<lparr>metadata = \<lparr>last_included_index = i, last_included_term = entry_term e\<rparr>,
       snap_data = sm_create_snapshot SM sm\<rparr>\<rparr>)"
    using fit by (simp add: s' compact_log_def discard fits_save save_snapshot u64_simps)
  show "j = i" by (rule j)
  show "\<exists>e. v_entry (view s) i = Some e \<and> v_snap (view s') =
           Some \<lparr>metadata = \<lparr>last_included_index = i, last_included_term = entry_term e\<rparr>,
                 snap_data = sm_create_snapshot SM sm\<rparr>"
    using e by (simp add: view')
  show "\<forall>k > i. v_entry (view s') k = v_entry (view s) k"
    by (simp add: view' v_entry_discard)
  show "v_first (view s') = Suc i" "v_term (view s') = v_term (view s) \<and> v_vote (view s') = v_vote (view s)"
    using range by (simp_all add: view')
  show "v_next (view s') = v_next (view s)"
    using range by (auto simp: view' v_discard_def v_next_def)
  then show "view_ok (view s')"
    using range by (auto simp: view_ok_def compacted_def view' v_discard_def)
qed

lemma should_create_iff:
  "should_create S commit s mgr \<longleftrightarrow>
     threshold mgr \<le> commit \<and>
     (\<forall>sn. v_snap (view s) = Some sn \<longrightarrow> last_included_index (metadata sn) < threshold mgr)"
  by (auto simp: should_create_def load_snapshot split: option.splits)

end

end
