(* ===== verification/Role_Transition.thy ===== *)
theory Role_Transition
  imports Log_Replication
begin

text \<open>
  \<open>core/src/components/role_transition_manager.rs\<close>: the transitions between follower, candidate and
  leader, with what each reports to the observer.
\<close>

fun node_state_to_role :: "node_state \<Rightarrow> role" where
  "node_state_to_role Follower = RoleFollower"
| "node_state_to_role Candidate = RoleCandidate"
| "node_state_to_role Leader = RoleLeader"

definition rt_start_pre_vote ::
  "node_ops \<Rightarrow> 'ts timer_ops \<Rightarrow> ('s, 'p) storage_ops \<Rightarrow> node_id \<Rightarrow> log_term \<Rightarrow> 's
   \<Rightarrow> 'ts election_manager \<Rightarrow> 'p obs_event list
   \<Rightarrow> 'ts election_manager \<times> 'p obs_event list \<times> 'p raft_msg" where
  "rt_start_pre_vote NO TO S node_id current_term st em obs =
     (let obs1 = obs @ [PreVoteStarted node_id current_term];
          (em1, msg) = em_start_pre_vote NO TO S node_id current_term st em
      in (em1, obs1, msg))"

definition rt_start_election ::
  "node_ops \<Rightarrow> 'ts timer_ops \<Rightarrow> ('s, 'p) storage_ops \<Rightarrow> node_id \<Rightarrow> log_term \<Rightarrow> 's
   \<Rightarrow> 'ts election_manager \<Rightarrow> 'p obs_event list \<Rightarrow> role
   \<Rightarrow> 'ts election_manager \<times> log_term \<times> 's \<times> node_state \<times> 'p obs_event list \<times> 'p raft_msg" where
  "rt_start_election NO TO S node_id current_term st em obs old_role =
     (let (em1, t, st1, rl1, vote_request) = em_start_election NO TO S node_id current_term st em
      in (em1, t, st1, rl1,
          obs @ [ElectionStarted node_id t, RoleChanged node_id old_role RoleCandidate t,
                 VotedFor node_id node_id t], vote_request))"

definition rt_become_leader ::
  "map_ops \<Rightarrow> 'ts timer_ops \<Rightarrow> ('s, 'p) storage_ops \<Rightarrow> node_id \<Rightarrow> log_term \<Rightarrow> 's \<Rightarrow> node_id list
   \<Rightarrow> 'ts election_manager \<Rightarrow> replication \<Rightarrow> 'p obs_event list \<Rightarrow> role
   \<Rightarrow> node_state \<times> 'ts election_manager \<times> replication \<times> 'p obs_event list" where
  "rt_become_leader MO TO S node_id current_term st member_ids em lrm obs old_role =
     (Leader,
      em\<lparr>timer_service := ts_reset_heartbeat TO (ts_stop_timers TO (timer_service em))\<rparr>,
      initialize_leader_state MO S member_ids st lrm,
      obs @ [RoleChanged node_id old_role RoleLeader current_term, LeaderElected node_id current_term])"

definition rt_step_down ::
  "'ts timer_ops \<Rightarrow> ('s, 'p) storage_ops \<Rightarrow> node_id \<Rightarrow> log_term \<Rightarrow> log_term \<Rightarrow> 's
   \<Rightarrow> 'ts election_manager \<Rightarrow> 'p obs_event list \<Rightarrow> role
   \<Rightarrow> log_term \<times> 's \<times> node_state \<times> 'ts election_manager \<times> 'p obs_event list" where
  "rt_step_down TO S node_id old_term new_term st em obs old_role =
     (let obs1 = (if old_role = RoleLeader then obs @ [LeaderLost node_id old_term new_term] else obs)
      in (new_term, st_set_voted_for S None (st_set_current_term S new_term st), Follower,
          em_reset_election_timer TO em,
          obs1 @ [RoleChanged node_id old_role RoleFollower new_term]))"

lemma node_state_to_role_inject [simp]:
  "node_state_to_role a = node_state_to_role b \<longleftrightarrow> a = b"
  by (cases a; cases b) simp_all

text \<open>
  What a fresh leader assumes of the others: the next entry to send them is the one after its own
  last, and nothing of theirs is known to match.
\<close>

lemma initialize_leader_frame [simp]:
  "commit_index (initialize_leader_state MO S ps st lrm) = commit_index lrm"
  "last_applied (initialize_leader_state MO S ps st lrm) = last_applied lrm"
  "catching_up_servers (initialize_leader_state MO S ps st lrm) = catching_up_servers lrm"
proof -
  let ?f = "\<lambda>nli peer r. r\<lparr>next_index := mc_insert MO peer nli (next_index r),
                       match_index := mc_insert MO peer 0 (match_index r)\<rparr>"
  have "commit_index (fold (?f nli) ps r) = commit_index r \<and>
      last_applied (fold (?f nli) ps r) = last_applied r \<and>
      catching_up_servers (fold (?f nli) ps r) = catching_up_servers r" for r :: replication and nli
    by (induction ps arbitrary: r) simp_all
  then show "commit_index (initialize_leader_state MO S ps st lrm) = commit_index lrm"
    "last_applied (initialize_leader_state MO S ps st lrm) = last_applied lrm"
    "catching_up_servers (initialize_leader_state MO S ps st lrm) = catching_up_servers lrm"
    by (simp_all add: initialize_leader_state_def Let_def)
qed

lemma initialize_leader_lookup:
  assumes "mc_insert MO = in_memory_map_insert" and "n \<in> set ps"
  shows "in_memory_map_get (next_index (initialize_leader_state MO S ps st lrm)) n =
           Some (u64_add (st_last_log_index S st) 1) \<and>
         in_memory_map_get (match_index (initialize_leader_state MO S ps st lrm)) n = Some 0"
proof -
  let ?nli = "u64_add (st_last_log_index S st) 1"
  let ?f = "\<lambda>peer r. r\<lparr>next_index := mc_insert MO peer ?nli (next_index r),
                       match_index := mc_insert MO peer 0 (match_index r)\<rparr>"
  have "in_memory_map_get (next_index (fold ?f ps r)) n =
          (if n \<in> set ps then Some ?nli else in_memory_map_get (next_index r) n) \<and>
        in_memory_map_get (match_index (fold ?f ps r)) n =
          (if n \<in> set ps then Some 0 else in_memory_map_get (match_index r) n)" for r :: replication
  proof (induction ps arbitrary: r)
    case Nil
    then show ?case by simp
  next
    case (Cons p ps)
    then show ?case
      using mem_maps.get_insert_other [of n p]
      by (auto simp: assms(1) in_memory_map_insert_def in_memory_map_get_def update_conv')
  qed
  with assms(2) show ?thesis
    by (simp add: initialize_leader_state_def Let_def)
qed

end
