(* ===== verification/Raft_Context.thy ===== *)
theory Raft_Context
  imports Config_Change Snapshot_Manager Role_Transition
begin

text \<open>
  The state of a node (\<open>RaftNode\<close> of \<open>core/src/raft_node.rs\<close>), which is also what a handler
  mutates through \<open>MessageHandlerContext\<close>, and the helpers of
  \<open>core/src/components/message_handler/common.rs\<close>.

  \<open>env\<close> packs the dictionaries that the type parameters of \<open>RaftNode\<close> stand for.  The transport
  is the list of messages handed to \<open>Transport::send\<close> so far, the observer the list of calls it
  received; the lease holds the clock.
\<close>

record ('s, 'sm, 'ts, 'p) env =
  env_storage :: "('s, 'p) storage_ops"
  env_machine :: "('sm, 'p) state_machine_ops"
  env_timers :: "'ts timer_ops"
  env_nodes :: node_ops
  env_maps :: map_ops
  env_changes :: change_ops

record ('s, 'sm, 'ts, 'p) raft_node =
  rn_id :: node_id
  rn_role :: node_state
  rn_term :: log_term
  rn_leader :: "node_id option"
  rn_outbox :: "(node_id \<times> 'p raft_msg) list"
  rn_storage :: 's
  rn_machine :: 'sm
  rn_observed :: "'p obs_event list"
  rn_election :: "'ts election_manager"
  rn_replication :: replication
  rn_config :: config_manager
  rn_snapshots :: snapshot_manager
  rn_lease :: leader_lease

abbreviation node_members :: "('s, 'sm, 'ts, 'p) raft_node \<Rightarrow> node_id list" where
  "node_members n \<equiv> members (cm_config (rn_config n))"

section \<open>The shared helpers\<close>

definition send :: "node_id \<Rightarrow> 'p raft_msg \<Rightarrow> ('s, 'sm, 'ts, 'p) raft_node \<Rightarrow> ('s, 'sm, 'ts, 'p) raft_node" where
  "send to msg n = n\<lparr>rn_outbox := rn_outbox n @ [(to, msg)]\<rparr>"

definition observe :: "'p obs_event \<Rightarrow> ('s, 'sm, 'ts, 'p) raft_node \<Rightarrow> ('s, 'sm, 'ts, 'p) raft_node" where
  "observe ev n = n\<lparr>rn_observed := rn_observed n @ [ev]\<rparr>"

definition peer_ids :: "('s, 'sm, 'ts, 'p) env \<Rightarrow> ('s, 'sm, 'ts, 'p) raft_node \<Rightarrow> node_id list" where
  \<comment> \<open>The copy of the peers that \<open>broadcast\<close> and \<open>send_append_entries_to_followers\<close> make.\<close>
  "peer_ids E n = extend_ok (nc_push (env_nodes E)) (peers (cm_config (rn_config n)) (rn_id n)) []"

definition broadcast ::
  "('s, 'sm, 'ts, 'p) env \<Rightarrow> 'p raft_msg \<Rightarrow> ('s, 'sm, 'ts, 'p) raft_node \<Rightarrow> ('s, 'sm, 'ts, 'p) raft_node" where
  "broadcast E msg n = fold (\<lambda>peer c. send peer msg c) (peer_ids E n) n"

definition step_down ::
  "('s, 'sm, 'ts, 'p) env \<Rightarrow> log_term \<Rightarrow> ('s, 'sm, 'ts, 'p) raft_node \<Rightarrow> ('s, 'sm, 'ts, 'p) raft_node" where
  "step_down E new_term n =
     (let old_role = node_state_to_role (rn_role n);
          old_term = rn_term n;
          (t, st, rl, em, obs) = rt_step_down (env_timers E) (env_storage E) (rn_id n) old_term
             new_term (rn_storage n) (rn_election n) (rn_observed n) old_role
      in n\<lparr>rn_term := t, rn_storage := st, rn_role := rl, rn_election := em, rn_observed := obs,
           rn_leader := None, rn_lease := lease_revoke (rn_lease n)\<rparr>)"

definition validate_term_and_step_down ::
  "('s, 'sm, 'ts, 'p) env \<Rightarrow> log_term \<Rightarrow> ('s, 'sm, 'ts, 'p) raft_node
   \<Rightarrow> ('s, 'sm, 'ts, 'p) raft_node \<times> bool" where
  "validate_term_and_step_down E trm n =
     (if rn_term n < trm then (step_down E trm n, True) else (n, False))"

definition reset_election_timer_if_valid_term ::
  "('s, 'sm, 'ts, 'p) env \<Rightarrow> log_term \<Rightarrow> ('s, 'sm, 'ts, 'p) raft_node \<Rightarrow> ('s, 'sm, 'ts, 'p) raft_node" where
  "reset_election_timer_if_valid_term E trm n =
     (if rn_term n \<le> trm
      then n\<lparr>rn_election := em_reset_election_timer (env_timers E) (rn_election n)\<rparr> else n)"

definition apply_config_changes ::
  "('s, 'sm, 'ts, 'p) env \<Rightarrow> changes \<Rightarrow> ('s, 'sm, 'ts, 'p) raft_node \<Rightarrow> ('s, 'sm, 'ts, 'p) raft_node" where
  "apply_config_changes E cs n =
     (let old_role = node_state_to_role (rn_role n);
          last_log_index = st_last_log_index (env_storage E) (rn_storage n);
          (cm, lrm, obs, rl) = cm_apply_changes (env_nodes E) (env_maps E) cs (rn_id n) last_log_index
             (rn_config n, rn_replication n, rn_observed n, rn_role n);
          n1 = n\<lparr>rn_config := cm, rn_replication := lrm, rn_observed := obs, rn_role := rl\<rparr>;
          new_role = node_state_to_role (rn_role n1)
      in if old_role \<noteq> new_role then observe (RoleChanged (rn_id n1) old_role new_role (rn_term n1)) n1
         else n1)"

section \<open>Frame facts\<close>

text \<open>
  \<open>same_but_outbox m n\<close> and \<open>same_but_log m n\<close> say which fields two states may differ in: sending
  only extends the outbox, observing only the observer's log.
\<close>

lemma send_simps [simp]:
  "rn_id (send to m n) = rn_id n" "rn_role (send to m n) = rn_role n"
  "rn_term (send to m n) = rn_term n" "rn_leader (send to m n) = rn_leader n"
  "rn_storage (send to m n) = rn_storage n" "rn_machine (send to m n) = rn_machine n"
  "rn_observed (send to m n) = rn_observed n" "rn_election (send to m n) = rn_election n"
  "rn_replication (send to m n) = rn_replication n" "rn_config (send to m n) = rn_config n"
  "rn_snapshots (send to m n) = rn_snapshots n" "rn_lease (send to m n) = rn_lease n"
  "rn_outbox (send to m n) = rn_outbox n @ [(to, m)]"
  by (simp_all add: send_def)

lemma observe_simps [simp]:
  "rn_id (observe ev n) = rn_id n" "rn_role (observe ev n) = rn_role n"
  "rn_term (observe ev n) = rn_term n" "rn_leader (observe ev n) = rn_leader n"
  "rn_storage (observe ev n) = rn_storage n" "rn_machine (observe ev n) = rn_machine n"
  "rn_outbox (observe ev n) = rn_outbox n" "rn_election (observe ev n) = rn_election n"
  "rn_replication (observe ev n) = rn_replication n" "rn_config (observe ev n) = rn_config n"
  "rn_snapshots (observe ev n) = rn_snapshots n" "rn_lease (observe ev n) = rn_lease n"
  "rn_observed (observe ev n) = rn_observed n @ [ev]"
  by (simp_all add: observe_def)

lemma fold_send:
  "fold (\<lambda>peer c. send peer (f peer) c) ps n =
     n\<lparr>rn_outbox := rn_outbox n @ map (\<lambda>p. (p, f p)) ps\<rparr>"
  by (induction ps arbitrary: n) (simp_all add: send_def)

lemma broadcast_eq: "broadcast E m n = n\<lparr>rn_outbox := rn_outbox n @ map (\<lambda>p. (p, m)) (peer_ids E n)\<rparr>"
  by (simp add: broadcast_def fold_send [where f = "\<lambda>_. m"])

lemma step_down_simps [simp]:
  "rn_id (step_down E t n) = rn_id n" "rn_role (step_down E t n) = Follower"
  "rn_term (step_down E t n) = t" "rn_leader (step_down E t n) = None"
  "rn_outbox (step_down E t n) = rn_outbox n" "rn_machine (step_down E t n) = rn_machine n"
  "rn_replication (step_down E t n) = rn_replication n" "rn_config (step_down E t n) = rn_config n"
  "rn_snapshots (step_down E t n) = rn_snapshots n"
  "rn_lease (step_down E t n) = lease_revoke (rn_lease n)"
  "rn_storage (step_down E t n) = st_set_voted_for (env_storage E) None
     (st_set_current_term (env_storage E) t (rn_storage n))"
  "votes_received (rn_election (step_down E t n)) = votes_received (rn_election n)"
  by (simp_all add: step_down_def rt_step_down_def Let_def)

lemma reset_timer_simps [simp]:
  "rn_id (reset_election_timer_if_valid_term E t n) = rn_id n"
  "rn_role (reset_election_timer_if_valid_term E t n) = rn_role n"
  "rn_term (reset_election_timer_if_valid_term E t n) = rn_term n"
  "rn_leader (reset_election_timer_if_valid_term E t n) = rn_leader n"
  "rn_outbox (reset_election_timer_if_valid_term E t n) = rn_outbox n"
  "rn_storage (reset_election_timer_if_valid_term E t n) = rn_storage n"
  "rn_machine (reset_election_timer_if_valid_term E t n) = rn_machine n"
  "rn_observed (reset_election_timer_if_valid_term E t n) = rn_observed n"
  "rn_replication (reset_election_timer_if_valid_term E t n) = rn_replication n"
  "rn_config (reset_election_timer_if_valid_term E t n) = rn_config n"
  "rn_snapshots (reset_election_timer_if_valid_term E t n) = rn_snapshots n"
  "rn_lease (reset_election_timer_if_valid_term E t n) = rn_lease n"
  "votes_received (rn_election (reset_election_timer_if_valid_term E t n))
     = votes_received (rn_election n)"
  by (simp_all add: reset_election_timer_if_valid_term_def)

lemma apply_config_changes_simps [simp]:
  "rn_id (apply_config_changes E cs n) = rn_id n"
  "rn_term (apply_config_changes E cs n) = rn_term n"
  "rn_leader (apply_config_changes E cs n) = rn_leader n"
  "rn_outbox (apply_config_changes E cs n) = rn_outbox n"
  "rn_storage (apply_config_changes E cs n) = rn_storage n"
  "rn_machine (apply_config_changes E cs n) = rn_machine n"
  "rn_election (apply_config_changes E cs n) = rn_election n"
  "rn_snapshots (apply_config_changes E cs n) = rn_snapshots n"
  "rn_lease (apply_config_changes E cs n) = rn_lease n"
  by (simp_all add: apply_config_changes_def Let_def split: prod.splits)

lemma apply_config_changes_Nil [simp]: "apply_config_changes E [] n = n"
  by (simp add: apply_config_changes_def)

lemma apply_config_changes_run:
  obtains cm lrm obs rl where
    "cm_apply_changes (env_nodes E) (env_maps E) cs (rn_id n) (st_last_log_index (env_storage E) (rn_storage n))
       (rn_config n, rn_replication n, rn_observed n, rn_role n) = (cm, lrm, obs, rl)"
    and "rn_config (apply_config_changes E cs n) = cm"
    and "rn_replication (apply_config_changes E cs n) = lrm"
    and "rn_role (apply_config_changes E cs n) = rl"
proof -
  obtain cm lrm obs rl where
    "cm_apply_changes (env_nodes E) (env_maps E) cs (rn_id n) (st_last_log_index (env_storage E) (rn_storage n))
       (rn_config n, rn_replication n, rn_observed n, rn_role n) = (cm, lrm, obs, rl)"
    by (metis prod_cases4)
  then show thesis
    by (intro that [of cm lrm obs rl]) (simp_all add: apply_config_changes_def Let_def)
qed

lemma apply_config_changes_role:
  "rn_role (apply_config_changes E cs n) =
     (if RemoveServer (rn_id n) \<in> snd ` set cs then Follower else rn_role n)"
  by (rule apply_config_changes_run [of E cs n]) (simp add: cm_apply_changes_role)

lemma apply_config_changes_indices [simp]:
  "commit_index (rn_replication (apply_config_changes E cs n)) = commit_index (rn_replication n)"
  "last_applied (rn_replication (apply_config_changes E cs n)) = last_applied (rn_replication n)"
  by (rule apply_config_changes_run [of E cs n], simp add: cm_apply_changes_indices)+

end
