(* ===== verification/Message_Handler.thy ===== *)
theory Message_Handler
  imports Raft_Context
begin

text \<open>
  The handlers of \<open>core/src/components/message_handler\<close>: \<open>election.rs\<close>, \<open>replication.rs\<close>, \<open>admin.rs\<close>
  and the dispatch of \<open>message_handler.rs\<close>.  A handler maps the state of the node to the state it
  leaves; what it sends is appended to the outbox.
\<close>

section \<open>Replication: sending\<close>

definition send_append_entries_to_followers ::
  "('s, 'sm, 'ts, 'p) env \<Rightarrow> ('s, 'sm, 'ts, 'p) raft_node \<Rightarrow> ('s, 'sm, 'ts, 'p) raft_node" where
  "send_append_entries_to_followers E n =
     fold (\<lambda>peer c. send peer (get_append_entries_for_peer (env_maps E) (env_storage E) peer
             (rn_id c) (rn_storage c) (rn_replication c)) c) (peer_ids E n) n"

definition send_heartbeats ::
  "('s, 'sm, 'ts, 'p) env \<Rightarrow> ('s, 'sm, 'ts, 'p) raft_node \<Rightarrow> ('s, 'sm, 'ts, 'p) raft_node" where
  "send_heartbeats E n =
     (let n1 = send_append_entries_to_followers E n in
      n1\<lparr>rn_election := (rn_election n1)\<lparr>timer_service :=
            ts_reset_heartbeat (env_timers E) (timer_service (rn_election n1))\<rparr>\<rparr>)"

definition handle_heartbeat_timer ::
  "('s, 'sm, 'ts, 'p) env \<Rightarrow> ('s, 'sm, 'ts, 'p) raft_node \<Rightarrow> ('s, 'sm, 'ts, 'p) raft_node" where
  "handle_heartbeat_timer E n =
     (let n1 = observe (ObsTimerFired (rn_id n) ObserverHeartbeat (rn_term n)) n in
      if rn_role n1 = Leader then send_heartbeats E n1 else n1)"

section \<open>Elections\<close>

definition become_leader ::
  "('s, 'sm, 'ts, 'p) env \<Rightarrow> ('s, 'sm, 'ts, 'p) raft_node \<Rightarrow> ('s, 'sm, 'ts, 'p) raft_node" where
  "become_leader E n =
     (let old_role = node_state_to_role (rn_role n);
          (rl, em, lrm, obs) = rt_become_leader (env_maps E) (env_timers E) (env_storage E) (rn_id n)
             (rn_term n) (rn_storage n) (node_members n) (rn_election n) (rn_replication n)
             (rn_observed n) old_role
      in send_append_entries_to_followers E
           (n\<lparr>rn_role := rl, rn_election := em, rn_replication := lrm, rn_observed := obs\<rparr>))"

fun begin_leadership ::
  "('s, 'sm, 'ts, 'p) env \<Rightarrow> ('s, 'sm, 'ts, 'p) raft_node
   \<Rightarrow> node_state \<times> 'ts election_manager \<times> replication \<times> 'p obs_event list \<Rightarrow> ('s, 'sm, 'ts, 'p) raft_node" where
  "begin_leadership E n (rl, em, lrm, obs) =
     send_append_entries_to_followers E
       (n\<lparr>rn_role := rl, rn_election := em, rn_replication := lrm, rn_observed := obs\<rparr>)"

text \<open>The form that evaluates: the messages are made once the new state is known.\<close>

lemma become_leader_code [code]:
  "become_leader E n = begin_leadership E n
     (rt_become_leader (env_maps E) (env_timers E) (env_storage E) (rn_id n) (rn_term n) (rn_storage n)
        (node_members n) (rn_election n) (rn_replication n) (rn_observed n) (node_state_to_role (rn_role n)))"
  by (simp add: become_leader_def Let_def split: prod.splits)

definition start_pre_vote ::
  "('s, 'sm, 'ts, 'p) env \<Rightarrow> ('s, 'sm, 'ts, 'p) raft_node \<Rightarrow> ('s, 'sm, 'ts, 'p) raft_node" where
  "start_pre_vote E n =
     (let (em, obs, pre_vote_request) = rt_start_pre_vote (env_nodes E) (env_timers E) (env_storage E)
             (rn_id n) (rn_term n) (rn_storage n) (rn_election n) (rn_observed n)
      in broadcast E pre_vote_request (n\<lparr>rn_election := em, rn_observed := obs\<rparr>))"

definition start_election ::
  "('s, 'sm, 'ts, 'p) env \<Rightarrow> ('s, 'sm, 'ts, 'p) raft_node \<Rightarrow> ('s, 'sm, 'ts, 'p) raft_node" where
  "start_election E n =
     (let old_role = node_state_to_role (rn_role n);
          (em, t, st, rl, obs, vote_request) = rt_start_election (env_nodes E) (env_timers E)
             (env_storage E) (rn_id n) (rn_term n) (rn_storage n) (rn_election n) (rn_observed n) old_role;
          n1 = broadcast E vote_request
                 (n\<lparr>rn_election := em, rn_term := t, rn_storage := st, rn_role := rl, rn_observed := obs\<rparr>)
      in if length (node_members n1) \<le> 1 then become_leader E n1 else n1)"

definition handle_pre_vote_request ::
  "('s, 'sm, 'ts, 'p) env \<Rightarrow> node_id \<Rightarrow> log_term \<Rightarrow> node_id \<Rightarrow> log_index \<Rightarrow> log_term
   \<Rightarrow> ('s, 'sm, 'ts, 'p) raft_node \<Rightarrow> ('s, 'sm, 'ts, 'p) raft_node" where
  "handle_pre_vote_request E from trm candidate_id last_log_index last_log_term n =
     (let n1 = observe (PreVoteRequested candidate_id (rn_id n) trm last_log_index last_log_term) n;
          response = em_handle_pre_vote_request (env_storage E) trm last_log_index last_log_term
             (rn_term n1) (rn_storage n1);
          n2 = (case response of
                  PreVoteResponse _ vote_granted \<Rightarrow>
                    observe (PreVoteGranted candidate_id (rn_id n1) vote_granted trm) n1
                | _ \<Rightarrow> n1)
      in send from response n2)"

definition handle_pre_vote_response ::
  "('s, 'sm, 'ts, 'p) env \<Rightarrow> node_id \<Rightarrow> log_term \<Rightarrow> bool
   \<Rightarrow> ('s, 'sm, 'ts, 'p) raft_node \<Rightarrow> ('s, 'sm, 'ts, 'p) raft_node" where
  "handle_pre_vote_response E from trm vote_granted n =
     (if rn_term n < trm then n
      else
        let (em, should_start_election) = em_handle_pre_vote_response (env_nodes E) from vote_granted
               (cm_config (rn_config n)) (rn_election n);
            n1 = n\<lparr>rn_election := em\<rparr>
        in if should_start_election
           then start_election E (observe (PreVoteSucceeded (rn_id n1) (rn_term n1)) n1)
           else n1)"

definition handle_vote_request ::
  "('s, 'sm, 'ts, 'p) env \<Rightarrow> node_id \<Rightarrow> log_term \<Rightarrow> node_id \<Rightarrow> log_index \<Rightarrow> log_term
   \<Rightarrow> ('s, 'sm, 'ts, 'p) raft_node \<Rightarrow> ('s, 'sm, 'ts, 'p) raft_node" where
  "handle_vote_request E from trm candidate_id last_log_index last_log_term n =
     (let (n1, _) = validate_term_and_step_down E trm n;
          (em, t, st, response) = em_handle_vote_request (env_timers E) (env_storage E) trm candidate_id
             last_log_index last_log_term (rn_term n1) (rn_storage n1) (rn_election n1)
      in send from response (n1\<lparr>rn_election := em, rn_term := t, rn_storage := st\<rparr>))"

definition handle_vote_response ::
  "('s, 'sm, 'ts, 'p) env \<Rightarrow> node_id \<Rightarrow> log_term \<Rightarrow> bool
   \<Rightarrow> ('s, 'sm, 'ts, 'p) raft_node \<Rightarrow> ('s, 'sm, 'ts, 'p) raft_node" where
  "handle_vote_response E from trm vote_granted n =
     (let (n1, stepped_down) = validate_term_and_step_down E trm n in
      if stepped_down then n1
      else
        let (em, should_become_leader) = em_handle_vote_response (env_nodes E) from trm vote_granted
               (rn_term n1) (rn_role n1) (cm_config (rn_config n1)) (rn_election n1);
            n2 = n1\<lparr>rn_election := em\<rparr>
        in if should_become_leader then become_leader E n2 else n2)"

definition handle_election_timer ::
  "('s, 'sm, 'ts, 'p) env \<Rightarrow> ('s, 'sm, 'ts, 'p) raft_node \<Rightarrow> ('s, 'sm, 'ts, 'p) raft_node" where
  "handle_election_timer E n =
     (let n1 = observe (ObsTimerFired (rn_id n) ObserverElection (rn_term n)) n in
      if rn_role n1 \<noteq> Leader then
        let n2 = start_pre_vote E (observe (ElectionTimeout (rn_id n1) (rn_term n1)) n1) in
        if length (node_members n2) \<le> 1 then start_election E n2 else n2
      else n1)"

section \<open>Replication: receiving\<close>

definition handle_append_entries ::
  "('s, 'sm, 'ts, 'p) env \<Rightarrow> node_id \<Rightarrow> log_term \<Rightarrow> log_index \<Rightarrow> log_term \<Rightarrow> 'p log_entry list \<Rightarrow> log_index
   \<Rightarrow> ('s, 'sm, 'ts, 'p) raft_node \<Rightarrow> ('s, 'sm, 'ts, 'p) raft_node" where
  "handle_append_entries E from trm prev_log_index prev_log_term entries leader_commit n =
     (let (n1, stepped_down) = validate_term_and_step_down E trm n in
      if stepped_down then n1
      else
        let n2 = (reset_election_timer_if_valid_term E trm n1)\<lparr>rn_leader := Some from\<rparr>;
            (lrm, ct, st, sm, rl, obs, response, config_changes) =
              lrm_handle_append_entries (env_storage E) (env_machine E) (env_changes E) (rn_id n2)
                trm prev_log_index prev_log_term entries leader_commit
                (rn_term n2) (rn_storage n2) (rn_machine n2) (rn_role n2) (rn_observed n2)
                (rn_replication n2);
            n3 = n2\<lparr>rn_replication := lrm, rn_term := ct, rn_storage := st, rn_machine := sm,
                    rn_role := rl, rn_observed := obs\<rparr>
        in send from response (apply_config_changes E config_changes n3))"

definition node_should_create_snapshot ::
  "('s, 'sm, 'ts, 'p) env \<Rightarrow> ('s, 'sm, 'ts, 'p) raft_node \<Rightarrow> bool" where
  "node_should_create_snapshot E n =
     should_create (env_storage E) (commit_index (rn_replication n)) (rn_storage n) (rn_snapshots n)"

definition create_snapshot_internal ::
  "('s, 'sm, 'ts, 'p) env \<Rightarrow> ('s, 'sm, 'ts, 'p) raft_node \<Rightarrow> ('s, 'sm, 'ts, 'p) raft_node" where
  "create_snapshot_internal E n =
     (let commit = commit_index (rn_replication n);
          (st, _) = create_snapshot (env_storage E) (env_machine E) commit (rn_storage n) (rn_machine n)
      in n\<lparr>rn_storage := st\<rparr>)"

definition handle_append_entries_response ::
  "('s, 'sm, 'ts, 'p) env \<Rightarrow> node_id \<Rightarrow> log_term \<Rightarrow> bool \<Rightarrow> log_index
   \<Rightarrow> ('s, 'sm, 'ts, 'p) raft_node \<Rightarrow> ('s, 'sm, 'ts, 'p) raft_node" where
  "handle_append_entries_response E from trm success mi n =
     (let (n1, stepped_down) = validate_term_and_step_down E trm n in
      if stepped_down then n1
      else if rn_role n1 = Leader \<and> trm = rn_term n1 then
        let old_commit_index = commit_index (rn_replication n1);
            (lrm, sm, obs, config_changes) =
              lrm_handle_append_entries_response (env_maps E) (env_storage E) (env_machine E)
                (env_changes E) from success mi (cm_config (rn_config n1)) (rn_id n1) (rn_id n1)
                (rn_storage n1) (rn_machine n1) (rn_observed n1) (rn_replication n1);
            n2 = n1\<lparr>rn_replication := lrm, rn_machine := sm, rn_observed := obs\<rparr>;
            new_commit_index = commit_index (rn_replication n2)
        in if old_commit_index < new_commit_index then
             let n3 = observe (CommitAdvanced (rn_id n2) old_commit_index new_commit_index) n2;
                 n4 = n3\<lparr>rn_lease := lease_grant (rn_lease n3)\<rparr>;
                 n5 = apply_config_changes E config_changes n4
             in if node_should_create_snapshot E n5 then create_snapshot_internal E n5 else n5
           else n2
      else n1)"

definition handle_install_snapshot ::
  "('s, 'sm, 'ts, 'p) env \<Rightarrow> node_id \<Rightarrow> log_term \<Rightarrow> node_id \<Rightarrow> log_index \<Rightarrow> log_term \<Rightarrow> nat \<Rightarrow> bytes \<Rightarrow> bool
   \<Rightarrow> ('s, 'sm, 'ts, 'p) raft_node \<Rightarrow> ('s, 'sm, 'ts, 'p) raft_node" where
  "handle_install_snapshot E from trm leader_id lii lit offset data done_flag n =
     (let n1 = reset_election_timer_if_valid_term E trm n;
          (lrm, ct, st, sm, rl, response) =
            lrm_handle_install_snapshot (env_storage E) (env_machine E) trm leader_id lii lit offset
              data done_flag (rn_term n1) (rn_storage n1) (rn_machine n1) (rn_role n1) (rn_replication n1)
      in send from response
           (n1\<lparr>rn_replication := lrm, rn_term := ct, rn_storage := st, rn_machine := sm, rn_role := rl\<rparr>))"

definition handle_install_snapshot_response ::
  "('s, 'sm, 'ts, 'p) env \<Rightarrow> node_id \<Rightarrow> log_term \<Rightarrow> bool
   \<Rightarrow> ('s, 'sm, 'ts, 'p) raft_node \<Rightarrow> ('s, 'sm, 'ts, 'p) raft_node" where
  "handle_install_snapshot_response E from trm success n =
     (let (n1, stepped_down) = validate_term_and_step_down E trm n in
      if stepped_down then n1
      else if rn_role n1 = Leader \<and> trm = rn_term n1 then
        (case st_snapshot_metadata (env_storage E) (rn_storage n1) of
           Some md \<Rightarrow>
             n1\<lparr>rn_replication := lrm_handle_install_snapshot_response (env_maps E) from success
                   (last_included_index md) (rn_replication n1)\<rparr>
         | None \<Rightarrow> n1)
      else n1)"

section \<open>Client commands and membership changes\<close>

definition submit_entry ::
  "('s, 'sm, 'ts, 'p) env \<Rightarrow> 'p entry_type \<Rightarrow> ('s, 'sm, 'ts, 'p) raft_node
   \<Rightarrow> ('s, 'sm, 'ts, 'p) raft_node \<times> (client_error + log_index)" where
  \<comment> \<open>The common body of \<open>submit_client_command\<close> and \<open>submit_config_change\<close>, which differ in the
      entry they append.\<close>
  "submit_entry E kind n =
     (if rn_role n \<noteq> Leader then (n, Inl (ClientNotLeader (rn_leader n)))
      else
        let entry = \<lparr>entry_term = rn_term n, entry_kind = kind\<rparr>;
            n1 = n\<lparr>rn_storage := st_append_entries (env_storage E) [entry] (rn_storage n)\<rparr>;
            index = st_last_log_index (env_storage E) (rn_storage n1);
            n2 = (if length (node_members n1) \<le> 1 then
                    let (lrm, sm, obs, config_changes) =
                          advance_commit_index (env_maps E) (env_storage E) (env_machine E)
                            (env_changes E) (cm_config (rn_config n1)) (rn_id n1) (rn_id n1)
                            (rn_storage n1) (rn_machine n1) (rn_observed n1) (rn_replication n1)
                    in apply_config_changes E config_changes
                         (n1\<lparr>rn_replication := lrm, rn_machine := sm, rn_observed := obs\<rparr>)
                  else n1)
        in (send_append_entries_to_followers E n2, Inr index))"

definition submit_client_command ::
  "('s, 'sm, 'ts, 'p) env \<Rightarrow> 'p \<Rightarrow> ('s, 'sm, 'ts, 'p) raft_node
   \<Rightarrow> ('s, 'sm, 'ts, 'p) raft_node \<times> (client_error + log_index)" where
  "submit_client_command E payload n = submit_entry E (Command payload) n"

definition submit_config_change ::
  "('s, 'sm, 'ts, 'p) env \<Rightarrow> configuration_change \<Rightarrow> ('s, 'sm, 'ts, 'p) raft_node
   \<Rightarrow> ('s, 'sm, 'ts, 'p) raft_node \<times> (client_error + log_index)" where
  "submit_config_change E change n = submit_entry E (ConfigChange change) n"

definition add_server ::
  "('s, 'sm, 'ts, 'p) env \<Rightarrow> node_id \<Rightarrow> ('s, 'sm, 'ts, 'p) raft_node
   \<Rightarrow> ('s, 'sm, 'ts, 'p) raft_node \<times> (config_error + log_index)" where
  "add_server E node_id n =
     (case cm_add_server node_id (rn_id n) (rn_role n = Leader) (commit_index (rn_replication n)) (rn_config n) of
        Inl e \<Rightarrow> (n, Inl e)
      | Inr change \<Rightarrow>
          (case submit_config_change E change n of
             (n1, Inl _) \<Rightarrow> (n1, Inl NotLeader)
           | (n1, Inr index) \<Rightarrow>
               (n1\<lparr>rn_config := track_pending_change index (rn_config n1)\<rparr>, Inr index)))"

definition remove_server ::
  "('s, 'sm, 'ts, 'p) env \<Rightarrow> node_id \<Rightarrow> ('s, 'sm, 'ts, 'p) raft_node
   \<Rightarrow> ('s, 'sm, 'ts, 'p) raft_node \<times> (config_error + log_index)" where
  "remove_server E node_id n =
     (case cm_remove_server node_id (rn_id n) (rn_role n = Leader) (commit_index (rn_replication n)) (rn_config n) of
        Inl e \<Rightarrow> (n, Inl e)
      | Inr change \<Rightarrow>
          (case submit_config_change E change n of
             (n1, Inl _) \<Rightarrow> (n1, Inl NotLeader)
           | (n1, Inr index) \<Rightarrow>
               (n1\<lparr>rn_config := track_pending_change index (rn_config n1)\<rparr>, Inr index)))"

section \<open>Dispatch\<close>

fun handle_message ::
  "('s, 'sm, 'ts, 'p) env \<Rightarrow> node_id \<Rightarrow> 'p raft_msg \<Rightarrow> ('s, 'sm, 'ts, 'p) raft_node
   \<Rightarrow> ('s, 'sm, 'ts, 'p) raft_node" where
  "handle_message E from (PreVoteRequest trm candidate_id lli llt) n =
     handle_pre_vote_request E from trm candidate_id lli llt n"
| "handle_message E from (PreVoteResponse trm vote_granted) n =
     handle_pre_vote_response E from trm vote_granted n"
| "handle_message E from (RequestVote trm candidate_id lli llt) n =
     handle_vote_request E from trm candidate_id lli llt n"
| "handle_message E from (RequestVoteResponse trm vote_granted) n =
     handle_vote_response E from trm vote_granted n"
| "handle_message E from (AppendEntries trm prev_log_index prev_log_term entries leader_commit) n =
     handle_append_entries E from trm prev_log_index prev_log_term entries leader_commit n"
| "handle_message E from (AppendEntriesResponse trm success mi) n =
     handle_append_entries_response E from trm success mi n"
| "handle_message E from (InstallSnapshot trm leader_id lii lit offset data done_flag) n =
     handle_install_snapshot E from trm leader_id lii lit offset data done_flag n"
| "handle_message E from (InstallSnapshotResponse trm success) n =
     handle_install_snapshot_response E from trm success n"

fun handle_timer ::
  "('s, 'sm, 'ts, 'p) env \<Rightarrow> timer_kind \<Rightarrow> ('s, 'sm, 'ts, 'p) raft_node
   \<Rightarrow> ('s, 'sm, 'ts, 'p) raft_node" where
  "handle_timer E Election n = handle_election_timer E n"
| "handle_timer E Heartbeat n = handle_heartbeat_timer E n"

end
