(* ===== verification/Raft_Node.thy ===== *)
theory Raft_Node
  imports Message_Handler
begin

text \<open>
  The node itself: its construction through the builders of \<open>core/src/raft_node_builder.rs\<close>, and the
  public operations of \<open>core/src/raft_node.rs\<close>.
\<close>

section \<open>The builders\<close>

text \<open>Each stage of the builder holds the fields of the stage before and one more component.\<close>

record ('s, 'sm) node_builder =
  nb_id :: node_id
  nb_storage :: 's
  nb_state_machine :: 'sm
  nb_snapshot_threshold :: log_index
  nb_lease_duration_millis :: nat

record ('s, 'sm, 'ts) node_builder_with_election =
  be_base :: "('s, 'sm) node_builder"
  be_election :: "'ts election_manager"

record ('s, 'sm, 'ts) node_builder_with_replication =
  br_base :: "('s, 'sm) node_builder"
  br_election :: "'ts election_manager"
  br_replication :: replication

definition builder_new :: "node_id \<Rightarrow> 's \<Rightarrow> 'sm \<Rightarrow> ('s, 'sm) node_builder" where
  "builder_new i st sm = \<lparr>nb_id = i, nb_storage = st, nb_state_machine = sm,
     nb_snapshot_threshold = 10, nb_lease_duration_millis = 5000\<rparr>"

definition with_snapshot_threshold :: "log_index \<Rightarrow> ('s, 'sm) node_builder \<Rightarrow> ('s, 'sm) node_builder" where
  "with_snapshot_threshold t b = b\<lparr>nb_snapshot_threshold := t\<rparr>"

definition with_lease_duration :: "nat \<Rightarrow> ('s, 'sm) node_builder \<Rightarrow> ('s, 'sm) node_builder" where
  "with_lease_duration d b = b\<lparr>nb_lease_duration_millis := d\<rparr>"

definition with_election ::
  "'ts election_manager \<Rightarrow> ('s, 'sm) node_builder \<Rightarrow> ('s, 'sm, 'ts) node_builder_with_election" where
  "with_election em b = \<lparr>be_base = b, be_election = em\<rparr>"

definition with_replication ::
  "replication \<Rightarrow> ('s, 'sm, 'ts) node_builder_with_election
   \<Rightarrow> ('s, 'sm, 'ts) node_builder_with_replication" where
  "with_replication lrm b = \<lparr>br_base = be_base b, br_election = be_election b, br_replication = lrm\<rparr>"

definition new_from_builder ::
  "('s, 'sm, 'ts, 'p) env \<Rightarrow> node_id \<Rightarrow> 's \<Rightarrow> 'sm \<Rightarrow> 'ts election_manager \<Rightarrow> replication
   \<Rightarrow> (node_id \<times> 'p raft_msg) list \<Rightarrow> node_id list \<Rightarrow> 'p obs_event list \<Rightarrow> log_index \<Rightarrow> instant \<Rightarrow> nat
   \<Rightarrow> ('s, 'sm, 'ts, 'p) raft_node" where
  "new_from_builder E i st sm em lrm transport peer_list obs snapshot_threshold clk lease_duration =
     (let current_term = st_current_term (env_storage E) st;
          (sm1, la) = (case st_load_snapshot (env_storage E) st of
                         Some sn \<Rightarrow> (fst (sm_restore_from_snapshot (env_machine E) (snap_data sn) sm),
                                     last_included_index (metadata sn))
                       | None \<Rightarrow> (sm, 0));
          all_members = extend_ok (nc_push (env_nodes E)) peer_list
                          (push_ok (nc_push (env_nodes E)) i [])
      in \<lparr>rn_id = i, rn_role = Follower, rn_term = current_term, rn_leader = None,
          rn_outbox = transport, rn_storage = st, rn_machine = sm1, rn_observed = obs,
          rn_election = em_reset_election_timer (env_timers E) em,
          rn_replication = set_last_applied la lrm,
          rn_config = config_manager_new (config_new all_members),
          rn_snapshots = snapshot_manager_new snapshot_threshold,
          rn_lease = lease_new lease_duration clk\<rparr>)"

definition with_transport ::
  "('s, 'sm, 'ts, 'p) env \<Rightarrow> (node_id \<times> 'p raft_msg) list \<Rightarrow> node_id list \<Rightarrow> 'p obs_event list \<Rightarrow> instant
   \<Rightarrow> ('s, 'sm, 'ts) node_builder_with_replication \<Rightarrow> ('s, 'sm, 'ts, 'p) raft_node" where
  "with_transport E transport peer_list obs clk b =
     new_from_builder E (nb_id (br_base b)) (nb_storage (br_base b)) (nb_state_machine (br_base b))
       (br_election b) (br_replication b) transport peer_list obs
       (nb_snapshot_threshold (br_base b)) clk (nb_lease_duration_millis (br_base b))"

section \<open>The public operations\<close>

definition node_commit_index :: "('s, 'sm, 'ts, 'p) raft_node \<Rightarrow> log_index" where
  "node_commit_index n = commit_index (rn_replication n)"

definition node_peers :: "('s, 'sm, 'ts, 'p) raft_node \<Rightarrow> node_id list option" where
  \<comment> \<open>Despite its name the list is the whole membership, the node included.\<close>
  "node_peers n = (if node_members n = [] then None else Some (node_members n))"

definition is_committed :: "log_index \<Rightarrow> ('s, 'sm, 'ts, 'p) raft_node \<Rightarrow> bool" where
  "is_committed index n \<longleftrightarrow> index \<le> commit_index (rn_replication n)"

definition read_linearizable ::
  "('s, 'sm, 'ts, 'p) env \<Rightarrow> string \<Rightarrow> ('s, 'sm, 'ts, 'p) raft_node
   \<Rightarrow> ('s, 'sm, 'ts, 'p) raft_node \<times> (read_error + string option)" where
  "read_linearizable E key n =
     (if rn_role n \<noteq> Leader \<or> \<not> lease_is_valid (rn_lease n)
      then (n, Inl (NotLeaderOrNoLease (rn_leader n)))
      else
        let value = sm_get (env_machine E) (rn_machine n) key
        in (observe (StateMachineRead (rn_id n) key (value \<noteq> None)) n, Inr value))"

fun on_event ::
  "('s, 'sm, 'ts, 'p) env \<Rightarrow> 'p event \<Rightarrow> ('s, 'sm, 'ts, 'p) raft_node \<Rightarrow> ('s, 'sm, 'ts, 'p) raft_node" where
  "on_event E (TimerFired kind) n = handle_timer E kind n"
| "on_event E (Message from msg) n = handle_message E from msg n"
| "on_event E (ClientCommand payload) n = fst (submit_client_command E payload n)"
| "on_event E (ConfigChangeEvent change) n = fst (submit_config_change E change n)"

definition node_submit_client_command ::
  "('s, 'sm, 'ts, 'p) env \<Rightarrow> 'p \<Rightarrow> ('s, 'sm, 'ts, 'p) raft_node
   \<Rightarrow> ('s, 'sm, 'ts, 'p) raft_node \<times> (client_error + log_index)" where
  "node_submit_client_command E payload n = submit_client_command E payload n"

section \<open>Facts\<close>

lemma new_from_builder_simps [simp]:
  "rn_id (new_from_builder E i st sm em lrm tr ps obs th clk d) = i"
  "rn_role (new_from_builder E i st sm em lrm tr ps obs th clk d) = Follower"
  "rn_term (new_from_builder E i st sm em lrm tr ps obs th clk d) = st_current_term (env_storage E) st"
  "rn_leader (new_from_builder E i st sm em lrm tr ps obs th clk d) = None"
  "rn_outbox (new_from_builder E i st sm em lrm tr ps obs th clk d) = tr"
  "rn_storage (new_from_builder E i st sm em lrm tr ps obs th clk d) = st"
  "rn_observed (new_from_builder E i st sm em lrm tr ps obs th clk d) = obs"
  "votes_received (rn_election (new_from_builder E i st sm em lrm tr ps obs th clk d)) = votes_received em"
  "node_members (new_from_builder E i st sm em lrm tr ps obs th clk d) =
     extend_ok (nc_push (env_nodes E)) ps (push_ok (nc_push (env_nodes E)) i [])"
  "rn_lease (new_from_builder E i st sm em lrm tr ps obs th clk d) = lease_new d clk"
  by (simp_all add: new_from_builder_def config_manager_new_def config_new_def split: option.splits)

text \<open>A new node has applied exactly what its stored snapshot covers, and committed nothing.\<close>

lemma new_from_builder_applied:
  "last_applied (rn_replication (new_from_builder E i st sm em lrm tr ps obs th clk d)) =
     (case st_load_snapshot (env_storage E) st of
        Some sn \<Rightarrow> last_included_index (metadata sn) | None \<Rightarrow> 0)"
  "commit_index (rn_replication (new_from_builder E i st sm em lrm tr ps obs th clk d)) = commit_index lrm"
  "rn_machine (new_from_builder E i st sm em lrm tr ps obs th clk d) =
     (case st_load_snapshot (env_storage E) st of
        Some sn \<Rightarrow> fst (sm_restore_from_snapshot (env_machine E) (snap_data sn) sm) | None \<Rightarrow> sm)"
  by (simp_all add: new_from_builder_def set_last_applied_def split: option.splits)

text \<open>The outcomes of a linearizable read; the node only reports it.\<close>

lemma read_linearizable_eq:
  "fst (read_linearizable E key n) =
     (if rn_role n \<noteq> Leader \<or> \<not> lease_is_valid (rn_lease n) then n
      else observe (StateMachineRead (rn_id n) key (sm_get (env_machine E) (rn_machine n) key \<noteq> None)) n)"
  by (simp add: read_linearizable_def Let_def)

lemma read_linearizable_ok_iff:
  "(\<exists>v. snd (read_linearizable E key n) = Inr v) \<longleftrightarrow> rn_role n = Leader \<and> lease_is_valid (rn_lease n)"
  by (auto simp: read_linearizable_def Let_def)

lemma read_linearizable_cases:
  obtains (refused) "rn_role n \<noteq> Leader \<or> \<not> lease_is_valid (rn_lease n)"
      "read_linearizable E key n = (n, Inl (NotLeaderOrNoLease (rn_leader n)))"
  | (read) "rn_role n = Leader" "lease_is_valid (rn_lease n)"
      "snd (read_linearizable E key n) = Inr (sm_get (env_machine E) (rn_machine n) key)"
  by (auto simp: read_linearizable_def Let_def split: if_splits)

end
