(* ===== verification/Log_Replication_Facts.thy ===== *)
theory Log_Replication_Facts
  imports Log_Replication
begin

text \<open>
  What log replication guarantees, proved once for every storage that keeps the contract: the
  application of committed entries, the repair of a follower's log, the majority behind a
  commit, and the transfer of a snapshot.
\<close>

section \<open>Applying committed entries\<close>

text \<open>
  The specification of the loop: the commands with an index in \<open>(la, commit]\<close>, in order, and the
  configuration changes in the same range.
\<close>

definition commands_at :: "'p log_entry option \<Rightarrow> log_index \<Rightarrow> (log_index \<times> 'p) list" where
  "commands_at e i = (case e of Some en \<Rightarrow>
     (case entry_kind en of Command p \<Rightarrow> [(i, p)] | ConfigChange _ \<Rightarrow> []) | None \<Rightarrow> [])"

definition changes_at :: "'p log_entry option \<Rightarrow> log_index \<Rightarrow> changes" where
  "changes_at e i = (case e of Some en \<Rightarrow>
     (case entry_kind en of Command _ \<Rightarrow> [] | ConfigChange c \<Rightarrow> [(i, c)]) | None \<Rightarrow> [])"

definition commands_between ::
  "(log_index \<Rightarrow> 'p log_entry option) \<Rightarrow> log_index \<Rightarrow> log_index \<Rightarrow> (log_index \<times> 'p) list" where
  "commands_between get la commit = concat (map (\<lambda>i. commands_at (get i) i) [la + 1..<commit + 1])"

definition changes_between ::
  "(log_index \<Rightarrow> 'p log_entry option) \<Rightarrow> log_index \<Rightarrow> log_index \<Rightarrow> changes" where
  "changes_between get la commit = concat (map (\<lambda>i. changes_at (get i) i) [la + 1..<commit + 1])"

definition push_changes :: "change_ops \<Rightarrow> changes \<Rightarrow> changes \<Rightarrow> changes" where
  "push_changes CO xs cs = fold (\<lambda>(i, c) acc. ok_or acc (cc_push CO i c acc)) xs cs"

lemma between_step:
  "la < commit \<Longrightarrow> commands_between get la commit =
     commands_at (get (la + 1)) (la + 1) @ commands_between get (la + 1) commit"
  "la < commit \<Longrightarrow> changes_between get la commit =
     changes_at (get (la + 1)) (la + 1) @ changes_between get (la + 1) commit"
  by (simp_all add: commands_between_def changes_between_def upt_conv_Cons del: upt_Suc)

lemma between_done:
  "\<not> la < commit \<Longrightarrow> commands_between get la commit = []"
  "\<not> la < commit \<Longrightarrow> changes_between get la commit = []"
  by (simp_all add: commands_between_def changes_between_def)

lemma apply_loop_spec:
  "apply_loop S SM CO n st commit la sm obs cs =
     (max la commit,
      fold (sm_apply SM) (map snd (commands_between (st_get_entry S st) la commit)) sm,
      obs @ map (\<lambda>(i, p). StateMachineApplied n i p) (commands_between (st_get_entry S st) la commit),
      push_changes CO (changes_between (st_get_entry S st) la commit) cs)"
proof (induction S SM CO n st commit la sm obs cs rule: apply_loop.induct)
  case (1 S SM CO n st commit la sm obs cs)
  show ?case
  proof (cases "la < commit")
    case False
    then show ?thesis
      by (simp add: apply_loop.simps [of S SM CO n st commit la] between_done push_changes_def)
  next
    case True
    then have m: "max (Suc la) commit = max la commit" by simp
    show ?thesis
    proof (cases "st_get_entry S st (la + 1)")
      case None
      with True 1(1) m show ?thesis
        by (simp add: apply_loop.simps [of S SM CO n st commit la] between_step
            commands_at_def changes_at_def)
    next
      case (Some e)
      show ?thesis
      proof (cases "entry_kind e")
        case (Command p)
        with True Some 1(2) m show ?thesis
          by (simp add: apply_loop.simps [of S SM CO n st commit la] between_step
              commands_at_def changes_at_def)
      next
        case (ConfigChange c)
        with True Some 1(3) m show ?thesis
          by (simp add: apply_loop.simps [of S SM CO n st commit la] between_step
              commands_at_def changes_at_def push_changes_def)
      qed
    qed
  qed
qed

lemma apply_committed_spec:
  "apply_committed_entries S SM CO n st sm obs lrm =
     (let cmds = commands_between (st_get_entry S st) (last_applied lrm) (commit_index lrm) in
      (lrm\<lparr>last_applied := max (last_applied lrm) (commit_index lrm)\<rparr>,
       fold (sm_apply SM) (map snd cmds) sm,
       obs @ map (\<lambda>(i, p). StateMachineApplied n i p) cmds,
       push_changes CO (changes_between (st_get_entry S st) (last_applied lrm) (commit_index lrm)) []))"
  by (simp add: apply_committed_entries_def apply_loop_spec Let_def)

text \<open>Applying up to \<open>b\<close> and then up to \<open>c\<close> is applying up to \<open>c\<close>: nothing is applied twice.\<close>

lemma commands_between_split:
  assumes "a \<le> b" and "b \<le> c"
  shows "commands_between get a c = commands_between get a b @ commands_between get b c"
proof -
  have "[a + 1..<c + 1] = [a + 1..<b + 1] @ [b + 1..<c + 1]"
    using assms upt_add_eq_append [of "a + 1" "b + 1" "c - b"] by simp
  then show ?thesis by (simp add: commands_between_def)
qed

lemma changes_between_split:
  assumes "a \<le> b" and "b \<le> c"
  shows "changes_between get a c = changes_between get a b @ changes_between get b c"
proof -
  have "[a + 1..<c + 1] = [a + 1..<b + 1] @ [b + 1..<c + 1]"
    using assms upt_add_eq_append [of "a + 1" "b + 1" "c - b"] by simp
  then show ?thesis by (simp add: changes_between_def)
qed

lemma push_changes_append: "push_changes CO (xs @ ys) cs = push_changes CO ys (push_changes CO xs cs)"
  by (simp add: push_changes_def)

lemma commands_between_cong:
  "(\<And>i. la < i \<Longrightarrow> i \<le> commit \<Longrightarrow> get i = get' i) \<Longrightarrow>
   commands_between get la commit = commands_between get' la commit"
  unfolding commands_between_def
  by (intro arg_cong [where f = concat] map_cong) auto

lemma changes_at_command: "(\<And>e. x = Some e \<Longrightarrow> is_command e) \<Longrightarrow> changes_at x i = []"
  by (cases x) (auto simp: changes_at_def is_command_def split: entry_type.splits)

lemma changes_between_commands:
  "(\<And>i e. get i = Some e \<Longrightarrow> is_command e) \<Longrightarrow> changes_between get la commit = []"
  by (simp add: changes_between_def changes_at_command)

section \<open>The consistency check\<close>

definition v_term_at :: "'p log_view \<Rightarrow> log_index \<Rightarrow> log_term option" where
  "v_term_at v i =
     (case v_entry v i of
        Some e \<Rightarrow> Some (entry_term e)
      | None \<Rightarrow>
          (case v_snap v of
             Some sn \<Rightarrow> if i = last_included_index (metadata sn)
                        then Some (last_included_term (metadata sn)) else None
           | None \<Rightarrow> None))"

text \<open>
  The log a follower is left with: everything up to \<open>prev\<close> as it was, then the leader's entries.
\<close>

definition v_replace_after :: "log_index \<Rightarrow> 'p log_entry list \<Rightarrow> 'p log_view \<Rightarrow> 'p log_view" where
  "v_replace_after prev es v =
     (if es = [] then v else v\<lparr>v_log := take (Suc prev - v_first v) (v_log v) @ es\<rparr>)"

lemma v_replace_after_simps [simp]:
  "v_term (v_replace_after prev es v) = v_term v" "v_vote (v_replace_after prev es v) = v_vote v"
  "v_first (v_replace_after prev es v) = v_first v" "v_snap (v_replace_after prev es v) = v_snap v"
  by (simp_all add: v_replace_after_def)

lemma v_replace_after_below:
  assumes "v_first v \<le> Suc prev" and "prev < v_next v" and "i \<le> prev"
  shows "v_entry (v_replace_after prev es v) i = v_entry v i"
  using assms by (auto simp: v_replace_after_def v_entry_def v_next_def nth_opt_def nth_append)

lemma v_replace_after_above:
  assumes "v_first v \<le> Suc prev" and "prev < v_next v" and "es \<noteq> []"
  shows "v_entry (v_replace_after prev es v) (Suc prev + k) = nth_opt es k"
proof -
  have "length (take (Suc prev - v_first v) (v_log v)) = Suc prev - v_first v"
    using assms(1,2) by (simp add: v_next_def)
  moreover have "Suc prev + k - v_first v = (Suc prev - v_first v) + k"
    using assms(1) by simp
  ultimately show ?thesis
    using assms by (auto simp: v_replace_after_def v_entry_def nth_opt_def nth_append)
qed

lemma v_next_replace_after:
  assumes "v_first v \<le> Suc prev" and "prev < v_next v" and "es \<noteq> []"
  shows "v_next (v_replace_after prev es v) = Suc prev + length es"
  using assms by (simp add: v_replace_after_def v_next_def)

lemma v_term_at_bounds:
  assumes "compacted v" and "v_term_at v i = Some t"
  shows "v_first v \<le> Suc i \<and> i < v_next v"
  using assms
  by (auto simp: v_term_at_def compacted_def v_entry_Some_iff v_next_def v_entry_None_iff
      split: option.splits if_splits)

context raft_storage begin

lemma check_consistency_iff:
  "check_log_consistency S prev pt s \<longleftrightarrow> prev = 0 \<or> v_term_at (view s) prev = Some pt"
  by (auto simp: check_log_consistency_def get_entry snapshot_metadata v_term_at_def
      split: option.splits)

text \<open>
  The repair of the follower's log.  The premise \<open>v_first (view s) \<le> Suc prev\<close> only excludes
  \<open>prev = 0\<close> on a compacted log; there the entries land behind the snapshot instead.
\<close>

lemma try_append_spec:
  assumes "try_append_entries S SM CO n prev pt es lc s sm obs lrm = (lrm', s', sm', obs', res)"
    and ok: "view_ok (view s)" and fit: "fits s" and rm: "room s (length es)"
    and low: "v_first (view s) \<le> Suc prev" and bound: "Suc prev < u64_limit"
    and res: "res = Some cs"
  shows "view s' = v_replace_after prev es (view s)"
proof -
  define s1 where "s1 = (if prev < st_last_log_index S s then st_truncate_after S prev s else s)"
  have cons: "check_log_consistency S prev pt s"
    using assms(1) res by (auto simp: try_append_entries_def Let_def split: if_splits prod.splits)
  then have next_lt: "prev < v_next (view s)"
    using ok low v_term_at_bounds [of "view s" prev pt] compacted_pos [of "view s"]
    by (auto simp: check_consistency_iff view_ok_def v_next_def)
  have s': "s' = (if es \<noteq> [] then st_append_entries S es s1 else s)"
    using assms(1) cons
    by (auto simp: try_append_entries_def s1_def Let_def split: if_splits prod.splits)
  have "view s1 = v_truncate prev (view s)"
    using next_lt low by (auto simp: s1_def truncate [OF fit bound] last_index [OF ok] v_truncate_def v_next_def)
  moreover have "fits s1" and "room s1 (length es)"
    using fit rm by (simp_all add: s1_def fits_truncate room_truncate)
  ultimately show ?thesis
    by (simp add: s' append v_replace_after_def v_truncate_def)
qed

lemma try_append_result_iff:
  "\<exists>lrm' s' sm' obs' res. try_append_entries S SM CO n prev pt es lc s sm obs lrm =
     (lrm', s', sm', obs', res) \<and> (res = None \<longleftrightarrow> \<not> check_log_consistency S prev pt s)"
  by (auto simp: try_append_entries_def Let_def split: prod.splits)

lemma view_ok_replace_after:
  assumes "view_ok (view s)" and "view t = v_replace_after prev es (view s)"
    and "v_first (view s) \<le> Suc prev" and "prev < v_next (view s)"
    and "Suc prev + length es < u64_limit"
  shows "view_ok (view t)"
  using assms v_next_replace_after [of "view s" prev es]
  by (cases "es = []") (auto simp: view_ok_def compacted_def v_replace_after_def)

end

section \<open>From the leader's log to the follower's\<close>

lemma v_segment_tail:
  assumes "v_first v \<le> n"
  shows "nth_opt (v_segment v n (v_next v)) k = v_entry v (n + k)"
  using assms by (auto simp: v_segment_def v_next_def v_entry_def nth_opt_def)

lemma v_segment_length:
  "v_first v \<le> n \<Longrightarrow> length (v_segment v n (v_next v)) = v_next v - n"
  by (simp add: v_segment_def v_next_def)

context raft_storage begin

lemma follower_message:
  assumes ok: "view_ok (view s)" and low: "v_first (view s) \<le> n" and high: "n \<le> v_next (view s)"
    and n: "n = unwrap_or 1 (mc_get MO (next_index lrm) peer)"
  shows "get_append_entries_for_peer MO S peer lid s lrm =
           AppendEntries (v_term (view s)) (n - 1)
             (if n - 1 = 0 then 0 else unwrap_or 0 (v_term_at (view s) (n - 1)))
             (clip batch (v_segment (view s) n (v_next (view s)))) (commit_index lrm)"
proof -
  have pos: "0 < v_first (view s)" and lim: "v_next (view s) < u64_limit"
    using ok compacted_pos by (auto simp: view_ok_def)
  then have last: "u64_add (st_last_log_index S s) 1 = v_next (view s)"
    using last_index [OF ok] by (simp add: v_next_def u64_simps)
  have seg: "st_get_entries S s n (v_next (view s)) = clip batch (v_segment (view s) n (v_next (view s)))"
  proof (cases "n < v_next (view s)")
    case True
    then show ?thesis using low by (simp add: get_entries)
  next
    case False
    with high have "v_segment (view s) n (v_next (view s)) = []"
      using v_segment_length [OF low] by simp
    then show ?thesis
      using False by (simp add: get_entries_none clip_def split: option.splits)
  qed
  have nle: "\<not> n < v_first (view s)"
    using low by simp
  show ?thesis
    unfolding get_append_entries_for_peer_def get_append_entries_for_follower_def Let_def
      n [symmetric] last seg first_index if_not_P [OF nle]
    by (auto simp: get_term v_term_at_def get_entry load_snapshot split: option.splits)
qed

text \<open>
  One successful exchange: the follower keeps its log up to the previous index and has the
  leader's entries, at the leader's indices, after it.
\<close>

lemma exchange_agrees:
  fixes sl :: 's and sf :: 's
  assumes okl: "view_ok (view sl)" and low: "v_first (view sl) \<le> n" and high: "n < v_next (view sl)"
    and n: "n = unwrap_or 1 (mc_get MO (next_index lrml) peer)" and full: "batch = None"
    and msg: "get_append_entries_for_peer MO S peer lid sl lrml = AppendEntries t prev pt es lc"
    and okf: "view_ok (view sf)" and fit: "fits sf" and rm: "room sf (length es)"
    and lowf: "v_first (view sf) \<le> n"
    and res: "try_append_entries S SM CO me prev pt es lc sf sm obs lrmf =
                (lrmf', sf', sm', obs', Some cs)"
  shows "\<forall>i. v_entry (view sf') i = (if i < n then v_entry (view sf) i else v_entry (view sl) i)"
    and "v_next (view sf') = v_next (view sl)" and "view_ok (view sf')"
proof -
  have posl: "0 < v_first (view sl)" and liml: "v_next (view sl) < u64_limit"
    using okl compacted_pos by (auto simp: view_ok_def)
  have prev: "Suc prev = n" and es: "es = v_segment (view sl) n (v_next (view sl))"
    using msg follower_message [OF okl low less_imp_le [OF high] n] full low posl by auto
  have ne: "es \<noteq> []" and len: "length es = v_next (view sl) - n"
    using v_segment_length [OF low] high by (auto simp: es)
  have view': "view sf' = v_replace_after prev es (view sf)"
    using res okf fit rm lowf prev high liml by (intro try_append_spec) auto
  have "check_log_consistency S prev pt sf"
    using res try_append_result_iff [of SM CO me prev pt es lc sf sm obs lrmf] by auto
  then have lt: "prev < v_next (view sf)"
    using okf lowf v_term_at_bounds [of "view sf" prev pt] compacted_pos [of "view sf"]
    by (auto simp: check_consistency_iff view_ok_def v_next_def)
  have above: "v_entry (view sf') i = v_entry (view sl) i" if "n \<le> i" for i
    using that v_replace_after_above [of "view sf" prev es "i - n"] lowf prev lt ne
      v_segment_tail [OF low, of "i - n"]
    by (simp add: view' es)
  have below: "v_entry (view sf') i = v_entry (view sf) i" if "i < n" for i
    using that v_replace_after_below [of "view sf" prev i es] lowf prev lt by (simp add: view')
  show "\<forall>i. v_entry (view sf') i = (if i < n then v_entry (view sf) i else v_entry (view sl) i)"
    using above below by auto
  show "v_next (view sf') = v_next (view sl)"
    using v_next_replace_after [of "view sf" prev es] lowf prev lt ne len high by (simp add: view')
  show "view_ok (view sf')"
    using view_ok_replace_after [OF okf view'] lowf prev lt len high liml by simp
qed

section \<open>Committing\<close>

lemma advance_commit_cases:
  assumes "advance_commit_index MO S SM CO config lid n s sm obs lrm = (lrm', sm', obs', cs)"
  obtains (stay) "lrm' = lrm" "sm' = sm" "obs' = obs" "cs = []"
  | (move) c e where "mc_compute_median MO (match_index lrm) (st_last_log_index S s) config
        (catching_up_servers lrm) lid = Some c" "commit_index lrm < c"
      "v_entry (view s) c = Some e" "entry_term e = v_term (view s)"
      "(lrm', sm', obs', cs) = apply_committed_entries S SM CO n s sm obs (lrm\<lparr>commit_index := c\<rparr>)"
  using assms
  by (auto simp: advance_commit_index_def get_entry get_term Let_def split: option.splits if_splits)

lemma advance_commit_frame:
  assumes "advance_commit_index MO S SM CO config lid n s sm obs lrm = (lrm', sm', obs', cs)"
  shows "commit_index lrm \<le> commit_index lrm'" and "last_applied lrm \<le> last_applied lrm'"
    and "match_index lrm' = match_index lrm" and "next_index lrm' = next_index lrm"
  using assms
  by (auto elim!: advance_commit_cases simp: apply_committed_spec Let_def)

end

section \<open>Installing a snapshot\<close>

definition v_install :: "log_index \<Rightarrow> log_term \<Rightarrow> bytes \<Rightarrow> 'p log_view \<Rightarrow> 'p log_view" where
  "v_install lii lit d v =
     v_discard (Suc lii) (v\<lparr>v_snap := Some \<lparr>metadata = \<lparr>last_included_index = lii,
       last_included_term = lit\<rparr>, snap_data = d\<rparr>\<rparr>)"

definition v_newer_snapshot :: "log_index \<Rightarrow> 'p log_view \<Rightarrow> bool" where
  "v_newer_snapshot lii v \<longleftrightarrow>
     (case v_snap v of None \<Rightarrow> True | Some sn \<Rightarrow> last_included_index (metadata sn) < lii)"

lemma v_install_ok:
  assumes "view_ok v" and "v_newer_snapshot lii v" and "0 < lii" and "Suc lii < u64_limit"
  shows "view_ok (v_install lii lit d v)"
proof -
  have "v_first v < Suc lii"
    using assms by (auto simp: view_ok_def compacted_def v_newer_snapshot_def split: option.splits)
  then show ?thesis
    using assms by (auto simp: v_install_def v_discard_def view_ok_def compacted_def v_next_def)
qed

context raft_storage begin

lemma install_whole_snapshot:
  assumes fit: "fits s" and cap: "chunk_room (length d)" and bound: "Suc lii < u64_limit"
    and cur: "ct \<le> t" and new: "v_newer_snapshot lii (view s)"
    and run: "lrm_handle_install_snapshot S SM t lid lii lit 0 d True ct s sm rl lrm =
                (lrm', ct', s', sm', rl', msg)"
  shows "msg = InstallSnapshotResponse t True" and "ct' = t"
    and "view s' = v_install lii lit d
           (if ct < t then (view s)\<lparr>v_term := t, v_vote := None\<rparr> else view s)"
    and "commit_index lrm' = max (commit_index lrm) lii"
    and "last_applied lrm' = max (last_applied lrm) lii"
    and "sm' = fst (sm_restore_from_snapshot SM d sm)"
proof -
  define s1 where
    "s1 = (if ct < t then st_set_voted_for S None (st_set_current_term S t s) else s)"
  have view1: "view s1 = (if ct < t then (view s)\<lparr>v_term := t, v_vote := None\<rparr> else view s)"
    by (simp add: s1_def set_term set_vote)
  have newer: "\<not> (case st_snapshot_metadata S s1 of
       Some md \<Rightarrow> lii \<le> last_included_index md | None \<Rightarrow> False)"
    using new by (auto simp: snapshot_metadata view1 v_newer_snapshot_def split: option.splits)
  define rl1 where
    "rl1 = (if ct < t then Follower else if t = ct \<and> rl = Candidate then Follower else rl)"
  have pre: "(if ct < t then (t, st_set_voted_for S None (st_set_current_term S t s), Follower)
      else if t = ct \<and> rl = Candidate then (ct, s, Follower) else (ct, s, rl)) = (t, s1, rl1)"
    using cur by (auto simp: s1_def rl1_def)
  obtain s2 where ap: "st_apply_snapshot_chunk S 0 d True lii lit s1 = (s2, Inr ())"
    and view2: "view s2 = (view s1)\<lparr>v_snap := Some \<lparr>metadata = \<lparr>last_included_index = lii,
       last_included_term = lit\<rparr>, snap_data = d\<rparr>\<rparr>"
    using apply_whole [OF cap] by blast
  have fit2: "fits s2"
    using fit fits_apply [of 0 d True lii lit s1] ap by (simp add: s1_def fits_set_term fits_set_vote)
  have run': "(lrm', ct', s', sm', msg) =
      (lrm\<lparr>commit_index := max (commit_index lrm) lii, last_applied := max (last_applied lrm) lii\<rparr>,
       t, st_discard_entries_before S (u64_add lii 1) s2,
       fst (sm_restore_from_snapshot SM d sm), InstallSnapshotResponse t True)"
    using run cur newer ap view2
    unfolding lrm_handle_install_snapshot_def pre Let_def
    by (auto simp add: load_snapshot not_less)
  then show "msg = InstallSnapshotResponse t True" and "ct' = t"
    and "commit_index lrm' = max (commit_index lrm) lii"
    and "last_applied lrm' = max (last_applied lrm) lii"
    and "sm' = fst (sm_restore_from_snapshot SM d sm)"
    by auto
  show "view s' = v_install lii lit d
           (if ct < t then (view s)\<lparr>v_term := t, v_vote := None\<rparr> else view s)"
    using run' fit2 bound view2 by (simp add: discard u64_simps v_install_def view1)
qed

end

end
