(* ===== verification/Election_Protocol.thy ===== *)
theory Election_Protocol
  imports Raft_Types
begin

text \<open>
  The abstract specification of leader election: each node is only its term, its vote, its role,
  the votes it has collected and the terms it has won; the network is the number of requests
  (\<open>Ask\<close>) and granted votes (\<open>Grant\<close>) under way between two nodes.  Messages may be lost and
  reordered.  The theory proves that no two nodes ever win the same term; the detailed model is
  shown to refine this protocol in the cluster theory.
\<close>

section \<open>The protocol\<close>

record election_view =
  ev_term :: log_term
  ev_vote :: "node_id option"
  ev_role :: node_state
  ev_votes :: "node_id list"
  ev_won :: "log_term set"

datatype ballot = Ask log_term | Grant log_term

text \<open>
  What a single node may do: \<open>ballot_step ms i trig e e' out\<close> takes node \<open>i\<close> of a cluster with the
  members \<open>ms\<close> from \<open>e\<close> to \<open>e'\<close>, triggered by the ballot \<open>trig\<close> (with its sender), and sends
  \<open>out\<close>.
\<close>

definition majority :: "node_id set \<Rightarrow> nat \<Rightarrow> bool" where
  "majority M k \<longleftrightarrow> card M div 2 + 1 \<le> k"

definition adopt_term :: "log_term \<Rightarrow> election_view \<Rightarrow> election_view" where
  "adopt_term t e = (if ev_term e < t then e\<lparr>ev_term := t, ev_vote := None, ev_role := Follower\<rparr> else e)"

inductive ballot_step ::
  "node_id set \<Rightarrow> node_id \<Rightarrow> (node_id \<times> ballot) option \<Rightarrow> election_view \<Rightarrow> election_view
   \<Rightarrow> (node_id \<times> ballot) list \<Rightarrow> bool" for M i where
  quiet: "ev_role e' = ev_role e \<and> ev_votes e' = ev_votes e \<or> ev_role e' = Follower \<Longrightarrow>
     ev_term e' = ev_term e \<Longrightarrow> ev_vote e' = ev_vote e \<Longrightarrow> ev_won e' = ev_won e \<Longrightarrow>
     ballot_step M i trig e e' []"
| adopt: "ev_term e < t \<Longrightarrow> ballot_step M i trig e (adopt_term t e) []"
| grant: "e1 = adopt_term t e \<Longrightarrow> ev_term e \<le> t \<Longrightarrow> ev_vote e1 = None \<or> ev_vote e1 = Some c \<Longrightarrow>
     ballot_step M i (Some (c, Ask t)) e (e1\<lparr>ev_vote := Some c\<rparr>) [(c, Grant t)]"
| elect: "distinct ps \<Longrightarrow> i \<notin> set ps \<Longrightarrow> t = ev_term e + 1 \<Longrightarrow>
     ballot_step M i trig e
       (e\<lparr>ev_term := t, ev_vote := Some i, ev_role := Candidate, ev_votes := [i]\<rparr>)
       (map (\<lambda>p. (p, Ask t)) ps)"
| elect_alone: "distinct ps \<Longrightarrow> i \<notin> set ps \<Longrightarrow> t = ev_term e + 1 \<Longrightarrow> majority M 1 \<Longrightarrow>
     ballot_step M i trig e
       (e\<lparr>ev_term := t, ev_vote := Some i, ev_role := Leader, ev_votes := [i], ev_won := insert t (ev_won e)\<rparr>)
       (map (\<lambda>p. (p, Ask t)) ps)"
| collect: "ev_role e = Candidate \<Longrightarrow> vs = ev_votes e \<or> vs = ev_votes e @ [v] \<Longrightarrow>
     ballot_step M i (Some (v, Grant (ev_term e))) e (e\<lparr>ev_votes := vs\<rparr>) []"
| win: "ev_role e = Candidate \<Longrightarrow> vs = ev_votes e \<or> vs = ev_votes e @ [v] \<Longrightarrow>
     majority M (length vs) \<Longrightarrow>
     ballot_step M i (Some (v, Grant (ev_term e))) e
       (e\<lparr>ev_votes := vs, ev_role := Leader, ev_won := insert (ev_term e) (ev_won e)\<rparr>) []"

inductive_cases ballot_stepE: "ballot_step M i trig e e' out"

record protocol =
  pr_view :: "node_id \<Rightarrow> election_view"
  pr_pending :: "node_id \<Rightarrow> node_id \<Rightarrow> ballot \<Rightarrow> nat"

definition trigger_count ::
  "(node_id \<times> ballot) option \<Rightarrow> node_id \<Rightarrow> node_id \<Rightarrow> node_id \<Rightarrow> ballot \<Rightarrow> nat" where
  "trigger_count trig i f t b = (if trig = Some (f, b) \<and> t = i then 1 else 0)"

definition sent_count :: "(node_id \<times> ballot) list \<Rightarrow> node_id \<Rightarrow> node_id \<Rightarrow> node_id \<Rightarrow> ballot \<Rightarrow> nat" where
  "sent_count out i f t b = (if f = i then count_list out (t, b) else 0)"

inductive protocol_step :: "node_id set \<Rightarrow> protocol \<Rightarrow> protocol \<Rightarrow> bool" for M where
  lose: "(\<And>f t b. pend' f t b \<le> pr_pending P f t b) \<Longrightarrow> protocol_step M P (P\<lparr>pr_pending := pend'\<rparr>)"
| local: "i \<in> M \<Longrightarrow> ballot_step M i trig (pr_view P i) e' out \<Longrightarrow>
     (\<And>f t b. trigger_count trig i f t b \<le> pr_pending P f t b) \<Longrightarrow>
     (\<And>f t b. pend' f t b + trigger_count trig i f t b \<le> pr_pending P f t b + sent_count out i f t b) \<Longrightarrow>
     protocol_step M P \<lparr>pr_view = (pr_view P)(i := e'), pr_pending = pend'\<rparr>"

section \<open>The invariant\<close>

text \<open>
  \<open>H v t\<close> is the vote that \<open>v\<close> gave in term \<open>t\<close>.  The history is not part of the protocol: the
  invariant says that one exists.
\<close>

type_synonym vote_history = "node_id \<Rightarrow> log_term \<Rightarrow> node_id option"

definition history_ok :: "node_id set \<Rightarrow> protocol \<Rightarrow> vote_history \<Rightarrow> bool" where
  "history_ok M P H \<longleftrightarrow>
     (\<forall>v t c. H v t = Some c \<longrightarrow> v \<in> M \<and> H c t = Some c \<and> t \<le> ev_term (pr_view P v)) \<and>
     (\<forall>i\<in>M. H i (ev_term (pr_view P i)) = ev_vote (pr_view P i))"

definition candidate_ok :: "vote_history \<Rightarrow> node_id \<Rightarrow> election_view \<Rightarrow> bool" where
  "candidate_ok H i e \<longleftrightarrow> (ev_role e = Candidate \<longrightarrow>
     ev_vote e = Some i \<and> distinct (ev_votes e) \<and> (\<forall>v\<in>set (ev_votes e). H v (ev_term e) = Some i))"

definition won_ok :: "node_id set \<Rightarrow> vote_history \<Rightarrow> node_id \<Rightarrow> election_view \<Rightarrow> bool" where
  "won_ok M H i e \<longleftrightarrow>
     (\<forall>t\<in>ev_won e. majority M (card {v. H v t = Some i})) \<and>
     (ev_role e = Leader \<longrightarrow> ev_term e \<in> ev_won e)"

fun ballot_ok :: "vote_history \<Rightarrow> node_id \<Rightarrow> node_id \<Rightarrow> ballot \<Rightarrow> bool" where
  "ballot_ok H f t (Ask T) \<longleftrightarrow> f \<noteq> t \<and> H f T = Some f"
| "ballot_ok H f t (Grant T) \<longleftrightarrow> f \<noteq> t \<and> H f T = Some t"

definition collected :: "election_view \<Rightarrow> node_id \<Rightarrow> log_term \<Rightarrow> nat" where
  "collected e v t = (if ev_role e = Candidate \<and> ev_term e = t then count_list (ev_votes e) v else 0)"

text \<open>A voter's vote exists once: as the request for it, as the granted vote, or as collected.\<close>

definition tokens :: "protocol \<Rightarrow> node_id \<Rightarrow> node_id \<Rightarrow> log_term \<Rightarrow> nat" where
  "tokens P c v t = pr_pending P c v (Ask t) + pr_pending P v c (Grant t) + collected (pr_view P c) v t"

definition election_inv :: "node_id set \<Rightarrow> protocol \<Rightarrow> vote_history \<Rightarrow> bool" where
  "election_inv M P H \<longleftrightarrow> history_ok M P H \<and>
     (\<forall>i\<in>M. candidate_ok H i (pr_view P i) \<and> won_ok M H i (pr_view P i)) \<and>
     (\<forall>f t b. 0 < pr_pending P f t b \<longrightarrow> ballot_ok H f t b) \<and>
     (\<forall>c v t. c \<in> M \<longrightarrow> v \<noteq> c \<longrightarrow> tokens P c v t \<le> 1)"

definition history_grows :: "vote_history \<Rightarrow> vote_history \<Rightarrow> bool" where
  "history_grows H H' \<longleftrightarrow> (\<forall>v t c. H v t = Some c \<longrightarrow> H' v t = Some c)"

lemma history_grows_refl [simp]: "history_grows H H"
  by (simp add: history_grows_def)

lemma election_invE:
  assumes "election_inv M P H"
  shows "H v t = Some c \<Longrightarrow> v \<in> M" "H v t = Some c \<Longrightarrow> H c t = Some c"
    "H v t = Some c \<Longrightarrow> t \<le> ev_term (pr_view P v)"
    "i \<in> M \<Longrightarrow> H i (ev_term (pr_view P i)) = ev_vote (pr_view P i)"
    "i \<in> M \<Longrightarrow> candidate_ok H i (pr_view P i)"
    "i \<in> M \<Longrightarrow> won_ok M H i (pr_view P i)"
    "0 < pr_pending P f t' b \<Longrightarrow> ballot_ok H f t' b"
    "c' \<in> M \<Longrightarrow> v \<noteq> c' \<Longrightarrow> tokens P c' v t \<le> 1"
  using assms unfolding election_inv_def history_ok_def by blast+

lemma ballot_ok_grows: "history_grows H H' \<Longrightarrow> ballot_ok H f t b \<Longrightarrow> ballot_ok H' f t b"
  by (cases b) (auto simp: history_grows_def)

lemma candidate_ok_grows: "history_grows H H' \<Longrightarrow> candidate_ok H i e \<Longrightarrow> candidate_ok H' i e"
  by (auto simp: history_grows_def candidate_ok_def)

lemma finite_votes: "finite M \<Longrightarrow> (\<And>v t c. H v t = Some c \<Longrightarrow> v \<in> M) \<Longrightarrow> finite {v. H v t = Some c}"
  by (rule finite_subset [of _ M]) auto

lemma won_ok_grows:
  assumes "history_grows H H'" and "finite M" and "\<And>v t c. H' v t = Some c \<Longrightarrow> v \<in> M"
    and "won_ok M H i e"
  shows "won_ok M H' i e"
proof -
  have "card {v. H v t = Some i} \<le> card {v. H' v t = Some i}" for t
  proof (rule card_mono)
    show "finite {v. H' v t = Some i}"
      by (rule finite_votes [OF assms(2,3)])
  qed (use assms(1) in \<open>auto simp: history_grows_def\<close>)
  then show ?thesis
    using assms(4) by (fastforce simp: won_ok_def majority_def intro: order_trans)
qed

section \<open>Every step keeps it\<close>

text \<open>
  The shape common to all local steps: the new view satisfies the invariant under the grown
  history, what is sent is covered by it, and the tokens of the votes that node \<open>i\<close> asks for or
  grants do not multiply.
\<close>

lemma inv_local:
  fixes P :: protocol
  assumes inv: "election_inv M P H" and fin: "finite M" and i: "i \<in> M"
    and grow: "history_grows H H'"
    and new: "\<And>v t c. H' v t = Some c \<Longrightarrow> H v t = Some c \<or>
                (v = i \<and> H' c t = Some c \<and> t \<le> ev_term e')"
    and term_mono: "ev_term (pr_view P i) \<le> ev_term e'"
    and vote: "H' i (ev_term e') = ev_vote e'"
    and cand: "candidate_ok H' i e'" and won: "won_ok M H' i e'"
    and pend: "\<And>f t b. pend' f t b + trigger_count trig i f t b
                  \<le> pr_pending P f t b + sent_count out i f t b"
    and sent: "\<And>t b. (t, b) \<in> set out \<Longrightarrow> ballot_ok H' i t b"
    and toks: "\<And>c v t. c \<in> M \<Longrightarrow> v \<noteq> c \<Longrightarrow>
                pend' c v (Ask t) + pend' v c (Grant t) +
                collected (if c = i then e' else pr_view P c) v t \<le> 1"
  shows "election_inv M \<lparr>pr_view = (pr_view P)(i := e'), pr_pending = pend'\<rparr> H'"
proof -
  let ?P' = "\<lparr>pr_view = (pr_view P)(i := e'), pr_pending = pend'\<rparr>"
  have member: "v \<in> M" if "H' v t = Some c" for v t c
    using new [OF that] election_invE(1) [OF inv] i by auto
  have h1: "v \<in> M \<and> H' c t = Some c \<and> t \<le> ev_term (pr_view ?P' v)" if "H' v t = Some c" for v t c
  proof (cases "H v t = Some c")
    case True
    then show ?thesis
      using member [OF that] election_invE(2,3) [OF inv True] grow term_mono
      by (auto simp: history_grows_def)
  next
    case False
    with new [OF that] member [OF that] show ?thesis by auto
  qed
  have h2: "H' j (ev_term (pr_view ?P' j)) = ev_vote (pr_view ?P' j)" if "j \<in> M" for j
  proof (cases "j = i")
    case True
    with vote show ?thesis by simp
  next
    case False
    then have "H' j t = H j t" for t
      using new [of j t] grow by (cases "H j t"; cases "H' j t") (auto simp: history_grows_def)
    with False election_invE(4) [OF inv that] show ?thesis by simp
  qed
  have nodes: "candidate_ok H' j (pr_view ?P' j) \<and> won_ok M H' j (pr_view ?P' j)" if "j \<in> M" for j
    using cand won that candidate_ok_grows [OF grow] won_ok_grows [OF grow fin member]
      election_invE(5,6) [OF inv that] by (cases "j = i") auto
  have ballots: "ballot_ok H' f t b" if "0 < pend' f t b" for f t b
  proof (cases "0 < pr_pending P f t b")
    case True
    then show ?thesis
      using ballot_ok_grows [OF grow] election_invE(7) [OF inv] by blast
  next
    case False
    with pend [of f t b] that have "0 < sent_count out i f t b" by simp
    then show ?thesis
      using sent [of t b] count_notin [of "(t, b)" out]
      by (cases "(t, b) \<in> set out") (auto simp: sent_count_def split: if_splits)
  qed
  have "tokens ?P' c v t \<le> 1" if "c \<in> M" "v \<noteq> c" for c v t
    using toks [OF that, of t] by (simp add: tokens_def)
  then show ?thesis
    unfolding election_inv_def history_ok_def using h1 h2 nodes ballots by simp
qed


lemma sent_count_Nil [simp]: "sent_count [] i f t b = 0"
  by (simp add: sent_count_def)

lemma count_list_map_ask: "count_list (map (\<lambda>p. (p, Ask T)) ps) (v, Ask t) = (if t = T then count_list ps v else 0)"
  by (induction ps) auto

lemma count_list_map_ask_grant [simp]: "count_list (map (\<lambda>p. (p, Ask T)) ps) (v, Grant t) = 0"
  by (induction ps) auto

lemma count_list_distinct: "distinct xs \<Longrightarrow> count_list xs x \<le> 1"
  by (induction xs) auto

text \<open>A step that sends nothing and collects nothing new.\<close>

lemma inv_silent:
  assumes inv: "election_inv M P H" and fin: "finite M" and i: "i \<in> M"
    and term_mono: "ev_term (pr_view P i) \<le> ev_term e'"
    and vote: "H i (ev_term e') = ev_vote e'"
    and won: "ev_won e' = ev_won (pr_view P i)"
    and role: "ev_role e' = Follower \<or>
       (ev_role e' = ev_role (pr_view P i) \<and> ev_votes e' = ev_votes (pr_view P i) \<and>
        ev_term e' = ev_term (pr_view P i))"
    and pend: "\<And>f t b. pend' f t b \<le> pr_pending P f t b"
  shows "election_inv M \<lparr>pr_view = (pr_view P)(i := e'), pr_pending = pend'\<rparr> H"
proof (rule inv_local [OF inv fin i, where trig = None and out = "[]"])
  show "candidate_ok H i e'" "won_ok M H i e'"
    using role won vote election_invE(4-6) [OF inv i] by (auto simp: candidate_ok_def won_ok_def)
  show "pend' f t b + trigger_count None i f t b \<le> pr_pending P f t b + sent_count [] i f t b" for f t b
    using pend by (simp add: trigger_count_def)
  fix c v t assume c: "c \<in> M" "v \<noteq> c"
  have "collected e' v t \<le> collected (pr_view P i) v t"
    using role by (elim disjE) (simp_all add: collected_def)
  then have "collected (if c = i then e' else pr_view P c) v t \<le> collected (pr_view P c) v t"
    by simp
  with election_invE(8) [OF inv c, of t] pend [of c v "Ask t"] pend [of v c "Grant t"]
  show "pend' c v (Ask t) + pend' v c (Grant t) + collected (if c = i then e' else pr_view P c) v t \<le> 1"
    by (simp add: tokens_def)
qed (use term_mono vote in simp_all)

lemma history_at_new_term:
  assumes "election_inv M P H" and "i \<in> M" and "ev_term (pr_view P i) < t"
  shows "H i t = None"
proof (cases "H i t")
  case (Some c)
  with election_invE(3) [OF assms(1)] assms(3) show ?thesis by fastforce
qed

lemma inv_adopt:
  assumes inv: "election_inv M P H" and fin: "finite M" and i: "i \<in> M"
    and t: "ev_term (pr_view P i) < t"
    and pend: "\<And>f t b. pend' f t b \<le> pr_pending P f t b"
  shows "election_inv M \<lparr>pr_view = (pr_view P)(i := adopt_term t (pr_view P i)), pr_pending = pend'\<rparr> H"
  using t history_at_new_term [OF inv i t]
  by (intro inv_silent [OF inv fin i]) (simp_all add: adopt_term_def pend)

lemma inv_grant:
  assumes inv: "election_inv M P H" and fin: "finite M" and i: "i \<in> M"
    and e1: "e1 = adopt_term t (pr_view P i)" and t: "ev_term (pr_view P i) \<le> t"
    and free: "ev_vote e1 = None \<or> ev_vote e1 = Some c"
    and asked: "0 < pr_pending P c i (Ask t)"
    and pend: "\<And>f t' b. pend' f t' b + trigger_count (Some (c, Ask t)) i f t' b
                 \<le> pr_pending P f t' b + sent_count [(c, Grant t)] i f t' b"
  shows "\<exists>H'. history_grows H H' \<and> election_inv M
           \<lparr>pr_view = (pr_view P)(i := e1\<lparr>ev_vote := Some c\<rparr>), pr_pending = pend'\<rparr> H'"
proof (intro exI conjI)
  let ?H' = "H(i := (H i)(t := Some c))"
  from election_invE(7) [OF inv asked] have c: "c \<noteq> i" "H c t = Some c" by simp_all
  have before: "H i t = None \<or> H i t = Some c"
    using t free history_at_new_term [OF inv i, of t] election_invE(4) [OF inv i]
    by (auto simp: e1 adopt_term_def split: if_splits)
  then show grow: "history_grows H ?H'" by (auto simp: history_grows_def)
  have term1: "ev_term e1 = t"
    using t by (auto simp: e1 adopt_term_def)
  show "election_inv M \<lparr>pr_view = (pr_view P)(i := e1\<lparr>ev_vote := Some c\<rparr>), pr_pending = pend'\<rparr> ?H'"
  proof (rule inv_local [OF inv fin i grow _ _ _ _ _ pend])
    have members: "?H' v t' = Some c' \<Longrightarrow> v \<in> M" for v t' c'
      using election_invE(1) [OF inv] i by (auto split: if_splits)
    show "candidate_ok ?H' i (e1\<lparr>ev_vote := Some c\<rparr>)"
    proof (cases "ev_term (pr_view P i) < t")
      case True
      then show ?thesis by (simp add: candidate_ok_def e1 adopt_term_def)
    next
      case False
      with free c election_invE(5) [OF inv i] show ?thesis
        by (auto simp: candidate_ok_def e1 adopt_term_def)
    qed
    have "won_ok M ?H' i (pr_view P i)"
      by (rule won_ok_grows [OF grow fin _ election_invE(6) [OF inv i]]) (rule members)
    then show "won_ok M ?H' i (e1\<lparr>ev_vote := Some c\<rparr>)"
      by (auto simp: won_ok_def e1 adopt_term_def)
    show "(t', b) \<in> set [(c, Grant t)] \<Longrightarrow> ballot_ok ?H' i t' b" for t' b
      using c by auto
    fix c' v t' assume c': "c' \<in> M" "v \<noteq> c'"
    let ?e = "if c' = i then e1\<lparr>ev_vote := Some c\<rparr> else pr_view P c'"
    have col: "collected ?e v t' \<le> collected (pr_view P c') v t'"
      by (auto simp: collected_def e1 adopt_term_def)
    have "pend' c' v (Ask t') + pend' v c' (Grant t')
        \<le> pr_pending P c' v (Ask t') + pr_pending P v c' (Grant t')"
      using pend [of c' v "Ask t'"] pend [of v c' "Grant t'"]
      by (auto simp: trigger_count_def sent_count_def split: if_splits)
    with col election_invE(8) [OF inv c', of t']
    show "pend' c' v (Ask t') + pend' v c' (Grant t') + collected ?e v t' \<le> 1"
      by (simp add: tokens_def)
  qed (use t c before term1 in \<open>auto simp: e1 split: if_splits\<close>)
qed

lemma inv_elect:
  assumes inv: "election_inv M P H" and fin: "finite M" and i: "i \<in> M"
    and ps: "distinct ps" "i \<notin> set ps" and t: "t = ev_term (pr_view P i) + 1"
    and e': "ev_term e' = t" "ev_vote e' = Some i" "ev_votes e' = [i]"
    and won: "ev_role e' = Candidate \<and> ev_won e' = ev_won (pr_view P i) \<or>
       ev_role e' = Leader \<and> ev_won e' = insert t (ev_won (pr_view P i)) \<and> majority M 1"
    and pend: "\<And>f t' b. pend' f t' b \<le> pr_pending P f t' b
                 + sent_count (map (\<lambda>p. (p, Ask t)) ps) i f t' b"
  shows "\<exists>H'. history_grows H H' \<and> election_inv M
           \<lparr>pr_view = (pr_view P)(i := e'), pr_pending = pend'\<rparr> H'"
proof -
  define H' where "H' = H(i := (H i)(t := Some i))"
  have before: "H i t = None"
    using history_at_new_term [OF inv i] t by simp
  then have grow: "history_grows H H'" by (auto simp: history_grows_def H'_def)
  have members: "H' v t' = Some c' \<Longrightarrow> v \<in> M" for v t' c'
    using election_invE(1) [OF inv] i by (auto simp: H'_def split: if_splits)
  have voted: "H' i t = Some i" by (simp add: H'_def)
  have "election_inv M \<lparr>pr_view = (pr_view P)(i := e'), pr_pending = pend'\<rparr> H'"
  proof (rule inv_local [OF inv fin i grow])
    show "candidate_ok H' i e'"
      using e' voted by (simp add: candidate_ok_def)
    have old: "won_ok M H' i (pr_view P i)"
      by (rule won_ok_grows [OF grow fin _ election_invE(6) [OF inv i]]) (rule members)
    have "finite {v. H' v t = Some i}"
      by (rule finite_votes [OF fin]) (rule members)
    then have "card {i} \<le> card {v. H' v t = Some i}"
      using voted by (intro card_mono) auto
    then have "majority M 1 \<Longrightarrow> majority M (card {v. H' v t = Some i})"
      by (simp add: majority_def)
    then show "won_ok M H' i e'"
      using old won e' by (auto simp: won_ok_def)
    show "pend' f t' b + trigger_count None i f t' b \<le> pr_pending P f t' b
        + sent_count (map (\<lambda>p. (p, Ask t)) ps) i f t' b" for f t' b
      using pend by (simp add: trigger_count_def)
    fix c v t' assume c: "c \<in> M" "v \<noteq> c"
    let ?e = "if c = i then e' else pr_view P c"
    show "pend' c v (Ask t') + pend' v c (Grant t') + collected ?e v t' \<le> 1"
    proof (cases "c = i \<and> t' = t")
      case True
      have "pr_pending P i v (Ask t) = 0"
        using election_invE(7) [OF inv, of i v "Ask t"] before by (cases "pr_pending P i v (Ask t)") auto
      moreover have "H v t \<noteq> Some i"
        using election_invE(2) [OF inv, of v t i] before by auto
      then have "pr_pending P v i (Grant t) = 0"
        using election_invE(7) [OF inv, of v i "Grant t"] by (cases "pr_pending P v i (Grant t)") auto
      moreover have "count_list ps v \<le> 1"
        using ps(1) by (rule count_list_distinct)
      moreover have "collected e' v t = 0"
        using True c e' by (simp add: collected_def)
      ultimately show ?thesis
        using True c pend [of i v "Ask t"] pend [of v i "Grant t"]
        by (simp add: sent_count_def count_list_map_ask)
    next
      case False
      then have "collected ?e v t' \<le> collected (pr_view P c) v t'"
        using e' by (auto simp: collected_def)
      moreover have "pend' c v (Ask t') \<le> pr_pending P c v (Ask t')"
        using False pend [of c v "Ask t'"] by (auto simp: sent_count_def count_list_map_ask split: if_splits)
      moreover have "pend' v c (Grant t') \<le> pr_pending P v c (Grant t')"
        using pend [of v c "Grant t'"] by (simp add: sent_count_def split: if_splits)
      ultimately show ?thesis
        using election_invE(8) [OF inv c, of t'] by (simp add: tokens_def)
    qed
  qed (use ps t e' before voted in \<open>auto simp: H'_def split: if_splits\<close>)
  with grow show ?thesis by blast
qed

lemma inv_collect:
  assumes inv: "election_inv M P H" and fin: "finite M" and i: "i \<in> M"
    and e: "e = pr_view P i" and rl: "ev_role e = Candidate" and t: "t = ev_term e"
    and vs: "vs = ev_votes e \<or> vs = ev_votes e @ [v]"
    and granted: "0 < pr_pending P v i (Grant t)"
    and e': "e' = e\<lparr>ev_votes := vs\<rparr> \<or>
       e' = e\<lparr>ev_votes := vs, ev_role := Leader, ev_won := insert t (ev_won e)\<rparr> \<and> majority M (length vs)"
    and pend: "\<And>f t' b. pend' f t' b + trigger_count (Some (v, Grant t)) i f t' b \<le> pr_pending P f t' b"
  shows "election_inv M \<lparr>pr_view = (pr_view P)(i := e'), pr_pending = pend'\<rparr> H"
proof (rule inv_local [OF inv fin i, where trig = "Some (v, Grant t)" and out = "[]"])
  from election_invE(7) [OF inv granted] have v: "v \<noteq> i" "H v t = Some i" by simp_all
  from election_invE(5) [OF inv i] rl have cand: "ev_vote e = Some i" "distinct (ev_votes e)"
    "\<forall>v\<in>set (ev_votes e). H v t = Some i"
    by (simp_all add: candidate_ok_def e t)
  have "count_list (ev_votes e) v = 0"
    using election_invE(8) [OF inv i v(1), of t] granted rl t e by (simp add: tokens_def collected_def)
  then have dist: "distinct vs" and all: "\<forall>w\<in>set vs. H w t = Some i"
    using vs cand v by (auto simp: count_list_0_iff)
  then show "candidate_ok H i e'"
    using e' cand rl t by (auto simp: candidate_ok_def)
  have "length vs \<le> card {w. H w t = Some i}"
  proof -
    have "card (set vs) \<le> card {w. H w t = Some i}"
      using all finite_votes [OF fin election_invE(1) [OF inv]] by (intro card_mono) auto
    with dist show ?thesis by (simp add: distinct_card)
  qed
  then show "won_ok M H i e'"
    using e' election_invE(6) [OF inv i] rl t
    by (auto simp: won_ok_def e majority_def intro: order_trans)
  show "H i (ev_term e') = ev_vote e'"
    using e' e election_invE(4) [OF inv i] by auto
  show "pend' f t' b + trigger_count (Some (v, Grant t)) i f t' b \<le> pr_pending P f t' b + sent_count [] i f t' b"
    for f t' b using pend by simp
  fix c w t' assume c: "c \<in> M" "w \<noteq> c"
  let ?e = "if c = i then e' else pr_view P c"
  have "collected ?e w t' \<le> collected (pr_view P c) w t' + trigger_count (Some (v, Grant t)) i w c (Grant t')"
    using e' vs rl e t by (auto simp: collected_def trigger_count_def)
  with pend [of c w "Ask t'"] pend [of w c "Grant t'"] election_invE(8) [OF inv c, of t']
  show "pend' c w (Ask t') + pend' w c (Grant t') + collected ?e w t' \<le> 1"
    by (simp add: tokens_def)
qed (use e' e in auto)


section \<open>Election safety of the protocol\<close>

lemma protocol_step_inv:
  assumes "protocol_step M P P'" and "finite M" and "election_inv M P H"
  shows "\<exists>H'. history_grows H H' \<and> election_inv M P' H'"
  using assms(1)
proof cases
  case (lose pend')
  have "tokens P' c v t \<le> tokens P c v t" for c v t
    unfolding lose(1) tokens_def using lose(2) [of c v "Ask t"] lose(2) [of v c "Grant t"] by simp
  then have toks: "\<forall>c v t. c \<in> M \<longrightarrow> v \<noteq> c \<longrightarrow> tokens P' c v t \<le> 1"
    using election_invE(8) [OF assms(3)] by (meson order_trans)
  have ballots: "\<forall>f t b. 0 < pr_pending P' f t b \<longrightarrow> ballot_ok H f t b"
  proof (intro allI impI)
    fix f t b assume "0 < pr_pending P' f t b"
    then show "ballot_ok H f t b"
      using lose(2) [of f t b] election_invE(7) [OF assms(3), of f t b] by (simp add: lose(1))
  qed
  have views: "pr_view P' = pr_view P" by (simp add: lose(1))
  have "election_inv M P' H"
    using assms(3) toks ballots unfolding election_inv_def history_ok_def views by blast
  then show ?thesis using history_grows_refl by blast
next
  case (local i trig e' out pend')
  note inv = assms(3) and fin = assms(2) and i = local(2) and run = local(3)
    and present = local(4) and pend = local(5)
  have silent: "pend' f t b \<le> pr_pending P f t b" if "out = []" for f t b
    using pend [of f t b] that by simp
  from run show ?thesis
  proof cases
    case quiet
    have "election_inv M P' H"
      unfolding local(1)
      by (rule inv_silent [OF inv fin i]) (use quiet silent election_invE(4) [OF inv i] in auto)
    then show ?thesis using history_grows_refl by blast
  next
    case (adopt t)
    have "election_inv M P' H"
      unfolding local(1) adopt(1) by (rule inv_adopt [OF inv fin i adopt(3)]) (rule silent [OF adopt(2)])
    then show ?thesis using history_grows_refl by blast
  next
    case (grant e1 t c)
    have "0 < pr_pending P c i (Ask t)"
      using present [of c i "Ask t"] by (simp add: grant trigger_count_def)
    then show ?thesis
      unfolding local(1) grant(2)
      using inv_grant [OF inv fin i grant(4-6)] pend [unfolded grant(1,3)] by blast
  next
    case (elect ps t)
    have "pend' f t' b \<le> pr_pending P f t' b + sent_count out i f t' b" for f t' b
      using pend [of f t' b] by simp
    then show ?thesis
      unfolding local(1) elect(1,2)
      by (intro inv_elect [OF inv fin i elect(3-5)]) auto
  next
    case (elect_alone ps t)
    have "pend' f t' b \<le> pr_pending P f t' b + sent_count out i f t' b" for f t' b
      using pend [of f t' b] by simp
    then show ?thesis
      unfolding local(1) elect_alone(1,2)
      by (intro inv_elect [OF inv fin i elect_alone(3-5)]) (use elect_alone in \<open>auto\<close>)
  next
    case (collect vs v)
    have "0 < pr_pending P v i (Grant (ev_term (pr_view P i)))"
      using present [of v i "Grant (ev_term (pr_view P i))"] by (simp add: collect trigger_count_def)
    then have "election_inv M P' H"
      unfolding local(1) collect(2) using pend
      by (intro inv_collect [OF inv fin i refl collect(4) refl collect(5)]) (auto simp: collect)
    then show ?thesis using history_grows_refl by blast
  next
    case (win vs v)
    have "0 < pr_pending P v i (Grant (ev_term (pr_view P i)))"
      using present [of v i "Grant (ev_term (pr_view P i))"] by (simp add: win trigger_count_def)
    then have "election_inv M P' H"
      unfolding local(1) win(2) using pend
      by (intro inv_collect [OF inv fin i refl win(4) refl win(5)]) (auto simp: win)
    then show ?thesis using history_grows_refl by blast
  qed
qed

text \<open>Two majorities of voters for the same term share a voter, who voted once.\<close>

lemma election_inv_unique_winner:
  assumes inv: "election_inv M P H" and fin: "finite M" and a: "a \<in> M" and b: "b \<in> M"
    and t: "t \<in> ev_won (pr_view P a)" "t \<in> ev_won (pr_view P b)"
  shows "a = b"
proof -
  have maj: "majority M (card {v. H v t = Some a})" "majority M (card {v. H v t = Some b})"
    using t election_invE(6) [OF inv a] election_invE(6) [OF inv b] by (auto simp: won_ok_def)
  have sub: "{v. H v t = Some x} \<subseteq> M" for x
    using election_invE(1) [OF inv] by auto
  have "{v. H v t = Some a} \<inter> {v. H v t = Some b} \<noteq> {}"
    by (rule pigeonhole_subsets [OF fin sub sub]) (use maj in \<open>auto simp: majority_def\<close>)
  then show ?thesis by auto
qed

text \<open>The protocol starts with followers that have won nothing and a silent network.\<close>

definition protocol_start :: "node_id set \<Rightarrow> protocol \<Rightarrow> bool" where
  "protocol_start M P \<longleftrightarrow> (\<forall>i\<in>M. ev_role (pr_view P i) = Follower \<and> ev_vote (pr_view P i) = None \<and>
     ev_won (pr_view P i) = {}) \<and> (\<forall>f t b. pr_pending P f t b = 0)"

lemma protocol_start_inv: "protocol_start M P \<Longrightarrow> election_inv M P (\<lambda>_ _. None)"
  by (auto simp: protocol_start_def election_inv_def history_ok_def candidate_ok_def won_ok_def
      tokens_def collected_def)

lemma protocol_run_inv:
  assumes "(protocol_step M)\<^sup>*\<^sup>* P P'" and "finite M" and "election_inv M P H"
  shows "\<exists>H'. history_grows H H' \<and> election_inv M P' H'"
  using assms
proof (induction rule: rtranclp_induct)
  case base
  then show ?case using history_grows_refl by blast
next
  case (step P1 P2)
  then obtain H1 where H1: "history_grows H H1" "election_inv M P1 H1" by blast
  from protocol_step_inv [OF step(2) \<open>finite M\<close> H1(2)] obtain H2 where
    "history_grows H1 H2" "election_inv M P2 H2" by blast
  moreover from this(1) H1(1) have "history_grows H H2" by (simp add: history_grows_def)
  ultimately show ?case by blast
qed

lemma protocol_election_safety:
  assumes "protocol_start M P0" and "(protocol_step M)\<^sup>*\<^sup>* P0 P" and "finite M"
    and "a \<in> M" and "b \<in> M" and "t \<in> ev_won (pr_view P a)" and "t \<in> ev_won (pr_view P b)"
  shows "a = b"
  using protocol_run_inv [OF assms(2,3) protocol_start_inv [OF assms(1)]]
    election_inv_unique_winner [OF _ assms(3-)] by blast

end
