(* ===== verification/Node_Election.thy ===== *)
theory Node_Election
  imports Raft_Node Log_Replication_Facts Election_Protocol
begin

text \<open>
  One event at a node, seen as a step of the election protocol: \<open>eview\<close> reads the abstract state of a
  node off the detailed one, \<open>ballots\<close> the ballots among the messages it sent.  The theory shows
  that \<open>on_event\<close> makes a \<open>ballot_step\<close> and keeps what the argument needs of a node, for every
  storage that keeps the contract and every node collection that keeps its laws.
\<close>

section \<open>The abstraction\<close>

fun ballot_of :: "'p raft_msg \<Rightarrow> ballot option" where
  "ballot_of (RequestVote t _ _ _) = Some (Ask t)"
| "ballot_of (RequestVoteResponse t granted) = (if granted then Some (Grant t) else None)"
| "ballot_of _ = None"

definition ballots :: "(node_id \<times> 'p raft_msg) list \<Rightarrow> (node_id \<times> ballot) list" where
  "ballots out = List.map_filter (\<lambda>(to, m). map_option (Pair to) (ballot_of m)) out"

definition eview :: "('s, 'sm, 'ts, 'p) env \<Rightarrow> ('s, 'sm, 'ts, 'p) raft_node \<Rightarrow> election_view" where
  "eview E n = \<lparr>ev_term = rn_term n, ev_vote = st_voted_for (env_storage E) (rn_storage n),
     ev_role = rn_role n, ev_votes = votes_received (rn_election n),
     ev_won = {t. LeaderElected (rn_id n) t \<in> set (rn_observed n)}\<rparr>"

fun msg_term :: "'p raft_msg \<Rightarrow> log_term" where
  "msg_term (RequestVote t _ _ _) = t"
| "msg_term (RequestVoteResponse t _) = t"
| "msg_term (PreVoteRequest t _ _ _) = t"
| "msg_term (PreVoteResponse t _) = t"
| "msg_term (AppendEntries t _ _ _ _) = t"
| "msg_term (AppendEntriesResponse t _ _) = t"
| "msg_term (InstallSnapshot t _ _ _ _ _ _) = t"
| "msg_term (InstallSnapshotResponse t _) = t"

fun msg_entries :: "'p raft_msg \<Rightarrow> 'p log_entry list" where
  "msg_entries (AppendEntries _ _ _ es _) = es"
| "msg_entries _ = []"

text \<open>
  What holds of the messages of a node of a cluster with a fixed membership: terms are bounded by
  the number of events so far, entries are commands, and a candidate names itself.
\<close>

definition msg_ok :: "nat \<Rightarrow> node_id \<Rightarrow> 'p raft_msg \<Rightarrow> bool" where
  "msg_ok k f m \<longleftrightarrow> msg_term m \<le> k \<and> (\<forall>e\<in>set (msg_entries m). is_command e) \<and>
     (\<forall>t c i lt. m = RequestVote t c i lt \<longrightarrow> c = f)"

lemma msg_ok_mono: "msg_ok k f m \<Longrightarrow> k \<le> k' \<Longrightarrow> msg_ok k' f m"
  by (auto simp: msg_ok_def)

lemma ballots_simps [simp]:
  "ballots [] = []"
  "ballots ((to, m) # out) = (case ballot_of m of Some b \<Rightarrow> [(to, b)] | None \<Rightarrow> []) @ ballots out"
  "ballots (xs @ ys) = ballots xs @ ballots ys"
  by (simp_all add: ballots_def map_filter_simps map_filter_def split: option.splits)

lemma ballots_none: "(\<forall>(to, m)\<in>set out. ballot_of m = None) \<Longrightarrow> ballots out = []"
  by (induction out) auto

lemma ballots_request: "ballots (map (\<lambda>p. (p, RequestVote t c i lt)) ps) = map (\<lambda>p. (p, Ask t)) ps"
  by (induction ps) auto

lemma eview_simps [simp]:
  "ev_term (eview E n) = rn_term n" "ev_role (eview E n) = rn_role n"
  "ev_votes (eview E n) = votes_received (rn_election n)"
  "ev_vote (eview E n) = st_voted_for (env_storage E) (rn_storage n)"
  "t \<in> ev_won (eview E n) \<longleftrightarrow> LeaderElected (rn_id n) t \<in> set (rn_observed n)"
  by (simp_all add: eview_def)

lemma eview_eqI:
  "rn_term n' = rn_term n \<Longrightarrow> rn_role n' = rn_role n \<Longrightarrow> rn_id n' = rn_id n \<Longrightarrow>
   votes_received (rn_election n') = votes_received (rn_election n) \<Longrightarrow>
   st_voted_for (env_storage E) (rn_storage n') = st_voted_for (env_storage E) (rn_storage n) \<Longrightarrow>
   (\<And>t. LeaderElected (rn_id n) t \<in> set (rn_observed n') \<longleftrightarrow> LeaderElected (rn_id n) t \<in> set (rn_observed n)) \<Longrightarrow>
   eview E n' = eview E n"
  by (simp add: eview_def)

section \<open>Replication leaves the ballots alone\<close>

lemma push_changes_Nil [simp]: "push_changes CO [] cs = cs"
  by (simp add: push_changes_def)

lemma elected_in_applied [simp]:
  "LeaderElected x t \<notin> set (map (\<lambda>(i, p). StateMachineApplied n i p) cmds)"
  by auto

context storage_frame begin

definition commands_only :: "'s \<Rightarrow> bool" where
  "commands_only s \<longleftrightarrow> (\<forall>e\<in>set (v_log (view s)). is_command e)"

definition ballot_frame :: "'s \<Rightarrow> 's \<Rightarrow> bool" where
  "ballot_frame s s' \<longleftrightarrow> v_term (view s') = v_term (view s) \<and> v_vote (view s') = v_vote (view s) \<and>
     (commands_only s \<longrightarrow> commands_only s')"

lemma ballot_frame_refl [simp]: "ballot_frame s s"
  by (simp add: ballot_frame_def)

lemma ballot_frame_trans: "ballot_frame a b \<Longrightarrow> ballot_frame b c \<Longrightarrow> ballot_frame a c"
  by (simp add: ballot_frame_def)

lemma ballot_frame_ops:
  "\<forall>e\<in>set es. is_command e \<Longrightarrow> ballot_frame s (st_append_entries S es s)"
  "ballot_frame s (st_truncate_after S i s)"
  "ballot_frame s (st_discard_entries_before S i s)"
  "ballot_frame s (st_save_snapshot S sn s)"
  "ballot_frame s (fst (st_apply_snapshot_chunk S ofs d dn lii lit s))"
  using append_log_subset [of es s] truncate_log_subset [of i s] discard_log_subset [of i s]
  by (auto simp: ballot_frame_def commands_only_def)

lemma commands_only_set [simp]:
  "commands_only (st_set_current_term S t s) = commands_only s"
  "commands_only (st_set_voted_for S vo s) = commands_only s"
  by (simp_all add: commands_only_def set_term set_vote)

lemma commands_only_entry: "commands_only s \<Longrightarrow> st_get_entry S s i = Some e \<Longrightarrow> is_command e"
  using get_entry_in_log by (auto simp: commands_only_def)

lemma apply_committed_quiet:
  assumes "apply_committed_entries S SM CO n st sm obs lrm = (lrm', sm', obs', cs)" and "commands_only st"
  shows "cs = []" and "LeaderElected x t \<in> set obs' \<longleftrightarrow> LeaderElected x t \<in> set obs"
  using assms changes_between_commands [of "st_get_entry S st"] commands_only_entry
  by (auto simp: apply_committed_spec Let_def)

lemma advance_commit_quiet:
  assumes "advance_commit_index MO S SM CO config lid n st sm obs lrm = (lrm', sm', obs', cs)"
    and "commands_only st"
  shows "cs = []" and "LeaderElected x t \<in> set obs' \<longleftrightarrow> LeaderElected x t \<in> set obs"
  using assms
  by (auto simp: advance_commit_index_def Let_def dest: apply_committed_quiet split: option.splits if_splits)

lemma ae_response_quiet:
  assumes "lrm_handle_append_entries_response MO S SM CO from success mi config lid n st sm obs lrm
             = (lrm', sm', obs', cs)" and "commands_only st"
  shows "cs = []" and "LeaderElected x t \<in> set obs' \<longleftrightarrow> LeaderElected x t \<in> set obs"
  using assms
  by (auto simp: lrm_handle_append_entries_response_def Let_def dest: advance_commit_quiet split: if_splits)

lemma try_append_quiet:
  assumes run: "try_append_entries S SM CO n prev pt es lc st sm obs lrm = (lrm', st', sm', obs', res)"
    and cmds: "commands_only st" "\<forall>e\<in>set es. is_command e"
  shows "ballot_frame st st'" and "res = None \<or> res = Some []"
    and "LeaderElected x t \<in> set obs' \<longleftrightarrow> LeaderElected x t \<in> set obs"
proof -
  define st2 where "st2 = (if es \<noteq> [] then st_append_entries S es
      (if prev < st_last_log_index S st then st_truncate_after S prev st else st) else st)"
  have fr: "ballot_frame st st2"
    unfolding st2_def
    by (auto intro: ballot_frame_trans [OF ballot_frame_ops(2)] ballot_frame_ops(1) [OF cmds(2)])
  then have co: "commands_only st2"
    using cmds(1) by (simp add: ballot_frame_def)
  have unfold: "try_append_entries S SM CO n prev pt es lc st sm obs lrm =
      (if \<not> check_log_consistency S prev pt st then (lrm, st, sm, obs, None)
       else if commit_index lrm < lc then
         let lrm1 = lrm\<lparr>commit_index := min lc (st_last_log_index S st2)\<rparr>;
             (lrm2, sm2, obs2, cs) = apply_committed_entries S SM CO n st2 sm obs lrm1
         in (lrm2, st2, sm2, obs2, Some cs)
       else (lrm, st2, sm, obs, Some []))"
    by (simp add: try_append_entries_def st2_def Let_def)
  show "ballot_frame st st'"
    using run fr unfolding unfold by (auto simp: Let_def split: if_splits prod.splits)
  obtain lrm2 sm2 obs2 cs2 where ap: "apply_committed_entries S SM CO n st2 sm obs
      (lrm\<lparr>commit_index := min lc (st_last_log_index S st2)\<rparr>) = (lrm2, sm2, obs2, cs2)"
    by (metis prod_cases4)
  have parts: "res = None \<and> obs' = obs \<or> res = Some [] \<and> obs' = obs \<or> res = Some cs2 \<and> obs' = obs2"
    using run unfolding unfold Let_def by (simp add: ap split: if_splits)
  show "res = None \<or> res = Some []"
    using parts apply_committed_quiet(1) [OF ap co] by blast
  show "LeaderElected x t \<in> set obs' \<longleftrightarrow> LeaderElected x t \<in> set obs"
    using parts apply_committed_quiet(2) [OF ap co] by blast
qed

text \<open>Adopting a term: what a follower's storage holds after it.\<close>

definition adopted :: "log_term \<Rightarrow> log_term \<Rightarrow> 's \<Rightarrow> 's \<Rightarrow> bool" where
  "adopted ct t s s' \<longleftrightarrow> (commands_only s \<longrightarrow> commands_only s') \<and>
     v_term (view s') = (if ct < t then t else v_term (view s)) \<and>
     v_vote (view s') = (if ct < t then None else v_vote (view s))"

lemma adopted_frame:
  assumes "st1 = (if ct < t then st_set_voted_for S None (st_set_current_term S t st) else st)"
    and "ballot_frame st1 st2"
  shows "adopted ct t st st2"
  using assms by (auto simp: adopted_def ballot_frame_def set_term set_vote)

lemma handle_append_entries_quiet:
  assumes run: "lrm_handle_append_entries S SM CO n t prev pt es lc ct st sm rl obs lrm
                  = (lrm', ct', st', sm', rl', obs', msg, cs)"
    and cmds: "commands_only st" "\<forall>e\<in>set es. is_command e"
  shows "ct' = max ct t" and "adopted ct t st st'" and "cs = []"
    and "rl' = Follower \<or> rl' = rl \<and> t \<le> ct" and "\<exists>ok mi. msg = AppendEntriesResponse ct' ok mi"
    and "LeaderElected x tt \<in> set obs' \<longleftrightarrow> LeaderElected x tt \<in> set obs"
proof -
  define st1 where "st1 = (if ct < t then st_set_voted_for S None (st_set_current_term S t st) else st)"
  define rl1 where "rl1 = (if ct < t then Follower else if t = ct \<and> rl = Candidate then Follower else rl)"
  have pre: "(if ct < t then (t, st_set_voted_for S None (st_set_current_term S t st), Follower)
      else if t = ct \<and> rl = Candidate then (ct, st, Follower) else (ct, st, rl)) = (max ct t, st1, rl1)"
    by (auto simp: st1_def rl1_def max_def)
  have co: "commands_only st1"
    using cmds(1) by (simp add: st1_def)
  obtain lrm2 st2 sm2 obs2 res where
    run2: "try_append_entries S SM CO n prev pt es lc st1 sm obs lrm = (lrm2, st2, sm2, obs2, res)"
    by (metis prod_cases5)
  note quiet = try_append_quiet [OF run2 co cmds(2)]
  have parts: "ct' = max ct t \<and> rl' = rl1 \<and> (st' = st1 \<and> obs' = obs \<and> cs = [] \<or>
      st' = st2 \<and> obs' = obs2 \<and> cs = [])"
    "\<exists>ok mi. msg = AppendEntriesResponse ct' ok mi"
    using run quiet(2) unfolding lrm_handle_append_entries_def pre Let_def
    by (auto simp: run2 split: if_splits option.splits)
  then show "ct' = max ct t" "cs = []" "\<exists>ok mi. msg = AppendEntriesResponse ct' ok mi"
    "rl' = Follower \<or> rl' = rl \<and> t \<le> ct"
    by (auto simp: rl1_def split: if_splits)
  show "LeaderElected x tt \<in> set obs' \<longleftrightarrow> LeaderElected x tt \<in> set obs"
    using parts quiet(3) by auto
  have "ballot_frame st1 st'"
    using parts quiet(1) by auto
  then show "adopted ct t st st'"
    using adopted_frame [OF st1_def] by blast
qed

lemma handle_install_snapshot_quiet:
  assumes run: "lrm_handle_install_snapshot S SM t lid lii lit ofs d dn ct st sm rl lrm
                  = (lrm', ct', st', sm', rl', msg)"
  shows "ct' = max ct t" and "adopted ct t st st'" and "rl' = Follower \<or> rl' = rl \<and> t \<le> ct"
    and "\<exists>ok. msg = InstallSnapshotResponse ct' ok"
proof -
  define st1 where "st1 = (if ct < t then st_set_voted_for S None (st_set_current_term S t st) else st)"
  define rl1 where "rl1 = (if ct < t then Follower else if t = ct \<and> rl = Candidate then Follower else rl)"
  have pre: "\<not> t < ct \<Longrightarrow> (if ct < t then (t, st_set_voted_for S None (st_set_current_term S t st), Follower)
      else if t = ct \<and> rl = Candidate then (ct, st, Follower) else (ct, st, rl)) = (max ct t, st1, rl1)"
    by (auto simp: st1_def rl1_def max_def)
  obtain st2 r where ap: "st_apply_snapshot_chunk S ofs d dn lii lit st1 = (st2, r)"
    by fastforce
  then have fr2: "ballot_frame st1 st2"
    using ballot_frame_ops(5) [of st1 ofs d dn lii lit] by simp
  have fr3: "ballot_frame st1 (st_discard_entries_before S i st2)" for i
    by (rule ballot_frame_trans [OF fr2 ballot_frame_ops(3)])
  have cases: "ct' = max ct t \<and> (\<exists>ok. msg = InstallSnapshotResponse ct' ok) \<and>
      (t < ct \<and> st' = st \<and> rl' = rl \<or> \<not> t < ct \<and> rl' = rl1 \<and> ballot_frame st1 st')"
  proof (cases "t < ct")
    case True
    with run show ?thesis by (auto simp: lrm_handle_install_snapshot_def)
  next
    case False
    note run' = run [unfolded lrm_handle_install_snapshot_def if_not_P [OF False] pre [OF False] Let_def]
    show ?thesis
      using run' False fr2 fr3
      by (auto simp: ap split: if_splits sum.splits option.splits)
  qed
  then show "ct' = max ct t" "\<exists>ok. msg = InstallSnapshotResponse ct' ok"
    "rl' = Follower \<or> rl' = rl \<and> t \<le> ct"
    by (auto simp: rl1_def split: if_splits)
  show "adopted ct t st st'"
    using cases adopted_frame [OF st1_def]
    by (auto simp: adopted_def)
qed

lemma create_snapshot_quiet:
  "create_snapshot S SM i st sm = (st', r) \<Longrightarrow> ballot_frame st st'"
  by (auto simp: create_snapshot_def compact_log_def Let_def split: if_splits option.splits
      intro: ballot_frame_trans [OF ballot_frame_ops(4) ballot_frame_ops(3)])

end


section \<open>Steps of a node\<close>

locale election_env =
  storage: storage_frame "env_storage E" view + nodes: node_collection "nc_push (env_nodes E)"
  for E :: "('s, 'sm, 'ts, 'p) env" and view :: "'s \<Rightarrow> 'p log_view"
begin

abbreviation commands_only where
  "commands_only \<equiv> storage.commands_only"

text \<open>What is known of a node of a cluster whose members are \<open>M\<close>, after at most \<open>k\<close> events.\<close>

definition node_wf :: "nat \<Rightarrow> node_id set \<Rightarrow> ('s, 'sm, 'ts, 'p) raft_node \<Rightarrow> bool" where
  "node_wf k M n \<longleftrightarrow> rn_term n = v_term (view (rn_storage n)) \<and> rn_term n \<le> k \<and>
     distinct (node_members n) \<and> set (node_members n) = M \<and> rn_id n \<in> M \<and>
     commands_only (rn_storage n)"

text \<open>\<open>sends_ok k n n' out\<close>: going from \<open>n\<close> to \<open>n'\<close> the node sends \<open>out\<close>.\<close>

definition sends_ok ::
  "nat \<Rightarrow> ('s, 'sm, 'ts, 'p) raft_node \<Rightarrow> ('s, 'sm, 'ts, 'p) raft_node \<Rightarrow> (node_id \<times> 'p raft_msg) list \<Rightarrow> bool" where
  "sends_ok k n n' out \<longleftrightarrow> rn_outbox n' = rn_outbox n @ out \<and> (\<forall>(to, m)\<in>set out. msg_ok k (rn_id n) m)"

definition still ::
  "nat \<Rightarrow> node_id set \<Rightarrow> ('s, 'sm, 'ts, 'p) raft_node \<Rightarrow> ('s, 'sm, 'ts, 'p) raft_node \<Rightarrow> bool" where
  "still k M n n' \<longleftrightarrow> node_wf k M n' \<and> rn_id n' = rn_id n \<and> eview E n' = eview E n \<and>
     (\<exists>out. sends_ok k n n' out \<and> ballots out = [])"

definition step_ok ::
  "nat \<Rightarrow> node_id set \<Rightarrow> (node_id \<times> ballot) option \<Rightarrow> ('s, 'sm, 'ts, 'p) raft_node
   \<Rightarrow> ('s, 'sm, 'ts, 'p) raft_node \<Rightarrow> bool" where
  "step_ok k M trig n n' \<longleftrightarrow> node_wf k M n' \<and> rn_id n' = rn_id n \<and>
     (\<exists>out. sends_ok k n n' out \<and>
        ballot_step M (rn_id n) trig (eview E n) (eview E n') (ballots out))"

lemma node_wf_mono: "node_wf k M n \<Longrightarrow> k \<le> k' \<Longrightarrow> node_wf k' M n"
  by (simp add: node_wf_def)

lemma sends_ok_Nil [simp]: "sends_ok k n n' [] \<longleftrightarrow> rn_outbox n' = rn_outbox n"
  by (simp add: sends_ok_def)

lemma sends_ok_trans:
  "sends_ok k n n1 o1 \<Longrightarrow> sends_ok k n1 n2 o2 \<Longrightarrow> rn_id n1 = rn_id n \<Longrightarrow> sends_ok k n n2 (o1 @ o2)"
  by (auto simp: sends_ok_def)

lemma still_trans:
  assumes "still k M n n1" and "still k M n1 n2"
  shows "still k M n n2"
proof -
  from assms obtain o1 o2 where "sends_ok k n n1 o1" "ballots o1 = []" "sends_ok k n1 n2 o2" "ballots o2 = []"
    by (auto simp: still_def)
  with assms sends_ok_trans [of k n n1 o1 n2 o2] show ?thesis
    by (auto simp: still_def intro!: exI [of _ "o1 @ o2"])
qed

lemma still_step:
  assumes "still k M n n1" and "step_ok k M trig n1 n2"
  shows "step_ok k M trig n n2"
proof -
  from assms obtain o1 o2 where "sends_ok k n n1 o1" "ballots o1 = []" "sends_ok k n1 n2 o2"
    "ballot_step M (rn_id n) trig (eview E n) (eview E n2) (ballots o2)"
    by (auto simp: still_def step_ok_def)
  with assms sends_ok_trans [of k n n1 o1 n2 o2] show ?thesis
    by (auto simp: still_def step_ok_def intro!: exI [of _ "o1 @ o2"])
qed

lemma step_still:
  assumes "step_ok k M trig n n1" and "still k M n1 n2"
  shows "step_ok k M trig n n2"
proof -
  from assms obtain o1 o2 where "sends_ok k n n1 o1" "ballots o2 = []" "sends_ok k n1 n2 o2"
    "ballot_step M (rn_id n) trig (eview E n) (eview E n1) (ballots o1)"
    by (auto simp: still_def step_ok_def)
  with assms sends_ok_trans [of k n n1 o1 n2 o2] show ?thesis
    by (auto simp: still_def step_ok_def intro!: exI [of _ "o1 @ o2"])
qed

lemma still_is_step: "still k M n n' \<Longrightarrow> step_ok k M trig n n'"
  by (fastforce simp: still_def step_ok_def intro: ballot_step.quiet)

text \<open>
  The usual way to see that a part of a handler is still: it leaves the fields the abstraction
  reads as they were.
\<close>

lemma stillI:
  assumes "node_wf k M n" and "rn_id n' = rn_id n" "rn_term n' = rn_term n" "rn_role n' = rn_role n"
    and "votes_received (rn_election n') = votes_received (rn_election n)"
    and "storage.ballot_frame (rn_storage n) (rn_storage n')"
    and "cm_config (rn_config n') = cm_config (rn_config n)"
    and "\<And>t. LeaderElected (rn_id n) t \<in> set (rn_observed n') \<longleftrightarrow> LeaderElected (rn_id n) t \<in> set (rn_observed n)"
    and "rn_outbox n' = rn_outbox n @ out" and "\<forall>(to, m)\<in>set out. msg_ok k (rn_id n) m \<and> ballot_of m = None"
  shows "still k M n n'"
proof -
  have "eview E n' = eview E n"
    using assms(2-6,8) by (intro eview_eqI) (auto simp: storage.get_vote storage.ballot_frame_def)
  moreover have "ballots out = []"
    using assms(10) by (intro ballots_none) auto
  ultimately show ?thesis
    using assms by (auto simp: still_def node_wf_def sends_ok_def storage.ballot_frame_def)
qed

lemma still_silent:
  assumes "node_wf k M n" and "rn_id n' = rn_id n" "rn_term n' = rn_term n" "rn_role n' = rn_role n"
    and "votes_received (rn_election n') = votes_received (rn_election n)"
    and "storage.ballot_frame (rn_storage n) (rn_storage n')"
    and "cm_config (rn_config n') = cm_config (rn_config n)"
    and "\<And>t. LeaderElected (rn_id n) t \<in> set (rn_observed n') \<longleftrightarrow> LeaderElected (rn_id n) t \<in> set (rn_observed n)"
    and "rn_outbox n' = rn_outbox n"
  shows "still k M n n'"
  using assms by (intro stillI [where out = "[]"]) auto

lemma still_refl: "node_wf k M n \<Longrightarrow> still k M n n"
  by (rule still_silent) auto

lemma still_wf: "still k M n n' \<Longrightarrow> node_wf k M n'"
  by (simp add: still_def)

lemma still_observe:
  "node_wf k M n \<Longrightarrow> (\<And>t. ev \<noteq> LeaderElected (rn_id n) t) \<Longrightarrow> still k M n (observe ev n)"
  by (rule still_silent) auto

lemma still_send:
  "node_wf k M n \<Longrightarrow> msg_ok k (rn_id n) m \<Longrightarrow> ballot_of m = None \<Longrightarrow> still k M n (send to m n)"
  by (rule stillI [where out = "[(to, m)]"]) auto

end

end
