(* ===== verification/Node_Steps.thy ===== *)
theory Node_Steps
  imports Node_Election
begin

text \<open>
  Every handler of \<open>Message_Handler\<close> makes a step of the election protocol, and so does
  \<open>on_event\<close>: the refinement of the protocol at a single node.  Membership changes are excluded
  here (the event \<open>ConfigChangeEvent\<close> and configuration entries in messages and logs).
\<close>

text \<open>The ballot an event brings, and what is assumed of an event.\<close>

fun trigger_of :: "'p event \<Rightarrow> (node_id \<times> ballot) option" where
  "trigger_of (Message from m) = map_option (Pair from) (ballot_of m)"
| "trigger_of _ = None"

fun event_ok :: "nat \<Rightarrow> 'p event \<Rightarrow> bool" where
  "event_ok k (Message from m) \<longleftrightarrow> msg_ok k from m"
| "event_ok k (ConfigChangeEvent _) \<longleftrightarrow> False"
| "event_ok k _ \<longleftrightarrow> True"

lemma send_append_entries_eq:
  "send_append_entries_to_followers E n =
     n\<lparr>rn_outbox := rn_outbox n @ map (\<lambda>p. (p, get_append_entries_for_peer (env_maps E) (env_storage E) p
        (rn_id n) (rn_storage n) (rn_replication n))) (peer_ids E n)\<rparr>"
proof -
  have "fold (\<lambda>peer c. send peer (get_append_entries_for_peer (env_maps E) (env_storage E) peer
             (rn_id c) (rn_storage c) (rn_replication c)) c) ps n =
      n\<lparr>rn_outbox := rn_outbox n @ map (\<lambda>p. (p, get_append_entries_for_peer (env_maps E) (env_storage E) p
        (rn_id n) (rn_storage n) (rn_replication n))) ps\<rparr>" for ps
    by (induction ps arbitrary: n) (simp_all add: send_def)
  then show ?thesis by (simp add: send_append_entries_to_followers_def)
qed

lemma majority_quorum:
  assumes "distinct (members c)" and "set (members c) = M" and "M \<noteq> {}"
  shows "has_quorum c k \<longleftrightarrow> majority M k"
proof -
  have "config_size c = card M" and "0 < card M"
    using assms distinct_card [of "members c"] by (auto simp: config_size_def)
  then show ?thesis by (auto simp: has_quorum_def quorum_size_def majority_def)
qed

context election_env begin

lemma peer_message_ok:
  assumes "node_wf k M n"
  shows "msg_ok k f (get_append_entries_for_peer MO (env_storage E) p lid (rn_storage n) lrm) \<and>
     ballot_of (get_append_entries_for_peer MO (env_storage E) p lid (rn_storage n) lrm) = None"
proof -
  let ?t = "st_current_term (env_storage E) (rn_storage n)"
  have t: "?t \<le> k"
    using assms by (simp add: node_wf_def storage.get_term)
  have "e \<in> set (st_get_entries (env_storage E) (rn_storage n) a b) \<Longrightarrow> is_command e" for e a b
    using assms storage.get_entries_in_log by (fastforce simp: node_wf_def storage.commands_only_def)
  with t have "msg_ok k f (get_append_entries_for_follower MO (env_storage E) p ?t (rn_storage n) lrm)"
    "ballot_of (get_append_entries_for_follower MO (env_storage E) p ?t (rn_storage n) lrm) = None"
    by (auto simp: get_append_entries_for_follower_def msg_ok_def Let_def)
  with t show ?thesis
    by (auto simp: get_append_entries_for_peer_def Let_def msg_ok_def split: option.splits)
qed

lemma still_send_append_entries:
  assumes "node_wf k M n"
  shows "still k M n (send_append_entries_to_followers E n)"
  by (rule stillI [OF assms]) (use peer_message_ok [OF assms] in \<open>auto simp: send_append_entries_eq\<close>)

lemma still_heartbeat_timer:
  assumes "node_wf k M n"
  shows "still k M n (handle_heartbeat_timer E n)"
proof -
  let ?n1 = "observe (ObsTimerFired (rn_id n) ObserverHeartbeat (rn_term n)) n"
  have 1: "still k M n ?n1" using assms by (intro still_observe) auto
  have 2: "still k M ?n1 (send_append_entries_to_followers E ?n1)"
    using 1 by (intro still_send_append_entries) (rule still_wf)
  have "still k M m (m\<lparr>rn_election := (rn_election m)\<lparr>timer_service := ts\<rparr>\<rparr>)" if "node_wf k M m" for m ts
    by (rule still_silent [OF that]) simp_all
  from still_trans [OF still_trans [OF 1 2] this [OF still_wf [OF 2]]] 1
  show ?thesis by (auto simp: handle_heartbeat_timer_def send_heartbeats_def Let_def)
qed

lemma still_start_pre_vote:
  assumes "node_wf k M n"
  shows "still k M n (start_pre_vote E n)"
  by (rule stillI [OF assms, where out = "map (\<lambda>p. (p, PreVoteRequest (rn_term n) (rn_id n)
        (st_last_log_index (env_storage E) (rn_storage n)) (st_last_log_term (env_storage E) (rn_storage n))))
        (peer_ids E n)"])
    (use assms in \<open>auto simp: start_pre_vote_def rt_start_pre_vote_def em_start_pre_vote_def Let_def
        broadcast_eq peer_ids_def msg_ok_def node_wf_def\<close>)

lemma still_pre_vote_request:
  assumes "node_wf k M n"
  shows "still k M n (handle_pre_vote_request E from trm cand lli llt n)"
  by (rule stillI [OF assms, where out = "[(from, em_handle_pre_vote_request (env_storage E) trm lli llt
        (rn_term n) (rn_storage n))]"])
    (use assms in \<open>auto simp: handle_pre_vote_request_def em_handle_pre_vote_request_def Let_def
        msg_ok_def node_wf_def\<close>)

section \<open>Becoming leader\<close>

lemma become_leader_steps:
  assumes wf: "node_wf k M n" and n1: "n1 = n\<lparr>rn_role := Leader,
      rn_observed := rn_observed n @ [RoleChanged (rn_id n) (node_state_to_role (rn_role n)) RoleLeader (rn_term n),
        LeaderElected (rn_id n) (rn_term n)]\<rparr>"
  shows "still k M n1 (become_leader E n)"
proof -
  define em where "em = (rn_election n)\<lparr>timer_service := ts_reset_heartbeat (env_timers E)
      (ts_stop_timers (env_timers E) (timer_service (rn_election n)))\<rparr>"
  define lrm where "lrm = initialize_leader_state (env_maps E) (env_storage E) (node_members n)
      (rn_storage n) (rn_replication n)"
  have eq: "become_leader E n = send_append_entries_to_followers E
      (n1\<lparr>rn_election := em, rn_replication := lrm\<rparr>)" and "votes_received em = votes_received (rn_election n)"
    by (cases n, simp add: become_leader_def rt_become_leader_def n1 em_def lrm_def)
      (simp add: em_def)
  then have "still k M n1 (n1\<lparr>rn_election := em, rn_replication := lrm\<rparr>)"
    using wf by (intro still_silent) (simp_all add: n1 node_wf_def)
  from still_trans [OF this still_send_append_entries [OF still_wf [OF this]]] show ?thesis
    by (simp add: eq)
qed

lemma peer_ids_distinct:
  assumes "node_wf k M n"
  shows "distinct (peer_ids E n)" and "rn_id n \<notin> set (peer_ids E n)" and "set (peer_ids E n) \<subseteq> M"
proof -
  let ?all = "peers (cm_config (rn_config n)) (rn_id n)"
  obtain zs where "subseq zs ?all" and "peer_ids E n = zs"
    using nodes.extend_ok_prefix [of ?all "[]"] by (auto simp: peer_ids_def)
  then obtain N where eq: "peer_ids E n = nths ?all N"
    by (auto simp: subseq_conv_nths)
  have "distinct ?all"
    using assms by (simp add: peers_def node_wf_def)
  then show "distinct (peer_ids E n)"
    by (simp add: eq distinct_nthsI)
  have "set (peer_ids E n) \<subseteq> set ?all"
    by (simp only: eq set_nths_subset)
  then show "rn_id n \<notin> set (peer_ids E n)" "set (peer_ids E n) \<subseteq> M"
    using assms by (auto simp: node_wf_def)
qed

lemma start_election_step:
  assumes wf: "node_wf k M n" and lim: "Suc k < u64_limit"
  shows "step_ok (Suc k) M trig n (start_election E n)"
proof -
  let ?S = "env_storage E" and ?t = "rn_term n + 1" and ?ps = "peer_ids E n"
  let ?st = "st_set_voted_for ?S (Some (rn_id n)) (st_set_current_term ?S ?t (rn_storage n))"
  let ?req = "RequestVote ?t (rn_id n) (st_last_log_index ?S ?st) (st_last_log_term ?S ?st)"
  have t: "u64_add (rn_term n) 1 = ?t"
    using wf lim by (simp add: u64_simps node_wf_def)
  define n1 where "n1 = broadcast E ?req (n\<lparr>rn_election :=
      em_reset_election_timer (env_timers E) ((rn_election n)\<lparr>votes_received := [rn_id n], in_pre_vote := False\<rparr>),
      rn_term := ?t, rn_storage := ?st, rn_role := Candidate,
      rn_observed := rn_observed n @ [ElectionStarted (rn_id n) ?t,
        RoleChanged (rn_id n) (node_state_to_role (rn_role n)) RoleCandidate ?t, VotedFor (rn_id n) (rn_id n) ?t]\<rparr>)"
  have eq: "start_election E n = (if length (node_members n1) \<le> 1 then become_leader E n1 else n1)"
    by (simp add: start_election_def rt_start_election_def em_start_election_def Let_def t
        [unfolded One_nat_def] n1_def nodes.push_ok_Nil)
  have ids: "peer_ids E (n\<lparr>rn_election := em, rn_term := tt, rn_storage := s, rn_role := r, rn_observed := ob\<rparr>) = ?ps"
    for em tt s r ob by (simp add: peer_ids_def)
  have wf1: "node_wf (Suc k) M n1"
    using wf by (simp add: node_wf_def n1_def broadcast_eq storage.set_term storage.set_vote)
  have out: "sends_ok (Suc k) n n1 (map (\<lambda>p. (p, ?req)) ?ps)"
    using wf by (auto simp: sends_ok_def n1_def broadcast_eq ids msg_ok_def node_wf_def)
  have e1: "eview E n1 = (eview E n)\<lparr>ev_term := ?t, ev_vote := Some (rn_id n), ev_role := Candidate,
      ev_votes := [rn_id n]\<rparr>"
    by (simp add: eview_def n1_def broadcast_eq storage.get_vote storage.set_vote)
  have id1: "rn_id n1 = rn_id n" and "rn_term n1 = ?t" and mem1: "node_members n1 = node_members n"
    by (simp_all add: n1_def broadcast_eq)
  note ps = peer_ids_distinct [OF wf]
  show ?thesis
  proof (cases "length (node_members n1) \<le> 1")
    case False
    have "ballot_step M (rn_id n) trig (eview E n) (eview E n1) (map (\<lambda>p. (p, Ask ?t)) ?ps)"
      unfolding e1 by (rule ballot_step.elect) (use ps in simp_all)
    with False wf1 id1 out show ?thesis
      by (auto simp: eq step_ok_def ballots_request intro!: exI [of _ "map (\<lambda>p. (p, ?req)) ?ps"])
  next
    case True
    define n2 where "n2 = n1\<lparr>rn_role := Leader,
      rn_observed := rn_observed n1 @ [RoleChanged (rn_id n1) (node_state_to_role (rn_role n1)) RoleLeader (rn_term n1),
        LeaderElected (rn_id n1) (rn_term n1)]\<rparr>"
    have "M \<noteq> {}" and card: "card M = length (node_members n)"
      using wf distinct_card [of "node_members n"] by (auto simp: node_wf_def)
    then have "majority M 1"
      using True mem1 by (simp add: majority_def)
    have e2: "eview E n2 = (eview E n)\<lparr>ev_term := ?t, ev_vote := Some (rn_id n), ev_role := Leader,
        ev_votes := [rn_id n], ev_won := insert ?t (ev_won (eview E n))\<rparr>"
      by (auto simp: n2_def eview_def n1_def broadcast_eq storage.get_vote storage.set_vote)
    have "ballot_step M (rn_id n) trig (eview E n) (eview E n2) (map (\<lambda>p. (p, Ask ?t)) ?ps)"
      unfolding e2 by (rule ballot_step.elect_alone) (use ps \<open>majority M 1\<close> in simp_all)
    moreover have "node_wf (Suc k) M n2" "rn_id n2 = rn_id n"
      using wf1 id1 by (simp_all add: n2_def node_wf_def)
    moreover have "sends_ok (Suc k) n n2 (map (\<lambda>p. (p, ?req)) ?ps)"
      using out by (simp add: sends_ok_def n2_def)
    ultimately have "step_ok (Suc k) M trig n n2"
      by (auto simp: step_ok_def ballots_request intro!: exI [of _ "map (\<lambda>p. (p, ?req)) ?ps"])
    from step_still [OF this become_leader_steps [OF wf1 n2_def]] True show ?thesis
      by (simp add: eq)
  qed
qed

section \<open>Election handlers\<close>

lemma still_mono:
  assumes "still k M n n'" and "k \<le> k'"
  shows "still k' M n n'"
proof -
  from assms obtain out where "sends_ok k n n' out" "ballots out = []"
    by (auto simp: still_def)
  moreover from this(1) assms(2) have "sends_ok k' n n' out"
    by (auto simp: sends_ok_def dest: msg_ok_mono)
  ultimately show ?thesis
    using assms by (auto simp: still_def dest: node_wf_mono)
qed

lemma still_election_timer:
  assumes wf: "node_wf k M n" and lim: "Suc k < u64_limit"
  shows "step_ok (Suc k) M trig n (handle_election_timer E n)"
proof -
  let ?n1 = "observe (ObsTimerFired (rn_id n) ObserverElection (rn_term n)) n"
  let ?n2 = "observe (ElectionTimeout (rn_id ?n1) (rn_term ?n1)) ?n1"
  have 1: "still k M n ?n1" using wf by (intro still_observe) auto
  have 2: "still k M ?n1 ?n2" using still_wf [OF 1] by (intro still_observe) auto
  have 3: "still k M n (start_pre_vote E ?n2)"
    by (rule still_trans [OF still_trans [OF 1 2] still_start_pre_vote [OF still_wf [OF 2]]])
  have up: "still (Suc k) M n n' \<Longrightarrow> step_ok (Suc k) M trig n n'" for n'
    by (rule still_is_step)
  show ?thesis
    using up [OF still_mono [OF 1]] up [OF still_mono [OF 3]]
      still_step [OF still_mono [OF 3] start_election_step [OF still_wf [OF 3] lim]]
    by (auto simp: handle_election_timer_def Let_def)
qed

lemma pre_vote_response_step:
  assumes wf: "node_wf k M n" and lim: "Suc k < u64_limit"
  shows "step_ok (Suc k) M trig n (handle_pre_vote_response E from trm granted n)"
proof -
  obtain em start where run: "em_handle_pre_vote_response (env_nodes E) from granted
      (cm_config (rn_config n)) (rn_election n) = (em, start)"
    by fastforce
  let ?n1 = "n\<lparr>rn_election := em\<rparr>"
  let ?n2 = "observe (PreVoteSucceeded (rn_id ?n1) (rn_term ?n1)) ?n1"
  have 1: "still k M n ?n1"
    using handle_pre_vote_response_frame [OF run] by (intro still_silent [OF wf]) auto
  have 2: "still k M n ?n2"
    by (rule still_trans [OF 1 still_observe [OF still_wf [OF 1]]]) simp
  have 0: "still k M n n" by (rule still_refl [OF wf])
  show ?thesis
    using still_is_step [OF still_mono [OF 0]] still_is_step [OF still_mono [OF 1]]
      still_step [OF still_mono [OF 2] start_election_step [OF still_wf [OF 2] lim]]
    by (auto simp: handle_pre_vote_response_def run Let_def)
qed

lemma elected_step_down [simp]:
  "LeaderElected x t \<in> set (rn_observed (step_down E t' n)) \<longleftrightarrow> LeaderElected x t \<in> set (rn_observed n)"
  by (auto simp: step_down_def rt_step_down_def Let_def)

lemma validate_view:
  assumes wf: "node_wf k M n" and t: "trm \<le> k"
    and run: "validate_term_and_step_down E trm n = (n1, stepped_down)"
  shows "eview E n1 = adopt_term trm (eview E n)" and "node_wf (Suc k) M n1"
    and "rn_outbox n1 = rn_outbox n" and "rn_id n1 = rn_id n" and "rn_term n1 = max (rn_term n) trm"
    and "stepped_down \<longleftrightarrow> rn_term n < trm" and "\<not> stepped_down \<Longrightarrow> n1 = n"
  using assms
  by (auto simp: validate_term_and_step_down_def adopt_term_def node_wf_def storage.set_term
      storage.set_vote storage.get_vote eview_def split: if_splits)

lemma adopt_step: "ballot_step M i trig e (adopt_term t e) []"
proof (cases "ev_term e < t")
  case True
  then show ?thesis by (rule ballot_step.adopt)
next
  case False
  then show ?thesis by (simp add: adopt_term_def ballot_step.quiet)
qed

lemma validate_step:
  assumes "node_wf k M n" and "trm \<le> k" and "validate_term_and_step_down E trm n = (n1, sd)"
  shows "step_ok (Suc k) M trig n n1"
proof -
  note n1 = validate_view(1-4) [OF assms]
  have "sends_ok (Suc k) n n1 []" "ballot_step M (rn_id n) trig (eview E n) (eview E n1) (ballots [])"
    using n1(3) adopt_step by (simp_all add: n1(1))
  then show ?thesis
    using n1(2,4) unfolding step_ok_def by blast
qed

lemma vote_request_step:
  assumes wf: "node_wf k M n" and ok: "msg_ok k from (RequestVote trm cand lli llt)"
  shows "step_ok (Suc k) M (Some (from, Ask trm)) n (handle_vote_request E from trm cand lli llt n)"
proof -
  have t: "trm \<le> k" and cand: "cand = from"
    using ok by (auto simp: msg_ok_def)
  obtain n1 sd where val: "validate_term_and_step_down E trm n = (n1, sd)" by fastforce
  note n1 = validate_view [OF wf t val]
  obtain em ct st msg where run: "em_handle_vote_request (env_timers E) (env_storage E) trm cand lli llt
      (rn_term n1) (rn_storage n1) (rn_election n1) = (em, ct, st, msg)"
    by (metis prod_cases4)
  define n2 where "n2 = send from msg (n1\<lparr>rn_election := em, rn_term := ct, rn_storage := st\<rparr>)"
  have eq: "handle_vote_request E from trm cand lli llt n = n2"
    by (simp add: handle_vote_request_def val run n2_def)
  obtain granted where msg: "msg = RequestVoteResponse ct granted" and ct: "ct = rn_term n1"
    and frame: "v_log (view st) = v_log (view (rn_storage n1))"
      "v_term (view st) = v_term (view (rn_storage n1))" "votes_received em = votes_received (rn_election n1)"
    and yes: "granted \<Longrightarrow> trm = ct \<and> v_vote (view st) = Some cand \<and>
           (v_vote (view (rn_storage n1)) = None \<or> v_vote (view (rn_storage n1)) = Some cand)"
    and no: "\<not> granted \<Longrightarrow> v_vote (view st) = v_vote (view (rn_storage n1))"
    using storage.handle_vote_request_spec [OF run] n1(5) by (metis max.cobounded2 max_absorb1 not_le)
  have wf2: "node_wf (Suc k) M n2"
    using n1(2) ct frame by (simp add: n2_def node_wf_def storage.commands_only_def)
  have out: "sends_ok (Suc k) n n2 [(from, msg)]"
    using n1(2-4) ct by (auto simp: sends_ok_def n2_def msg msg_ok_def node_wf_def)
  have view2: "eview E n2 = (eview E n1)\<lparr>ev_vote := v_vote (view st)\<rparr>"
    using ct frame by (simp add: n2_def eview_def storage.get_vote)
  have "ballot_step M (rn_id n) (Some (from, Ask trm)) (eview E n) (eview E n2) (ballots [(from, msg)])"
  proof (cases granted)
    case True
    with yes have "trm = rn_term n1" "v_vote (view st) = Some from" using ct cand by auto
    moreover have "ev_vote (eview E n1) = None \<or> ev_vote (eview E n1) = Some from"
      using yes [OF True] cand by (simp add: storage.get_vote)
    moreover have "rn_term n \<le> trm" using n1(5) \<open>trm = rn_term n1\<close> by simp
    ultimately show ?thesis
      unfolding view2 n1(1) using True ct by (auto simp: msg n1(1) intro!: ballot_step.grant)
  next
    case False
    then have "eview E n2 = eview E n1"
      using view2 no by (simp add: eview_def storage.get_vote)
    then show ?thesis using False adopt_step by (simp add: msg n1(1))
  qed
  with wf2 out n1(4) show ?thesis
    by (auto simp: eq step_ok_def n2_def)
qed

lemma vote_response_step:
  assumes wf: "node_wf k M n" and t: "trm \<le> k"
  shows "step_ok (Suc k) M (map_option (Pair from) (ballot_of (RequestVoteResponse trm granted))) n
           (handle_vote_response E from trm granted n)"
proof -
  obtain n1 sd where val: "validate_term_and_step_down E trm n = (n1, sd)" by fastforce
  note n1 = validate_view [OF wf t val]
  have wf': "node_wf (Suc k) M n" by (rule node_wf_mono [OF wf]) simp
  show ?thesis
  proof (cases "sd \<or> rn_role n \<noteq> Candidate \<or> trm \<noteq> rn_term n \<or> \<not> granted")
    case True
    then have "handle_vote_response E from trm granted n = n1"
      using n1(6,7) by (auto simp: handle_vote_response_def val em_handle_vote_response_def)
    then show ?thesis using validate_step [OF wf t val] by simp
  next
    case False
    then have same: "n1 = n" and cand: "rn_role n = Candidate" "trm = rn_term n" granted
      using n1(7) by auto
    define vs where "vs = push_ok (nc_push (env_nodes E)) from (votes_received (rn_election n))"
    define n2 where "n2 = n\<lparr>rn_election := (rn_election n)\<lparr>votes_received := vs\<rparr>\<rparr>"
    have eq: "handle_vote_response E from trm granted n =
        (if has_quorum (cm_config (rn_config n)) (length vs) then become_leader E n2 else n2)"
      unfolding handle_vote_response_def val same
      using False by (simp add: em_handle_vote_response_def Let_def vs_def n2_def)
    have vs: "vs = votes_received (rn_election n) \<or> vs = votes_received (rn_election n) @ [from]"
      unfolding vs_def by (rule nodes.push_ok_cases)
    have quorum: "has_quorum (cm_config (rn_config n)) q \<longleftrightarrow> majority M q" for q
      using wf by (intro majority_quorum) (auto simp: node_wf_def)
    have trig: "map_option (Pair from) (ballot_of (RequestVoteResponse trm granted)) = Some (from, Grant trm)"
      using cand(3) by simp
    have wf2: "node_wf (Suc k) M n2"
      using wf' by (simp add: n2_def node_wf_def)
    have e2: "eview E n2 = (eview E n)\<lparr>ev_votes := vs\<rparr>"
      by (simp add: eview_def n2_def)
    show ?thesis
    proof (cases "majority M (length vs)")
      case False
      have "ballot_step M (rn_id n) (Some (from, Grant trm)) (eview E n) (eview E n2) []"
        unfolding e2 using cand vs ballot_step.collect [of "eview E n" vs "from" M "rn_id n"] by simp
      then have "step_ok (Suc k) M (Some (from, Grant trm)) n n2"
        using wf2 by (auto simp: step_ok_def n2_def intro!: exI [of _ "[]"])
      then show ?thesis
        using False unfolding eq quorum trig by simp
    next
      case True
      define n3 where "n3 = n2\<lparr>rn_role := Leader,
        rn_observed := rn_observed n2 @ [RoleChanged (rn_id n2) (node_state_to_role (rn_role n2)) RoleLeader (rn_term n2),
          LeaderElected (rn_id n2) (rn_term n2)]\<rparr>"
      have "eview E n3 = (eview E n)\<lparr>ev_votes := vs, ev_role := Leader,
          ev_won := insert (rn_term n) (ev_won (eview E n))\<rparr>"
        by (auto simp: eview_def n2_def n3_def)
      then have "ballot_step M (rn_id n) (Some (from, Grant trm)) (eview E n) (eview E n3) []"
        using cand vs True ballot_step.win [of "eview E n" vs "from" M "rn_id n"] by simp
      moreover have "node_wf (Suc k) M n3"
        using wf2 by (simp add: n3_def node_wf_def)
      ultimately have "step_ok (Suc k) M (Some (from, Grant trm)) n n3"
        by (auto simp: step_ok_def n2_def n3_def intro!: exI [of _ "[]"])
      from step_still [OF this become_leader_steps [OF wf2 n3_def]] show ?thesis
        using True unfolding eq quorum trig by simp
    qed
  qed
qed

section \<open>Replication handlers\<close>

lemma append_entries_step:
  assumes wf: "node_wf k M n" and ok: "msg_ok k from (AppendEntries trm prev pt es lc)"
  shows "step_ok (Suc k) M None n (handle_append_entries E from trm prev pt es lc n)"
proof -
  have t: "trm \<le> k" and es: "\<forall>e\<in>set es. is_command e"
    using ok by (auto simp: msg_ok_def)
  obtain n1 sd where val: "validate_term_and_step_down E trm n = (n1, sd)" by fastforce
  note n1 = validate_view [OF wf t val]
  show ?thesis
  proof (cases sd)
    case True
    then have "handle_append_entries E from trm prev pt es lc n = n1"
      by (simp add: handle_append_entries_def val)
    then show ?thesis using validate_step [OF wf t val] by simp
  next
    case False
    with n1(6,7) have same: "n1 = n" and le: "trm \<le> rn_term n" by auto
    define n2 where "n2 = (reset_election_timer_if_valid_term E trm n)\<lparr>rn_leader := Some from\<rparr>"
    obtain lrm ct st sm rl obs msg cs where run: "lrm_handle_append_entries (env_storage E) (env_machine E)
        (env_changes E) (rn_id n2) trm prev pt es lc (rn_term n2) (rn_storage n2) (rn_machine n2)
        (rn_role n2) (rn_observed n2) (rn_replication n2) = (lrm, ct, st, sm, rl, obs, msg, cs)"
      using prod.exhaust by metis
    define n4 where "n4 = send from msg (n2\<lparr>rn_replication := lrm, rn_term := ct, rn_storage := st,
        rn_machine := sm, rn_role := rl, rn_observed := obs\<rparr>)"
    have "commands_only (rn_storage n2)"
      using wf by (simp add: n2_def node_wf_def)
    note quiet = storage.handle_append_entries_quiet [OF run this es]
    have eq: "handle_append_entries E from trm prev pt es lc n = n4"
      using quiet(3) unfolding handle_append_entries_def val
      by (simp add: False same n2_def [symmetric] run n4_def)
    have ct: "ct = rn_term n"
      using quiet(1) le by (simp add: n2_def)
    have st: "commands_only st" "v_term (view st) = v_term (view (rn_storage n))"
      "v_vote (view st) = v_vote (view (rn_storage n))"
      using quiet(2) wf le by (auto simp: storage.adopted_def n2_def node_wf_def)
    have wf4: "node_wf (Suc k) M n4"
      using wf ct st by (simp add: n4_def n2_def node_wf_def)
    have out: "sends_ok (Suc k) n n4 [(from, msg)]" and noballot: "ballots [(from, msg)] = []"
      using quiet(5) wf ct by (auto simp: sends_ok_def n4_def n2_def msg_ok_def node_wf_def)
    have "ballot_step M (rn_id n) None (eview E n) (eview E n4) []"
    proof (rule ballot_step.quiet)
      show "ev_role (eview E n4) = ev_role (eview E n) \<and> ev_votes (eview E n4) = ev_votes (eview E n) \<or>
          ev_role (eview E n4) = Follower"
        using quiet(4) by (auto simp: n4_def n2_def)
    qed (use ct st quiet(6) in \<open>simp_all add: n4_def n2_def eview_def storage.get_vote\<close>)
    with wf4 out noballot show ?thesis
      unfolding eq step_ok_def by (auto simp: n4_def n2_def intro!: exI [of _ "[(from, msg)]"])
  qed
qed

lemma still_create_snapshot:
  assumes "node_wf k M n"
  shows "still k M n (create_snapshot_internal E n)"
proof -
  obtain st r where run: "create_snapshot (env_storage E) (env_machine E) (commit_index (rn_replication n))
      (rn_storage n) (rn_machine n) = (st, r)" by fastforce
  have "still k M n (n\<lparr>rn_storage := st\<rparr>)"
    using storage.create_snapshot_quiet [OF run] by (intro still_silent [OF assms]) simp_all
  then show ?thesis by (simp add: create_snapshot_internal_def run)
qed

lemma append_entries_response_step:
  assumes wf: "node_wf k M n" and t: "trm \<le> k"
  shows "step_ok (Suc k) M None n (handle_append_entries_response E from trm success mi n)"
proof -
  obtain n1 sd where val: "validate_term_and_step_down E trm n = (n1, sd)" by fastforce
  note n1 = validate_view [OF wf t val]
  show ?thesis
  proof (cases "sd \<or> \<not> (rn_role n1 = Leader \<and> trm = rn_term n1)")
    case True
    then have "handle_append_entries_response E from trm success mi n = n1"
      unfolding handle_append_entries_response_def val by auto
    then show ?thesis using validate_step [OF wf t val] by simp
  next
    case False
    with n1(7) have same: "n1 = n" by simp
    have wf': "node_wf (Suc k) M n" by (rule node_wf_mono [OF wf]) simp
    obtain lrm sm obs cs where run: "lrm_handle_append_entries_response (env_maps E) (env_storage E)
        (env_machine E) (env_changes E) from success mi (cm_config (rn_config n)) (rn_id n) (rn_id n)
        (rn_storage n) (rn_machine n) (rn_observed n) (rn_replication n) = (lrm, sm, obs, cs)"
      by (metis prod_cases4)
    have "commands_only (rn_storage n)" using wf by (simp add: node_wf_def)
    note quiet = storage.ae_response_quiet [OF run this]
    define n2 where "n2 = n\<lparr>rn_replication := lrm, rn_machine := sm, rn_observed := obs\<rparr>"
    define n3 where "n3 = observe (CommitAdvanced (rn_id n2) (commit_index (rn_replication n))
        (commit_index (rn_replication n2))) n2"
    define n4 where "n4 = n3\<lparr>rn_lease := lease_grant (rn_lease n3)\<rparr>"
    have eq: "handle_append_entries_response E from trm success mi n =
        (if commit_index (rn_replication n) < commit_index (rn_replication n2)
         then if node_should_create_snapshot E n4 then create_snapshot_internal E n4 else n4
         else n2)"
      using False quiet(1) unfolding handle_append_entries_response_def val same
      by (simp add: run n2_def n3_def n4_def Let_def)
    have 2: "still (Suc k) M n n2"
      using quiet(2) by (intro still_silent [OF wf']) (simp_all add: n2_def)
    have 4: "still (Suc k) M n n4"
      using quiet(2) by (intro still_silent [OF wf']) (simp_all add: n2_def n3_def n4_def)
    show ?thesis
      unfolding eq
      using still_is_step [OF 2] still_is_step [OF 4]
        still_is_step [OF still_trans [OF 4 still_create_snapshot [OF still_wf [OF 4]]]] by simp
  qed
qed

lemma install_snapshot_step:
  assumes wf: "node_wf k M n" and t: "trm \<le> k"
  shows "step_ok (Suc k) M None n (handle_install_snapshot E from trm lid lii lit ofs d dn n)"
proof -
  define n1 where "n1 = reset_election_timer_if_valid_term E trm n"
  obtain lrm ct st sm rl msg where run: "lrm_handle_install_snapshot (env_storage E) (env_machine E) trm
      lid lii lit ofs d dn (rn_term n1) (rn_storage n1) (rn_machine n1) (rn_role n1) (rn_replication n1)
      = (lrm, ct, st, sm, rl, msg)"
    by (metis prod_cases6)
  note quiet = storage.handle_install_snapshot_quiet [OF run]
  define n2 where "n2 = send from msg (n1\<lparr>rn_replication := lrm, rn_term := ct, rn_storage := st,
      rn_machine := sm, rn_role := rl\<rparr>)"
  have eq: "handle_install_snapshot E from trm lid lii lit ofs d dn n = n2"
    by (simp add: handle_install_snapshot_def n1_def [symmetric] run n2_def)
  have ct: "ct = max (rn_term n) trm"
    using quiet(1) by (simp add: n1_def)
  have st: "commands_only st" "v_term (view st) = ct"
    "v_vote (view st) = (if rn_term n < trm then None else v_vote (view (rn_storage n)))"
    using quiet(2) wf ct by (auto simp: storage.adopted_def n1_def node_wf_def)
  have wf2: "node_wf (Suc k) M n2"
    using wf t ct st by (simp add: n2_def n1_def node_wf_def)
  have out: "sends_ok (Suc k) n n2 [(from, msg)]" and noballot: "ballots [(from, msg)] = []"
    using quiet(4) wf t ct by (auto simp: sends_ok_def n2_def n1_def msg_ok_def node_wf_def)
  have "ballot_step M (rn_id n) None (eview E n) (eview E n2) []"
  proof (cases "rn_term n < trm")
    case True
    then have "eview E n2 = adopt_term trm (eview E n)"
      using quiet(3) ct st by (simp add: n2_def n1_def adopt_term_def eview_def storage.get_vote)
    then show ?thesis using adopt_step by simp
  next
    case False
    show ?thesis
    proof (rule ballot_step.quiet)
      show "ev_role (eview E n2) = ev_role (eview E n) \<and> ev_votes (eview E n2) = ev_votes (eview E n) \<or>
          ev_role (eview E n2) = Follower"
        using quiet(3) by (auto simp: n2_def n1_def)
    qed (use False ct st in \<open>simp_all add: n2_def n1_def eview_def storage.get_vote\<close>)
  qed
  with wf2 out noballot show ?thesis
    unfolding eq step_ok_def by (auto simp: n2_def n1_def intro!: exI [of _ "[(from, msg)]"])
qed

lemma install_snapshot_response_step:
  assumes wf: "node_wf k M n" and t: "trm \<le> k"
  shows "step_ok (Suc k) M None n (handle_install_snapshot_response E from trm success n)"
proof -
  obtain n1 sd where val: "validate_term_and_step_down E trm n = (n1, sd)" by fastforce
  note n1 = validate_view [OF wf t val]
  have "still (Suc k) M n1 (n1\<lparr>rn_replication := lrm\<rparr>)" for lrm
    by (rule still_silent [OF n1(2)]) simp_all
  then show ?thesis
    unfolding handle_install_snapshot_response_def val
    using validate_step [OF wf t val] step_still [OF validate_step [OF wf t val]]
    by (auto simp: Let_def split: option.splits)
qed

section \<open>Client commands\<close>

lemma still_submit_command:
  assumes wf: "node_wf k M n"
  shows "still k M n (fst (submit_client_command E p n))"
proof -
  define n1 where "n1 = n\<lparr>rn_storage := st_append_entries (env_storage E)
      [\<lparr>entry_term = rn_term n, entry_kind = Command p\<rparr>] (rn_storage n)\<rparr>"
  obtain lrm sm obs cs where run: "advance_commit_index (env_maps E) (env_storage E) (env_machine E)
      (env_changes E) (cm_config (rn_config n1)) (rn_id n1) (rn_id n1) (rn_storage n1) (rn_machine n1)
      (rn_observed n1) (rn_replication n1) = (lrm, sm, obs, cs)"
    by (metis prod_cases4)
  define n2 where "n2 = n1\<lparr>rn_replication := lrm, rn_machine := sm, rn_observed := obs\<rparr>"
  have 1: "still k M n n1"
    by (rule still_silent [OF wf]) (auto simp: n1_def is_command_def intro!: storage.ballot_frame_ops(1))
  then have "commands_only (rn_storage n1)" by (auto simp: still_def node_wf_def)
  note quiet = storage.advance_commit_quiet [OF run this]
  have 2: "still k M n1 n2"
    using quiet(2) by (intro still_silent [OF still_wf [OF 1]]) (simp_all add: n2_def)
  note 12 = still_trans [OF 1 2]
  have mem: "node_members n1 = node_members n" by (simp add: n1_def)
  have eq: "fst (submit_client_command E p n) = (if rn_role n \<noteq> Leader then n else
      send_append_entries_to_followers E (if length (node_members n) \<le> 1 then n2 else n1))"
    using quiet(1) by (simp add: submit_client_command_def submit_entry_def n1_def [symmetric] run n2_def Let_def mem)
  show ?thesis
    unfolding eq
    using still_refl [OF wf] still_trans [OF 1 still_send_append_entries [OF still_wf [OF 1]]]
      still_trans [OF 12 still_send_append_entries [OF still_wf [OF 12]]] by simp
qed

section \<open>Every event is a step\<close>

lemma on_event_step:
  assumes wf: "node_wf k M n" and lim: "Suc k < u64_limit" and ok: "event_ok k ev"
  shows "step_ok (Suc k) M (trigger_of ev) n (on_event E ev n)"
proof -
  have up: "step_ok (Suc k) M trig n n'" if "still k M n n'" for n' trig
    by (rule still_is_step [OF still_mono [OF that]]) simp
  show ?thesis
  proof (cases ev)
    case (Message f m)
    with ok have m: "msg_ok k f m" by simp
    then have t: "msg_term m \<le> k" by (simp add: msg_ok_def)
    show ?thesis
    proof (cases m)
      case (RequestVote _ _ _ _)
      with m vote_request_step [OF wf] show ?thesis by (simp add: Message)
    next
      case (RequestVoteResponse _ _)
      with t vote_response_step [OF wf] show ?thesis by (simp add: Message)
    next
      case (PreVoteRequest _ _ _ _)
      with up [OF still_pre_vote_request [OF wf]] show ?thesis by (simp add: Message)
    next
      case (PreVoteResponse _ _)
      with pre_vote_response_step [OF wf lim] show ?thesis by (simp add: Message)
    next
      case (AppendEntries _ _ _ _ _)
      with m append_entries_step [OF wf] show ?thesis by (simp add: Message)
    next
      case (AppendEntriesResponse _ _ _)
      with t append_entries_response_step [OF wf] show ?thesis by (simp add: Message)
    next
      case (InstallSnapshot _ _ _ _ _ _ _)
      with t install_snapshot_step [OF wf] show ?thesis by (simp add: Message)
    next
      case (InstallSnapshotResponse _ _)
      with t install_snapshot_response_step [OF wf] show ?thesis by (simp add: Message)
    qed
  next
    case (TimerFired kind)
    with still_election_timer [OF wf lim] up [OF still_heartbeat_timer [OF wf]] show ?thesis
      by (cases kind) simp_all
  next
    case (ClientCommand p)
    with up [OF still_submit_command [OF wf]] show ?thesis by simp
  next
    case (ConfigChangeEvent c)
    with ok show ?thesis by simp
  qed
qed

end

end
