(* ===== verification/Message_Broker.thy ===== *)
theory Message_Broker
  imports Raft_Types
begin

text \<open>
  \<open>test-utils/src/message_broker.rs\<close> and \<open>test-utils/src/in_memory_transport.rs\<close>: one queue of
  (sender, message) pairs per receiver.
\<close>

type_synonym 'p queue = "(node_id \<times> 'p raft_msg) list"

record 'p message_broker =
  queues :: "node_id \<rightharpoonup> 'p queue"

definition broker_new :: "'p message_broker" where
  "broker_new = \<lparr>queues = Map.empty\<rparr>"

definition peak :: "node_id \<Rightarrow> 'p message_broker \<Rightarrow> 'p queue option" where
  "peak node_id b = queues b node_id"

definition queue_of :: "'p message_broker \<Rightarrow> node_id \<Rightarrow> 'p queue" where
  \<comment> \<open>\<open>entry(to).or_default()\<close>\<close>
  "queue_of b node_id = (case queues b node_id of Some q \<Rightarrow> q | None \<Rightarrow> [])"

definition enqueue :: "node_id \<Rightarrow> node_id \<Rightarrow> 'p raft_msg \<Rightarrow> 'p message_broker \<Rightarrow> 'p message_broker" where
  "enqueue from to msg b = b\<lparr>queues := (queues b)(to \<mapsto> queue_of b to @ [(from, msg)])\<rparr>"

definition dequeue ::
  "node_id \<Rightarrow> 'p message_broker \<Rightarrow> 'p message_broker \<times> (node_id \<times> 'p raft_msg) option" where
  "dequeue node_id b =
     (case queues b node_id of
        Some queue \<Rightarrow>
          (case queue of
             [] \<Rightarrow> (b, None)
           | x # rest \<Rightarrow> (b\<lparr>queues := (queues b)(node_id \<mapsto> rest)\<rparr>, Some x))
      | None \<Rightarrow> (b, None))"

fun position :: "('a \<Rightarrow> bool) \<Rightarrow> 'a list \<Rightarrow> nat option" where
  "position P [] = None"
| "position P (x # xs) = (if P x then Some 0 else map_option Suc (position P xs))"

definition remove_at ::
  "node_id \<Rightarrow> nat \<Rightarrow> 'p message_broker \<Rightarrow> 'p message_broker \<times> (node_id \<times> 'p raft_msg) option" where
  \<comment> \<open>\<open>VecDeque::remove(pos)\<close> on the queue of a node.\<close>
  "remove_at node_id pos b =
     (let q = queue_of b node_id in
      if pos < length q
      then (b\<lparr>queues := (queues b)(node_id \<mapsto> take pos q @ drop (Suc pos) q)\<rparr>, Some (q ! pos))
      else (b, None))"

definition dequeue_from ::
  "node_id \<Rightarrow> node_id \<Rightarrow> 'p message_broker \<Rightarrow> 'p message_broker \<times> (node_id \<times> 'p raft_msg) option" where
  "dequeue_from node_id from b =
     (case queues b node_id of
        Some queue \<Rightarrow>
          (case position (\<lambda>(sender, _). sender = from) queue of
             Some pos \<Rightarrow> remove_at node_id pos b
           | None \<Rightarrow> (b, None))
      | None \<Rightarrow> (b, None))"

text \<open>What a node sends through its \<open>InMemoryTransport\<close> carries the node's own id as sender.\<close>

definition transport_send :: "node_id \<Rightarrow> node_id \<Rightarrow> 'p raft_msg \<Rightarrow> 'p message_broker \<Rightarrow> 'p message_broker" where
  "transport_send self target msg b = enqueue self target msg b"

definition post :: "node_id \<Rightarrow> (node_id \<times> 'p raft_msg) list \<Rightarrow> 'p message_broker \<Rightarrow> 'p message_broker" where
  "post self out b = fold (\<lambda>(target, msg). transport_send self target msg) out b"

section \<open>Facts\<close>

lemma queue_of_new [simp]: "queue_of broker_new i = []"
  by (simp add: queue_of_def broker_new_def)

lemma queue_of_enqueue [simp]:
  "queue_of (enqueue f t m b) i = (if i = t then queue_of b t @ [(f, m)] else queue_of b i)"
  by (simp add: queue_of_def enqueue_def)

lemma queue_of_post:
  "queue_of (post i out b) t = queue_of b t @ map (\<lambda>(to, m). (i, m)) (filter (\<lambda>(to, m). to = t) out)"
  by (induction out arbitrary: b) (auto simp: post_def transport_send_def)

lemma position_first:
  "position P xs = Some i \<Longrightarrow> i < length xs \<and> P (xs ! i) \<and> (\<forall>j<i. \<not> P (xs ! j))"
proof (induction xs arbitrary: i)
  case Nil
  then show ?case by simp
next
  case (Cons x xs)
  then show ?case
    by (cases "P x") (auto simp: less_Suc_eq_0_disj)
qed

lemma position_None_iff: "position P xs = None \<longleftrightarrow> (\<forall>x\<in>set xs. \<not> P x)"
  by (induction xs) auto

lemma remove_at_Some:
  assumes "remove_at i pos b = (b', Some x)"
  shows "queue_of b i = take pos (queue_of b i) @ x # drop (Suc pos) (queue_of b i)"
    and "queue_of b' j = (if j = i then take pos (queue_of b i) @ drop (Suc pos) (queue_of b i) else queue_of b j)"
  using assms
  by (auto simp: remove_at_def queue_of_def Let_def id_take_nth_drop split: if_splits option.splits)

lemma remove_at_None: "remove_at i pos b = (b', None) \<Longrightarrow> b' = b"
  by (auto simp: remove_at_def Let_def split: if_splits)

text \<open>A dequeue is the removal of the first message, and \<open>dequeue_from\<close> of the first from a sender.\<close>

lemma dequeue_remove_at: "dequeue i b = remove_at i 0 b"
  by (auto simp: dequeue_def remove_at_def queue_of_def split: option.splits list.splits)

lemma dequeue_from_Some:
  assumes "dequeue_from i f b = (b', Some x)"
  shows "\<exists>pos. position (\<lambda>(s, _). s = f) (queue_of b i) = Some pos \<and> remove_at i pos b = (b', Some x)"
  using assms by (auto simp: dequeue_from_def queue_of_def split: option.splits)

text \<open>
  The queues are first in, first out per sender: the messages of one sender that \<open>dequeue_from\<close>
  leaves behind are those after the one it returned.
\<close>

lemma dequeue_from_fifo:
  assumes "dequeue_from i f b = (b', Some x)"
  shows "filter (\<lambda>(s, _). s = f) (queue_of b i) = x # filter (\<lambda>(s, _). s = f) (queue_of b' i)"
    and "filter (\<lambda>(s, _). s \<noteq> f) (queue_of b' i) = filter (\<lambda>(s, _). s \<noteq> f) (queue_of b i)"
proof -
  let ?q = "queue_of b i"
  from dequeue_from_Some [OF assms] obtain pos where
    pos: "position (\<lambda>(s, _). s = f) ?q = Some pos" and rm: "remove_at i pos b = (b', Some x)" by blast
  note split = remove_at_Some [OF rm]
  from position_first [OF pos] have lt: "pos < length ?q" and at: "fst (?q ! pos) = f"
    and before: "\<forall>j<pos. fst (?q ! j) \<noteq> f"
    by (auto simp: case_prod_unfold)
  have "x = ?q ! pos"
    using rm lt by (simp add: remove_at_def Let_def)
  then have x: "fst x = f" using at by simp
  have none: "filter (\<lambda>(s, _). s = f) (take pos ?q) = []"
  proof -
    have "fst y \<noteq> f" if "y \<in> set (take pos ?q)" for y
      using before that by (auto simp: in_set_conv_nth)
    then show ?thesis by (fastforce simp: filter_empty_conv)
  qed
  show "filter (\<lambda>(s, _). s = f) ?q = x # filter (\<lambda>(s, _). s = f) (queue_of b' i)"
    by (subst split(1), simp add: split(2) none x case_prod_unfold)
      (use none in \<open>simp add: case_prod_unfold\<close>)
  show "filter (\<lambda>(s, _). s \<noteq> f) (queue_of b' i) = filter (\<lambda>(s, _). s \<noteq> f) ?q"
    using x arg_cong [OF split(1), of "filter (\<lambda>(s, _). s \<noteq> f)"] by (simp add: split(2) case_prod_unfold)
qed

end
