(* ===== verification/Cluster.thy ===== *)
theory Cluster
  imports Node_Steps Message_Broker
begin

text \<open>
  A cluster: nodes that exchange messages through the broker.  This is the state of the test
  clusters of \<open>validation/src\<close>, with every way their methods can move it as one \<open>action\<close>: a node
  takes some message of its queue, a message is lost (partitions drop messages on delivery), a
  timer fires, a client or an administrator submits, a node is rebuilt around its storage
  (\<open>connect_peers\<close>), time passes for a node's lease.
\<close>

section \<open>The cluster\<close>

record ('s, 'sm, 'ts, 'p) cluster =
  cl_ids :: "node_id list"
  cl_nodes :: "node_id \<rightharpoonup> ('s, 'sm, 'ts, 'p) raft_node"
  cl_broker :: "'p message_broker"

datatype 'p action =
    Deliver node_id nat
  | Lose node_id nat
  | Fire node_id timer_kind
  | Submit node_id 'p
  | ChangeMembers node_id configuration_change
  | Restart node_id
  | Elapse node_id nat
  | ReadKey node_id string

definition build_node ::
  "('s, 'sm, 'ts, 'p) env \<Rightarrow> node_id \<Rightarrow> 's \<Rightarrow> 'sm \<Rightarrow> 'ts \<Rightarrow> node_id list \<Rightarrow> 'p obs_event list \<Rightarrow> log_index
   \<Rightarrow> instant \<Rightarrow> ('s, 'sm, 'ts, 'p) raft_node" where
  \<comment> \<open>The builder chain of the test clusters.\<close>
  "build_node E i st sm ts ps obs snapshot_threshold clk =
     with_transport E [] ps obs clk
       (with_replication replication_new
         (with_election (election_new ts)
           (with_snapshot_threshold snapshot_threshold (builder_new i st sm))))"

definition cluster_init ::
  "('s, 'sm, 'ts, 'p) env \<Rightarrow> node_id list \<Rightarrow> (node_id \<Rightarrow> 's) \<Rightarrow> 'sm \<Rightarrow> (node_id \<Rightarrow> 'ts) \<Rightarrow> log_index
   \<Rightarrow> ('s, 'sm, 'ts, 'p) cluster" where
  "cluster_init E ids st sm ts snapshot_threshold =
     \<lparr>cl_ids = ids,
      cl_nodes = (\<lambda>i. if i \<in> set ids
                      then Some (build_node E i (st i) sm (ts i) (filter (\<lambda>j. j \<noteq> i) ids) [] snapshot_threshold 0)
                      else None),
      cl_broker = broker_new\<rparr>"

definition feed ::
  "('s, 'sm, 'ts, 'p) env \<Rightarrow> node_id \<Rightarrow> 'p event \<Rightarrow> ('s, 'sm, 'ts, 'p) cluster \<Rightarrow> ('s, 'sm, 'ts, 'p) cluster" where
  \<comment> \<open>\<open>on_event\<close> at a node; the transport puts what it sends into the broker.\<close>
  "feed E i ev cl =
     (case cl_nodes cl i of
        None \<Rightarrow> cl
      | Some n \<Rightarrow>
          let n' = on_event E ev n
          in cl\<lparr>cl_nodes := (cl_nodes cl)(i \<mapsto> n'\<lparr>rn_outbox := []\<rparr>),
                cl_broker := post i (rn_outbox n') (cl_broker cl)\<rparr>)"

definition rebuild ::
  "('s, 'sm, 'ts, 'p) env \<Rightarrow> node_id list \<Rightarrow> ('s, 'sm, 'ts, 'p) raft_node \<Rightarrow> ('s, 'sm, 'ts, 'p) raft_node" where
  \<comment> \<open>\<open>connect_peers\<close>: a new node around the old storage, state machine and timer.  The observer is
      the old one, so that what was observed before a restart stays observed.\<close>
  "rebuild E ids n =
     build_node E (rn_id n) (rn_storage n) (rn_machine n) (timer_service (rn_election n))
       (filter (\<lambda>j. j \<noteq> rn_id n) ids) (rn_observed n) (threshold (rn_snapshots n)) (lease_clock (rn_lease n))"

fun act ::
  "('s, 'sm, 'ts, 'p) env \<Rightarrow> 'p action \<Rightarrow> ('s, 'sm, 'ts, 'p) cluster \<Rightarrow> ('s, 'sm, 'ts, 'p) cluster" where
  "act E (Deliver i pos) cl =
     (case remove_at i pos (cl_broker cl) of
        (b, Some (from, msg)) \<Rightarrow> feed E i (Message from msg) (cl\<lparr>cl_broker := b\<rparr>)
      | (b, None) \<Rightarrow> cl)"
| "act E (Lose i pos) cl = cl\<lparr>cl_broker := fst (remove_at i pos (cl_broker cl))\<rparr>"
| "act E (Fire i kind) cl = feed E i (TimerFired kind) cl"
| "act E (Submit i payload) cl = feed E i (ClientCommand payload) cl"
| "act E (ChangeMembers i change) cl = feed E i (ConfigChangeEvent change) cl"
| "act E (Restart i) cl =
     (case cl_nodes cl i of
        None \<Rightarrow> cl
      | Some n \<Rightarrow> cl\<lparr>cl_nodes := (cl_nodes cl)(i \<mapsto> rebuild E (cl_ids cl) n)\<rparr>)"
| "act E (Elapse i millis) cl =
     (case cl_nodes cl i of
        None \<Rightarrow> cl
      | Some n \<Rightarrow> cl\<lparr>cl_nodes := (cl_nodes cl)(i \<mapsto> n\<lparr>rn_lease := lease_advance millis (rn_lease n)\<rparr>)\<rparr>)"
| "act E (ReadKey i key) cl =
     (case cl_nodes cl i of
        None \<Rightarrow> cl
      | Some n \<Rightarrow> cl\<lparr>cl_nodes := (cl_nodes cl)(i \<mapsto> fst (read_linearizable E key n))\<rparr>)"

definition run_cluster ::
  "('s, 'sm, 'ts, 'p) env \<Rightarrow> 'p action list \<Rightarrow> ('s, 'sm, 'ts, 'p) cluster \<Rightarrow> ('s, 'sm, 'ts, 'p) cluster" where
  "run_cluster E acts cl = fold (act E) acts cl"

fun keeps_members :: "'p action \<Rightarrow> bool" where
  "keeps_members (ChangeMembers _ _) = False"
| "keeps_members _ = True"

section \<open>The cluster refines the election protocol\<close>

definition pending_in :: "'p queue \<Rightarrow> node_id \<Rightarrow> ballot \<Rightarrow> nat" where
  "pending_in q f b = length (filter (\<lambda>(g, m). g = f \<and> ballot_of m = Some b) q)"

definition no_view :: election_view where
  "no_view = \<lparr>ev_term = 0, ev_vote = None, ev_role = Follower, ev_votes = [], ev_won = {}\<rparr>"

definition abs_cluster ::
  "('s, 'sm, 'ts, 'p) env \<Rightarrow> ('s, 'sm, 'ts, 'p) cluster \<Rightarrow> protocol" where
  "abs_cluster E cl =
     \<lparr>pr_view = (\<lambda>i. case cl_nodes cl i of Some n \<Rightarrow> eview E n | None \<Rightarrow> no_view),
      pr_pending = (\<lambda>f t b. pending_in (queue_of (cl_broker cl) t) f b)\<rparr>"

lemma pending_in_simps [simp]:
  "pending_in [] f b = 0"
  "pending_in (xs @ ys) f b = pending_in xs f b + pending_in ys f b"
  "pending_in ((g, m) # xs) f b = (if g = f \<and> ballot_of m = Some b then 1 else 0) + pending_in xs f b"
  by (simp_all add: pending_in_def)

lemma pending_in_sent:
  "pending_in (map (\<lambda>(to, m). (i, m)) (filter (\<lambda>(to, m). to = t) out)) f b = sent_count (ballots out) i f t b"
  by (induction out) (auto simp: sent_count_def split: option.splits)

lemma pending_in_post:
  "pending_in (queue_of (post i out br) t) f b =
     pending_in (queue_of br t) f b + sent_count (ballots out) i f t b"
  by (simp add: queue_of_post pending_in_sent)

lemma protocol_stutter: "protocol_step M P P"
  using protocol_step.lose [of "pr_pending P" P M] by simp

text \<open>Building a node keeps the membership when the node collection has room for it.\<close>

definition members_fit :: "node_ops \<Rightarrow> node_id list \<Rightarrow> bool" where
  "members_fit NO ids \<longleftrightarrow> (\<forall>i\<in>set ids.
     extend_ok (nc_push NO) (filter (\<lambda>j. j \<noteq> i) ids) (push_ok (nc_push NO) i []) = i # filter (\<lambda>j. j \<noteq> i) ids)"

lemma build_node_simps [simp]:
  "rn_id (build_node E i st sm ts ps obs th clk) = i"
  "rn_role (build_node E i st sm ts ps obs th clk) = Follower"
  "rn_term (build_node E i st sm ts ps obs th clk) = st_current_term (env_storage E) st"
  "rn_outbox (build_node E i st sm ts ps obs th clk) = []"
  "rn_storage (build_node E i st sm ts ps obs th clk) = st"
  "rn_observed (build_node E i st sm ts ps obs th clk) = obs"
  "votes_received (rn_election (build_node E i st sm ts ps obs th clk)) = []"
  "node_members (build_node E i st sm ts ps obs th clk) =
     extend_ok (nc_push (env_nodes E)) ps (push_ok (nc_push (env_nodes E)) i [])"
  by (simp_all add: build_node_def with_transport_def with_replication_def with_election_def
      with_snapshot_threshold_def builder_new_def election_new_def)

text \<open>Time that passes for several nodes.\<close>

lemma run_elapse:
  assumes "distinct is"
  shows "run_cluster E (map (\<lambda>i. Elapse i d) is) cl = cl\<lparr>cl_nodes := \<lambda>i. if i \<in> set is
    then map_option (\<lambda>n. n\<lparr>rn_lease := lease_advance d (rn_lease n)\<rparr>) (cl_nodes cl i) else cl_nodes cl i\<rparr>"
  using assms
proof (induction "is" arbitrary: cl)
  case Nil
  then show ?case by (simp add: run_cluster_def)
next
  case (Cons i "is")
  then show ?case
    by (simp add: run_cluster_def) (rule cluster.equality; auto simp: fun_eq_iff split: option.splits)
qed

context election_env begin

definition cluster_wf :: "nat \<Rightarrow> ('s, 'sm, 'ts, 'p) cluster \<Rightarrow> bool" where
  "cluster_wf k cl \<longleftrightarrow> distinct (cl_ids cl) \<and> members_fit (env_nodes E) (cl_ids cl) \<and>
     (\<forall>i. cl_nodes cl i \<noteq> None \<longleftrightarrow> i \<in> set (cl_ids cl)) \<and>
     (\<forall>i n. cl_nodes cl i = Some n \<longrightarrow> rn_id n = i \<and> rn_outbox n = [] \<and> node_wf k (set (cl_ids cl)) n) \<and>
     (\<forall>t. \<forall>(f, m)\<in>set (queue_of (cl_broker cl) t). msg_ok k f m)"

lemma cluster_wf_mono: "cluster_wf k cl \<Longrightarrow> k \<le> k' \<Longrightarrow> cluster_wf k' cl"
  unfolding cluster_wf_def by (auto 0 3 dest: node_wf_mono msg_ok_mono)

lemma cluster_wf_node:
  assumes "cluster_wf k cl" and "cl_nodes cl i = Some n"
  shows "rn_id n = i" and "rn_outbox n = []" and "node_wf k (set (cl_ids cl)) n" and "i \<in> set (cl_ids cl)"
  using assms by (auto simp: cluster_wf_def)

text \<open>Replacing one node, and the broker, by ones that are well-formed.\<close>

lemma cluster_wf_update:
  assumes "cluster_wf k cl" and "cl_nodes cl i \<noteq> None"
    and "rn_id n = i" "rn_outbox n = []" "node_wf k (set (cl_ids cl)) n"
    and "\<And>t f m. (f, m) \<in> set (queue_of b t) \<Longrightarrow> msg_ok k f m"
  shows "cluster_wf k (cl\<lparr>cl_nodes := (cl_nodes cl)(i \<mapsto> n), cl_broker := b\<rparr>)"
  using assms unfolding cluster_wf_def by auto

lemma feed_refines:
  assumes wf: "cluster_wf k cl" and lim: "Suc k < u64_limit" and ok: "event_ok k ev"
    and queue: "\<And>t f m. (f, m) \<in> set (queue_of b t) \<Longrightarrow> msg_ok k f m"
    and taken: "\<And>f t bl. pending_in (queue_of b t) f bl + trigger_count (trigger_of ev) i f t bl
                  = pending_in (queue_of (cl_broker cl) t) f bl"
  shows "cluster_wf (Suc k) (feed E i ev (cl\<lparr>cl_broker := b\<rparr>))"
    and "protocol_step (set (cl_ids cl)) (abs_cluster E cl) (abs_cluster E (feed E i ev (cl\<lparr>cl_broker := b\<rparr>)))"
proof -
  let ?M = "set (cl_ids cl)" and ?cl' = "feed E i ev (cl\<lparr>cl_broker := b\<rparr>)"
  have "cluster_wf (Suc k) ?cl' \<and> protocol_step ?M (abs_cluster E cl) (abs_cluster E ?cl')"
  proof (cases "cl_nodes cl i")
    case None
    then have eq: "?cl' = cl\<lparr>cl_broker := b\<rparr>" by (simp add: feed_def)
    have "abs_cluster E (cl\<lparr>cl_broker := b\<rparr>) = (abs_cluster E cl)\<lparr>pr_pending := \<lambda>f t bl. pending_in (queue_of b t) f bl\<rparr>"
      by (simp add: abs_cluster_def)
    moreover have "pending_in (queue_of b t) f bl \<le> pr_pending (abs_cluster E cl) f t bl" for f t bl
      using taken [of t f bl] by (simp add: abs_cluster_def)
    moreover have "cluster_wf k (cl\<lparr>cl_broker := b\<rparr>)"
      using wf queue by (auto simp: cluster_wf_def)
    ultimately show ?thesis
      unfolding eq using cluster_wf_mono [of k "cl\<lparr>cl_broker := b\<rparr>" "Suc k"] by (auto intro: protocol_step.lose)
  next
    case (Some n)
    note n = cluster_wf_node [OF wf Some]
    define n' where "n' = on_event E ev n"
    from on_event_step [OF n(3) lim ok] obtain out where wf': "node_wf (Suc k) ?M n'" and id': "rn_id n' = i"
      and out: "rn_outbox n' = out" "\<forall>(to, m)\<in>set out. msg_ok (Suc k) i m"
      and step: "ballot_step ?M i (trigger_of ev) (eview E n) (eview E n') (ballots out)"
      using n(1,2) by (auto simp: step_ok_def sends_ok_def n'_def)
    let ?n = "n'\<lparr>rn_outbox := []\<rparr>" and ?b = "post i out b"
    have eq: "?cl' = cl\<lparr>cl_nodes := (cl_nodes cl)(i \<mapsto> ?n), cl_broker := ?b\<rparr>"
      using Some out by (simp add: feed_def n'_def [symmetric] Let_def)
    have "cluster_wf (Suc k) cl" by (rule cluster_wf_mono [OF wf]) simp
    then have "cluster_wf (Suc k) ?cl'"
      unfolding eq
    proof (rule cluster_wf_update)
      show "node_wf (Suc k) ?M ?n" using wf' by (simp add: node_wf_def)
      fix t f m assume "(f, m) \<in> set (queue_of ?b t)"
      then show "msg_ok (Suc k) f m"
        using msg_ok_mono [OF queue, of f m t "Suc k"] out(2) by (auto simp: queue_of_post)
    qed (use Some id' in simp_all)
    moreover have "eview E ?n = eview E n'" by (simp add: eview_def)
    then have "abs_cluster E ?cl' = \<lparr>pr_view = (pr_view (abs_cluster E cl))(i := eview E n'),
        pr_pending = \<lambda>f t bl. pending_in (queue_of ?b t) f bl\<rparr>"
      unfolding eq by (auto simp: abs_cluster_def)
    moreover have "protocol_step ?M (abs_cluster E cl) \<dots>"
    proof (rule protocol_step.local [OF n(4)])
      show "ballot_step ?M i (trigger_of ev) (pr_view (abs_cluster E cl) i) (eview E n') (ballots out)"
        using step Some by (simp add: abs_cluster_def)
      show "trigger_count (trigger_of ev) i f t bl \<le> pr_pending (abs_cluster E cl) f t bl" for f t bl
        using taken [of t f bl] by (simp add: abs_cluster_def)
      show "pending_in (queue_of ?b t) f bl + trigger_count (trigger_of ev) i f t bl
          \<le> pr_pending (abs_cluster E cl) f t bl + sent_count (ballots out) i f t bl" for f t bl
        using taken [of t f bl] by (simp add: abs_cluster_def pending_in_post)
    qed
    ultimately show ?thesis by simp
  qed
  then show "cluster_wf (Suc k) ?cl'" "protocol_step ?M (abs_cluster E cl) (abs_cluster E ?cl')" by blast+
qed

lemma feed_quiet_refines:
  assumes "cluster_wf k cl" and "Suc k < u64_limit" and "event_ok k ev" and "trigger_of ev = None"
  shows "cluster_wf (Suc k) (feed E i ev cl)"
    and "protocol_step (set (cl_ids cl)) (abs_cluster E cl) (abs_cluster E (feed E i ev cl))"
proof -
  have "msg_ok k f m" if "(f, m) \<in> set (queue_of (cl_broker cl) t)" for t f m
    using assms(1) that by (auto simp: cluster_wf_def)
  moreover have "pending_in (queue_of (cl_broker cl) t) f bl + trigger_count (trigger_of ev) i f t bl
      = pending_in (queue_of (cl_broker cl) t) f bl" for f t bl
    by (simp add: assms(4) trigger_count_def)
  ultimately show "cluster_wf (Suc k) (feed E i ev cl)"
    "protocol_step (set (cl_ids cl)) (abs_cluster E cl) (abs_cluster E (feed E i ev cl))"
    using feed_refines [OF assms(1-3), of "cl_broker cl" i] by simp_all
qed

lemma feed_ids [simp]: "cl_ids (feed E i ev cl) = cl_ids cl"
  by (simp add: feed_def Let_def split: option.splits)

lemma act_ids [simp]: "cl_ids (act E a cl) = cl_ids cl"
  by (cases a) (auto split: option.splits prod.splits)

lemma remove_at_queue:
  assumes "remove_at i pos b = (b', Some (f, m))"
  shows "set (queue_of b' t) \<subseteq> set (queue_of b t)" and "(f, m) \<in> set (queue_of b i)"
    and "pending_in (queue_of b' t) g bl +
           trigger_count (map_option (Pair f) (ballot_of m)) i g t bl = pending_in (queue_of b t) g bl"
proof -
  note split = remove_at_Some [OF assms]
  show "set (queue_of b' t) \<subseteq> set (queue_of b t)"
    by (auto simp: split(2) dest: in_set_takeD in_set_dropD)
  show "(f, m) \<in> set (queue_of b i)"
    by (subst split(1)) simp
  show "pending_in (queue_of b' t) g bl + trigger_count (map_option (Pair f) (ballot_of m)) i g t bl
      = pending_in (queue_of b t) g bl"
  proof (cases "t = i")
    case True
    then have "pending_in (queue_of b t) g bl =
        pending_in (take pos (queue_of b i) @ (f, m) # drop (Suc pos) (queue_of b i)) g bl"
      using split(1) by simp
    with True show ?thesis
      by (auto simp: split(2) trigger_count_def)
  qed (simp add: split(2) trigger_count_def)
qed

lemma deliver_refines:
  assumes wf: "cluster_wf k cl" and lim: "Suc k < u64_limit"
  shows "cluster_wf (Suc k) (act E (Deliver i pos) cl)"
    and "protocol_step (set (cl_ids cl)) (abs_cluster E cl) (abs_cluster E (act E (Deliver i pos) cl))"
proof -
  have "cluster_wf (Suc k) (act E (Deliver i pos) cl) \<and>
      protocol_step (set (cl_ids cl)) (abs_cluster E cl) (abs_cluster E (act E (Deliver i pos) cl))"
  proof (cases "remove_at i pos (cl_broker cl)")
    case (Pair b x)
    show ?thesis
    proof (cases x)
      case None
      with Pair show ?thesis
        using cluster_wf_mono [OF wf, of "Suc k"] protocol_stutter by simp
    next
      case (Some fm)
      obtain f m where "fm = (f, m)" by fastforce
      with Pair Some have rm: "remove_at i pos (cl_broker cl) = (b, Some (f, m))" by simp
      note q = remove_at_queue [OF rm]
      have ok: "msg_ok k g m'" if "(g, m') \<in> set (queue_of (cl_broker cl) t)" for g m' t
        using wf that by (auto simp: cluster_wf_def)
      then have "event_ok k (Message f m)"
        using q(2) by auto
      moreover have "msg_ok k g m'" if "(g, m') \<in> set (queue_of b t)" for g m' t
        using ok q(1) that by blast
      ultimately show ?thesis
        using feed_refines [OF wf lim, of "Message f m" b i] q(3) by (simp add: rm)
    qed
  qed
  then show "cluster_wf (Suc k) (act E (Deliver i pos) cl)"
    "protocol_step (set (cl_ids cl)) (abs_cluster E cl) (abs_cluster E (act E (Deliver i pos) cl))" by blast+
qed

lemma lose_refines:
  assumes wf: "cluster_wf k cl"
  shows "cluster_wf k (act E (Lose i pos) cl)"
    and "protocol_step (set (cl_ids cl)) (abs_cluster E cl) (abs_cluster E (act E (Lose i pos) cl))"
proof -
  obtain b x where rm: "remove_at i pos (cl_broker cl) = (b, x)" by fastforce
  have sub: "set (queue_of b t) \<subseteq> set (queue_of (cl_broker cl) t) \<and>
      pending_in (queue_of b t) f bl \<le> pending_in (queue_of (cl_broker cl) t) f bl" for t f bl
  proof (cases x)
    case None
    with remove_at_None rm show ?thesis by fastforce
  next
    case (Some fm)
    obtain g m where "fm = (g, m)" by fastforce
    with Some rm have "remove_at i pos (cl_broker cl) = (b, Some (g, m))" by simp
    from remove_at_queue(1,3) [OF this, of t] show ?thesis
      by (metis le_add1)
  qed
  have eq: "act E (Lose i pos) cl = cl\<lparr>cl_broker := b\<rparr>" by (simp add: rm)
  show "cluster_wf k (act E (Lose i pos) cl)"
    unfolding eq using wf sub unfolding cluster_wf_def by fastforce
  have "abs_cluster E (cl\<lparr>cl_broker := b\<rparr>) =
      (abs_cluster E cl)\<lparr>pr_pending := \<lambda>f t bl. pending_in (queue_of b t) f bl\<rparr>"
    by (simp add: abs_cluster_def)
  moreover have "pending_in (queue_of b t) f bl \<le> pr_pending (abs_cluster E cl) f t bl" for f t bl
    using sub by (simp add: abs_cluster_def)
  ultimately show "protocol_step (set (cl_ids cl)) (abs_cluster E cl) (abs_cluster E (act E (Lose i pos) cl))"
    unfolding eq by (auto intro: protocol_step.lose)
qed

text \<open>Replacing a node without sending anything.\<close>

lemma replace_refines:
  assumes wf: "cluster_wf k cl" and n: "cl_nodes cl i = Some n"
    and new: "rn_id n' = i" "rn_outbox n' = []" "node_wf k (set (cl_ids cl)) n'"
    and step: "ballot_step (set (cl_ids cl)) i None (eview E n) (eview E n') []"
  shows "cluster_wf k (cl\<lparr>cl_nodes := (cl_nodes cl)(i \<mapsto> n')\<rparr>)"
    and "protocol_step (set (cl_ids cl)) (abs_cluster E cl)
           (abs_cluster E (cl\<lparr>cl_nodes := (cl_nodes cl)(i \<mapsto> n')\<rparr>))"
proof -
  have "msg_ok k f m" if "(f, m) \<in> set (queue_of (cl_broker cl) t)" for t f m
    using wf that by (auto simp: cluster_wf_def)
  then show "cluster_wf k (cl\<lparr>cl_nodes := (cl_nodes cl)(i \<mapsto> n')\<rparr>)"
    using cluster_wf_update [OF wf _ new, of "cl_broker cl"] n by simp
  have "abs_cluster E (cl\<lparr>cl_nodes := (cl_nodes cl)(i \<mapsto> n')\<rparr>) =
      \<lparr>pr_view = (pr_view (abs_cluster E cl))(i := eview E n'), pr_pending = pr_pending (abs_cluster E cl)\<rparr>"
    by (auto simp: abs_cluster_def)
  moreover have "protocol_step (set (cl_ids cl)) (abs_cluster E cl) \<dots>"
    by (rule protocol_step.local [where trig = None and out = "[]"])
      (use cluster_wf_node(4) [OF wf n] step n in \<open>auto simp: abs_cluster_def trigger_count_def\<close>)
  ultimately show "protocol_step (set (cl_ids cl)) (abs_cluster E cl)
           (abs_cluster E (cl\<lparr>cl_nodes := (cl_nodes cl)(i \<mapsto> n')\<rparr>))" by simp
qed

lemma restart_refines:
  assumes wf: "cluster_wf k cl"
  shows "cluster_wf k (act E (Restart i) cl)"
    and "protocol_step (set (cl_ids cl)) (abs_cluster E cl) (abs_cluster E (act E (Restart i) cl))"
proof -
  have "cluster_wf k (act E (Restart i) cl) \<and>
      protocol_step (set (cl_ids cl)) (abs_cluster E cl) (abs_cluster E (act E (Restart i) cl))"
  proof (cases "cl_nodes cl i")
    case None
    with wf show ?thesis by (simp add: protocol_stutter)
  next
    case (Some n)
    note n = cluster_wf_node [OF wf Some]
    define n' where "n' = rebuild E (cl_ids cl) n"
    have members: "node_members n' = i # filter (\<lambda>j. j \<noteq> i) (cl_ids cl)"
      using wf n(1,4) by (simp add: n'_def rebuild_def cluster_wf_def members_fit_def)
    then have "set (node_members n') = set (cl_ids cl)" and "distinct (node_members n')"
      using n(4) wf by (auto simp: cluster_wf_def)
    then have wf': "node_wf k (set (cl_ids cl)) n'"
      using n(1,3) unfolding node_wf_def by (simp add: n'_def rebuild_def storage.get_term)
    have "ballot_step (set (cl_ids cl)) i None (eview E n) (eview E n') []"
      by (rule ballot_step.quiet)
        (use n(3) in \<open>simp_all add: n'_def rebuild_def eview_def node_wf_def storage.get_term\<close>)
    with replace_refines [OF wf Some _ _ wf'] n(1) show ?thesis
      by (simp add: Some n'_def [symmetric]) (simp add: n'_def rebuild_def)
  qed
  then show "cluster_wf k (act E (Restart i) cl)"
    "protocol_step (set (cl_ids cl)) (abs_cluster E cl) (abs_cluster E (act E (Restart i) cl))" by blast+
qed

lemma elapse_refines:
  assumes wf: "cluster_wf k cl"
  shows "cluster_wf k (act E (Elapse i d) cl)"
    and "protocol_step (set (cl_ids cl)) (abs_cluster E cl) (abs_cluster E (act E (Elapse i d) cl))"
proof -
  have "cluster_wf k (act E (Elapse i d) cl) \<and>
      protocol_step (set (cl_ids cl)) (abs_cluster E cl) (abs_cluster E (act E (Elapse i d) cl))"
  proof (cases "cl_nodes cl i")
    case None
    with wf show ?thesis by (simp add: protocol_stutter)
  next
    case (Some n)
    note n = cluster_wf_node [OF wf Some]
    define n' where "n' = n\<lparr>rn_lease := lease_advance d (rn_lease n)\<rparr>"
    have wf': "node_wf k (set (cl_ids cl)) n'" and view: "eview E n' = eview E n"
      using n(3) by (simp_all add: n'_def node_wf_def eview_def)
    have "ballot_step (set (cl_ids cl)) i None (eview E n) (eview E n') []"
      unfolding view by (rule ballot_step.quiet) simp_all
    with replace_refines [OF wf Some _ _ wf'] n(1,2) show ?thesis
      by (simp add: Some n'_def [symmetric]) (simp add: n'_def)
  qed
  then show "cluster_wf k (act E (Elapse i d) cl)"
    "protocol_step (set (cl_ids cl)) (abs_cluster E cl) (abs_cluster E (act E (Elapse i d) cl))" by blast+
qed

lemma read_refines:
  assumes wf: "cluster_wf k cl"
  shows "cluster_wf k (act E (ReadKey i key) cl)"
    and "protocol_step (set (cl_ids cl)) (abs_cluster E cl) (abs_cluster E (act E (ReadKey i key) cl))"
proof -
  have "cluster_wf k (act E (ReadKey i key) cl) \<and>
      protocol_step (set (cl_ids cl)) (abs_cluster E cl) (abs_cluster E (act E (ReadKey i key) cl))"
  proof (cases "cl_nodes cl i")
    case None
    with wf show ?thesis by (simp add: protocol_stutter)
  next
    case (Some n)
    note n = cluster_wf_node [OF wf Some]
    define n' where "n' = fst (read_linearizable E key n)"
    have wf': "node_wf k (set (cl_ids cl)) n'" and view: "eview E n' = eview E n"
      using n(3) by (simp_all add: n'_def read_linearizable_eq node_wf_def eview_def)
    have "ballot_step (set (cl_ids cl)) i None (eview E n) (eview E n') []"
      unfolding view by (rule ballot_step.quiet) simp_all
    with replace_refines [OF wf Some _ _ wf'] n(1,2) show ?thesis
      by (simp add: Some n'_def [symmetric]) (simp add: n'_def read_linearizable_eq)
  qed
  then show "cluster_wf k (act E (ReadKey i key) cl)"
    "protocol_step (set (cl_ids cl)) (abs_cluster E cl) (abs_cluster E (act E (ReadKey i key) cl))" by blast+
qed

section \<open>Runs\<close>

lemma act_refines:
  assumes wf: "cluster_wf k cl" and lim: "Suc k < u64_limit" and keep: "keeps_members a"
  shows "cluster_wf (Suc k) (act E a cl) \<and>
    protocol_step (set (cl_ids cl)) (abs_cluster E cl) (abs_cluster E (act E a cl))"
proof -
  have up: "cluster_wf (Suc k) c" if "cluster_wf k c" for c
    by (rule cluster_wf_mono [OF that]) simp
  show ?thesis
  proof (cases a)
    case (Deliver i pos)
    with deliver_refines [OF wf lim] show ?thesis by simp
  next
    case (Lose i pos)
    with lose_refines [OF wf] up show ?thesis by simp
  next
    case (Fire i kind)
    with feed_quiet_refines [OF wf lim] show ?thesis by simp
  next
    case (Submit i p)
    with feed_quiet_refines [OF wf lim] show ?thesis by simp
  next
    case (ChangeMembers i c)
    with keep show ?thesis by simp
  next
    case (Restart i)
    with restart_refines [OF wf] up show ?thesis by simp
  next
    case (Elapse i d)
    with elapse_refines [OF wf] up show ?thesis by simp
  next
    case (ReadKey i key)
    with read_refines [OF wf] up show ?thesis by simp
  qed
qed

lemma run_refines:
  assumes "cluster_wf k cl" and "k + length acts < u64_limit" and "\<forall>a\<in>set acts. keeps_members a"
  shows "cluster_wf (k + length acts) (run_cluster E acts cl) \<and>
    (protocol_step (set (cl_ids cl)))\<^sup>*\<^sup>* (abs_cluster E cl) (abs_cluster E (run_cluster E acts cl))"
  using assms
proof (induction acts arbitrary: k cl)
  case Nil
  then show ?case by (simp add: run_cluster_def)
next
  case (Cons a acts)
  from Cons.prems have step: "cluster_wf (Suc k) (act E a cl)"
    "protocol_step (set (cl_ids cl)) (abs_cluster E cl) (abs_cluster E (act E a cl))"
    using act_refines [of k cl a] by auto
  have run: "run_cluster E (a # acts) cl = run_cluster E acts (act E a cl)"
    by (simp add: run_cluster_def)
  have "cluster_wf (Suc k + length acts) (run_cluster E acts (act E a cl)) \<and>
    (protocol_step (set (cl_ids cl)))\<^sup>*\<^sup>* (abs_cluster E (act E a cl)) (abs_cluster E (run_cluster E acts (act E a cl)))"
    using Cons.IH [OF step(1)] Cons.prems(2,3) by simp
  with step(2) show ?case
    unfolding run by (auto intro: converse_rtranclp_into_rtranclp)
qed

definition blank :: "'s \<Rightarrow> bool" where
  "blank st \<longleftrightarrow> v_term (view st) = 0 \<and> v_vote (view st) = None \<and> v_log (view st) = []"

lemma cluster_init_wf:
  assumes "distinct ids" and "members_fit (env_nodes E) ids" and "\<forall>i\<in>set ids. blank (st i)"
  shows "cluster_wf 0 (cluster_init E ids st sm ts th)"
  using assms
  by (auto simp: cluster_wf_def cluster_init_def node_wf_def members_fit_def blank_def
      storage.commands_only_def storage.get_term split: if_splits)

lemma cluster_init_start:
  assumes "\<forall>i\<in>set ids. blank (st i)"
  shows "protocol_start (set ids) (abs_cluster E (cluster_init E ids st sm ts th))"
  using assms
  by (auto simp: protocol_start_def abs_cluster_def cluster_init_def eview_def blank_def storage.get_vote)

text \<open>
  Election safety: in any run that changes no membership, no two nodes report having been elected
  in the same term, so no two nodes lead in the same term.
\<close>

lemma election_safety:
  assumes ids: "distinct ids" "members_fit (env_nodes E) ids" and st: "\<forall>i\<in>set ids. blank (st i)"
    and run: "cl = run_cluster E acts (cluster_init E ids st sm ts th)"
    and acts: "\<forall>a\<in>set acts. keeps_members a" "length acts < u64_limit"
    and nodes: "cl_nodes cl a = Some na" "cl_nodes cl b = Some nb"
    and elected: "LeaderElected a t \<in> set (rn_observed na)" "LeaderElected b t \<in> set (rn_observed nb)"
  shows "a = b"
proof -
  let ?cl0 = "cluster_init E ids st sm ts th"
  have ids0: "cl_ids ?cl0 = ids" by (simp add: cluster_init_def)
  have "cl_ids (run_cluster E as c) = cl_ids c" for as c
    by (induction as arbitrary: c) (simp_all add: run_cluster_def)
  then have ids': "cl_ids cl = ids" by (simp add: run ids0)
  from run_refines [OF cluster_init_wf [OF ids st], of acts sm ts th] acts
  have wf: "cluster_wf (length acts) cl"
    and steps: "(protocol_step (set ids))\<^sup>*\<^sup>* (abs_cluster E ?cl0) (abs_cluster E cl)"
    by (simp_all add: run ids0)
  have mem: "a \<in> set ids" "b \<in> set ids"
    using cluster_wf_node(4) [OF wf] nodes ids' by auto
  have "rn_id na = a" "rn_id nb = b"
    using cluster_wf_node(1) [OF wf] nodes by auto
  then have "t \<in> ev_won (pr_view (abs_cluster E cl) a)" "t \<in> ev_won (pr_view (abs_cluster E cl) b)"
    using nodes elected by (simp_all add: abs_cluster_def)
  then show ?thesis
    using protocol_election_safety [OF cluster_init_start [OF st] steps _ mem] by blast
qed

lemma one_leader_per_term:
  assumes ids: "distinct ids" "members_fit (env_nodes E) ids" and st: "\<forall>i\<in>set ids. blank (st i)"
    and run: "cl = run_cluster E acts (cluster_init E ids st sm ts th)"
    and acts: "\<forall>a\<in>set acts. keeps_members a" "length acts < u64_limit"
    and nodes: "cl_nodes cl a = Some na" "cl_nodes cl b = Some nb"
    and leaders: "rn_role na = Leader" "rn_role nb = Leader" and same: "rn_term na = rn_term nb"
  shows "a = b"
proof -
  let ?cl0 = "cluster_init E ids st sm ts th"
  have ids0: "cl_ids ?cl0 = ids" by (simp add: cluster_init_def)
  have "cl_ids (run_cluster E as c) = cl_ids c" for as c
    by (induction as arbitrary: c) (simp_all add: run_cluster_def)
  then have ids': "cl_ids cl = ids" by (simp add: run ids0)
  from run_refines [OF cluster_init_wf [OF ids st], of acts sm ts th] acts
  have wf: "cluster_wf (length acts) cl"
    and steps: "(protocol_step (set ids))\<^sup>*\<^sup>* (abs_cluster E ?cl0) (abs_cluster E cl)"
    by (simp_all add: run ids0)
  obtain H where inv: "election_inv (set ids) (abs_cluster E cl) H"
    using protocol_run_inv [OF steps _ protocol_start_inv [OF cluster_init_start [OF st]]] by auto
  have "LeaderElected i (rn_term n) \<in> set (rn_observed n)"
    if "cl_nodes cl i = Some n" "rn_role n = Leader" for i n
    using election_invE(6) [OF inv, of i] cluster_wf_node [OF wf that(1)] that ids'
    by (auto simp: won_ok_def abs_cluster_def)
  with election_safety [OF ids st run acts nodes] nodes leaders same show ?thesis by metis
qed

end

end
