(* ===== verification/Log_Protocol.thy ===== *)
theory Log_Protocol
  imports Election_Protocol
begin

text \<open>
  The abstract specification of log replication, on top of the election protocol: each node is its
  election view and its log, the network the batches of entries (\<open>Ship\<close>) under way.  The invariant
  refers to the history \<open>L t\<close> of every term \<open>t\<close>, the log of the leader of \<open>t\<close>: every entry of
  term \<open>t\<close>, wherever it is stored, was put there at its place in \<open>L t\<close>, together with everything
  before it.  Log matching is an immediate consequence.
\<close>

section \<open>The protocol\<close>

datatype 'p shipment =
  Ship (sh_term: log_term) (sh_prev: log_index) (sh_prev_term: log_term) (sh_entries: "'p log_entry list")

text \<open>A batch that a leader with the log \<open>l\<close> may send; an empty batch (a heartbeat) claims nothing.\<close>

definition ships_from :: "'p log_entry list \<Rightarrow> 'p shipment \<Rightarrow> bool" where
  "ships_from l s \<longleftrightarrow> sh_entries s = [] \<or>
     sh_prev s + length (sh_entries s) \<le> length l \<and>
     take (length (sh_entries s)) (drop (sh_prev s) l) = sh_entries s \<and>
     (0 < sh_prev s \<longrightarrow> entry_term (l ! (sh_prev s - 1)) = sh_prev_term s)"

text \<open>
  What one event does to the log of a node: nothing, the append of a leader to its own log, or the
  replacement of what follows the previous index of a batch that the node holds.  A storage of
  bounded capacity may keep only the first \<open>n\<close> entries.
\<close>

inductive log_step ::
  "(node_id \<times> 'p shipment) option \<Rightarrow> bool \<Rightarrow> election_view \<Rightarrow> 'p log_entry list
   \<Rightarrow> election_view \<Rightarrow> 'p log_entry list \<Rightarrow> bool" where
  keep: "log_step trig submits e l e' l"
| append: "submits \<Longrightarrow> ev_role e = Leader \<Longrightarrow> ev_role e' = Leader \<Longrightarrow> ev_term e' = ev_term e \<Longrightarrow>
     entry_term x = ev_term e \<Longrightarrow> log_step trig submits e l e' (l @ [x])"
| accept: "trig = Some (f, s) \<Longrightarrow> sh_entries s \<noteq> [] \<Longrightarrow> sh_term s = ev_term e \<Longrightarrow>
     ev_role e' = Leader \<longrightarrow> ev_role e = Leader \<Longrightarrow> ev_term e' = ev_term e \<Longrightarrow>
     sh_prev s \<le> length l \<Longrightarrow> (0 < sh_prev s \<longrightarrow> entry_term (l ! (sh_prev s - 1)) = sh_prev_term s) \<Longrightarrow>
     log_step trig submits e l e' (take (sh_prev s) l @ take n (sh_entries s))"

inductive_cases log_stepE: "log_step trig submits e l e' l'"

section \<open>The invariant\<close>

type_synonym 'p history = "log_term \<Rightarrow> 'p log_entry list"
type_synonym 'p shipments = "(node_id \<times> node_id \<times> 'p shipment) set"

definition rooted :: "'p history \<Rightarrow> 'p log_entry list \<Rightarrow> bool" where
  "rooted L l \<longleftrightarrow> (\<forall>k<length l. k < length (L (entry_term (l ! k))) \<and>
     take (Suc k) l = take (Suc k) (L (entry_term (l ! k))))"

definition winners_ok :: "node_id set \<Rightarrow> (node_id \<Rightarrow> election_view) \<Rightarrow> bool" where
  "winners_ok M V \<longleftrightarrow>
     (\<forall>i\<in>M. (\<forall>t\<in>ev_won (V i). t \<le> ev_term (V i)) \<and>
        (ev_role (V i) = Candidate \<longrightarrow> ev_term (V i) \<notin> ev_won (V i)) \<and>
        (ev_role (V i) = Leader \<longrightarrow> ev_term (V i) \<in> ev_won (V i)))"

definition unique_winners :: "node_id set \<Rightarrow> (node_id \<Rightarrow> election_view) \<Rightarrow> bool" where
  "unique_winners M V \<longleftrightarrow> (\<forall>a\<in>M. \<forall>b\<in>M. \<forall>t. t \<in> ev_won (V a) \<longrightarrow> t \<in> ev_won (V b) \<longrightarrow> a = b)"

definition log_inv ::
  "node_id set \<Rightarrow> nat \<Rightarrow> (node_id \<Rightarrow> election_view) \<Rightarrow> (node_id \<Rightarrow> 'p log_entry list)
   \<Rightarrow> 'p shipments \<Rightarrow> 'p history \<Rightarrow> bool" where
  "log_inv M K V logs net L \<longleftrightarrow>
     (\<forall>i\<in>M. rooted L (logs i)) \<and> (\<forall>t. rooted L (L t)) \<and> (\<forall>t. length (L t) \<le> K) \<and>
     (\<forall>i\<in>M. ev_role (V i) = Leader \<longrightarrow> logs i = L (ev_term (V i))) \<and>
     (\<forall>t. (\<forall>i\<in>M. t \<notin> ev_won (V i)) \<longrightarrow> L t = []) \<and>
     (\<forall>(f, to, s)\<in>net. f \<in> M \<and> f \<noteq> to \<and> sh_term s \<in> ev_won (V f) \<and> ships_from (L (sh_term s)) s)"

lemma log_invD:
  assumes "log_inv M K V logs net L"
  shows "i \<in> M \<Longrightarrow> rooted L (logs i)" "rooted L (L t)" "length (L t) \<le> K"
    "i \<in> M \<Longrightarrow> ev_role (V i) = Leader \<Longrightarrow> logs i = L (ev_term (V i))"
    "(\<And>i. i \<in> M \<Longrightarrow> t \<notin> ev_won (V i)) \<Longrightarrow> L t = []"
    "(f, to, s) \<in> net \<Longrightarrow> f \<in> M \<and> f \<noteq> to \<and> sh_term s \<in> ev_won (V f) \<and> ships_from (L (sh_term s)) s"
  using assms unfolding log_inv_def by blast+

lemma rootedD:
  "rooted L l \<Longrightarrow> k < length l \<Longrightarrow> k < length (L (entry_term (l ! k)))"
  "rooted L l \<Longrightarrow> k < length l \<Longrightarrow> take (Suc k) l = take (Suc k) (L (entry_term (l ! k)))"
  by (simp_all add: rooted_def)

lemma rooted_Nil [simp]: "rooted L []"
  by (simp add: rooted_def)

lemma rooted_take: "rooted L l \<Longrightarrow> rooted L (take n l)"
  unfolding rooted_def by (auto simp: min_def)

lemma rooted_length_le: "rooted L l \<Longrightarrow> (\<And>t. length (L t) \<le> K) \<Longrightarrow> length l \<le> K"
proof (cases l rule: rev_cases)
  case (snoc xs x)
  assume "rooted L l" and K: "\<And>t. length (L t) \<le> K"
  then have "length xs < length (L (entry_term x))"
    using rootedD(1) [of L l "length xs"] snoc by simp
  with K [of "entry_term x"] snoc show ?thesis by simp
qed simp

text \<open>Growing histories keep a log rooted.\<close>

lemma rooted_mono:
  assumes "rooted L l" and "\<And>k. k < length l \<Longrightarrow> \<exists>ys. L' (entry_term (l ! k)) = L (entry_term (l ! k)) @ ys"
  shows "rooted L' l"
  unfolding rooted_def
proof (intro allI impI)
  fix k assume k: "k < length l"
  from assms(2) [OF this] obtain ys where "L' (entry_term (l ! k)) = L (entry_term (l ! k)) @ ys" by blast
  with rootedD [OF assms(1) k] show "k < length (L' (entry_term (l ! k))) \<and>
      take (Suc k) l = take (Suc k) (L' (entry_term (l ! k)))"
    by simp
qed

text \<open>
  Two rooted logs that hold entries of the same term at the same place agree up to there: log
  matching.
\<close>

lemma rooted_match:
  assumes "rooted L a" and "rooted L b" and "k < length a" and "k < length b"
    and "entry_term (a ! k) = entry_term (b ! k)"
  shows "take (Suc k) a = take (Suc k) b"
  using rootedD(2) [OF assms(1,3)] rootedD(2) [OF assms(2,4)] assms(5) by simp

lemma ships_from_mono: "ships_from l s \<Longrightarrow> ships_from (l @ ys) s"
  by (auto simp: ships_from_def nth_append)

section \<open>Steps\<close>

text \<open>A node that accepts a batch of the leader of a term holds a beginning of that leader's log.\<close>

lemma accept_prefix:
  assumes roots: "rooted L l" "rooted L (L t)" and ship: "ships_from (L t) s" and ne: "sh_entries s \<noteq> []"
    and prev: "sh_prev s \<le> length l" "0 < sh_prev s \<longrightarrow> entry_term (l ! (sh_prev s - 1)) = sh_prev_term s"
  shows "\<exists>m. take (sh_prev s) l @ take n (sh_entries s) = take m (L t)"
proof -
  let ?p = "sh_prev s" and ?es = "sh_entries s"
  have len: "?p + length ?es \<le> length (L t)" and seg: "take (length ?es) (drop ?p (L t)) = ?es"
    and pt: "0 < ?p \<Longrightarrow> entry_term (L t ! (?p - 1)) = sh_prev_term s"
    using ship ne by (auto simp: ships_from_def)
  have same: "take ?p l = take ?p (L t)"
  proof (cases "?p = 0")
    case False
    have "0 < length ?es" using ne by simp
    then have "?p - 1 < length l" "?p - 1 < length (L t)"
      using False prev(1) len by linarith+
    from rooted_match [OF roots this] have "take (Suc (?p - 1)) l = take (Suc (?p - 1)) (L t)"
      using False pt prev(2) by simp
    with False show ?thesis by simp
  qed simp
  have "take n ?es = take (min n (length ?es)) (drop ?p (L t))"
    using seg by (metis take_take)
  then have "take ?p l @ take n ?es = take (?p + min n (length ?es)) (L t)"
    by (simp add: same take_add)
  then show ?thesis by blast
qed

lemma winners_step:
  assumes "winners_ok M V" and "ballot_step M i trig (V i) e' out"
  shows "winners_ok M (V(i := e'))"
proof -
  have "(\<forall>t\<in>ev_won e'. t \<le> ev_term e') \<and> (ev_role e' = Candidate \<longrightarrow> ev_term e' \<notin> ev_won e') \<and>
      (ev_role e' = Leader \<longrightarrow> ev_term e' \<in> ev_won e')" if "i \<in> M"
  proof -
    from assms(1) that have at_i: "\<And>t. t \<in> ev_won (V i) \<Longrightarrow> t \<le> ev_term (V i)"
      "ev_role (V i) = Candidate \<Longrightarrow> ev_term (V i) \<notin> ev_won (V i)"
      "ev_role (V i) = Leader \<Longrightarrow> ev_term (V i) \<in> ev_won (V i)"
      by (auto simp: winners_ok_def)
    show ?thesis
      using assms(2) by cases (use at_i in \<open>fastforce simp: adopt_term_def split: if_splits\<close>)+
  qed
  with assms(1) show ?thesis by (auto simp: winners_ok_def)
qed

text \<open>How a step of the election protocol can make a node the leader.\<close>

lemma ballot_step_won:
  assumes "ballot_step M i trig e e' out"
  shows "ev_won e \<subseteq> ev_won e'"
    and "ev_role e' = Leader \<Longrightarrow> ev_role e = Leader \<and> ev_term e' = ev_term e \<and> ev_won e' = ev_won e \<or>
      ev_won e' = insert (ev_term e') (ev_won e) \<and> (ev_role e = Candidate \<and> ev_term e' = ev_term e \<or> ev_term e < ev_term e')"
    and "ev_role e' \<noteq> Leader \<Longrightarrow> ev_won e' = ev_won e"
  using assms by (cases; auto simp: adopt_term_def split: if_splits)+

lemma log_step_term:
  assumes "log_step trig sub e l e' l'" and "l' \<noteq> l"
  shows "ev_term e' = ev_term e \<and> (ev_role e' = Leader \<longrightarrow> ev_role e = Leader)"
  using assms by (cases rule: log_step.cases) auto

text \<open>The invariant only reads the views, the logs and the network through these parts.\<close>

lemma log_inv_update:
  assumes inv: "log_inv M K V logs net L" and le: "K \<le> K'"
    and grows: "\<And>t. \<exists>ys. L' t = L t @ ys" and len: "\<And>t. length (L' t) \<le> K'"
    and root: "rooted L' l'" and roots: "\<And>t. L' t \<noteq> L t \<Longrightarrow> rooted L' (L' t)"
    and lead: "ev_role e' = Leader \<Longrightarrow> l' = L' (ev_term e')"
    and others: "\<And>j. j \<in> M \<Longrightarrow> j \<noteq> i \<Longrightarrow> ev_role (V j) = Leader \<Longrightarrow> L' (ev_term (V j)) = L (ev_term (V j))"
    and won: "ev_won (V i) \<subseteq> ev_won e'" and unwon: "\<And>t. L' t \<noteq> L t \<Longrightarrow> t \<in> ev_won e'"
    and i: "i \<in> M"
    and net: "\<And>f to s. (f, to, s) \<in> net' \<Longrightarrow> (f, to, s) \<in> net \<or>
      f = i \<and> to \<noteq> i \<and> sh_term s \<in> ev_won e' \<and> ships_from (L' (sh_term s)) s"
  shows "log_inv M K' (V(i := e')) (logs(i := l')) net' L'"
proof -
  note D = log_invD [OF inv]
  have mono: "rooted L l \<Longrightarrow> rooted L' l" for l
    by (rule rooted_mono [where L = L]) (simp_all add: grows)
  have "rooted L' (L' t)" for t
    using mono [OF D(2)] roots by (cases "L' t = L t") simp_all
  moreover have "L' t = []" if "\<forall>j\<in>M. t \<notin> ev_won ((V(i := e')) j)" for t
  proof -
    have "t \<notin> ev_won e'" and "\<And>j. j \<in> M \<Longrightarrow> t \<notin> ev_won (V j)"
      using that i won by (auto split: if_splits)
    with D(5) unwon show ?thesis by metis
  qed
  moreover have "f \<in> M \<and> f \<noteq> to \<and> sh_term s \<in> ev_won ((V(i := e')) f) \<and> ships_from (L' (sh_term s)) s"
    if "(f, to, s) \<in> net'" for f to s
  proof (cases "(f, to, s) \<in> net")
    case True
    from D(6) [OF this] won ships_from_mono grows show ?thesis by (metis fun_upd_apply subsetD)
  qed (use net [OF that] i in auto)
  moreover have "(logs(i := l')) j = L' (ev_term ((V(i := e')) j))"
    if "j \<in> M" "ev_role ((V(i := e')) j) = Leader" for j
    using that lead others D(4) by (cases "j = i") simp_all
  moreover have "rooted L' ((logs(i := l')) j)" if "j \<in> M" for j
    using mono [OF D(1)] root that by simp
  ultimately show ?thesis
    using len unfolding log_inv_def by blast
qed

lemma log_inv_step:
  assumes inv: "log_inv M K V logs net L" and wins: "winners_ok M V"
    and unique: "unique_winners M (V(i := e'))" and i: "i \<in> M"
    and ballot: "ballot_step M i trig (V i) e' out"
    and log: "log_step ltrig submits (V i) (logs i) e' l'"
    and taken: "\<And>f s. ltrig = Some (f, s) \<Longrightarrow> (f, i, s) \<in> net"
    and net: "\<And>f to s. (f, to, s) \<in> net' \<Longrightarrow> (f, to, s) \<in> net \<or>
      f = i \<and> to \<noteq> i \<and> ev_role e' = Leader \<and> sh_term s = ev_term e' \<and> ships_from l' s"
  shows "\<exists>L'. log_inv M (if submits then Suc K else K) (V(i := e')) (logs(i := l')) net' L' \<and>
    (\<forall>t. \<exists>ys. L' t = L t @ ys)"
proof -
  let ?K = "if submits then Suc K else K" and ?t = "ev_term e'"
  note D = log_invD [OF inv] and W = ballot_step_won [OF ballot]
  have at_i: "\<forall>t\<in>ev_won (V i). t \<le> ev_term (V i)" "ev_role (V i) = Candidate \<longrightarrow> ev_term (V i) \<notin> ev_won (V i)"
    "ev_role (V i) = Leader \<longrightarrow> ev_term (V i) \<in> ev_won (V i)"
    using wins i by (auto simp: winners_ok_def)
  have sole: "j = i" if "j \<in> M" "t \<in> ev_won (V j)" "t \<in> ev_won e'" for j t
  proof (cases "j = i")
    case False
    then have "t \<in> ev_won ((V(i := e')) j)" "t \<in> ev_won ((V(i := e')) i)"
      using that by simp_all
    with unique that(1) i show ?thesis unfolding unique_winners_def by blast
  qed
  have lead_won: "?t \<in> ev_won e'" if "ev_role e' = Leader"
    using W(2) [OF that] at_i(3) by (elim disjE) simp_all
  have other: "ev_term (V j) \<noteq> ?t" if "j \<in> M" "j \<noteq> i" "ev_role (V j) = Leader" "ev_role e' = Leader" for j
  proof
    assume "ev_term (V j) = ?t"
    moreover have "ev_term (V j) \<in> ev_won (V j)"
      using wins that(1,3) unfolding winners_ok_def by blast
    ultimately show False using sole [of j ?t] lead_won that by simp
  qed
  show ?thesis
  proof (cases "ev_role e' = Leader \<and> ?t \<notin> ev_won (V i)")
    case True
    have same: "l' = logs i"
      using log_step_term [OF log] True at_i(3) by fastforce
    have none: "L ?t = []"
      using D(5) [of ?t] sole True lead_won by blast
    define L' where "L' = L(?t := l')"
    have grows: "\<exists>ys. L' t = L t @ ys" for t
      by (simp add: L'_def none)
    have root: "rooted L' l'"
      using rooted_mono [OF D(1) [OF i] grows] by (simp add: same)
    have "log_inv M ?K (V(i := e')) (logs(i := l')) net' L'"
    proof (rule log_inv_update [OF inv _ grows _ root _ _ _ W(1) _ i])
      show "length (L' t) \<le> ?K" for t
        using D(3) [of t] rooted_length_le [OF D(1) [OF i] D(3)] by (simp add: L'_def same)
      show "rooted L' (L' t)" if "L' t \<noteq> L t" for t
        using that root by (auto simp: L'_def split: if_splits)
      show "L' (ev_term (V j)) = L (ev_term (V j))" if "j \<in> M" "j \<noteq> i" "ev_role (V j) = Leader" for j
        using other that True by (simp add: L'_def)
      show "t \<in> ev_won e'" if "L' t \<noteq> L t" for t
        using that lead_won True unfolding L'_def by (metis fun_upd_apply)
      show "(f, to, s) \<in> net \<or> f = i \<and> to \<noteq> i \<and> sh_term s \<in> ev_won e' \<and> ships_from (L' (sh_term s)) s"
        if "(f, to, s) \<in> net'" for f to s
        using net [OF that] lead_won by (auto simp: L'_def)
    qed (simp_all add: L'_def)
    with grows show ?thesis by blast
  next
    case False
    have stay: "ev_role e' = Leader \<Longrightarrow> ev_role (V i) = Leader \<and> ?t = ev_term (V i)"
      using W(2) False at_i by fastforce
    have won: "ev_won e' = ev_won (V i)"
      using W(2,3) False by fastforce
    show ?thesis
      using log
    proof cases
      case keep
      have "log_inv M ?K (V(i := e')) (logs(i := l')) net' L"
      proof (rule log_inv_update [OF inv _ _ _ _ _ _ _ W(1) _ i])
        show "ev_role e' = Leader \<Longrightarrow> l' = L ?t" using keep stay D(4) [OF i] by simp
        then show "(f, to, s) \<in> net \<or> f = i \<and> to \<noteq> i \<and> sh_term s \<in> ev_won e' \<and> ships_from (L (sh_term s)) s"
          if "(f, to, s) \<in> net'" for f to s
          using net [OF that] lead_won by auto
        show "length (L t) \<le> ?K" for t using D(3) [of t] by simp
      qed (use D keep i in simp_all)
      then show ?thesis by (intro exI [of _ L]) auto
    next
      case (append x)
      note l = D(4) [OF i append(3)]
      define L' where "L' = L(?t := l')"
      have grows: "\<exists>ys. L' t = L t @ ys" for t
        using append l by (auto simp: L'_def)
      have "rooted L' (logs i)" by (rule rooted_mono [OF D(1) [OF i] grows])
      moreover have "L' (entry_term x) = logs i @ [x]"
        using append by (simp add: L'_def)
      ultimately have root: "rooted L' l'"
        using append(1) by (auto simp: rooted_def nth_append less_Suc_eq)
      have "log_inv M ?K (V(i := e')) (logs(i := l')) net' L'"
      proof (rule log_inv_update [OF inv _ grows _ root _ _ _ W(1) _ i])
        show "length (L' t) \<le> ?K" for t
          using D(3) [of t] D(3) [of ?t] append l by (auto simp: L'_def le_SucI)
        show "rooted L' (L' t)" if "L' t \<noteq> L t" for t
          using that root by (auto simp: L'_def split: if_splits)
        show "L' (ev_term (V j)) = L (ev_term (V j))" if "j \<in> M" "j \<noteq> i" "ev_role (V j) = Leader" for j
          using other [OF that append(4)] by (simp add: L'_def)
        show "t \<in> ev_won e'" if "L' t \<noteq> L t" for t
          using that lead_won [OF append(4)] unfolding L'_def by (metis fun_upd_apply)
        show "(f, to, s) \<in> net \<or> f = i \<and> to \<noteq> i \<and> sh_term s \<in> ev_won e' \<and> ships_from (L' (sh_term s)) s"
          if "(f, to, s) \<in> net'" for f to s
          using net [OF that] lead_won by (auto simp: L'_def)
      qed (simp_all add: L'_def)
      with grows show ?thesis by blast
    next
      case (accept f s n)
      from D(6) [OF taken [OF accept(2)]]
      have f: "f \<in> M" "f \<noteq> i" "sh_term s \<in> ev_won (V f)" and ship: "ships_from (L (sh_term s)) s" by auto
      have "ev_role (V i) \<noteq> Leader"
      proof
        assume "ev_role (V i) = Leader"
        then have "sh_term s \<in> ev_won e'" using at_i(3) accept(4) won by simp
        with sole [OF f(1,3)] f(2) show False by blast
      qed
      then have follower: "ev_role e' \<noteq> Leader" using stay by blast
      obtain m where l': "l' = take m (L (sh_term s))"
        using accept_prefix [OF D(1) [OF i] D(2) ship accept(3,7,8), of n] accept(1) by auto
      have "log_inv M ?K (V(i := e')) (logs(i := l')) net' L"
      proof (rule log_inv_update [OF inv _ _ _ _ _ _ _ W(1) _ i])
        show "rooted L l'" unfolding l' by (rule rooted_take [OF D(2)])
        show "(f, to, s) \<in> net \<or> f = i \<and> to \<noteq> i \<and> sh_term s \<in> ev_won e' \<and> ships_from (L (sh_term s)) s"
          if "(f, to, s) \<in> net'" for f to s
          using net [OF that] follower by auto
        show "length (L t) \<le> ?K" for t using D(3) [of t] by simp
      qed (use follower in simp_all)
      then show ?thesis by (intro exI [of _ L]) auto
    qed
  qed
qed

text \<open>A leader only ever appends to its log.\<close>

lemma leader_appends:
  assumes inv: "log_inv M K V logs net L" and wins: "winners_ok M V"
    and unique: "unique_winners M V" and i: "i \<in> M" and lead: "ev_role (V i) = Leader"
    and log: "log_step ltrig submits (V i) (logs i) e' l'"
    and taken: "\<And>f s. ltrig = Some (f, s) \<Longrightarrow> (f, i, s) \<in> net"
  shows "\<exists>ys. l' = logs i @ ys"
  using log
proof cases
  case (accept f s n)
  from log_invD(6) [OF inv taken [OF accept(2)]] have "f \<in> M" "f \<noteq> i" "sh_term s \<in> ev_won (V f)" by auto
  moreover have "sh_term s \<in> ev_won (V i)"
    using wins i lead accept(4) by (auto simp: winners_ok_def)
  ultimately show ?thesis
    using unique i unfolding unique_winners_def by blast
qed simp_all

end
