(* ===== verification/Log_Steps.thy ===== *)
theory Log_Steps
  imports Cluster Log_Protocol
begin

text \<open>
  One event at a node, seen as a step of the log replication protocol: the node's log is the log of
  its storage's view, an \<open>AppendEntries\<close> message is a batch.  The theory covers logs that are never
  compacted: the snapshot threshold of the node lies above the bound \<open>K\<close> on the length of the logs,
  and nobody sends a snapshot.
\<close>

section \<open>Messages as batches\<close>

fun shipment_of :: "'p raft_msg \<Rightarrow> 'p shipment option" where
  "shipment_of (AppendEntries t prev pt es _) = Some (Ship t prev pt es)"
| "shipment_of _ = None"

fun installs :: "'p raft_msg \<Rightarrow> bool" where
  "installs (InstallSnapshot _ _ _ _ _ _ _) = True"
| "installs _ = False"

fun shipment_trigger :: "'p event \<Rightarrow> (node_id \<times> 'p shipment) option" where
  "shipment_trigger (Message from m) = map_option (Pair from) (shipment_of m)"
| "shipment_trigger _ = None"

fun submits :: "'p event \<Rightarrow> bool" where
  "submits (ClientCommand _) = True"
| "submits _ = False"

definition msg_bounded :: "nat \<Rightarrow> 'p raft_msg \<Rightarrow> bool" where
  "msg_bounded K m \<longleftrightarrow> \<not> installs m \<and>
     (\<forall>s. shipment_of m = Some s \<longrightarrow> sh_entries s = [] \<or> sh_prev s + length (sh_entries s) \<le> K)"

fun event_bounded :: "nat \<Rightarrow> 'p event \<Rightarrow> bool" where
  "event_bounded K (Message from m) \<longleftrightarrow> msg_bounded K m"
| "event_bounded K _ \<longleftrightarrow> True"

lemma peer_ids_not_self: "p \<in> set (extend_ok f ps []) \<Longrightarrow> node_collection f \<Longrightarrow> p \<in> set ps"
proof -
  assume p: "p \<in> set (extend_ok f ps [])" and "node_collection f"
  with node_collection.extend_ok_prefix [of f ps "[]"] obtain N where "extend_ok f ps [] = nths ps N"
    by (auto simp: subseq_conv_nths)
  with p show ?thesis using set_nths_subset by fastforce
qed

section \<open>Nodes whose log is not compacted\<close>

locale log_env =
  election_env E view + stores: raft_storage "env_storage E" view fits room batch chunk_room
  for E :: "('s, 'sm, 'ts, 'p) env" and view :: "'s \<Rightarrow> 'p log_view"
    and fits :: "'s \<Rightarrow> bool" and room :: "'s \<Rightarrow> nat \<Rightarrow> bool" and batch :: capacity
    and chunk_room :: "nat \<Rightarrow> bool"
begin

abbreviation node_log where
  "node_log n \<equiv> v_log (view (rn_storage n))"

definition log_wf :: "nat \<Rightarrow> ('s, 'sm, 'ts, 'p) raft_node \<Rightarrow> bool" where
  "log_wf K n \<longleftrightarrow> v_first (view (rn_storage n)) = 1 \<and> v_snap (view (rn_storage n)) = None \<and>
     length (node_log n) \<le> K \<and> fits (rn_storage n) \<and> rn_term n = v_term (view (rn_storage n)) \<and>
     commit_index (rn_replication n) \<le> K \<and> K < threshold (rn_snapshots n) \<and> Suc K < u64_limit"

text \<open>What a node may send, given the state \<open>n\<close> it is left in.\<close>

definition carries :: "('s, 'sm, 'ts, 'p) raft_node \<Rightarrow> node_id \<Rightarrow> 'p raft_msg \<Rightarrow> bool" where
  "carries n to m \<longleftrightarrow> \<not> installs m \<and> (\<forall>s. shipment_of m = Some s \<longrightarrow>
     rn_role n = Leader \<and> sh_term s = rn_term n \<and> to \<noteq> rn_id n \<and> ships_from (node_log n) s)"

definition log_ok :: "nat \<Rightarrow> ('s, 'sm, 'ts, 'p) raft_node \<Rightarrow> ('s, 'sm, 'ts, 'p) raft_node \<Rightarrow> bool" where
  "log_ok K n n' \<longleftrightarrow> log_wf K n' \<and> rn_id n' = rn_id n \<and>
     (\<exists>out. rn_outbox n' = rn_outbox n @ out \<and> (\<forall>(to, m)\<in>set out. carries n' to m))"

text \<open>A part of a handler that leaves the log alone and sends no batch.\<close>

definition log_kept :: "nat \<Rightarrow> ('s, 'sm, 'ts, 'p) raft_node \<Rightarrow> ('s, 'sm, 'ts, 'p) raft_node \<Rightarrow> bool" where
  "log_kept K n n' \<longleftrightarrow> log_wf K n' \<and> rn_id n' = rn_id n \<and> node_log n' = node_log n \<and>
     (\<exists>out. rn_outbox n' = rn_outbox n @ out \<and> (\<forall>(to, m)\<in>set out. \<not> installs m \<and> shipment_of m = None))"

lemma log_kept_ok: "log_kept K n n' \<Longrightarrow> log_ok K n n' \<and> node_log n' = node_log n"
  by (fastforce simp: log_kept_def log_ok_def carries_def)

lemma log_kept_trans:
  assumes "log_kept K n n1" and "log_kept K n1 n2"
  shows "log_kept K n n2"
proof -
  from assms obtain o1 o2 where "rn_outbox n1 = rn_outbox n @ o1" "rn_outbox n2 = rn_outbox n1 @ o2"
    "\<forall>(to, m)\<in>set o1. \<not> installs m \<and> shipment_of m = None"
    "\<forall>(to, m)\<in>set o2. \<not> installs m \<and> shipment_of m = None"
    unfolding log_kept_def by blast
  with assms show ?thesis
    by (auto simp: log_kept_def intro!: exI [of _ "o1 @ o2"])
qed

lemma log_kept_then:
  assumes "log_kept K n n1" and "log_ok K n1 n2"
  shows "log_ok K n n2"
proof -
  from assms obtain o1 o2 where "rn_outbox n1 = rn_outbox n @ o1" "rn_outbox n2 = rn_outbox n1 @ o2"
    "\<forall>(to, m)\<in>set o1. \<not> installs m \<and> shipment_of m = None" "\<forall>(to, m)\<in>set o2. carries n2 to m"
    unfolding log_kept_def log_ok_def by blast
  with assms show ?thesis
    by (fastforce simp: log_kept_def log_ok_def carries_def intro!: exI [of _ "o1 @ o2"])
qed

lemma log_keptI:
  assumes "log_wf K n" and "rn_id n' = rn_id n" and "rn_snapshots n' = rn_snapshots n"
    and "v_first (view (rn_storage n')) = v_first (view (rn_storage n))"
    and "v_snap (view (rn_storage n')) = v_snap (view (rn_storage n))" and "node_log n' = node_log n"
    and "fits (rn_storage n) \<Longrightarrow> fits (rn_storage n')" and "rn_term n' = v_term (view (rn_storage n'))"
    and "commit_index (rn_replication n') \<le> K"
    and "rn_outbox n' = rn_outbox n @ out"
    and "\<forall>(to, m)\<in>set out. \<not> installs m \<and> shipment_of m = None"
  shows "log_kept K n n'"
  using assms by (auto simp: log_kept_def log_wf_def)

lemma log_kept_silent:
  assumes "log_wf K n" and "rn_id n' = rn_id n" and "rn_snapshots n' = rn_snapshots n"
    and "rn_storage n' = rn_storage n" and "rn_term n' = rn_term n"
    and "commit_index (rn_replication n') \<le> K" and "rn_outbox n' = rn_outbox n"
  shows "log_kept K n n'"
  using assms by (intro log_keptI [where out = "[]"]) (auto simp: log_wf_def)

lemma log_kept_wf: "log_kept K n n' \<Longrightarrow> log_wf K n'"
  by (simp add: log_kept_def)

lemma log_wf_commit: "log_wf K n \<Longrightarrow> commit_index (rn_replication n) \<le> K"
  by (simp add: log_wf_def)

lemmas log_setters = storage.set_term storage.set_vote stores.fits_set_term stores.fits_set_vote

lemma log_wf_view_ok: "log_wf K n \<Longrightarrow> view_ok (view (rn_storage n))"
  by (simp add: log_wf_def view_ok_def compacted_def v_next_def)

lemma log_wf_last: "log_wf K n \<Longrightarrow> st_last_log_index (env_storage E) (rn_storage n) = length (node_log n)"
  using stores.last_index [OF log_wf_view_ok] by (simp add: log_wf_def v_next_def)

section \<open>Sending\<close>

text \<open>Whatever index a leader believes is next for a peer, the batch is a segment of its log.\<close>

lemma peer_message_carries:
  assumes wf: "log_wf K n" and lead: "rn_role n = Leader" and to: "to \<noteq> rn_id n"
  shows "carries n to (get_append_entries_for_peer MO (env_storage E) to lid (rn_storage n) lrm)"
proof -
  let ?S = "env_storage E" and ?l = "node_log n" and ?v = "view (rn_storage n)"
  define nxt where "nxt = unwrap_or 1 (mc_get MO (next_index lrm) to)"
  define es where "es = st_get_entries ?S (rn_storage n) nxt (Suc (length ?l))"
  define pt where "pt = (if nxt - 1 = 0 then 0 else case st_get_entry ?S (rn_storage n) (nxt - 1) of
      Some entry \<Rightarrow> entry_term entry
    | None \<Rightarrow> (case st_load_snapshot ?S (rn_storage n) of
         Some sn \<Rightarrow> if nxt - 1 = last_included_index (metadata sn) then last_included_term (metadata sn) else 0
       | None \<Rightarrow> 0))"
  have view: "v_first ?v = 1" "v_snap ?v = None" "v_next ?v = Suc (length ?l)" "rn_term n = v_term ?v"
    and lim: "Suc (length ?l) < u64_limit"
    using wf by (auto simp: log_wf_def v_next_def)
  have last: "u64_add (st_last_log_index ?S (rn_storage n)) (Suc 0) = Suc (length ?l)"
    using lim by (simp add: log_wf_last [OF wf] u64_simps)
  have "get_append_entries_for_peer MO ?S to lid (rn_storage n) lrm =
      AppendEntries (rn_term n) (nxt - 1) pt es (commit_index lrm)"
    using view(2,4) last
    by (simp add: get_append_entries_for_peer_def get_append_entries_for_follower_def Let_def
        nxt_def [symmetric, unfolded One_nat_def] es_def pt_def stores.no_chunk storage.get_term
        storage.load_snapshot cong: option.case_cong)
  moreover have "ships_from ?l (Ship (rn_term n) (nxt - 1) pt es)"
  proof (cases "0 < nxt \<and> nxt < Suc (length ?l)")
    case False
    then have "es = []"
      unfolding es_def by (intro stores.get_entries_none) (auto simp: view(1))
    then show ?thesis by (simp add: ships_from_def)
  next
    case True
    then have "es = clip batch (v_segment ?v nxt (Suc (length ?l)))"
      unfolding es_def by (intro stores.get_entries) (auto simp: view)
    then obtain m where es: "es = take m (drop (nxt - 1) ?l)"
      using clip_prefix [of batch "v_segment ?v nxt (Suc (length ?l))"]
      by (auto simp: v_segment_def view(1))
    have "entry_term (?l ! (nxt - 1 - 1)) = pt" if "0 < nxt - 1"
    proof -
      have "v_entry ?v (nxt - 1) = Some (?l ! (nxt - 1 - 1))"
        using that True by (auto simp: v_entry_Some_iff view)
      with that show ?thesis by (simp add: pt_def stores.get_entry)
    qed
    moreover have "take (length es) (drop (nxt - 1) ?l) = es"
      unfolding es by (cases "m \<le> length ?l - (nxt - 1)") simp_all
    moreover have "nxt - 1 + length es \<le> length ?l"
      using True by (simp add: es) arith
    ultimately show ?thesis
      using True by (simp add: ships_from_def)
  qed
  ultimately show ?thesis
    using lead to by (simp add: carries_def)
qed

lemma send_append_ok:
  assumes wf: "log_wf K n" and lead: "rn_role n = Leader"
  shows "log_ok K n (send_append_entries_to_followers E n) \<and>
    node_log (send_append_entries_to_followers E n) = node_log n"
proof -
  have "to \<noteq> rn_id n" if "to \<in> set (peer_ids E n)" for to
    using peer_ids_not_self [OF that [unfolded peer_ids_def] nodes.node_collection_axioms] by simp
  then have "carries n to (get_append_entries_for_peer (env_maps E) (env_storage E) to (rn_id n)
      (rn_storage n) (rn_replication n))" if "to \<in> set (peer_ids E n)" for to
    using peer_message_carries [OF wf lead] that by blast
  then show ?thesis
    using wf by (auto simp: send_append_entries_eq log_ok_def log_wf_def carries_def)
qed

section \<open>Handlers that leave the log alone\<close>

lemma kept_observe: "log_wf K n \<Longrightarrow> log_kept K n (observe ev n)"
  by (rule log_kept_silent) (simp_all add: log_wf_def)

lemma kept_refl: "log_wf K n \<Longrightarrow> log_kept K n n"
  by (rule log_kept_silent) (simp_all add: log_wf_def)

lemma kept_send: "log_wf K n \<Longrightarrow> \<not> installs m \<Longrightarrow> shipment_of m = None \<Longrightarrow> log_kept K n (send to m n)"
  by (rule log_keptI [where out = "[(to, m)]"]) (auto simp: log_wf_def)

abbreviation log_event :: "nat \<Rightarrow> ('s, 'sm, 'ts, 'p) raft_node \<Rightarrow> ('s, 'sm, 'ts, 'p) raft_node \<Rightarrow> bool" where
  "log_event K n n' \<equiv> log_ok K n n' \<and> node_log n' = node_log n"

lemma kept_then_event: "log_kept K n n1 \<Longrightarrow> log_event K n1 n2 \<Longrightarrow> log_event K n n2"
  using log_kept_then by (simp add: log_kept_def)

lemma event_heartbeat_timer:
  assumes wf: "log_wf K n"
  shows "log_event K n (handle_heartbeat_timer E n)"
proof -
  let ?n1 = "observe (ObsTimerFired (rn_id n) ObserverHeartbeat (rn_term n)) n"
  have 1: "log_kept K n ?n1" by (rule kept_observe [OF wf])
  have tail: "log_event K m (m'\<lparr>rn_election := em\<rparr>)" if "log_event K m m'" for m m' em
    using that by (auto simp: log_ok_def log_wf_def carries_def)
  have "log_event K ?n1 (send_heartbeats E ?n1)" if "rn_role n = Leader"
    unfolding send_heartbeats_def Let_def
    by (rule tail, rule send_append_ok [OF log_kept_wf [OF 1]]) (use that in simp)
  with kept_then_event [OF 1] log_kept_ok [OF 1] show ?thesis
    by (simp add: handle_heartbeat_timer_def Let_def)
qed

lemma event_become_leader:
  assumes wf: "log_wf K n"
  shows "log_event K n (become_leader E n)"
proof -
  define n1 where "n1 = n\<lparr>rn_role := Leader, rn_election := (rn_election n)\<lparr>timer_service :=
      ts_reset_heartbeat (env_timers E) (ts_stop_timers (env_timers E) (timer_service (rn_election n)))\<rparr>,
      rn_replication := initialize_leader_state (env_maps E) (env_storage E) (node_members n) (rn_storage n)
        (rn_replication n),
      rn_observed := rn_observed n @ [RoleChanged (rn_id n) (node_state_to_role (rn_role n)) RoleLeader (rn_term n),
        LeaderElected (rn_id n) (rn_term n)]\<rparr>"
  have eq: "become_leader E n = send_append_entries_to_followers E n1"
    by (simp add: become_leader_def rt_become_leader_def n1_def)
  have 1: "log_kept K n n1"
    using log_wf_commit [OF wf] by (intro log_kept_silent [OF wf]) (simp_all add: n1_def)
  have "rn_role n1 = Leader" by (simp add: n1_def)
  from kept_then_event [OF 1 send_append_ok [OF log_kept_wf [OF 1] this]] show ?thesis
    by (simp add: eq)
qed

lemma kept_start_pre_vote:
  assumes "log_wf K n"
  shows "log_kept K n (start_pre_vote E n)"
  by (rule log_keptI [OF assms, where out = "map (\<lambda>p. (p, PreVoteRequest (rn_term n) (rn_id n)
        (st_last_log_index (env_storage E) (rn_storage n)) (st_last_log_term (env_storage E) (rn_storage n))))
        (peer_ids E n)"])
    (use assms in \<open>auto simp: start_pre_vote_def rt_start_pre_vote_def em_start_pre_vote_def Let_def
        broadcast_eq peer_ids_def log_wf_def\<close>)

lemma event_start_election:
  assumes wf: "log_wf K n"
  shows "log_event K n (start_election E n)"
proof -
  let ?S = "env_storage E" and ?t = "u64_add (rn_term n) 1"
  let ?st = "st_set_voted_for ?S (Some (rn_id n)) (st_set_current_term ?S ?t (rn_storage n))"
  let ?req = "RequestVote ?t (rn_id n) (st_last_log_index ?S ?st) (st_last_log_term ?S ?st)"
  define n1 where "n1 = broadcast E ?req (n\<lparr>rn_election :=
      em_reset_election_timer (env_timers E) ((rn_election n)\<lparr>votes_received := [rn_id n], in_pre_vote := False\<rparr>),
      rn_term := ?t, rn_storage := ?st, rn_role := Candidate,
      rn_observed := rn_observed n @ [ElectionStarted (rn_id n) ?t,
        RoleChanged (rn_id n) (node_state_to_role (rn_role n)) RoleCandidate ?t, VotedFor (rn_id n) (rn_id n) ?t]\<rparr>)"
  have eq: "start_election E n = (if length (node_members n1) \<le> 1 then become_leader E n1 else n1)"
    by (simp add: start_election_def rt_start_election_def em_start_election_def Let_def n1_def nodes.push_ok_Nil)
  have 1: "log_kept K n n1"
    by (rule log_keptI [OF wf, where out = "map (\<lambda>p. (p, ?req)) (peer_ids E n)"])
      (use wf in \<open>auto simp: n1_def broadcast_eq peer_ids_def log_setters log_wf_def\<close>)
  from kept_then_event [OF 1 event_become_leader [OF log_kept_wf [OF 1]]] log_kept_ok [OF 1] show ?thesis
    by (simp add: eq)
qed

lemma event_election_timer:
  assumes wf: "log_wf K n"
  shows "log_event K n (handle_election_timer E n)"
proof -
  let ?n1 = "observe (ObsTimerFired (rn_id n) ObserverElection (rn_term n)) n"
  let ?n2 = "observe (ElectionTimeout (rn_id ?n1) (rn_term ?n1)) ?n1"
  have 1: "log_kept K n ?n1" by (rule kept_observe [OF wf])
  have 2: "log_kept K n ?n2" by (rule log_kept_trans [OF 1 kept_observe [OF log_kept_wf [OF 1]]])
  have 3: "log_kept K n (start_pre_vote E ?n2)"
    by (rule log_kept_trans [OF 2 kept_start_pre_vote [OF log_kept_wf [OF 2]]])
  show ?thesis
    using log_kept_ok [OF 1] log_kept_ok [OF 3]
      kept_then_event [OF 3 event_start_election [OF log_kept_wf [OF 3]]]
    by (auto simp: handle_election_timer_def Let_def)
qed

lemma kept_step_down: "log_wf K n \<Longrightarrow> log_kept K n (step_down E t n)"
  by (rule log_keptI [where out = "[]"]) (auto simp: log_setters log_wf_def)

lemma kept_validate:
  "log_wf K n \<Longrightarrow> validate_term_and_step_down E t n = (n1, sd) \<Longrightarrow> log_kept K n n1"
  using kept_step_down kept_refl by (auto simp: validate_term_and_step_down_def split: if_splits)

lemma kept_pre_vote_request:
  assumes "log_wf K n"
  shows "log_kept K n (handle_pre_vote_request E from trm cand lli llt n)"
  by (rule log_keptI [OF assms, where out = "[(from, em_handle_pre_vote_request (env_storage E) trm lli llt
        (rn_term n) (rn_storage n))]"])
    (use assms in \<open>auto simp: handle_pre_vote_request_def em_handle_pre_vote_request_def Let_def log_wf_def\<close>)

lemma event_pre_vote_response:
  assumes wf: "log_wf K n"
  shows "log_event K n (handle_pre_vote_response E from trm granted n)"
proof -
  obtain em start where run: "em_handle_pre_vote_response (env_nodes E) from granted
      (cm_config (rn_config n)) (rn_election n) = (em, start)" by fastforce
  let ?n1 = "n\<lparr>rn_election := em\<rparr>"
  let ?n2 = "observe (PreVoteSucceeded (rn_id ?n1) (rn_term ?n1)) ?n1"
  have 1: "log_kept K n ?n1"
    using log_wf_commit [OF wf] by (intro log_kept_silent [OF wf]) simp_all
  have 2: "log_kept K n ?n2"
    by (rule log_kept_trans [OF 1 kept_observe [OF log_kept_wf [OF 1]]])
  show ?thesis
    using log_kept_ok [OF kept_refl [OF wf]] log_kept_ok [OF 1]
      kept_then_event [OF 2 event_start_election [OF log_kept_wf [OF 2]]]
    by (auto simp: handle_pre_vote_response_def run Let_def)
qed

lemma kept_vote_request:
  assumes wf: "log_wf K n"
  shows "log_kept K n (handle_vote_request E from trm cand lli llt n)"
proof -
  obtain n1 sd where val: "validate_term_and_step_down E trm n = (n1, sd)" by fastforce
  have 1: "log_kept K n n1" by (rule kept_validate [OF wf val])
  obtain em ct st msg where run: "em_handle_vote_request (env_timers E) (env_storage E) trm cand lli llt
      (rn_term n1) (rn_storage n1) (rn_election n1) = (em, ct, st, msg)"
    by (metis prod_cases4)
  have le: "trm \<le> rn_term n1"
    using val by (auto simp: validate_term_and_step_down_def split: if_splits)
  then have parts: "ct = rn_term n1 \<and> (\<exists>g. msg = RequestVoteResponse ct g) \<and>
      (st = rn_storage n1 \<or> st = st_set_voted_for (env_storage E) (Some cand) (rn_storage n1))"
    using run by (auto simp: em_handle_vote_request_def Let_def split: if_splits)
  have "log_kept K n1 (send from msg (n1\<lparr>rn_election := em, rn_term := ct, rn_storage := st\<rparr>))"
    by (rule log_keptI [OF log_kept_wf [OF 1], where out = "[(from, msg)]"])
      (use parts log_kept_wf [OF 1] in \<open>auto simp: log_setters log_wf_def\<close>)
  from log_kept_trans [OF 1 this] show ?thesis
    by (simp add: handle_vote_request_def val run)
qed

lemma event_vote_response:
  assumes wf: "log_wf K n"
  shows "log_event K n (handle_vote_response E from trm granted n)"
proof -
  obtain n1 sd where val: "validate_term_and_step_down E trm n = (n1, sd)" by fastforce
  have 1: "log_kept K n n1" by (rule kept_validate [OF wf val])
  obtain em won where run: "em_handle_vote_response (env_nodes E) from trm granted (rn_term n1) (rn_role n1)
      (cm_config (rn_config n1)) (rn_election n1) = (em, won)" by fastforce
  let ?n2 = "n1\<lparr>rn_election := em\<rparr>"
  have "log_kept K n1 ?n2"
    using log_wf_commit [OF log_kept_wf [OF 1]] by (intro log_kept_silent [OF log_kept_wf [OF 1]]) simp_all
  note 2 = log_kept_trans [OF 1 this]
  show ?thesis
    using log_kept_ok [OF 1] log_kept_ok [OF 2] kept_then_event [OF 2 event_become_leader [OF log_kept_wf [OF 2]]]
    by (simp add: handle_vote_response_def val run Let_def)
qed

section \<open>The follower's side\<close>

lemma log_view_consistency:
  assumes wf: "log_wf K n"
  shows "check_log_consistency (env_storage E) prev pt (rn_storage n) \<longleftrightarrow>
    prev = 0 \<or> prev \<le> length (node_log n) \<and> entry_term (node_log n ! (prev - 1)) = pt"
  using wf unfolding stores.check_consistency_iff
  by (auto simp: v_term_at_def log_wf_def v_entry_Some_iff v_next_def split: option.splits)
    (auto simp: v_entry_def nth_opt_def v_next_def split: if_splits)

text \<open>
  A batch that passes the check replaces what follows the previous index, or as much of it as the
  storage has room for.
\<close>

lemma try_append_log:
  assumes wf: "log_wf K n" and small: "es = [] \<or> prev + length es \<le> K"
    and run: "try_append_entries (env_storage E) SM CO i prev pt es lc (rn_storage n) sm obs
      (rn_replication n) = (lrm', st', sm', obs', res)"
  shows "v_first (view st') = 1" and "v_snap (view st') = None" and "v_term (view st') = rn_term n"
    and "length (v_log (view st')) \<le> K" and "fits st'" and "commit_index lrm' \<le> K"
    and "v_log (view st') = node_log n \<or> es \<noteq> [] \<and> prev \<le> length (node_log n) \<and>
      (0 < prev \<longrightarrow> entry_term (node_log n ! (prev - 1)) = pt) \<and>
      (\<exists>m. v_log (view st') = take prev (node_log n) @ take m es)"
proof -
  let ?S = "env_storage E" and ?s = "rn_storage n"
  define st1 where "st1 = (if prev < st_last_log_index ?S ?s then st_truncate_after ?S prev ?s else ?s)"
  define st2 where "st2 = (if es \<noteq> [] then st_append_entries ?S es st1 else ?s)"
  define ok where "ok = check_log_consistency ?S prev pt ?s"
  have base: "v_first (view ?s) = 1" "v_snap (view ?s) = None" "fits ?s" "length (node_log n) \<le> K"
    "v_term (view ?s) = rn_term n" "Suc K < u64_limit" "commit_index (rn_replication n) \<le> K"
    using wf by (auto simp: log_wf_def)
  have st': "st' = (if ok then st2 else ?s)"
    using run by (auto simp: try_append_entries_def ok_def st1_def st2_def Let_def split: if_splits prod.splits)
  have cons: "ok \<Longrightarrow> prev \<le> length (node_log n) \<and> (0 < prev \<longrightarrow> entry_term (node_log n ! (prev - 1)) = pt)"
    using log_view_consistency [OF wf] by (auto simp: ok_def)
  have view1: "view st1 = (view ?s)\<lparr>v_log := take prev (node_log n)\<rparr> \<and> fits st1" if ok
  proof (cases "prev < length (node_log n)")
    case True
    then have "Suc prev < u64_limit" using base(4,6) by simp
    with True base(1,3) show ?thesis
      by (simp add: st1_def log_wf_last [OF wf] stores.truncate stores.fits_truncate v_truncate_def)
  next
    case False
    with cons [OF that] base(3) show ?thesis
      by (simp add: st1_def log_wf_last [OF wf])
  qed
  obtain m where m: "view (st_append_entries ?S es st1) = (view st1)\<lparr>v_log := v_log (view st1) @ take m es\<rparr>"
    using storage.append_some by blast
  have view2: "view st' = (view ?s)\<lparr>v_log := v_log (view st')\<rparr>" and fits: "fits st'"
    and log: "v_log (view st') = node_log n \<or> ok \<and> es \<noteq> [] \<and> v_log (view st') = take prev (node_log n) @ take m es"
    using view1 m base(3) by (auto simp: st' st2_def stores.fits_append)
  show 1: "v_first (view st') = 1" and 2: "v_snap (view st') = None" and "v_term (view st') = rn_term n"
    using arg_cong [OF view2, of v_first] arg_cong [OF view2, of v_snap] arg_cong [OF view2, of v_term] base by simp_all
  show "fits st'" by (rule fits)
  show len: "length (v_log (view st')) \<le> K"
    using log base(4) small by auto
  show "v_log (view st') = node_log n \<or> es \<noteq> [] \<and> prev \<le> length (node_log n) \<and>
      (0 < prev \<longrightarrow> entry_term (node_log n ! (prev - 1)) = pt) \<and>
      (\<exists>m. v_log (view st') = take prev (node_log n) @ take m es)"
    using log cons by blast
  have "view_ok (view st')"
    using 1 2 len base(6) by (simp add: view_ok_def compacted_def v_next_def)
  then have "st_last_log_index ?S st' \<le> K"
    using stores.last_index [of st'] 1 len by (simp add: v_next_def)
  moreover have "lrm' = rn_replication n \<or> commit_index lrm' = min lc (st_last_log_index ?S st')"
    using run st' by (auto simp: try_append_entries_def ok_def st1_def st2_def Let_def apply_committed_spec
        split: if_splits prod.splits)
  ultimately show "commit_index lrm' \<le> K"
    using base(7) by auto
qed

lemma event_append_entries:
  assumes wf: "log_wf K n" and small: "es = [] \<or> prev + length es \<le> K"
  shows "log_ok K n (handle_append_entries E from trm prev pt es lc n) \<and>
    log_step (Some (from, Ship trm prev pt es)) sub (eview E n) (node_log n)
      (eview E (handle_append_entries E from trm prev pt es lc n))
      (node_log (handle_append_entries E from trm prev pt es lc n))"
proof -
  have still: ?thesis if "handle_append_entries E from trm prev pt es lc n = m" "log_kept K n m" for m
    using that log_kept_ok [OF that(2)] by (simp add: log_step.keep)
  obtain n1 sd where val: "validate_term_and_step_down E trm n = (n1, sd)" by fastforce
  show ?thesis
  proof (cases sd)
    case True
    then show ?thesis
      using kept_validate [OF wf val] by (intro still) (simp_all add: handle_append_entries_def val)
  next
    case False
    with val have same: "n1 = n" and le: "trm \<le> rn_term n"
      by (auto simp: validate_term_and_step_down_def split: if_splits)
    define n2 where "n2 = (reset_election_timer_if_valid_term E trm n)\<lparr>rn_leader := Some from\<rparr>"
    have n2: "rn_term n2 = rn_term n" "rn_storage n2 = rn_storage n" "rn_role n2 = rn_role n" "rn_id n2 = rn_id n"
      "rn_replication n2 = rn_replication n" "rn_outbox n2 = rn_outbox n" "rn_snapshots n2 = rn_snapshots n"
      by (simp_all add: n2_def)
    obtain lrm ct st sm rl obs msg cs where run: "lrm_handle_append_entries (env_storage E) (env_machine E)
        (env_changes E) (rn_id n2) trm prev pt es lc (rn_term n2) (rn_storage n2) (rn_machine n2)
        (rn_role n2) (rn_observed n2) (rn_replication n2) = (lrm, ct, st, sm, rl, obs, msg, cs)"
      using prod.exhaust by metis
    define n' where "n' = send from msg (apply_config_changes E cs (n2\<lparr>rn_replication := lrm, rn_term := ct,
        rn_storage := st, rn_machine := sm, rn_role := rl, rn_observed := obs\<rparr>))"
    have eq: "handle_append_entries E from trm prev pt es lc n = n'"
      unfolding handle_append_entries_def val by (simp add: False same n2_def [symmetric] run n'_def)
    obtain lrm2 st2 sm2 obs2 res where app: "try_append_entries (env_storage E) (env_machine E) (env_changes E)
        (rn_id n) prev pt es lc (rn_storage n) (rn_machine n2) (rn_observed n2) (rn_replication n)
        = (lrm2, st2, sm2, obs2, res)"
      by (metis prod_cases5)
    have parts: "ct = rn_term n" "rl = rn_role n \<or> rl = Follower" "\<exists>ok mi. msg = AppendEntriesResponse ct ok mi"
      "st = rn_storage n \<and> lrm = rn_replication n \<or> trm = rn_term n \<and> st = st2 \<and> lrm = lrm2"
      using run le by (auto simp: lrm_handle_append_entries_def n2 app Let_def split: if_splits option.splits)
    note log = try_append_log [OF wf small app]
    have view: "v_first (view st) = 1" "v_snap (view st) = None" "v_term (view st) = rn_term n"
      "length (v_log (view st)) \<le> K" "fits st" "commit_index lrm \<le> K"
      using parts(4) log(1-6) wf by (auto simp: log_wf_def)
    have wf': "log_wf K n'"
      using wf view parts(1) by (simp add: n'_def log_wf_def n2)
    have "log_ok K n n'"
      using wf' parts(3) by (auto simp: log_ok_def n'_def n2 carries_def intro!: exI [of _ "[(from, msg)]"])
    moreover have "log_step (Some (from, Ship trm prev pt es)) sub (eview E n) (node_log n) (eview E n') (node_log n')"
    proof (cases "node_log n' = node_log n")
      case True
      then show ?thesis by (simp add: log_step.keep)
    next
      case False
      then have cur: "trm = rn_term n" and diff: "v_log (view st2) \<noteq> node_log n" and here: "node_log n' = v_log (view st2)"
        using parts(4) by (auto simp: n'_def)
      with log(7) obtain m where m: "es \<noteq> []" "prev \<le> length (node_log n)"
        "0 < prev \<longrightarrow> entry_term (node_log n ! (prev - 1)) = pt" "node_log n' = take prev (node_log n) @ take m es"
        by auto
      have "rn_role n' = Leader \<longrightarrow> rn_role n = Leader" and "rn_term n' = rn_term n"
        using parts(1,2) by (auto simp: n'_def apply_config_changes_role)
      with m cur show ?thesis
        unfolding m(4)
        using log_step.accept [of "Some (from, Ship trm prev pt es)" "from" "Ship trm prev pt es" "eview E n"
            "eview E n'" "node_log n" sub m] by simp
    qed
    ultimately show ?thesis by (simp add: eq)
  qed
qed

section \<open>The leader's side\<close>

text \<open>The commit index of a leader moves to an index of its log.\<close>

lemma advance_commit_bound:
  assumes wf: "log_wf K n" and log: "v_first (view st) = 1" "length (v_log (view st)) \<le> K"
    and run: "advance_commit_index MO (env_storage E) SM CO config lid i st sm obs lrm = (lrm', sm', obs', cs)"
    and old: "commit_index lrm \<le> K"
  shows "commit_index lrm' \<le> K"
proof (rule stores.advance_commit_cases [OF run])
  fix c e assume c: "v_entry (view st) c = Some e"
    and new: "(lrm', sm', obs', cs) = apply_committed_entries (env_storage E) SM CO i st sm obs (lrm\<lparr>commit_index := c\<rparr>)"
  have "c \<le> K" using c log by (auto simp: v_entry_Some_iff v_next_def)
  then show ?thesis using new by (simp add: apply_committed_spec Let_def)
qed (use old in simp)

lemma promote_commit [simp]: "commit_index (check_and_promote_caught_up_server MO i r) = commit_index r"
  by (simp add: check_and_promote_caught_up_server_def Let_def)

lemma event_append_entries_response:
  assumes wf: "log_wf K n"
  shows "log_event K n (handle_append_entries_response E from trm success mi n)"
proof -
  obtain n1 sd where val: "validate_term_and_step_down E trm n = (n1, sd)" by fastforce
  have 1: "log_kept K n n1" by (rule kept_validate [OF wf val])
  note wf1 = log_kept_wf [OF 1]
  obtain lrm sm obs cs where run: "lrm_handle_append_entries_response (env_maps E) (env_storage E)
      (env_machine E) (env_changes E) from success mi (cm_config (rn_config n1)) (rn_id n1) (rn_id n1)
      (rn_storage n1) (rn_machine n1) (rn_observed n1) (rn_replication n1) = (lrm, sm, obs, cs)"
    by (metis prod_cases4)
  have log1: "v_first (view (rn_storage n1)) = 1" "length (node_log n1) \<le> K" "commit_index (rn_replication n1) \<le> K"
    using wf1 by (simp_all add: log_wf_def)
  have commit: "commit_index lrm \<le> K"
    using run log1(3)
    by (auto simp: lrm_handle_append_entries_response_def Let_def split: if_splits
        dest!: advance_commit_bound [OF wf1 log1(1,2)])
  define n2 where "n2 = n1\<lparr>rn_replication := lrm, rn_machine := sm, rn_observed := obs\<rparr>"
  define n3 where "n3 = observe (CommitAdvanced (rn_id n2) (commit_index (rn_replication n1))
      (commit_index (rn_replication n2))) n2"
  define n5 where "n5 = apply_config_changes E cs (n3\<lparr>rn_lease := lease_grant (rn_lease n3)\<rparr>)"
  have 2: "log_kept K n1 n2"
    using commit wf1 by (intro log_kept_silent [OF wf1]) (simp_all add: n2_def)
  have 5: "log_kept K n1 n5"
    using commit wf1 by (intro log_kept_silent [OF wf1]) (simp_all add: n2_def n3_def n5_def)
  have "\<not> node_should_create_snapshot E n5"
    using log_kept_wf [OF 5] by (simp add: node_should_create_snapshot_def should_create_def log_wf_def)
  then have "handle_append_entries_response E from trm success mi n \<in> {n1, n2, n5}"
    unfolding handle_append_entries_response_def val
    by (auto simp: run n2_def n3_def n5_def Let_def)
  then show ?thesis
    using log_kept_ok [OF 1] log_kept_ok [OF log_kept_trans [OF 1 2]] log_kept_ok [OF log_kept_trans [OF 1 5]]
    by auto
qed

lemma kept_install_snapshot_response:
  assumes wf: "log_wf K n"
  shows "log_kept K n (handle_install_snapshot_response E from trm success n)"
proof -
  obtain n1 sd where val: "validate_term_and_step_down E trm n = (n1, sd)" by fastforce
  have 1: "log_kept K n n1" by (rule kept_validate [OF wf val])
  then have "v_snap (view (rn_storage n1)) = None" by (simp add: log_kept_def log_wf_def)
  with 1 show ?thesis
    by (simp add: handle_install_snapshot_response_def val storage.snapshot_metadata cong: option.case_cong)
qed

text \<open>A leader appends the command to its log and sends its log as it then is.\<close>

lemma event_submit:
  assumes wf: "log_wf K n" and cmds: "commands_only (rn_storage n)" and room: "length (node_log n) < K"
  shows "log_ok K n (fst (submit_client_command E p n)) \<and>
    log_step trig True (eview E n) (node_log n) (eview E (fst (submit_client_command E p n)))
      (node_log (fst (submit_client_command E p n)))"
proof (cases "rn_role n = Leader")
  case False
  then have "fst (submit_client_command E p n) = n"
    by (simp add: submit_client_command_def submit_entry_def)
  with log_kept_ok [OF kept_refl [OF wf]] show ?thesis by (simp add: log_step.keep)
next
  case True
  let ?S = "env_storage E" and ?x = "\<lparr>entry_term = rn_term n, entry_kind = Command p\<rparr>"
  define n1 where "n1 = n\<lparr>rn_storage := st_append_entries ?S [?x] (rn_storage n)\<rparr>"
  obtain m where m: "view (rn_storage n1) = (view (rn_storage n))\<lparr>v_log := node_log n @ take m [?x]\<rparr>"
    using storage.append_some [of "[?x]" "rn_storage n"] by (auto simp: n1_def)
  then have log1: "node_log n1 = node_log n \<or> node_log n1 = node_log n @ [?x]"
    by (cases m) simp_all
  have wf1: "log_wf K n1"
    using wf room log1 m by (auto simp: log_wf_def n1_def stores.fits_append)
  obtain lrm sm obs cs where run: "advance_commit_index (env_maps E) ?S (env_machine E)
      (env_changes E) (cm_config (rn_config n1)) (rn_id n1) (rn_id n1) (rn_storage n1) (rn_machine n1)
      (rn_observed n1) (rn_replication n1) = (lrm, sm, obs, cs)"
    by (metis prod_cases4)
  define n2 where "n2 = (if length (node_members n) \<le> 1
      then n1\<lparr>rn_replication := lrm, rn_machine := sm, rn_observed := obs\<rparr> else n1)"
  have "\<forall>e\<in>set [?x]. is_command e" by (simp add: is_command_def)
  from storage.ballot_frame_ops(1) [OF this] have "commands_only (rn_storage n1)"
    using cmds by (simp add: n1_def storage.ballot_frame_def)
  note quiet = storage.advance_commit_quiet [OF run this]
  have eq: "fst (submit_client_command E p n) = send_append_entries_to_followers E n2"
    using quiet(1) True
    by (simp add: submit_client_command_def submit_entry_def n1_def [symmetric] run n2_def Let_def)
  have lrm: "commit_index lrm \<le> K"
    using wf1 by (intro advance_commit_bound [OF wf1 _ _ run]) (simp_all add: log_wf_def)
  have 2: "log_kept K n1 n2"
    using lrm wf1 by (intro log_kept_silent [OF wf1]) (simp_all add: n2_def log_wf_def)
  have role: "rn_role n2 = Leader" "rn_term n2 = rn_term n"
    using True by (simp_all add: n2_def n1_def)
  let ?n3 = "send_append_entries_to_followers E n2"
  from kept_then_event [OF 2 send_append_ok [OF log_kept_wf [OF 2] role(1)]]
  have "log_ok K n1 ?n3" and log3: "node_log ?n3 = node_log n1" by simp_all
  then have ok: "log_ok K n ?n3"
    by (simp add: log_ok_def n1_def)
  have "rn_role ?n3 = Leader" "rn_term ?n3 = rn_term n"
    using role by (simp_all add: send_append_entries_eq)
  then have "log_step trig True (eview E n) (node_log n) (eview E ?n3) (node_log ?n3)"
    using log1 True log_step.keep [of trig True "eview E n" "node_log n" "eview E ?n3"]
      log_step.append [of True "eview E n" "eview E ?n3" ?x trig "node_log n"]
    unfolding log3 by auto
  with ok show ?thesis by (simp add: eq)
qed

section \<open>Every event is a step\<close>

lemma on_event_log:
  assumes wf: "log_wf K n" and node: "node_wf k M n" and ev: "event_ok k ev" "event_bounded K ev"
    and room: "submits ev \<Longrightarrow> length (node_log n) < K"
  shows "log_ok K n (on_event E ev n)"
    and "log_step (shipment_trigger ev) (submits ev) (eview E n) (node_log n)
      (eview E (on_event E ev n)) (node_log (on_event E ev n))"
proof -
  have stay: "log_ok K n n' \<and> log_step trig sub (eview E n) (node_log n) (eview E n') (node_log n')"
    if "log_event K n n'" for n' trig sub
    using that by (simp add: log_step.keep)
  note kept = stay [OF log_kept_ok]
  have "log_ok K n (on_event E ev n) \<and> log_step (shipment_trigger ev) (submits ev) (eview E n) (node_log n)
      (eview E (on_event E ev n)) (node_log (on_event E ev n))"
  proof (cases ev)
    case (Message f m)
    with ev have small: "msg_bounded K m" by simp
    show ?thesis
    proof (cases m)
      case (RequestVote _ _ _ _)
      with kept [OF kept_vote_request [OF wf]] show ?thesis by (simp add: Message)
    next
      case (RequestVoteResponse _ _)
      with stay [OF event_vote_response [OF wf]] show ?thesis by (simp add: Message)
    next
      case (PreVoteRequest _ _ _ _)
      with kept [OF kept_pre_vote_request [OF wf]] show ?thesis by (simp add: Message)
    next
      case (PreVoteResponse _ _)
      with stay [OF event_pre_vote_response [OF wf]] show ?thesis by (simp add: Message)
    next
      case (AppendEntries t prev pt es lc)
      with small event_append_entries [OF wf, of es prev f t pt lc] show ?thesis
        by (simp add: Message msg_bounded_def)
    next
      case (AppendEntriesResponse _ _ _)
      with stay [OF event_append_entries_response [OF wf]] show ?thesis by (simp add: Message)
    next
      case (InstallSnapshot _ _ _ _ _ _ _)
      with small show ?thesis by (simp add: msg_bounded_def)
    next
      case (InstallSnapshotResponse _ _)
      with kept [OF kept_install_snapshot_response [OF wf]] show ?thesis by (simp add: Message)
    qed
  next
    case (TimerFired kind)
    with stay [OF event_election_timer [OF wf]] stay [OF event_heartbeat_timer [OF wf]] show ?thesis
      by (cases kind) simp_all
  next
    case (ClientCommand p)
    have "commands_only (rn_storage n)" using node by (simp add: node_wf_def)
    with ClientCommand event_submit [OF wf _ room] show ?thesis by simp
  next
    case (ConfigChangeEvent c)
    with ev show ?thesis by simp
  qed
  then show "log_ok K n (on_event E ev n)"
    "log_step (shipment_trigger ev) (submits ev) (eview E n) (node_log n)
      (eview E (on_event E ev n)) (node_log (on_event E ev n))" by blast+
qed

end

end
