(* ===== verification/Log_Runs.thy ===== *)
theory Log_Runs
  imports Log_Steps
begin

text \<open>
  Whole runs of a cluster whose logs are never compacted: every action keeps the invariant of the log
  replication protocol, with the number of commands submitted so far as the bound on the logs.  The
  results are log matching, and that a leader only appends to its log.
\<close>

fun is_submit :: "'p action \<Rightarrow> bool" where
  "is_submit (Submit _ _) = True"
| "is_submit _ = False"

definition submit_count :: "'p action list \<Rightarrow> nat" where
  "submit_count acts = length (filter is_submit acts)"

definition history_extends :: "'p history \<Rightarrow> 'p history \<Rightarrow> bool" where
  "history_extends L L' \<longleftrightarrow> (\<forall>t. \<exists>ys. L' t = L t @ ys)"

lemma history_extends_refl [simp]: "history_extends L L"
  by (simp add: history_extends_def)

lemma history_extends_trans: "history_extends L L1 \<Longrightarrow> history_extends L1 L2 \<Longrightarrow> history_extends L L2"
  unfolding history_extends_def by (metis append_assoc)

lemma log_inv_weaken:
  assumes "log_inv M K V logs net L" and "net' \<subseteq> net" and "K \<le> K'"
  shows "log_inv M K' V logs net' L"
  using assms unfolding log_inv_def by (blast intro: order_trans)

text \<open>The batches under way in a cluster.\<close>

definition log_pending :: "('s, 'sm, 'ts, 'p) cluster \<Rightarrow> 'p shipments" where
  "log_pending cl = {(f, to, s). \<exists>m. (f, m) \<in> set (queue_of (cl_broker cl) to) \<and> shipment_of m = Some s}"

context log_env begin

definition cluster_logs :: "('s, 'sm, 'ts, 'p) cluster \<Rightarrow> node_id \<Rightarrow> 'p log_entry list" where
  "cluster_logs cl i = (case cl_nodes cl i of Some n \<Rightarrow> node_log n | None \<Rightarrow> [])"

definition logs_inv :: "nat \<Rightarrow> nat \<Rightarrow> ('s, 'sm, 'ts, 'p) cluster \<Rightarrow> 'p history \<Rightarrow> bool" where
  "logs_inv K s cl L \<longleftrightarrow> s \<le> K \<and>
     winners_ok (set (cl_ids cl)) (pr_view (abs_cluster E cl)) \<and>
     (\<forall>i n. cl_nodes cl i = Some n \<longrightarrow> log_wf K n) \<and>
     (\<forall>t. \<forall>(f, m)\<in>set (queue_of (cl_broker cl) t). \<not> installs m) \<and>
     log_inv (set (cl_ids cl)) s (pr_view (abs_cluster E cl)) (cluster_logs cl) (log_pending cl) L"

lemma logs_invD:
  assumes "logs_inv K s cl L"
  shows "s \<le> K" "winners_ok (set (cl_ids cl)) (pr_view (abs_cluster E cl))"
    "cl_nodes cl i = Some n \<Longrightarrow> log_wf K n" "(f, m) \<in> set (queue_of (cl_broker cl) t) \<Longrightarrow> \<not> installs m"
    "log_inv (set (cl_ids cl)) s (pr_view (abs_cluster E cl)) (cluster_logs cl) (log_pending cl) L"
  using assms unfolding logs_inv_def by auto

text \<open>Fewer messages under way, a larger bound.\<close>

lemma logs_inv_weaken:
  assumes inv: "logs_inv K s cl L" and sub: "\<And>t. set (queue_of b t) \<subseteq> set (queue_of (cl_broker cl) t)"
    and "s \<le> s'" and "s' \<le> K"
  shows "logs_inv K s' (cl\<lparr>cl_broker := b\<rparr>) L"
proof -
  have "log_pending (cl\<lparr>cl_broker := b\<rparr>) \<subseteq> log_pending cl"
    using sub by (fastforce simp: log_pending_def)
  moreover have "pr_view (abs_cluster E (cl\<lparr>cl_broker := b\<rparr>)) = pr_view (abs_cluster E cl)"
    "cluster_logs (cl\<lparr>cl_broker := b\<rparr>) = cluster_logs cl"
    by (simp_all add: abs_cluster_def cluster_logs_def fun_eq_iff)
  moreover have "\<not> installs m" if "(f, m) \<in> set (queue_of b t)" for t f m
    using logs_invD(4) [OF inv] sub that by blast
  ultimately show ?thesis
    using assms(3,4) log_inv_weaken [OF logs_invD(5) [OF inv]] logs_invD(2,3) [OF inv]
    unfolding logs_inv_def by auto
qed

text \<open>One node takes a step and its messages join the ones under way.\<close>

lemma logs_inv_update:
  assumes inv: "logs_inv K s cl L" and n: "cl_nodes cl i = Some n" and i: "i \<in> set (cl_ids cl)"
    and bound: "(if sub then Suc s else s) \<le> K"
    and unique: "unique_winners (set (cl_ids cl)) ((pr_view (abs_cluster E cl))(i := eview E n'))"
    and ballot: "ballot_step (set (cl_ids cl)) i trig (eview E n) (eview E n') out"
    and log: "log_step ltrig sub (eview E n) (node_log n) (eview E n') (node_log n')"
    and taken: "\<And>f sh. ltrig = Some (f, sh) \<Longrightarrow> (f, i, sh) \<in> log_pending cl"
    and wf': "log_wf K n'" and id: "rn_id n' = i"
    and queue: "\<And>t f m. (f, m) \<in> set (queue_of b t) \<Longrightarrow>
      (f, m) \<in> set (queue_of (cl_broker cl) t) \<or> f = i \<and> carries n' t m"
  shows "\<exists>L'. logs_inv K (if sub then Suc s else s) (cl\<lparr>cl_nodes := (cl_nodes cl)(i \<mapsto> n'), cl_broker := b\<rparr>) L' \<and>
    history_extends L L'"
proof -
  let ?M = "set (cl_ids cl)" and ?V = "pr_view (abs_cluster E cl)" and ?s = "if sub then Suc s else s"
  let ?cl' = "cl\<lparr>cl_nodes := (cl_nodes cl)(i \<mapsto> n'), cl_broker := b\<rparr>"
  have at_i: "?V i = eview E n" "cluster_logs cl i = node_log n"
    using n by (simp_all add: abs_cluster_def cluster_logs_def)
  have view': "pr_view (abs_cluster E ?cl') = ?V(i := eview E n')"
    and logs': "cluster_logs ?cl' = (cluster_logs cl)(i := node_log n')"
    by (auto simp: abs_cluster_def cluster_logs_def fun_eq_iff)
  have net: "(f, to, sh) \<in> log_pending cl \<or> f = i \<and> to \<noteq> i \<and> ev_role (eview E n') = Leader \<and>
      sh_term sh = ev_term (eview E n') \<and> ships_from (node_log n') sh"
    if pend: "(f, to, sh) \<in> log_pending ?cl'" for f to sh
  proof -
    from pend obtain m where m: "(f, m) \<in> set (queue_of b to)" "shipment_of m = Some sh"
      by (auto simp: log_pending_def)
    from queue [OF m(1)] m(2) id show ?thesis
      by (auto simp: log_pending_def carries_def)
  qed
  from log_inv_step [OF logs_invD(5) [OF inv] logs_invD(2) [OF inv] unique i, unfolded at_i,
      OF ballot log taken net]
  obtain L' where L': "log_inv ?M ?s (?V(i := eview E n')) ((cluster_logs cl)(i := node_log n')) (log_pending ?cl') L'"
    and grows: "\<forall>t. \<exists>ys. L' t = L t @ ys" by blast
  have "winners_ok ?M (?V(i := eview E n'))"
    using winners_step [OF logs_invD(2) [OF inv]] ballot at_i(1) by simp
  moreover have "\<not> installs m" if "(f, m) \<in> set (queue_of b t)" for t f m
    using queue [OF that] logs_invD(4) [OF inv] by (auto simp: carries_def)
  ultimately have "logs_inv K ?s ?cl' L'"
    using L' bound wf' logs_invD(3) [OF inv] unfolding logs_inv_def view' logs' by auto
  with grows show ?thesis unfolding history_extends_def by blast
qed

text \<open>An event at a node, and the rebuilding of a node.\<close>

lemma feed_logs:
  assumes inv: "logs_inv K s cl L" and wf: "cluster_wf k cl" and lim: "Suc k < u64_limit"
    and ok: "event_ok k ev" and bound: "(if submits ev then Suc s else s) \<le> K"
    and sub: "\<And>t. set (queue_of b t) \<subseteq> set (queue_of (cl_broker cl) t)"
    and taken: "\<And>f m. ev = Message f m \<Longrightarrow> (f, m) \<in> set (queue_of (cl_broker cl) i)"
    and unique: "unique_winners (set (cl_ids cl)) (pr_view (abs_cluster E (feed E i ev (cl\<lparr>cl_broker := b\<rparr>))))"
  shows "\<exists>L'. logs_inv K (if submits ev then Suc s else s) (feed E i ev (cl\<lparr>cl_broker := b\<rparr>)) L' \<and>
    history_extends L L'"
proof (cases "cl_nodes cl i")
  case None
  then have "feed E i ev (cl\<lparr>cl_broker := b\<rparr>) = cl\<lparr>cl_broker := b\<rparr>" by (simp add: feed_def)
  moreover have "s \<le> (if submits ev then Suc s else s)" by simp
  ultimately show ?thesis
    using logs_inv_weaken [OF inv sub _ bound] history_extends_refl by metis
next
  case (Some n)
  note n = cluster_wf_node [OF wf Some] and L = log_invD [OF logs_invD(5) [OF inv]]
  define n' where "n' = (on_event E ev n)\<lparr>rn_outbox := []\<rparr>"
  have lwf: "log_wf K n" by (rule logs_invD(3) [OF inv Some])
  have len: "length (node_log n) \<le> s"
    using rooted_length_le [OF L(1) [OF n(4)] L(3)] Some by (simp add: cluster_logs_def)
  have evb: "event_bounded K ev"
  proof (cases ev)
    case (Message f m)
    have "sh_entries sh = [] \<or> sh_prev sh + length (sh_entries sh) \<le> K" if "shipment_of m = Some sh" for sh
    proof -
      have "(f, i, sh) \<in> log_pending cl" using taken [OF Message] that by (auto simp: log_pending_def)
      from L(6) [OF this] L(3) [of "sh_term sh"] logs_invD(1) [OF inv] show ?thesis
        by (auto simp: ships_from_def)
    qed
    then show ?thesis
      using Message logs_invD(4) [OF inv taken [OF Message]] by (simp add: msg_bounded_def)
  qed simp_all
  have room: "submits ev \<Longrightarrow> length (node_log n) < K" using len bound by simp
  note step = on_event_log [OF lwf n(3) ok evb room]
  from step(1) obtain out where out: "rn_outbox (on_event E ev n) = out" "\<forall>(to, m)\<in>set out. carries (on_event E ev n) to m"
    and wf': "log_wf K (on_event E ev n)" "rn_id (on_event E ev n) = i"
    using n(1,2) by (auto simp: log_ok_def)
  from on_event_step [OF n(3) lim ok] obtain bs where
    ballot: "ballot_step (set (cl_ids cl)) i (trigger_of ev) (eview E n) (eview E (on_event E ev n)) bs"
    using n(1) by (auto simp: step_ok_def)
  have eq: "feed E i ev (cl\<lparr>cl_broker := b\<rparr>) = cl\<lparr>cl_nodes := (cl_nodes cl)(i \<mapsto> n'), cl_broker := post i out b\<rparr>"
    using Some out(1) by (simp add: feed_def n'_def Let_def)
  have view: "eview E n' = eview E (on_event E ev n)" "node_log n' = node_log (on_event E ev n)"
    by (simp_all add: n'_def eview_def)
  have "pr_view (abs_cluster E (feed E i ev (cl\<lparr>cl_broker := b\<rparr>))) = (pr_view (abs_cluster E cl))(i := eview E n')"
    unfolding eq by (auto simp: abs_cluster_def fun_eq_iff)
  note unique' = unique [unfolded this]
  show ?thesis
    unfolding eq
  proof (rule logs_inv_update [OF inv Some n(4) bound unique'])
    show "ballot_step (set (cl_ids cl)) i (trigger_of ev) (eview E n) (eview E n') bs"
      using ballot by (simp add: view)
    show "log_step (shipment_trigger ev) (submits ev) (eview E n) (node_log n) (eview E n') (node_log n')"
      using step(2) by (simp add: view)
    show "(f, i, sh) \<in> log_pending cl" if "shipment_trigger ev = Some (f, sh)" for f sh
      using that taken by (cases ev) (auto simp: log_pending_def)
    show "log_wf K n'" "rn_id n' = i"
      using wf' by (simp_all add: n'_def log_wf_def)
    show "(f, m) \<in> set (queue_of (cl_broker cl) t) \<or> f = i \<and> carries n' t m"
      if "(f, m) \<in> set (queue_of (post i out b) t)" for t f m
      using that sub out(2) by (fastforce simp: queue_of_post carries_def n'_def)
  qed
qed

lemma act_logs:
  assumes inv: "logs_inv K s cl L" and wf: "cluster_wf k cl" and lim: "Suc k < u64_limit"
    and keep: "keeps_members a" and bound: "(if is_submit a then Suc s else s) \<le> K"
    and unique: "unique_winners (set (cl_ids cl)) (pr_view (abs_cluster E (act E a cl)))"
  shows "\<exists>L'. logs_inv K (if is_submit a then Suc s else s) (act E a cl) L' \<and> history_extends L L'"
proof -
  have same: ?thesis if "act E a cl = cl" "\<not> is_submit a"
    using that inv history_extends_refl by auto
  have queued: "msg_ok k f m" if "(f, m) \<in> set (queue_of (cl_broker cl) t)" for f m t
    using wf that by (auto simp: cluster_wf_def)
  have replace: ?thesis if eq: "act E a cl = cl\<lparr>cl_nodes := (cl_nodes cl)(i \<mapsto> n')\<rparr>" and "\<not> is_submit a"
    and n: "cl_nodes cl i = Some n" and view: "eview E n' = eview E n \<or> eview E n' =
      (eview E n)\<lparr>ev_role := Follower, ev_votes := []\<rparr>"
    and n': "rn_id n' = i" "log_wf K n'" "node_log n' = node_log n" for i n n'
  proof -
    have i: "i \<in> set (cl_ids cl)" by (rule cluster_wf_node(4) [OF wf n])
    have "ballot_step (set (cl_ids cl)) i None e e' []"
      if "e' = e \<or> e' = e\<lparr>ev_role := Follower, ev_votes := []\<rparr>" for e e'
      by (rule ballot_step.quiet) (use that in auto)
    note this [OF view]
    moreover have "unique_winners (set (cl_ids cl)) ((pr_view (abs_cluster E cl))(i := eview E n'))"
    proof -
      have "pr_view (abs_cluster E (act E a cl)) = (pr_view (abs_cluster E cl))(i := eview E n')"
        unfolding eq by (auto simp: abs_cluster_def fun_eq_iff)
      with unique show ?thesis by simp
    qed
    moreover have "log_step None False (eview E n) (node_log n) (eview E n') (node_log n')"
      unfolding n'(3) by (rule log_step.keep)
    ultimately show ?thesis
      using logs_inv_update [OF inv n i, of False n' None "[]" None "cl_broker cl"] n' \<open>\<not> is_submit a\<close>
        logs_invD(1) [OF inv] by (simp add: eq)
  qed
  have keep_broker: "cl\<lparr>cl_broker := cl_broker cl\<rparr> = cl" by simp
  show ?thesis
  proof (cases a)
    case (Deliver i pos)
    obtain b x where rm: "remove_at i pos (cl_broker cl) = (b, x)" by fastforce
    show ?thesis
    proof (cases x)
      case None
      with rm Deliver show ?thesis by (intro same) simp_all
    next
      case (Some fm)
      obtain f m where "fm = (f, m)" by fastforce
      with rm Some have rm': "remove_at i pos (cl_broker cl) = (b, Some (f, m))" by simp
      have eq: "act E a cl = feed E i (Message f m) (cl\<lparr>cl_broker := b\<rparr>)"
        by (simp add: Deliver rm')
      have "event_ok k (Message f m)" using queued [OF remove_at_queue(2) [OF rm']] by simp
      moreover have "(if submits (Message f m) then Suc s else s) \<le> K" using logs_invD(1) [OF inv] by simp
      ultimately show ?thesis
        using feed_logs [OF inv wf lim _ _ remove_at_queue(1) [OF rm'], of "Message f m" i]
          remove_at_queue(2) [OF rm'] unique
        unfolding eq by (simp add: Deliver)
    qed
  next
    case (Lose i pos)
    obtain b x where rm: "remove_at i pos (cl_broker cl) = (b, x)" by fastforce
    have "set (queue_of b t) \<subseteq> set (queue_of (cl_broker cl) t)" for t
    proof (cases x)
      case None
      with remove_at_None rm show ?thesis by fastforce
    next
      case (Some fm)
      with rm remove_at_queue(1) [of i pos "cl_broker cl" b "fst fm" "snd fm" t] show ?thesis by simp
    qed
    from logs_inv_weaken [OF inv this order_refl logs_invD(1) [OF inv]] history_extends_refl [of L] show ?thesis
      by (auto simp: Lose rm)
  next
    case (Fire i kind)
    have "(if submits (TimerFired kind :: 'p event) then Suc s else s) \<le> K" using logs_invD(1) [OF inv] by simp
    with feed_logs [OF inv wf lim, of "TimerFired kind" "cl_broker cl" i] unique show ?thesis
      by (simp add: Fire keep_broker)
  next
    case (Submit i p)
    have "(if submits (ClientCommand p) then Suc s else s) \<le> K" using bound by (simp add: Submit)
    with feed_logs [OF inv wf lim, of "ClientCommand p" "cl_broker cl" i] unique show ?thesis
      by (simp add: Submit keep_broker)
  next
    case (ChangeMembers i c)
    with keep show ?thesis by simp
  next
    case (Restart i)
    show ?thesis
    proof (cases "cl_nodes cl i")
      case None
      then show ?thesis by (intro same) (simp_all add: Restart)
    next
      case (Some n)
      note n = cluster_wf_node [OF wf Some]
      let ?n' = "rebuild E (cl_ids cl) n"
      have lwf: "log_wf K n" by (rule logs_invD(3) [OF inv Some])
      show ?thesis
      proof (rule replace [OF _ _ Some, of ?n'])
        show "log_wf K ?n'"
          using lwf by (simp add: log_wf_def rebuild_def build_node_def with_transport_def with_replication_def
              with_election_def with_snapshot_threshold_def builder_new_def new_from_builder_def
              storage.get_term storage.load_snapshot replication_new_def set_last_applied_def
              snapshot_manager_new_def cong: option.case_cong)
        show "eview E ?n' = eview E n \<or> eview E ?n' = (eview E n)\<lparr>ev_role := Follower, ev_votes := []\<rparr>"
          using lwf by (simp add: eview_def rebuild_def log_wf_def storage.get_term)
      qed (use Some n(1) in \<open>simp_all add: Restart rebuild_def\<close>)
    qed
  next
    case (Elapse i d)
    show ?thesis
    proof (cases "cl_nodes cl i")
      case None
      then show ?thesis by (intro same) (simp_all add: Elapse)
    next
      case (Some n)
      let ?n' = "n\<lparr>rn_lease := lease_advance d (rn_lease n)\<rparr>"
      have lwf: "log_wf K n" by (rule logs_invD(3) [OF inv Some])
      show ?thesis
        by (rule replace [OF _ _ Some, of ?n'])
          (use lwf Some cluster_wf_node(1) [OF wf Some] in \<open>simp_all add: Elapse log_wf_def eview_def\<close>)
    qed
  next
    case (ReadKey i key)
    show ?thesis
    proof (cases "cl_nodes cl i")
      case None
      then show ?thesis by (intro same) (simp_all add: ReadKey)
    next
      case (Some n)
      have lwf: "log_wf K n" by (rule logs_invD(3) [OF inv Some])
      show ?thesis
        by (rule replace [OF _ _ Some, of "fst (read_linearizable E key n)"])
          (use lwf Some cluster_wf_node(1) [OF wf Some] in
            \<open>simp_all add: ReadKey log_wf_def eview_def read_linearizable_eq\<close>)
    qed
  qed
qed

section \<open>Runs\<close>

text \<open>Everything that is known after a run: the well-formedness of the cluster and both protocols' invariants.\<close>

definition run_inv :: "nat \<Rightarrow> nat \<Rightarrow> nat \<Rightarrow> ('s, 'sm, 'ts, 'p) cluster \<Rightarrow> 'p history \<Rightarrow> bool" where
  "run_inv K k s cl L \<longleftrightarrow> cluster_wf k cl \<and> (\<exists>H. election_inv (set (cl_ids cl)) (abs_cluster E cl) H) \<and> logs_inv K s cl L"

lemma election_unique_winners:
  "election_inv M P H \<Longrightarrow> finite M \<Longrightarrow> unique_winners M (pr_view P)"
  unfolding unique_winners_def using election_inv_unique_winner by blast

lemma act_run_inv:
  assumes inv: "run_inv K k s cl L" and lim: "Suc k < u64_limit" and keep: "keeps_members a"
    and bound: "(if is_submit a then Suc s else s) \<le> K"
  shows "\<exists>L'. run_inv K (Suc k) (if is_submit a then Suc s else s) (act E a cl) L' \<and> history_extends L L'"
proof -
  from inv obtain H where wf: "cluster_wf k cl" and H: "election_inv (set (cl_ids cl)) (abs_cluster E cl) H"
    and logs: "logs_inv K s cl L" by (auto simp: run_inv_def)
  note ref = act_refines [OF wf lim keep]
  from protocol_step_inv [OF conjunct2 [OF ref] _ H] obtain H' where
    H': "election_inv (set (cl_ids cl)) (abs_cluster E (act E a cl)) H'" by auto
  from act_logs [OF logs wf lim keep bound election_unique_winners [OF H']] obtain L' where
    "logs_inv K (if is_submit a then Suc s else s) (act E a cl) L'" "history_extends L L'" by auto
  then show ?thesis
    using conjunct1 [OF ref] H' unfolding run_inv_def by auto
qed

lemma run_run_inv:
  assumes "run_inv K k s cl L" and "k + length acts < u64_limit" and "\<forall>a\<in>set acts. keeps_members a"
    and "s + submit_count acts \<le> K"
  shows "\<exists>L'. run_inv K (k + length acts) (s + submit_count acts) (run_cluster E acts cl) L' \<and> history_extends L L'"
  using assms
proof (induction acts arbitrary: k s cl L)
  case Nil
  then show ?case using history_extends_refl by (auto simp: run_cluster_def submit_count_def)
next
  case (Cons a acts)
  let ?s = "if is_submit a then Suc s else s"
  have count: "s + submit_count (a # acts) = ?s + submit_count acts" by (simp add: submit_count_def)
  from act_run_inv [OF Cons.prems(1), of a] Cons.prems(2-4) obtain L1 where
    L1: "run_inv K (Suc k) ?s (act E a cl) L1" "history_extends L L1"
    by (auto simp: count)
  from Cons.IH [OF L1(1)] Cons.prems(2-4) obtain L2 where
    "run_inv K (Suc k + length acts) (?s + submit_count acts) (run_cluster E acts (act E a cl)) L2"
    "history_extends L1 L2"
    by (auto simp: count)
  moreover have "run_cluster E (a # acts) cl = run_cluster E acts (act E a cl)" by (simp add: run_cluster_def)
  ultimately show ?case
    using history_extends_trans [OF L1(2)] unfolding count by auto
qed

text \<open>A fresh cluster, whose snapshot threshold no run with at most \<open>K\<close> commands reaches.\<close>

definition fresh :: "'s \<Rightarrow> bool" where
  "fresh st \<longleftrightarrow> blank st \<and> v_first (view st) = 1 \<and> v_snap (view st) = None \<and> fits st"

lemma cluster_init_run_inv:
  assumes ids: "distinct ids" "members_fit (env_nodes E) ids" and st: "\<forall>i\<in>set ids. fresh (st i)" and K: "K < th" "Suc K < u64_limit"
  shows "run_inv K 0 0 (cluster_init E ids st sm ts th) (\<lambda>_. [])"
proof -
  let ?cl = "cluster_init E ids st sm ts th"
  have blank: "\<forall>i\<in>set ids. blank (st i)" using st by (simp add: fresh_def)
  have ids0: "cl_ids ?cl = ids" by (simp add: cluster_init_def)
  have node: "log_wf K n \<and> node_log n = []" if "cl_nodes ?cl i = Some n" for i n
    using that st K
    by (auto simp: cluster_init_def log_wf_def build_node_def with_transport_def with_replication_def
        with_election_def with_snapshot_threshold_def builder_new_def new_from_builder_def storage.get_term
        storage.load_snapshot replication_new_def set_last_applied_def snapshot_manager_new_def fresh_def
        blank_def split: if_splits cong: option.case_cong)
  have quiet: "queue_of (cl_broker ?cl) t = []" for t
    by (simp add: cluster_init_def)
  have view: "ev_role (pr_view (abs_cluster E ?cl) i) = Follower \<and> ev_won (pr_view (abs_cluster E ?cl) i) = {}"
    if "i \<in> set ids" for i
    using that cluster_init_start [OF blank, of sm ts th] by (simp add: protocol_start_def)
  have logs: "cluster_logs ?cl i = []" for i
    using node by (simp add: cluster_logs_def split: option.splits)
  have "log_inv (set ids) 0 (pr_view (abs_cluster E ?cl)) (cluster_logs ?cl) (log_pending ?cl) (\<lambda>_. [])"
    using view by (simp add: log_inv_def logs log_pending_def quiet)
  then have "logs_inv K 0 ?cl (\<lambda>_. [])"
    using node view by (simp add: logs_inv_def ids0 quiet winners_ok_def)
  then show ?thesis
    using cluster_init_wf [OF ids blank] protocol_start_inv [OF cluster_init_start [OF blank]]
    unfolding run_inv_def ids0 by blast
qed

lemma reachable_run_inv:
  assumes "distinct ids" and "members_fit (env_nodes E) ids" and "\<forall>i\<in>set ids. fresh (st i)"
    and "\<forall>a\<in>set acts. keeps_members a" and "Suc (length acts) < u64_limit" and "submit_count acts < th"
  shows "\<exists>L. run_inv (submit_count acts) (length acts) (submit_count acts)
    (run_cluster E acts (cluster_init E ids st sm ts th)) L"
proof -
  have "submit_count acts \<le> length acts" by (simp add: submit_count_def)
  then have "run_inv (submit_count acts) 0 0 (cluster_init E ids st sm ts th) (\<lambda>_. [])"
    using assms by (intro cluster_init_run_inv) simp_all
  from run_run_inv [OF this _ assms(4)] assms(5) show ?thesis by auto
qed

lemma run_inv_node:
  assumes "run_inv K k s cl L" and "cl_nodes cl i = Some n"
  shows "rooted L (node_log n)" and "rn_role n = Leader \<Longrightarrow> node_log n = L (rn_term n)"
    and "rn_id n = i" and "i \<in> set (cl_ids cl)"
proof -
  from assms(1) have wf: "cluster_wf k cl" and inv: "logs_inv K s cl L" by (auto simp: run_inv_def)
  show mem: "i \<in> set (cl_ids cl)" and "rn_id n = i" by (rule cluster_wf_node [OF wf assms(2)])+
  show "rooted L (node_log n)" "rn_role n = Leader \<Longrightarrow> node_log n = L (rn_term n)"
    using log_invD(1,4) [OF logs_invD(5) [OF inv] mem] assms(2)
    by (simp_all add: cluster_logs_def abs_cluster_def)
qed

text \<open>Log matching: logs that agree on the term of an entry agree on everything up to it.\<close>

lemma log_matching:
  assumes "distinct ids" and "members_fit (env_nodes E) ids" and "\<forall>i\<in>set ids. fresh (st i)"
    and "\<forall>a\<in>set acts. keeps_members a" and "Suc (length acts) < u64_limit" and "submit_count acts < th"
    and cl: "cl = run_cluster E acts (cluster_init E ids st sm ts th)"
    and nodes: "cl_nodes cl a = Some na" "cl_nodes cl b = Some nb"
    and here: "k < length (node_log na)" "k < length (node_log nb)"
    and same: "entry_term (node_log na ! k) = entry_term (node_log nb ! k)"
  shows "take (Suc k) (node_log na) = take (Suc k) (node_log nb)"
proof -
  from reachable_run_inv [OF assms(1-6)] cl obtain L where
    inv: "run_inv (submit_count acts) (length acts) (submit_count acts) cl L" by blast
  show ?thesis
    by (rule rooted_match [OF run_inv_node(1) [OF inv nodes(1)] run_inv_node(1) [OF inv nodes(2)] here same])
qed

text \<open>Every entry of a leader's own term, wherever it is stored, is an entry of the leader's log.\<close>

lemma leader_has_its_entries:
  assumes "distinct ids" and "members_fit (env_nodes E) ids" and "\<forall>i\<in>set ids. fresh (st i)"
    and "\<forall>a\<in>set acts. keeps_members a" and "Suc (length acts) < u64_limit" and "submit_count acts < th"
    and cl: "cl = run_cluster E acts (cluster_init E ids st sm ts th)"
    and nodes: "cl_nodes cl a = Some na" "cl_nodes cl b = Some nb" and lead: "rn_role na = Leader"
    and here: "k < length (node_log nb)" and own: "entry_term (node_log nb ! k) = rn_term na"
  shows "take (Suc k) (node_log nb) = take (Suc k) (node_log na)" and "k < length (node_log na)"
proof -
  from reachable_run_inv [OF assms(1-6)] cl obtain L where
    inv: "run_inv (submit_count acts) (length acts) (submit_count acts) cl L" by blast
  note rooted = rootedD [OF run_inv_node(1) [OF inv nodes(2)] here]
  then show "take (Suc k) (node_log nb) = take (Suc k) (node_log na)" "k < length (node_log na)"
    using run_inv_node(2) [OF inv nodes(1) lead] own by simp_all
qed

text \<open>A node that leads the same term before and after has only appended in between.\<close>

lemma leader_append_only:
  assumes "distinct ids" and "members_fit (env_nodes E) ids" and "\<forall>i\<in>set ids. fresh (st i)"
    and acts: "\<forall>a\<in>set (acts @ acts'). keeps_members a" "Suc (length (acts @ acts')) < u64_limit"
      "submit_count (acts @ acts') < th"
    and cl: "cl = run_cluster E acts (cluster_init E ids st sm ts th)" and cl': "cl' = run_cluster E acts' cl"
    and nodes: "cl_nodes cl a = Some n" "cl_nodes cl' a = Some n'"
    and lead: "rn_role n = Leader" "rn_role n' = Leader" "rn_term n' = rn_term n"
  shows "\<exists>ys. node_log n' = node_log n @ ys"
proof -
  let ?K = "submit_count (acts @ acts')"
  have count: "?K = submit_count acts + submit_count acts'" by (simp add: submit_count_def)
  have "?K \<le> length (acts @ acts')" unfolding submit_count_def by (rule length_filter_le)
  then have "run_inv ?K 0 0 (cluster_init E ids st sm ts th) (\<lambda>_. [])"
    using assms(1-3) acts(2,3) by (intro cluster_init_run_inv) simp_all
  from run_run_inv [OF this, of acts] acts cl obtain L where
    L: "run_inv ?K (length acts) (submit_count acts) cl L" by (auto simp: count)
  from run_run_inv [OF L, of acts'] acts cl' obtain L' where
    L': "run_inv ?K (length acts + length acts') ?K cl' L'" "history_extends L L'" by (auto simp: count)
  have "node_log n = L (rn_term n)" by (rule run_inv_node(2) [OF L nodes(1) lead(1)])
  moreover have "node_log n' = L' (rn_term n)"
    using run_inv_node(2) [OF L'(1) nodes(2) lead(2)] lead(3) by simp
  ultimately show ?thesis
    using L'(2) by (simp add: history_extends_def)
qed

end

end
