(* ===== verification/In_Memory_Node.thy ===== *)
theory In_Memory_Node
  imports Log_Runs
begin

text \<open>
  The nodes of the test clusters: \<open>test-utils/src/in_memory_state_machine.rs\<close>, and the environment
  that packs the in-memory storage and collections.  It is the instance on which the contracts of
  the development are interpreted; the state machine and the timer service stay parameters.
\<close>

section \<open>The key/value state machine\<close>

definition strip_prefix :: "string \<Rightarrow> string \<Rightarrow> string option" where
  "strip_prefix p s = (if take (length p) s = p then Some (drop (length p) s) else None)"

definition split_once :: "char \<Rightarrow> string \<Rightarrow> (string \<times> string) option" where
  "split_once c s =
     (case dropWhile (\<lambda>x. x \<noteq> c) s of
        [] \<Rightarrow> None
      | _ # rest \<Rightarrow> Some (takeWhile (\<lambda>x. x \<noteq> c) s, rest))"

record in_memory_state_machine =
  kv_data :: "string \<rightharpoonup> string"

definition kv_new :: in_memory_state_machine where
  "kv_new = \<lparr>kv_data = Map.empty\<rparr>"

definition kv_apply :: "string \<Rightarrow> in_memory_state_machine \<Rightarrow> in_memory_state_machine" where
  "kv_apply payload m =
     (case strip_prefix ''SET '' payload of
        Some command \<Rightarrow>
          (case split_once (CHR ''='') command of
             Some (key, value) \<Rightarrow> m\<lparr>kv_data := (kv_data m)(key \<mapsto> value)\<rparr>
           | None \<Rightarrow> m)
      | None \<Rightarrow> m)"

definition kv_get :: "in_memory_state_machine \<Rightarrow> string \<Rightarrow> string option" where
  "kv_get m key = kv_data m key"

text \<open>\<open>serde_json\<close> is a parameter: \<open>to_vec\<close> and \<open>from_slice\<close> on the map of the state machine.\<close>

type_synonym kv_to_vec = "(string \<rightharpoonup> string) \<Rightarrow> bytes option"
type_synonym kv_from_slice = "bytes \<Rightarrow> (string \<rightharpoonup> string) option"

definition kv_create_snapshot :: "kv_to_vec \<Rightarrow> in_memory_state_machine \<Rightarrow> bytes" where
  "kv_create_snapshot to_vec m = (case to_vec (kv_data m) of Some vec \<Rightarrow> vec | None \<Rightarrow> [])"

definition kv_restore_from_snapshot ::
  "kv_from_slice \<Rightarrow> bytes \<Rightarrow> in_memory_state_machine \<Rightarrow> in_memory_state_machine \<times> (snapshot_error + unit)" where
  "kv_restore_from_snapshot from_slice data m =
     (case from_slice data of
        Some d \<Rightarrow> (m\<lparr>kv_data := d\<rparr>, Inr ())
      | None \<Rightarrow> (m, Inl DeserializationFailed))"

definition in_memory_machine_ops ::
  "kv_to_vec \<Rightarrow> kv_from_slice \<Rightarrow> (in_memory_state_machine, string) state_machine_ops" where
  "in_memory_machine_ops to_vec from_slice =
     \<lparr>sm_apply = kv_apply, sm_get = kv_get, sm_create_snapshot = kv_create_snapshot to_vec,
      sm_restore_from_snapshot = kv_restore_from_snapshot from_slice\<rparr>"

lemma split_once_at: "c \<notin> set k \<Longrightarrow> split_once c (k @ c # v) = Some (k, v)"
proof -
  assume "c \<notin> set k"
  then have "dropWhile (\<lambda>x. x \<noteq> c) (k @ c # v) = c # v" and "takeWhile (\<lambda>x. x \<noteq> c) (k @ c # v) = k"
    by (induction k) auto
  then show ?thesis by (simp add: split_once_def)
qed

lemma kv_apply_set:
  "CHR ''='' \<notin> set k \<Longrightarrow> kv_apply (''SET '' @ k @ CHR ''='' # v) m = m\<lparr>kv_data := (kv_data m)(k \<mapsto> v)\<rparr>"
  using split_once_at [of "CHR ''=''" k v] by (simp add: kv_apply_def strip_prefix_def)

section \<open>The environment of the test clusters\<close>

definition in_memory_env ::
  "('sm, 'p) state_machine_ops \<Rightarrow> 'ts timer_ops \<Rightarrow> ('p mem_storage, 'sm, 'ts, 'p) env" where
  "in_memory_env SM TO =
     \<lparr>env_storage = in_memory_storage_ops, env_machine = SM, env_timers = TO,
      env_nodes = in_memory_node_ops, env_maps = in_memory_map_ops, env_changes = in_memory_change_ops\<rparr>"

lemma in_memory_env_simps [simp]:
  "env_storage (in_memory_env SM TO) = in_memory_storage_ops"
  "env_machine (in_memory_env SM TO) = SM" "env_timers (in_memory_env SM TO) = TO"
  "env_nodes (in_memory_env SM TO) = in_memory_node_ops"
  "env_maps (in_memory_env SM TO) = in_memory_map_ops"
  "env_changes (in_memory_env SM TO) = in_memory_change_ops"
  by (simp_all add: in_memory_env_def)

lemma in_memory_push [simp]: "nc_push in_memory_node_ops = in_memory_node_push"
  by (simp add: in_memory_node_ops_def)

interpretation mem_node: election_env "in_memory_env SM TO" mem_view
  by (intro election_env.intro) (simp_all add: mem.storage_frame_axioms mem_nodes.node_collection_axioms)

interpretation mem_log: log_env "in_memory_env SM TO" mem_view "\<lambda>_. True" "\<lambda>_ _. True" None mem_chunk_room
  by (intro log_env.intro) (simp_all add: mem_node.election_env_axioms mem.raft_storage_axioms)

lemma in_memory_members_fit: "members_fit in_memory_node_ops ids"
proof -
  have push: "in_memory_node_push = vec_push None"
    by (intro ext) (simp add: in_memory_node_push_def)
  show ?thesis
    unfolding members_fit_def in_memory_push push by simp
qed

lemma mem_new_blank: "mem_node.blank mem_new"
  by (simp add: mem_node.blank_def mem_new_def)

lemma mem_new_fresh: "mem_log.fresh mem_new"
  using mem_new_blank by (simp add: mem_log.fresh_def mem_new_def)

lemma mem_all_blank: "\<forall>i\<in>set ids. mem_node.blank mem_new"
  by (simp add: mem_new_blank)

lemma mem_all_fresh: "\<forall>i\<in>set ids. mem_log.fresh mem_new"
  by (simp add: mem_new_fresh)

text \<open>What is assumed of a node that takes part in a run with a fixed membership.\<close>

definition mem_node_wf :: "nat \<Rightarrow> ('p mem_storage, 'sm, 'ts, 'p) raft_node \<Rightarrow> bool" where
  "mem_node_wf k n \<longleftrightarrow> rn_term n = ms_current_term (rn_storage n) \<and> rn_term n \<le> k \<and>
     distinct (node_members n) \<and> rn_id n \<in> set (node_members n) \<and>
     list_all is_command (ms_log (rn_storage n))"

lemma mem_node_wf_iff: "mem_node_wf k n \<longleftrightarrow> mem_node.node_wf k (set (node_members n)) n"
  by (auto simp: mem_node_wf_def mem_node.node_wf_def mem.commands_only_def list_all_iff)

lemma mem_event_step:
  assumes "mem_node_wf k n" and "Suc k < u64_limit" and "event_ok k ev"
  shows "mem_node_wf (Suc k) (on_event (in_memory_env SM TO) ev n)"
    and "ballot_step (set (node_members n)) (rn_id n) (trigger_of ev) (eview (in_memory_env SM TO) n)
           (eview (in_memory_env SM TO) (on_event (in_memory_env SM TO) ev n))
           (ballots (drop (length (rn_outbox n)) (rn_outbox (on_event (in_memory_env SM TO) ev n))))"
proof -
  let ?n' = "on_event (in_memory_env SM TO) ev n"
  from mem_node.on_event_step [OF assms(1) [unfolded mem_node_wf_iff] assms(2,3), where SM = SM and TO = TO]
  obtain out where wf: "mem_node.node_wf (Suc k) (set (node_members n)) ?n'"
    and out: "rn_outbox ?n' = rn_outbox n @ out"
    and step: "ballot_step (set (node_members n)) (rn_id n) (trigger_of ev) (eview (in_memory_env SM TO) n)
      (eview (in_memory_env SM TO) ?n') (ballots out)"
    unfolding mem_node.step_ok_def mem_node.sends_ok_def by blast
  have "set (node_members ?n') = set (node_members n)"
    using wf unfolding mem_node.node_wf_def by blast
  with wf show "mem_node_wf (Suc k) ?n'" by (simp only: mem_node_wf_iff)
  show "ballot_step (set (node_members n)) (rn_id n) (trigger_of ev) (eview (in_memory_env SM TO) n)
      (eview (in_memory_env SM TO) ?n') (ballots (drop (length (rn_outbox n)) (rn_outbox ?n')))"
    using step by (simp add: out)
qed

end
