(* ===== verification/Vote_Record.thy ===== *)
theory Vote_Record
  imports In_Memory_Node
begin

text \<open>
  What every event does to the three places in which a node keeps its term and its vote: the working
  term, the stored term and the stored vote.  Nothing is assumed of the event: a message may be
  forged, and an entry may be a membership change.
\<close>

section \<open>Term and vote\<close>

fun record_kept ::
  "log_term \<times> log_term \<times> node_id option \<Rightarrow> log_term \<times> log_term \<times> node_id option \<Rightarrow> bool" where
  "record_kept (t, s, v) (t', s', v') \<longleftrightarrow>
     (s = t \<longrightarrow> s' = t' \<and> t \<le> t' \<and> (t' = t \<longrightarrow> (\<forall>c. v = Some c \<longrightarrow> v' = Some c)))"

definition vote_record ::
  "('p mem_storage, 'sm, 'ts, 'p) raft_node \<Rightarrow> log_term \<times> log_term \<times> node_id option" where
  "vote_record n = (rn_term n, ms_current_term (rn_storage n), ms_voted_for (rn_storage n))"

definition keeps_vote ::
  "('p mem_storage, 'sm, 'ts, 'p) raft_node \<Rightarrow> ('p mem_storage, 'sm, 'ts, 'p) raft_node \<Rightarrow> bool" where
  "keeps_vote n n' \<longleftrightarrow> record_kept (vote_record n) (vote_record n')"

lemma record_kept_refl [simp]: "record_kept a a"
  by (cases a) simp

lemma record_kept_trans: "record_kept a b \<Longrightarrow> record_kept b c \<Longrightarrow> record_kept a c"
  by (cases a; cases b; cases c) auto

lemma keeps_vote_trans: "keeps_vote n n1 \<Longrightarrow> keeps_vote n1 n2 \<Longrightarrow> keeps_vote n n2"
  unfolding keeps_vote_def by (rule record_kept_trans)

lemma keeps_vote_same: "vote_record n' = vote_record n \<Longrightarrow> keeps_vote n n'"
  by (simp add: keeps_vote_def)

section \<open>What leaves the record alone\<close>

text \<open>The operations on the log and on snapshots.\<close>

lemma mem_log_frame [simp]:
  "ms_current_term (mem_append_entries es s) = ms_current_term s"
  "ms_voted_for (mem_append_entries es s) = ms_voted_for s"
  "ms_current_term (mem_truncate_after i s) = ms_current_term s"
  "ms_voted_for (mem_truncate_after i s) = ms_voted_for s"
  "ms_current_term (mem_save_snapshot sn s) = ms_current_term s"
  "ms_voted_for (mem_save_snapshot sn s) = ms_voted_for s"
  "ms_current_term (mem_discard_entries_before i s) = ms_current_term s"
  "ms_voted_for (mem_discard_entries_before i s) = ms_voted_for s"
  by (simp_all add: mem_append_entries_def mem_truncate_after_def mem_save_snapshot_def mem_discard_entries_before_def Let_def)

lemma mem_chunk_frame:
  "mem_apply_snapshot_chunk off ch d i t s = (s', r) \<Longrightarrow>
   ms_current_term s' = ms_current_term s \<and> ms_voted_for s' = ms_voted_for s"
  by (auto simp: mem_apply_snapshot_chunk_def mem_save_snapshot_def Let_def split: if_splits)

lemma mem_ops_fields [simp]:
  "st_append_entries in_memory_storage_ops = mem_append_entries"
  "st_truncate_after in_memory_storage_ops = mem_truncate_after"
  "st_save_snapshot in_memory_storage_ops = mem_save_snapshot"
  "st_discard_entries_before in_memory_storage_ops = mem_discard_entries_before"
  "st_apply_snapshot_chunk in_memory_storage_ops = mem_apply_snapshot_chunk"
  "st_set_current_term in_memory_storage_ops = mem_set_current_term"
  "st_set_voted_for in_memory_storage_ops = mem_set_voted_for"
  "st_voted_for in_memory_storage_ops = mem_voted_for"
  by (simp_all add: in_memory_storage_ops_def)

lemma mem_ballot_frame [simp]:
  "ms_current_term (mem_set_current_term t s) = t" "ms_voted_for (mem_set_current_term t s) = ms_voted_for s"
  "ms_current_term (mem_set_voted_for v s) = ms_current_term s" "ms_voted_for (mem_set_voted_for v s) = v"
  "mem_voted_for s = ms_voted_for s"
  by (simp_all add: mem_set_current_term_def mem_set_voted_for_def mem_voted_for_def)

lemma create_snapshot_frame:
  "create_snapshot in_memory_storage_ops SM i s sm = (s', r) \<Longrightarrow>
   ms_current_term s' = ms_current_term s \<and> ms_voted_for s' = ms_voted_for s"
  by (auto simp: create_snapshot_def compact_log_def Let_def split: if_splits option.splits)

lemma vote_record_simps [simp]:
  "vote_record (observe ev n) = vote_record n" "vote_record (send to m n) = vote_record n"
  "vote_record (broadcast E m n) = vote_record n"
  "vote_record (send_append_entries_to_followers E n) = vote_record n"
  "vote_record (send_heartbeats E n) = vote_record n"
  "vote_record (reset_election_timer_if_valid_term E t n) = vote_record n"
  "vote_record (apply_config_changes E cs n) = vote_record n"
  "vote_record (become_leader E n) = vote_record n"
  "vote_record (start_pre_vote E n) = vote_record n"
  by (simp_all add: vote_record_def broadcast_eq send_append_entries_eq send_heartbeats_def
      reset_election_timer_if_valid_term_def become_leader_def rt_become_leader_def
      start_pre_vote_def rt_start_pre_vote_def em_start_pre_vote_def Let_def)

section \<open>What changes it\<close>

lemma step_down_keeps:
  "rn_term n < t \<Longrightarrow> keeps_vote n (step_down (in_memory_env SM TO) t n)"
  by (simp add: keeps_vote_def vote_record_def step_down_def rt_step_down_def Let_def)

lemma validate_keeps:
  "validate_term_and_step_down (in_memory_env SM TO) t n = (n1, sd) \<Longrightarrow> keeps_vote n n1"
  using step_down_keeps [of n t] by (auto simp: validate_term_and_step_down_def keeps_vote_same split: if_splits)

lemma start_election_keeps:
  assumes "Suc (rn_term n) < u64_limit"
  shows "keeps_vote n (start_election (in_memory_env SM TO) n)"
proof -
  have "u64_add (rn_term n) 1 = Suc (rn_term n)" using assms by (simp add: u64_simps)
  then have "keeps_vote n (broadcast (in_memory_env SM TO) m (n\<lparr>rn_election := em, rn_term := u64_add (rn_term n) 1,
      rn_storage := mem_set_voted_for v (mem_set_current_term (u64_add (rn_term n) 1) (rn_storage n)), rn_role := rl,
      rn_observed := obs\<rparr>))" for m em v rl obs
    by (simp add: keeps_vote_def broadcast_eq) (simp add: vote_record_def)
  then show ?thesis
    by (simp add: start_election_def rt_start_election_def em_start_election_def keeps_vote_def Let_def)
qed

section \<open>Every event\<close>

lemma vote_record_cong:
  "rn_term n' = rn_term n \<Longrightarrow> ms_current_term (rn_storage n') = ms_current_term (rn_storage n) \<Longrightarrow>
   ms_voted_for (rn_storage n') = ms_voted_for (rn_storage n) \<Longrightarrow> vote_record n' = vote_record n"
  by (simp add: vote_record_def)

lemma pre_vote_request_keeps: "vote_record (handle_pre_vote_request E f t c li lt n) = vote_record n"
  by (simp add: handle_pre_vote_request_def Let_def split: raft_msg.split)

lemma pre_vote_response_keeps:
  assumes "Suc (rn_term n) < u64_limit"
  shows "keeps_vote n (handle_pre_vote_response (in_memory_env SM TO) f t g n)"
proof -
  obtain em start where run: "em_handle_pre_vote_response in_memory_node_ops f g (cm_config (rn_config n)) (rn_election n) = (em, start)"
    by fastforce
  let ?n1 = "n\<lparr>rn_election := em\<rparr>"
  let ?n2 = "observe (PreVoteSucceeded (rn_id ?n1) (rn_term ?n1)) ?n1"
  have same: "vote_record ?n1 = vote_record n" by (rule vote_record_cong) simp_all
  have "keeps_vote n ?n2" by (rule keeps_vote_same) (simp add: same)
  moreover have "keeps_vote ?n2 (start_election (in_memory_env SM TO) ?n2)"
    by (rule start_election_keeps) (simp add: assms)
  ultimately have "keeps_vote n (start_election (in_memory_env SM TO) ?n2)" by (rule keeps_vote_trans)
  then show ?thesis
    using keeps_vote_same [OF same] keeps_vote_same [of n n] by (simp add: handle_pre_vote_response_def run Let_def)
qed

lemma vote_request_keeps: "keeps_vote n (handle_vote_request (in_memory_env SM TO) f t c li lt n)"
proof -
  obtain n1 sd where val: "validate_term_and_step_down (in_memory_env SM TO) t n = (n1, sd)" by fastforce
  obtain em ct st msg where run: "em_handle_vote_request TO in_memory_storage_ops t c li lt
      (rn_term n1) (rn_storage n1) (rn_election n1) = (em, ct, st, msg)"
    by (metis prod_cases4)
  have "keeps_vote n1 (n1\<lparr>rn_election := em, rn_term := ct, rn_storage := st\<rparr>)"
    using run by (auto simp: keeps_vote_def vote_record_def em_handle_vote_request_def should_grant_vote_def Let_def
        split: if_splits option.splits)
  from keeps_vote_trans [OF validate_keeps [OF val] this] show ?thesis
    by (simp add: handle_vote_request_def val run keeps_vote_def)
qed

lemma vote_response_keeps: "keeps_vote n (handle_vote_response (in_memory_env SM TO) f t g n)"
proof -
  obtain n1 sd where val: "validate_term_and_step_down (in_memory_env SM TO) t n = (n1, sd)" by fastforce
  obtain em won where run: "em_handle_vote_response in_memory_node_ops f t g (rn_term n1) (rn_role n1)
      (cm_config (rn_config n1)) (rn_election n1) = (em, won)" by fastforce
  have "vote_record (n1\<lparr>rn_election := em\<rparr>) = vote_record n1" by (rule vote_record_cong) simp_all
  with validate_keeps [OF val] show ?thesis
    by (simp add: handle_vote_response_def val run Let_def keeps_vote_def)
qed

lemma try_append_frame:
  "try_append_entries in_memory_storage_ops SM CO i prev pt es lc st sm obs lrm = (lrm', st', sm', obs', res) \<Longrightarrow>
   ms_current_term st' = ms_current_term st \<and> ms_voted_for st' = ms_voted_for st"
  by (auto simp: try_append_entries_def Let_def split: if_splits prod.splits)

lemma append_entries_keeps: "keeps_vote n (handle_append_entries (in_memory_env SM TO) f t prev pt es lc n)"
proof -
  let ?E = "in_memory_env SM TO"
  obtain n1 sd where val: "validate_term_and_step_down ?E t n = (n1, sd)" by fastforce
  define n2 where "n2 = (reset_election_timer_if_valid_term ?E t n1)\<lparr>rn_leader := Some f\<rparr>"
  obtain lrm ct st sm rl obs msg cs where run: "lrm_handle_append_entries in_memory_storage_ops SM
      in_memory_change_ops (rn_id n2) t prev pt es lc (rn_term n2) (rn_storage n2) (rn_machine n2) (rn_role n2)
      (rn_observed n2) (rn_replication n2) = (lrm, ct, st, sm, rl, obs, msg, cs)"
    using prod.exhaust by metis
  define n3 where "n3 = n2\<lparr>rn_replication := lrm, rn_term := ct, rn_storage := st, rn_machine := sm,
      rn_role := rl, rn_observed := obs\<rparr>"
  have "keeps_vote n2 n3"
    using run unfolding lrm_handle_append_entries_def keeps_vote_def vote_record_def n3_def
    by (auto simp: Let_def split: prod.splits option.splits if_splits dest!: try_append_frame)
  moreover have "vote_record n2 = vote_record (reset_election_timer_if_valid_term ?E t n1)"
    unfolding n2_def by (rule vote_record_cong) simp_all
  then have "keeps_vote n1 n2" by (simp add: keeps_vote_def)
  ultimately have "keeps_vote n1 (send f msg (apply_config_changes ?E cs n3))"
    by (simp add: keeps_vote_def) (rule record_kept_trans)
  with validate_keeps [OF val] show ?thesis
    by (auto simp: handle_append_entries_def val run Let_def intro: keeps_vote_trans simp flip: n2_def n3_def)
qed

lemma append_response_keeps: "keeps_vote n (handle_append_entries_response (in_memory_env SM TO) f t s mi n)"
proof -
  let ?E = "in_memory_env SM TO"
  obtain n1 sd where val: "validate_term_and_step_down ?E t n = (n1, sd)" by fastforce
  have snap: "vote_record (create_snapshot_internal ?E n) = vote_record n" for n :: "('a mem_storage, 'b, 'c, 'a) raft_node"
    by (auto simp: create_snapshot_internal_def vote_record_def Let_def dest: create_snapshot_frame split: prod.split)
  have "vote_record (n1\<lparr>rn_replication := lrm, rn_machine := sm, rn_observed := obs\<rparr>) = vote_record n1"
    "vote_record ((observe ev (n1\<lparr>rn_replication := lrm, rn_machine := sm, rn_observed := obs\<rparr>))
      \<lparr>rn_lease := ls\<rparr>) = vote_record n1" for lrm sm obs ev ls
    by (rule vote_record_cong; simp)+
  with validate_keeps [OF val] show ?thesis
    by (simp add: handle_append_entries_response_def val keeps_vote_def snap Let_def split: prod.split)
qed

lemma install_snapshot_keeps: "keeps_vote n (handle_install_snapshot (in_memory_env SM TO) f t l lii lit off d fin n)"
proof -
  define n1 where "n1 = reset_election_timer_if_valid_term (in_memory_env SM TO) t n"
  obtain lrm ct st sm rl msg where run: "lrm_handle_install_snapshot in_memory_storage_ops SM t l lii lit off
      d fin (rn_term n1) (rn_storage n1) (rn_machine n1) (rn_role n1) (rn_replication n1) = (lrm, ct, st, sm, rl, msg)"
    using prod.exhaust by metis
  have "keeps_vote n1 (n1\<lparr>rn_replication := lrm, rn_term := ct, rn_storage := st, rn_machine := sm, rn_role := rl\<rparr>)"
    using run unfolding lrm_handle_install_snapshot_def keeps_vote_def vote_record_def
    by (auto simp: Let_def split: prod.splits option.splits sum.splits if_splits dest!: mem_chunk_frame)
  moreover have "vote_record n1 = vote_record n" by (simp add: n1_def)
  ultimately show ?thesis by (simp add: handle_install_snapshot_def Let_def run keeps_vote_def flip: n1_def)
qed

lemma install_response_keeps: "keeps_vote n (handle_install_snapshot_response (in_memory_env SM TO) f t s n)"
proof -
  obtain n1 sd where val: "validate_term_and_step_down (in_memory_env SM TO) t n = (n1, sd)" by fastforce
  have "vote_record (n1\<lparr>rn_replication := lrm\<rparr>) = vote_record n1" for lrm by (rule vote_record_cong) simp_all
  with validate_keeps [OF val] show ?thesis
    by (simp add: handle_install_snapshot_response_def val keeps_vote_def Let_def split: option.split)
qed

lemma submit_keeps: "vote_record (fst (submit_entry (in_memory_env SM TO) kind n)) = vote_record n"
proof -
  have "vote_record (n\<lparr>rn_storage := mem_append_entries es (rn_storage n)\<rparr>) = vote_record n"
    "vote_record (n\<lparr>rn_storage := mem_append_entries es (rn_storage n), rn_replication := lrm, rn_machine := sm,
      rn_observed := obs\<rparr>) = vote_record n" for es lrm sm obs
    by (rule vote_record_cong; simp)+
  then show ?thesis by (simp add: submit_entry_def Let_def split: prod.split)
qed

lemma timer_keeps:
  assumes "Suc (rn_term n) < u64_limit"
  shows "keeps_vote n (handle_timer (in_memory_env SM TO) kind n)"
proof (cases kind)
  case Election
  let ?n1 = "observe (ObsTimerFired (rn_id n) ObserverElection (rn_term n)) n"
  let ?n2 = "start_pre_vote (in_memory_env SM TO) (observe (ElectionTimeout (rn_id ?n1) (rn_term ?n1)) ?n1)"
  have same: "vote_record ?n2 = vote_record n" by simp
  then have "rn_term ?n2 = rn_term n" by (simp add: vote_record_def)
  then have "keeps_vote ?n2 (start_election (in_memory_env SM TO) ?n2)" using assms by (intro start_election_keeps) simp
  with same show ?thesis by (simp add: Election handle_election_timer_def Let_def keeps_vote_def)
next
  case Heartbeat
  then show ?thesis by (simp add: handle_heartbeat_timer_def Let_def keeps_vote_def)
qed

lemma on_event_keeps_vote:
  assumes "Suc (rn_term n) < u64_limit"
  shows "keeps_vote n (on_event (in_memory_env SM TO) ev n)"
proof (cases ev)
  case (Message f m)
  then show ?thesis
    using keeps_vote_same [OF pre_vote_request_keeps] pre_vote_response_keeps [OF assms] vote_request_keeps
      vote_response_keeps append_entries_keeps append_response_keeps install_snapshot_keeps install_response_keeps
    by (cases m) auto
qed (use timer_keeps [OF assms] keeps_vote_same [OF submit_keeps] in
  \<open>auto simp: submit_client_command_def submit_config_change_def\<close>)

text \<open>Other theories unfold the storage their own way.\<close>

declare mem_log_frame [simp del]
declare mem_ops_fields [simp del]
declare mem_ballot_frame [simp del]

section \<open>What a won election leaves behind\<close>

context election_env begin

text \<open>A majority of the members have gone past the term, or hold their vote for its winner.\<close>

lemma winner_has_majority:
  assumes ids: "distinct ids" "members_fit (env_nodes E) ids" and st: "\<forall>i\<in>set ids. blank (st i)"
    and run: "cl = run_cluster E acts (cluster_init E ids st sm ts th)"
    and acts: "\<forall>a\<in>set acts. keeps_members a" "length acts < u64_limit"
    and node: "cl_nodes cl a = Some na" and elected: "LeaderElected a t \<in> set (rn_observed na)"
  shows "length ids div 2 + 1 \<le> card {v \<in> set ids. \<exists>nv. cl_nodes cl v = Some nv \<and>
    (t < rn_term nv \<or> rn_term nv = t \<and> st_voted_for (env_storage E) (rn_storage nv) = Some a)}"
proof -
  let ?cl0 = "cluster_init E ids st sm ts th"
  have ids0: "cl_ids ?cl0 = ids" by (simp add: cluster_init_def)
  have "cl_ids (run_cluster E as c) = cl_ids c" for as c
    by (induction as arbitrary: c) (simp_all add: run_cluster_def)
  then have ids': "cl_ids cl = ids" by (simp add: run ids0)
  from run_refines [OF cluster_init_wf [OF ids st], of acts sm ts th] acts
  have wf: "cluster_wf (length acts) cl"
    and steps: "(protocol_step (set ids))\<^sup>*\<^sup>* (abs_cluster E ?cl0) (abs_cluster E cl)"
    by (simp_all add: run ids0)
  obtain H where inv: "election_inv (set ids) (abs_cluster E cl) H"
    using protocol_run_inv [OF steps _ protocol_start_inv [OF cluster_init_start [OF st]]] by auto
  have "a \<in> set ids" and "rn_id na = a"
    using cluster_wf_node(1,4) [OF wf node] ids' by auto
  then have "t \<in> ev_won (pr_view (abs_cluster E cl) a)"
    using node elected by (simp add: abs_cluster_def)
  with inv \<open>a \<in> set ids\<close> have "majority (set ids) (card {v. H v t = Some a})"
    by (auto simp: election_inv_def won_ok_def)
  then have "length ids div 2 + 1 \<le> card {v. H v t = Some a}"
    using ids(1) by (simp add: majority_def distinct_card)
  also have "{v. H v t = Some a} \<subseteq> {v \<in> set ids. \<exists>nv. cl_nodes cl v = Some nv \<and>
      (t < rn_term nv \<or> rn_term nv = t \<and> st_voted_for (env_storage E) (rn_storage nv) = Some a)}"
  proof (rule subsetI, unfold mem_Collect_eq)
    fix v
    assume v: "H v t = Some a"
    with inv have "v \<in> set ids" and le: "t \<le> ev_term (pr_view (abs_cluster E cl) v)"
      and vote: "H v (ev_term (pr_view (abs_cluster E cl) v)) = ev_vote (pr_view (abs_cluster E cl) v)"
      by (auto simp: election_inv_def history_ok_def)
    moreover have "cl_nodes cl v \<noteq> None" using \<open>v \<in> set ids\<close> wf ids' unfolding cluster_wf_def by metis
    then obtain nv where "cl_nodes cl v = Some nv" by blast
    ultimately show "v \<in> set ids \<and> (\<exists>nv. cl_nodes cl v = Some nv \<and>
        (t < rn_term nv \<or> rn_term nv = t \<and> st_voted_for (env_storage E) (rn_storage nv) = Some a))"
      using v by (auto simp: abs_cluster_def eview_def le_less)
  qed
  then have "card {v. H v t = Some a} \<le> card {v \<in> set ids. \<exists>nv. cl_nodes cl v = Some nv \<and>
      (t < rn_term nv \<or> rn_term nv = t \<and> st_voted_for (env_storage E) (rn_storage nv) = Some a)}"
    by (intro card_mono) auto
  finally show ?thesis .
qed

end

end
