(* ===== verification/Election_Properties.thy ===== *)
theory Election_Properties
  imports Vote_Record
begin

text \<open>
  The properties of elections at a single node: when a vote is granted, what one event can do to
  the term, the vote and the role, and that the pre-vote phase disturbs nobody.  The instances are
  the nodes of the test clusters, with any state machine and any timer service.
\<close>

section \<open>Granting a vote\<close>

lemma mem_setters:
  "st_current_term in_memory_storage_ops s = ms_current_term s"
  "st_voted_for in_memory_storage_ops s = ms_voted_for s"
  "st_set_current_term in_memory_storage_ops t s = s\<lparr>ms_current_term := t\<rparr>"
  "st_set_voted_for in_memory_storage_ops v s = s\<lparr>ms_voted_for := v\<rparr>"
  by (simp_all add: mem_ops_defs)

text \<open>C32: The voting rule, on every branch: a node grants its vote exactly when the request's term is
  not old, it has not voted for another candidate in that term, and the candidate's log is at least
  as up to date as its own; the term it adopts and the vote are stored in the same step, and nothing
  else of its storage changes.\<close>

theorem vote_request_decision:
  assumes "view_ok (mem_view s)"
  shows "em_handle_vote_request TO in_memory_storage_ops trm cand lli llt (ms_current_term s) s em =
    (let newer = ms_current_term s < trm;
         granted = ms_current_term s \<le> trm \<and>
           (newer \<or> ms_voted_for s = None \<or> ms_voted_for s = Some cand) \<and>
           view_position (mem_view s) \<le> Pos llt lli;
         t = max (ms_current_term s) trm
     in (if granted then em_reset_election_timer TO em else em, t,
         s\<lparr>ms_current_term := t,
           ms_voted_for := if granted then Some cand else if newer then None else ms_voted_for s\<rparr>,
         RequestVoteResponse t granted))"
proof -
  have up: "is_log_up_to_date in_memory_storage_ops lli llt (s\<lparr>ms_current_term := t, ms_voted_for := v\<rparr>)
      \<longleftrightarrow> view_position (mem_view s) \<le> Pos llt lli" for t v
  proof -
    have "view_ok (mem_view (s\<lparr>ms_current_term := t, ms_voted_for := v\<rparr>))"
      using assms by (simp add: view_ok_def compacted_def v_next_def)
    from mem.up_to_date_iff [OF this] show ?thesis
      by (simp add: view_position_def v_last_term_def v_next_def)
  qed
  have same: "s\<lparr>ms_current_term := ms_current_term s, ms_voted_for := ms_voted_for s\<rparr> = s"
    by simp
  have up_s: "is_log_up_to_date in_memory_storage_ops lli llt s \<longleftrightarrow> view_position (mem_view s) \<le> Pos llt lli"
    using up [where t = "ms_current_term s" and v = "ms_voted_for s"] by (simp only: same)
  note ops = mem_setters up up_s
  show ?thesis
  proof (cases "ms_current_term s < trm")
    case True
    then show ?thesis
      by (simp add: em_handle_vote_request_def should_grant_vote_def ops Let_def max_def)
  next
    case False
    then show ?thesis
      by (auto simp: em_handle_vote_request_def should_grant_vote_def ops Let_def max_def split: option.splits)
  qed
qed

text \<open>The hypothesis holds for a new storage, which grants its first vote and keeps it.\<close>

theorem vote_request_decision_witness:
  "em_handle_vote_request frozen_timer_ops in_memory_storage_ops 1 2 0 0 (ms_current_term mem_new)
     (mem_new :: nat mem_storage) (election_new ()) =
   (election_new (), 1, mem_new\<lparr>ms_current_term := 1, ms_voted_for := Some 2\<rparr>, RequestVoteResponse 1 True)"
  using vote_request_decision [OF mem_view_new, of frozen_timer_ops 1 2 0 0 "election_new ()"]
  by (simp add: mem_new_def Let_def less_eq_log_position_def view_position_def v_last_term_def v_next_def
      em_reset_election_timer_def election_new_def frozen_timer_ops_def mem_view_def)

text \<open>Of two logs one is always at least as up to date as the other, so of two nodes at least one
  can get the other's vote, and the comparison of the code agrees with the lexicographic order of
  (last term, last index).\<close>

theorem some_log_is_up_to_date:
  assumes "view_ok (mem_view a)" and "view_ok (mem_view b)"
  shows "is_log_up_to_date in_memory_storage_ops (mem_last_log_index a) (mem_last_log_term a) b \<or>
         is_log_up_to_date in_memory_storage_ops (mem_last_log_index b) (mem_last_log_term b) a"
proof -
  have pos: "Pos (mem_last_log_term s) (mem_last_log_index s) = view_position (mem_view s)"
    if "view_ok (mem_view s)" for s :: "'x mem_storage"
    using mem_last_index [OF that] by (simp add: view_position_def mem_last_log_term_def v_last_term_def)
  show ?thesis
    using mem.up_to_date_iff [OF assms(1)] mem.up_to_date_iff [OF assms(2)] pos [OF assms(1)] pos [OF assms(2)]
      linear [of "view_position (mem_view a)" "view_position (mem_view b)"] by auto
qed

theorem some_log_is_up_to_date_witness:
  "is_log_up_to_date in_memory_storage_ops (mem_last_log_index (mem_new :: nat mem_storage))
     (mem_last_log_term (mem_new :: nat mem_storage)) (mem_new :: nat mem_storage)"
  using some_log_is_up_to_date [OF mem_view_new mem_view_new] by blast

section \<open>What one event can do\<close>

text \<open>C16: A vote is final: whatever event a node handles, forged messages and membership changes
  included, as long as it stays in its term it keeps the vote it has given in that term.  The node is
  any whose stored term is the term it works with, as it is after every event, and whose term has
  not reached the end of its range.\<close>

theorem vote_is_final:
  assumes "ms_current_term (rn_storage n) = rn_term n" and "Suc (rn_term n) < u64_limit"
    and "rn_term (on_event (in_memory_env SM TO) ev n) = rn_term n"
    and "ms_voted_for (rn_storage n) = Some c"
  shows "ms_voted_for (rn_storage (on_event (in_memory_env SM TO) ev n)) = Some c"
  using on_event_keeps_vote [OF assms(2), of SM TO ev] assms(1,3,4)
  by (simp add: keeps_vote_def vote_record_def)

text \<open>C17: Terms never go back, and the term a node works with is the term it has stored, before and
  after every event, whatever the event is.\<close>

theorem term_is_monotone_and_durable:
  assumes "ms_current_term (rn_storage n) = rn_term n" and "Suc (rn_term n) < u64_limit"
  shows "rn_term n \<le> rn_term (on_event (in_memory_env SM TO) ev n) \<and>
     ms_current_term (rn_storage (on_event (in_memory_env SM TO) ev n)) =
       rn_term (on_event (in_memory_env SM TO) ev n)"
  using on_event_keeps_vote [OF assms(2), of SM TO ev] assms(1)
  by (simp add: keeps_vote_def vote_record_def)

text \<open>Pre-votes inflate nothing: answering a pre-vote request leaves the term, the role, the
  storage, the votes collected and the replication state as they are, and so does starting a pre-vote
  when the election timer of a node with peers fires.\<close>

theorem pre_vote_disturbs_nothing:
  assumes "1 < length (node_members n)"
    and "ev = Message f (PreVoteRequest t c i lt) \<or> ev = TimerFired Election"
  shows "rn_term (on_event E ev n) = rn_term n \<and> rn_storage (on_event E ev n) = rn_storage n \<and>
    rn_role (on_event E ev n) = rn_role n \<and> rn_replication (on_event E ev n) = rn_replication n \<and>
    votes_received (rn_election (on_event E ev n)) = votes_received (rn_election n)"
  using assms
  by (auto simp: handle_pre_vote_request_def em_handle_pre_vote_request_def handle_election_timer_def
      start_pre_vote_def rt_start_pre_vote_def em_start_pre_vote_def broadcast_eq Let_def)

text \<open>A node that is alone in its configuration elects itself at once when its election timer
  fires, in the next term and with its own vote on disk.\<close>

theorem single_node_elects_itself:
  assumes "length (node_members n) \<le> 1" and "rn_role n \<noteq> Leader" and "Suc (rn_term n) < u64_limit"
    and "n' = on_event (in_memory_env SM TO) (TimerFired Election) n"
  shows "rn_role n' = Leader \<and> rn_term n' = Suc (rn_term n) \<and>
    ms_current_term (rn_storage n') = Suc (rn_term n) \<and> ms_voted_for (rn_storage n') = Some (rn_id n) \<and>
    LeaderElected (rn_id n) (Suc (rn_term n)) \<in> set (rn_observed n')"
  unfolding assms(4)
  using assms(1-3)
  by (simp add: handle_election_timer_def start_pre_vote_def rt_start_pre_vote_def em_start_pre_vote_def
      start_election_def rt_start_election_def em_start_election_def become_leader_def rt_become_leader_def
      broadcast_eq send_append_entries_eq u64_simps Let_def mem_ops_defs)

section \<open>Witnesses\<close>

text \<open>A three-node candidate in term 1 that has its own vote, and a node that is alone.\<close>

definition example_machine :: "(nat list, nat) state_machine_ops" where
  "example_machine = \<lparr>sm_apply = (\<lambda>p xs. xs @ [p]), sm_get = (\<lambda>_ _. None), sm_create_snapshot = (\<lambda>_. []),
     sm_restore_from_snapshot = (\<lambda>_ xs. (xs, Inr ()))\<rparr>"

definition example_env :: "(nat mem_storage, nat list, unit, nat) env" where
  "example_env = in_memory_env example_machine frozen_timer_ops"

definition example_candidate :: "(nat mem_storage, nat list, unit, nat) raft_node" where
  "example_candidate =
     (build_node example_env 1 (mem_new\<lparr>ms_current_term := 1, ms_voted_for := Some 1\<rparr>) [] () [2, 3] [] 10 0)
       \<lparr>rn_role := Candidate, rn_election := (election_new ())\<lparr>votes_received := [1]\<rparr>\<rparr>"

definition example_single :: "(nat mem_storage, nat list, unit, nat) raft_node" where
  "example_single = build_node example_env 1 mem_new [] () [] [] 10 0"

lemma example_limits: "Suc 1 < u64_limit" "Suc 0 < u64_limit"
  by (simp_all add: u64_limit_def)

text \<open>The vote the candidate gave itself survives a forged request of another node in its term, which
  names a candidate that did not send it, and a membership change.\<close>

definition forged_request :: "nat event" where
  "forged_request = Message 2 (RequestVote 1 3 9 9)"

definition smuggled_change :: "nat event" where
  "smuggled_change = ConfigChangeEvent (AddServer 9)"

lemma example_record:
  "ms_current_term (rn_storage example_candidate) = rn_term example_candidate"
  "Suc (rn_term example_candidate) < u64_limit"
  "ms_voted_for (rn_storage example_candidate) = Some 1"
  "rn_term (on_event example_env forged_request example_candidate) = rn_term example_candidate"
proof -
  have facts: "ms_current_term (rn_storage example_candidate) = rn_term example_candidate \<and>
      rn_term example_candidate = 1 \<and> ms_voted_for (rn_storage example_candidate) = Some 1 \<and>
      rn_term (on_event example_env forged_request example_candidate) = rn_term example_candidate"
    by code_simp
  show "ms_current_term (rn_storage example_candidate) = rn_term example_candidate"
    "Suc (rn_term example_candidate) < u64_limit"
    "ms_voted_for (rn_storage example_candidate) = Some 1"
    "rn_term (on_event example_env forged_request example_candidate) = rn_term example_candidate"
    using facts example_limits(1) by simp_all
qed

theorem vote_is_final_witness:
  "ms_voted_for (rn_storage (on_event example_env forged_request example_candidate)) = Some 1"
  using vote_is_final [OF example_record(1,2), of example_machine frozen_timer_ops forged_request 1]
    example_record(3,4)
  by (simp add: example_env_def)

theorem term_is_monotone_and_durable_witness:
  "rn_term example_candidate \<le> rn_term (on_event example_env smuggled_change example_candidate)"
  using term_is_monotone_and_durable [OF example_record(1,2), of example_machine frozen_timer_ops smuggled_change]
  by (simp add: example_env_def)

theorem pre_vote_disturbs_nothing_witness:
  "rn_term (on_event example_env (TimerFired Election) example_candidate) = 1"
proof -
  have peers: "1 < length (node_members example_candidate)" "rn_term example_candidate = 1"
    by code_simp+
  from pre_vote_disturbs_nothing [OF peers(1), of "TimerFired Election"] peers(2) show ?thesis
    by simp
qed

theorem single_node_elects_itself_witness:
  "rn_role (on_event example_env (TimerFired Election) example_single) = Leader"
proof -
  have "length (node_members example_single) \<le> 1 \<and> rn_role example_single = Follower \<and> rn_term example_single = 0"
    by code_simp
  then show ?thesis
    using single_node_elects_itself [of example_single
        "on_event example_env (TimerFired Election) example_single" example_machine frozen_timer_ops] example_limits(2)
    by (simp add: example_env_def)
qed

end
