(* ===== verification/Replication_Properties.thy ===== *)
theory Replication_Properties
  imports Election_Properties Log_Replication_Facts
begin

text \<open>
  The properties of log replication: applying committed entries, the repair of a follower's log,
  the commit rule of the leader with the two implementations of the median, and the bookkeeping a
  leader keeps of its followers.
\<close>

section \<open>Applying committed entries\<close>

lemma push_changes_in_memory [simp]: "push_changes in_memory_change_ops xs cs = cs @ xs"
  by (induction xs arbitrary: cs)
    (auto simp: push_changes_def in_memory_change_ops_def in_memory_change_push_def)

text \<open>C33: Applying the committed entries feeds the state machine exactly the commands with an index
  above \<open>last_applied\<close> and up to the commit index, in log order, reports each to the observer with
  its index, and hands every configuration change in that range to the caller.\<close>

theorem committed_entries_applied_in_order:
  "apply_committed_entries in_memory_storage_ops SM in_memory_change_ops node st sm obs lrm =
     (let cmds = commands_between (mem_get_entry st) (last_applied lrm) (commit_index lrm) in
      (lrm\<lparr>last_applied := max (last_applied lrm) (commit_index lrm)\<rparr>,
       fold (sm_apply SM) (map snd cmds) sm,
       obs @ map (\<lambda>(i, p). StateMachineApplied node i p) cmds,
       changes_between (mem_get_entry st) (last_applied lrm) (commit_index lrm)))"
proof -
  have get: "st_get_entry in_memory_storage_ops = mem_get_entry"
    by (simp add: in_memory_storage_ops_def)
  show ?thesis by (simp add: apply_committed_spec get)
qed

text \<open>No entry is applied twice or skipped between calls: running the loop up to \<open>b\<close> and then up to
  \<open>c\<close> is the same as running it up to \<open>c\<close> at once.\<close>

theorem apply_loop_resumes:
  assumes "b \<le> c"
  shows "apply_loop in_memory_storage_ops SM in_memory_change_ops node st c la sm obs cs =
     (let (la1, sm1, obs1, cs1) =
        apply_loop in_memory_storage_ops SM in_memory_change_ops node st b la sm obs cs
      in apply_loop in_memory_storage_ops SM in_memory_change_ops node st c la1 sm1 obs1 cs1)"
proof (cases "la \<le> b")
  case True
  let ?get = "st_get_entry in_memory_storage_ops st"
  have "commands_between ?get la c = commands_between ?get la b @ commands_between ?get b c"
    by (rule commands_between_split [OF True assms])
  moreover have "changes_between ?get la c = changes_between ?get la b @ changes_between ?get b c"
    by (rule changes_between_split [OF True assms])
  ultimately show ?thesis
    using True assms by (simp add: apply_loop_spec max_def)
next
  case False
  then show ?thesis by (simp add: apply_loop_spec between_done)
qed

section \<open>The follower's log\<close>

text \<open>A follower refuses the entries exactly when it does not hold the previous entry with the
  leader's term, neither in its log nor as the last entry of its snapshot; a refusal changes
  nothing.\<close>

theorem append_refused_iff:
  "try_append_entries in_memory_storage_ops SM in_memory_change_ops node prev pt es lc s sm obs lrm =
     (lrm', s', sm', obs', None) \<longleftrightarrow>
   prev \<noteq> 0 \<and> v_term_at (mem_view s) prev \<noteq> Some pt \<and> lrm' = lrm \<and> s' = s \<and> sm' = sm \<and> obs' = obs"
  using mem.check_consistency_iff [of prev pt s]
  by (auto simp: try_append_entries_def Let_def split: prod.splits)

text \<open>One successful exchange repairs the follower's log: when the leader sends its entries from
  \<open>n\<close> on and the follower accepts them, the follower holds at every index from \<open>n\<close> on exactly what
  the leader holds, keeps its own entries below \<open>n\<close>, and ends where the leader's log ends.\<close>

theorem accepted_entries_repair_the_log:
  fixes sl sf :: "'p mem_storage"
  assumes "view_ok (mem_view sl)" and "ms_first_index sl \<le> n" and "n < v_next (mem_view sl)"
    and "n = unwrap_or 1 (in_memory_map_get (next_index lrml) peer)"
    and "get_append_entries_for_peer in_memory_map_ops in_memory_storage_ops peer lid sl lrml
           = AppendEntries t prev pt es lc"
    and "view_ok (mem_view sf)" and "ms_first_index sf \<le> n"
    and "try_append_entries in_memory_storage_ops SM in_memory_change_ops me prev pt es lc sf sm obs lrmf =
           (lrmf', sf', sm', obs', Some cs)"
  shows "(\<forall>i. mem_get_entry sf' i = (if i < n then mem_get_entry sf i else mem_get_entry sl i)) \<and>
     v_next (mem_view sf') = v_next (mem_view sl) \<and> view_ok (mem_view sf')"
proof -
  have n: "n = unwrap_or 1 (mc_get in_memory_map_ops (next_index lrml) peer)"
    using assms(4) by (simp add: in_memory_map_ops_def)
  have low: "v_first (mem_view sl) \<le> n" "v_first (mem_view sf) \<le> n"
    using assms(2,7) by simp_all
  have "v_entry (mem_view s) i = mem_get_entry s i" for s :: "'p mem_storage" and i
    by (simp add: v_entry_def mem_get_entry_def)
  then show ?thesis
    using mem.exchange_agrees [OF assms(1) low(1) assms(3) n refl assms(5,6) TrueI TrueI low(2) assms(8)]
    by simp
qed

text \<open>A follower that accepts entries follows the leader's commit index, cut to the end of its own
  log, when that is ahead of its own, and has then applied up to its new commit index; otherwise it
  commits and applies nothing.\<close>

theorem follower_commit_index:
  assumes "try_append_entries in_memory_storage_ops SM in_memory_change_ops node prev pt es lc s sm obs lrm =
     (lrm', s', sm', obs', Some cs)"
  shows "commit_index lrm' =
     (if commit_index lrm < lc then min lc (mem_last_log_index s') else commit_index lrm) \<and>
     last_applied lrm' = (if commit_index lrm < lc then max (last_applied lrm) (commit_index lrm') else last_applied lrm)"
proof -
  have last: "st_last_log_index in_memory_storage_ops = mem_last_log_index"
    by (simp add: in_memory_storage_ops_def)
  show ?thesis
    using assms
    by (auto simp: try_append_entries_def apply_committed_spec last Let_def split: if_splits)
qed

section \<open>The leader's commit rule\<close>

text \<open>What the voters have acknowledged: the leader's last index and the match index of every member
  that is neither the leader nor catching up.\<close>

definition acknowledged :: "node_map \<Rightarrow> log_index \<Rightarrow> configuration \<Rightarrow> node_map \<Rightarrow> node_id \<Rightarrow> log_index list" where
  "acknowledged m leader_last config catching leader_id =
     leader_last # map (voter_index (in_memory_map_get m))
       (voting_peers config (in_memory_map_get catching) leader_id)"

lemma in_memory_median:
  "in_memory_compute_median m leader_last config catching leader_id =
     median_of (acknowledged m leader_last config catching leader_id)"
  by (simp add: in_memory_compute_median_def collect_voters_unbounded acknowledged_def voting_peers_def)

text \<open>C34: The median of the match indices is the largest index that a majority of the voters has
  acknowledged, the leader's own last index counted and servers that are catching up left out.\<close>

theorem median_is_majority_index:
  assumes "in_memory_compute_median m leader_last config catching leader_id = Some c"
  shows "length (acknowledged m leader_last config catching leader_id) div 2 + 1
       \<le> length (filter (\<lambda>i. c \<le> i) (acknowledged m leader_last config catching leader_id)) \<and>
     (x \<le> c \<or> length (filter (\<lambda>i. x \<le> i) (acknowledged m leader_last config catching leader_id))
       < length (acknowledged m leader_last config catching leader_id) div 2 + 1)"
  using median_of_majority [OF assms [unfolded in_memory_median]]
    median_of_greatest [OF assms [unfolded in_memory_median], of x] by linarith

theorem median_is_majority_index_witness:
  "in_memory_compute_median [(2, 5), (3, 1)] 7 \<lparr>members = [1, 2, 3]\<rparr> [] 1 = Some 5 \<and>
   length (acknowledged [(2, 5), (3, 1)] 7 \<lparr>members = [1, 2, 3]\<rparr> [] 1) div 2 + 1
       \<le> length (filter (\<lambda>i. 5 \<le> i) (acknowledged [(2, 5), (3, 1)] 7 \<lparr>members = [1, 2, 3]\<rparr> [] 1))"
proof -
  have med: "in_memory_compute_median [(2, 5), (3, 1)] 7 \<lparr>members = [1, 2, 3]\<rparr> [] 1 = Some 5"
    by code_simp
  show ?thesis
    using median_is_majority_index [OF med] med by simp
qed

lemma collect_voters_length:
  "length (filter (\<lambda>m. m \<noteq> leader_id) ms) + length acc \<le> n \<Longrightarrow>
   collect_voters (vec_push (Some n)) get catching leader_id ms acc =
   collect_voters (vec_push None) get catching leader_id ms acc"
  by (induction ms arbitrary: acc)
    (auto simp: push_ok_def vec_push_def has_room_def split: option.splits if_splits)

text \<open>The bounded collections of embassy compute the same median as those of the test clusters for
  every configuration of at most ten members.\<close>

theorem embassy_median_agrees:
  assumes "length (members config) \<le> 10" and "leader_id \<in> set (members config)"
  shows "embassy_compute_median m leader_last config catching leader_id =
         in_memory_compute_median m leader_last config catching leader_id"
proof -
  have "length (filter (\<lambda>m. m \<noteq> leader_id) (members config)) < length (members config)"
    using assms(2) by (rule length_filter_less) simp
  then have "length (filter (\<lambda>m. m \<noteq> leader_id) (members config)) + length [leader_last] \<le> 10"
    using assms(1) by simp
  moreover have "embassy_map_get = in_memory_map_get"
    by (intro ext) (simp add: embassy_map_get_def in_memory_map_get_def)
  ultimately show ?thesis
    by (simp add: embassy_compute_median_def in_memory_compute_median_def collect_voters_length
        push_ok_def vec_push_def has_room_def)
qed

theorem embassy_median_agrees_witness:
  "embassy_compute_median [(2, 5), (3, 1)] 7 \<lparr>members = [1, 2, 3]\<rparr> [] 1 =
   in_memory_compute_median [(2, 5), (3, 1)] 7 \<lparr>members = [1, 2, 3]\<rparr> [] 1"
  by (rule embassy_median_agrees) simp_all

text \<open>C19: A leader moves its commit index only forward, only to an entry of its current term, and only
  to an index that a majority of the voters has acknowledged.\<close>

theorem leader_commits_only_current_term:
  assumes "advance_commit_index in_memory_map_ops in_memory_storage_ops SM in_memory_change_ops config lid
             node st sm obs lrm = (lrm', sm', obs', cs)"
    and "commit_index lrm' \<noteq> commit_index lrm"
  shows "commit_index lrm < commit_index lrm' \<and>
    (\<exists>e. mem_get_entry st (commit_index lrm') = Some e \<and> entry_term e = ms_current_term st) \<and>
    (let acks = acknowledged (match_index lrm) (mem_last_log_index st) config (catching_up_servers lrm) lid
     in length acks div 2 + 1 \<le> length (filter (\<lambda>i. commit_index lrm' \<le> i) acks))"
  using assms(1)
proof (cases rule: mem.advance_commit_cases)
  case stay
  with assms(2) show ?thesis by simp
next
  case (move c e)
  have ci: "commit_index lrm' = c"
    using move(5) by (simp add: apply_committed_spec Let_def)
  have "in_memory_compute_median (match_index lrm) (mem_last_log_index st) config (catching_up_servers lrm) lid
      = Some c"
    using move(1) by (simp add: in_memory_map_ops_def in_memory_storage_ops_def)
  from median_of_majority [OF this [unfolded in_memory_median]] move(2-4) show ?thesis
    by (auto simp: ci Let_def v_entry_def mem_get_entry_def)
qed

section \<open>What a leader knows of its followers\<close>

lemma ae_response_indices:
  assumes "lrm_handle_append_entries_response in_memory_map_ops in_memory_storage_ops SM in_memory_change_ops
      from success mi config lid node st sm obs lrm = (lrm', sm', obs', cs)"
  shows "commit_index lrm \<le> commit_index lrm' \<and> last_applied lrm \<le> last_applied lrm'"
proof -
  have promote: "commit_index (check_and_promote_caught_up_server in_memory_map_ops i r) = commit_index r \<and>
      last_applied (check_and_promote_caught_up_server in_memory_map_ops i r) = last_applied r" for i r
    by (simp add: check_and_promote_caught_up_server_def Let_def)
  have advance: "commit_index r \<le> commit_index r' \<and> last_applied r \<le> last_applied r'"
    if "advance_commit_index in_memory_map_ops in_memory_storage_ops SM in_memory_change_ops config lid node st
      sm obs r = (r', sm'', obs'', cs'')" for r r' sm'' obs'' cs''
    using mem.advance_commit_frame [OF that] by blast
  show ?thesis
    using assms promote
    by (auto simp: lrm_handle_append_entries_response_def Let_def dest!: advance split: if_splits)
qed

text \<open>No append-entries response takes the commit index or the applied index of a node back.\<close>

theorem responses_never_uncommit:
  "commit_index (rn_replication n) \<le>
     commit_index (rn_replication (on_event (in_memory_env SM TO) (Message f (AppendEntriesResponse t ok mi)) n)) \<and>
   last_applied (rn_replication n) \<le>
     last_applied (rn_replication (on_event (in_memory_env SM TO) (Message f (AppendEntriesResponse t ok mi)) n))"
proof -
  let ?E = "in_memory_env SM TO"
  obtain n1 sd where val: "validate_term_and_step_down ?E t n = (n1, sd)" by fastforce
  then have same: "rn_replication n1 = rn_replication n"
    by (auto simp: validate_term_and_step_down_def split: if_splits)
  obtain lrm sm obs cs where run: "lrm_handle_append_entries_response in_memory_map_ops in_memory_storage_ops SM
      in_memory_change_ops f ok mi (cm_config (rn_config n1)) (rn_id n1) (rn_id n1) (rn_storage n1)
      (rn_machine n1) (rn_observed n1) (rn_replication n1) = (lrm, sm, obs, cs)"
    by (metis prod_cases4)
  have snap: "rn_replication (create_snapshot_internal ?E m) = rn_replication m" for m
    by (simp add: create_snapshot_internal_def split: prod.splits)
  show ?thesis
    using ae_response_indices [OF run] same
    by (auto simp: handle_append_entries_response_def val run [unfolded same] snap Let_def)
qed

text \<open>A new leader starts from no assumption about anyone: for every member the next entry to send is
  the one after its own last, and no entry is known to match.\<close>

theorem new_leader_assumes_nothing:
  assumes "i \<in> set (node_members n)"
  shows "in_memory_map_get (next_index (rn_replication (become_leader (in_memory_env SM TO) n))) i =
           Some (u64_add (mem_last_log_index (rn_storage n)) 1) \<and>
         in_memory_map_get (match_index (rn_replication (become_leader (in_memory_env SM TO) n))) i = Some 0"
proof -
  have "mc_insert in_memory_map_ops = in_memory_map_insert"
    by (simp add: in_memory_map_ops_def)
  from initialize_leader_lookup [OF this assms, of in_memory_storage_ops "rn_storage n" "rn_replication n"]
  have "in_memory_map_get (next_index (initialize_leader_state in_memory_map_ops in_memory_storage_ops
      (node_members n) (rn_storage n) (rn_replication n))) i =
        Some (u64_add (st_last_log_index in_memory_storage_ops (rn_storage n)) 1) \<and>
      in_memory_map_get (match_index (initialize_leader_state in_memory_map_ops in_memory_storage_ops
      (node_members n) (rn_storage n) (rn_replication n))) i = Some 0" .
  moreover have "st_last_log_index in_memory_storage_ops (rn_storage n) = mem_last_log_index (rn_storage n)"
    by (simp add: in_memory_storage_ops_def)
  ultimately show ?thesis
    by (simp add: become_leader_def rt_become_leader_def send_append_entries_eq Let_def)
qed

theorem new_leader_assumes_nothing_witness:
  "in_memory_map_get (match_index (rn_replication (become_leader example_env example_candidate))) 2 = Some 0"
proof -
  have "2 \<in> set (node_members example_candidate)" by code_simp
  from new_leader_assumes_nothing [OF this, of example_machine frozen_timer_ops] show ?thesis
    by (simp add: example_env_def)
qed

text \<open>A server that is catching up does not count: whatever it acknowledges, the commit index that the
  leader computes is the same.\<close>

theorem catching_up_servers_do_not_vote:
  assumes "in_memory_map_get catching i \<noteq> None"
  shows "in_memory_compute_median (in_memory_map_insert i v m) leader_last config catching lid =
         in_memory_compute_median m leader_last config catching lid"
proof -
  have "voter_index (in_memory_map_get (in_memory_map_insert i v m)) x = voter_index (in_memory_map_get m) x"
    if "in_memory_map_get catching x = None" for x
    using assms that mem_maps.get_insert_other [of x i v m] by (cases "x = i") (auto simp: voter_index_def)
  then have "acknowledged (in_memory_map_insert i v m) leader_last config catching lid =
      acknowledged m leader_last config catching lid"
    by (auto simp: acknowledged_def voting_peers_def)
  then show ?thesis by (simp add: in_memory_median)
qed

theorem catching_up_servers_do_not_vote_witness:
  "in_memory_compute_median (in_memory_map_insert 3 9 [(2, 5)]) 7 \<lparr>members = [1, 2, 3]\<rparr> [(3, 1)] 1 =
   in_memory_compute_median [(2, 5)] 7 \<lparr>members = [1, 2, 3]\<rparr> [(3, 1)] 1"
  by (rule catching_up_servers_do_not_vote) (simp add: in_memory_map_get_def)

lemma refusal_step:
  "fst (lrm_handle_append_entries_response in_memory_map_ops in_memory_storage_ops SM in_memory_change_ops
     f False mi config lid node st sm obs lrm) =
   (let nxt = unwrap_or 1 (in_memory_map_get (next_index lrm) f)
    in if 1 < nxt then lrm\<lparr>next_index := in_memory_map_insert f (nxt - 1) (next_index lrm)\<rparr> else lrm)"
  by (simp add: lrm_handle_append_entries_response_def in_memory_map_ops_def Let_def)

text \<open>The search for the point where two logs agree ends: every refusal moves the next index of the
  follower one down, and after as many refusals as the index was large it is 1, where no follower
  refuses.\<close>

theorem refusals_reach_the_first_index:
  assumes "in_memory_map_get (next_index lrm) f = Some i" and "1 \<le> i"
  shows "in_memory_map_get (next_index (((\<lambda>r. fst (lrm_handle_append_entries_response in_memory_map_ops
      in_memory_storage_ops SM in_memory_change_ops f False mi config lid node st sm obs r)) ^^ k) lrm)) f
     = Some (max 1 (i - k))"
proof (induction k)
  case 0
  with assms show ?case by simp
next
  case (Suc k)
  then show ?case
    using mem_maps.get_insert_present
    by (auto simp: refusal_step Let_def max_def)
qed

theorem refusals_reach_the_first_index_witness:
  "in_memory_map_get (next_index (((\<lambda>r. fst (lrm_handle_append_entries_response in_memory_map_ops
      in_memory_storage_ops example_machine in_memory_change_ops 2 False 0 \<lparr>members = [1, 2, 3]\<rparr> 1 1 mem_new [] [] r)) ^^ 7)
      (replication_new\<lparr>next_index := [(2, 5)]\<rparr>))) 2 = Some 1"
  using refusals_reach_the_first_index [where lrm = "replication_new\<lparr>next_index := [(2, 5)]\<rparr>" and f = 2
      and i = 5 and k = 7 and SM = example_machine and mi = 0 and config = "\<lparr>members = [1, 2, 3]\<rparr>" and lid = 1
      and node = 1 and st = mem_new and sm = "[]" and obs = "[]"]
  by (simp add: in_memory_map_get_def)

section \<open>Witnesses\<close>

text \<open>A leader with two entries of term 1, a follower with the first of them, and their exchange.\<close>

definition example_entry :: "nat \<Rightarrow> nat log_entry" where
  "example_entry p = \<lparr>entry_term = 1, entry_kind = Command p\<rparr>"

definition example_leader_storage :: "nat mem_storage" where
  "example_leader_storage = mem_new\<lparr>ms_current_term := 1, ms_log := [example_entry 7, example_entry 8]\<rparr>"

definition example_follower_storage :: "nat mem_storage" where
  "example_follower_storage = mem_new\<lparr>ms_current_term := 1, ms_log := [example_entry 7]\<rparr>"

definition example_exchange where
  "example_exchange = try_append_entries in_memory_storage_ops example_machine in_memory_change_ops 2 1 1
     [example_entry 8] 1 example_follower_storage [] [] replication_new"

lemma example_exchange_run:
  "\<exists>lrm s sm obs. example_exchange = (lrm, s, sm, obs, Some []) \<and> mem_get_entry s 2 = Some (example_entry 8) \<and>
     commit_index lrm = 1"
proof -
  obtain lrm s sm obs r where ex: "example_exchange = (lrm, s, sm, obs, r)" by (metis prod_cases5)
  have "snd (snd (snd (snd example_exchange))) = Some [] \<and>
      mem_get_entry (fst (snd example_exchange)) 2 = Some (example_entry 8) \<and>
      commit_index (fst example_exchange) = 1"
    by code_simp
  then show ?thesis by (simp add: ex)
qed

theorem apply_loop_resumes_witness:
  "apply_loop in_memory_storage_ops example_machine in_memory_change_ops 1 example_leader_storage 2 0 [] [] [] =
     (2, [7, 8], [StateMachineApplied 1 1 7, StateMachineApplied 1 2 8], [])"
proof -
  have "(let (la1, sm1, obs1, cs1) =
        apply_loop in_memory_storage_ops example_machine in_memory_change_ops 1 example_leader_storage 1 0 [] [] []
      in apply_loop in_memory_storage_ops example_machine in_memory_change_ops 1 example_leader_storage 2 la1 sm1 obs1 cs1)
    = (2, [7, 8], [StateMachineApplied 1 1 7, StateMachineApplied 1 2 8], [])"
    by code_simp
  then show ?thesis
    using apply_loop_resumes [of 1 2 example_machine 1 example_leader_storage 0 "[]" "[]" "[]"] by simp
qed

lemma example_storage_ok:
  "view_ok (mem_view example_leader_storage)" "view_ok (mem_view example_follower_storage)"
  "v_next (mem_view example_leader_storage) = 3" "ms_first_index example_leader_storage = 1"
  "ms_first_index example_follower_storage = 1"
  by (simp_all add: example_leader_storage_def example_follower_storage_def mem_new_def view_ok_def
      compacted_def v_next_def u64_limit_def)

lemma example_message:
  "get_append_entries_for_peer in_memory_map_ops in_memory_storage_ops 2 1 example_leader_storage
     (replication_new\<lparr>next_index := [(2, 2)], commit_index := 1\<rparr>) = AppendEntries 1 1 1 [example_entry 8] 1"
  by code_simp

theorem accepted_entries_repair_the_log_witness:
  "\<exists>lrm s sm obs. example_exchange = (lrm, s, sm, obs, Some []) \<and>
     (\<forall>i. mem_get_entry s i = (if i < 2 then mem_get_entry example_follower_storage i
                               else mem_get_entry example_leader_storage i))"
proof -
  obtain lrm s sm obs where ex: "example_exchange = (lrm, s, sm, obs, Some [])"
    using example_exchange_run by blast
  have "1 \<le> (2::nat)" "2 < (3::nat)"
    "2 = unwrap_or 1 (in_memory_map_get (next_index (replication_new\<lparr>next_index := [(2, 2)], commit_index := 1\<rparr>)) 2)"
    by (simp_all add: in_memory_map_get_def)
  with accepted_entries_repair_the_log [OF example_storage_ok(1) _ _ _ example_message example_storage_ok(2) _
      ex [unfolded example_exchange_def]] example_storage_ok
  have "\<forall>i. mem_get_entry s i = (if i < 2 then mem_get_entry example_follower_storage i
                               else mem_get_entry example_leader_storage i)"
    by simp
  with ex show ?thesis by blast
qed

theorem follower_commit_index_witness:
  "\<exists>lrm s sm obs. example_exchange = (lrm, s, sm, obs, Some []) \<and> commit_index lrm = 1 \<and> last_applied lrm = 1"
proof -
  obtain lrm s sm obs where ex: "example_exchange = (lrm, s, sm, obs, Some [])" and "commit_index lrm = 1"
    using example_exchange_run by blast
  moreover from this follower_commit_index [OF ex [unfolded example_exchange_def]] have "last_applied lrm = 1"
    by (simp add: replication_new_def)
  ultimately show ?thesis using ex by blast
qed

definition example_commit where
  "example_commit = advance_commit_index in_memory_map_ops in_memory_storage_ops example_machine
     in_memory_change_ops \<lparr>members = [1, 2, 3]\<rparr> 1 1 example_leader_storage [] []
     (replication_new\<lparr>match_index := [(2, 2), (3, 0)]\<rparr>)"

theorem leader_commits_only_current_term_witness:
  "\<exists>lrm sm obs cs. example_commit = (lrm, sm, obs, cs) \<and> commit_index lrm = 2 \<and>
     (\<exists>e. mem_get_entry example_leader_storage 2 = Some e \<and> entry_term e = 1)"
proof -
  obtain lrm sm obs cs where ex: "example_commit = (lrm, sm, obs, cs)" by (metis prod_cases4)
  have "commit_index (fst example_commit) = 2" by code_simp
  then have "commit_index lrm = 2" by (simp add: ex)
  moreover from this leader_commits_only_current_term [OF ex [unfolded example_commit_def]]
  have "\<exists>e. mem_get_entry example_leader_storage 2 = Some e \<and> entry_term e = 1"
    by (simp add: replication_new_def example_leader_storage_def)
  ultimately show ?thesis using ex by blast
qed

end
