(* ===== verification/Membership_Properties.thy ===== *)
theory Membership_Properties
  imports Replication_Properties
begin

text \<open>
  The properties of configurations and of membership changes: why changing one server at a time
  is safe, when a change is accepted, what an accepted change does, and what clients are told.
\<close>

section \<open>Quorums\<close>

text \<open>Two quorums of the same configuration share a member.\<close>

theorem two_quorums_intersect:
  assumes "distinct (members c)" and "members c \<noteq> []"
    and "A \<subseteq> set (members c)" and "B \<subseteq> set (members c)"
    and "has_quorum c (card A)" and "has_quorum c (card B)"
  shows "A \<inter> B \<noteq> {}"
  by (rule quorums_intersect [OF assms])

theorem two_quorums_intersect_witness: "{1, 2} \<inter> {2, 3} \<noteq> ({} :: node_id set)"
  by (rule two_quorums_intersect [of "\<lparr>members = [1, 2, 3]\<rparr>"])
    (simp_all add: has_quorum_def quorum_size_def config_size_def)

text \<open>Adding one server is safe: a quorum of the configuration before the change and a quorum of the
  configuration the change produces share a member, so the two cannot decide separately.\<close>

theorem quorums_intersect_across_add:
  assumes "distinct (members (cm_config cm))" and "members (cm_config cm) \<noteq> []"
    and "x \<notin> set (members (cm_config cm))"
    and "cm_apply_changes in_memory_node_ops MO [(i, AddServer x)] self lli (cm, lrm, obs, rl) = (cm', lrm', obs', rl')"
    and "A \<subseteq> set (members (cm_config cm))" and "B \<subseteq> set (members (cm_config cm'))"
    and "has_quorum (cm_config cm) (card A)" and "has_quorum (cm_config cm') (card B)"
  shows "A \<inter> B \<noteq> {}"
proof -
  have "cm_config cm' = config_new (members (cm_config cm) @ [x])"
    using assms(4) by (auto simp: cm_apply_changes_def members_after_in_memory Let_def)
  from quorums_intersect_after_add [OF assms(1-3) this assms(5-8)] show ?thesis .
qed

text \<open>Removing one server is safe in the same way.\<close>

theorem quorums_intersect_across_remove:
  assumes "distinct (members (cm_config cm))" and "x \<in> set (members (cm_config cm))"
    and "cm_apply_changes in_memory_node_ops MO [(i, RemoveServer x)] self lli (cm, lrm, obs, rl) = (cm', lrm', obs', rl')"
    and "A \<subseteq> set (members (cm_config cm))" and "B \<subseteq> set (members (cm_config cm'))"
    and "has_quorum (cm_config cm) (card A)" and "has_quorum (cm_config cm') (card B)"
    and "1 < config_size (cm_config cm)"
  shows "A \<inter> B \<noteq> {}"
proof (rule pigeonhole_subsets)
  let ?ms = "members (cm_config cm)"
  have new: "members (cm_config cm') = filter (\<lambda>i. i \<noteq> x) ?ms"
    using assms(3) by (auto simp: cm_apply_changes_def members_after_in_memory config_new_def Let_def)
  have "set (filter (\<lambda>i. i \<noteq> x) ?ms) = set ?ms - {x}" by auto
  then have "length (filter (\<lambda>i. i \<noteq> x) ?ms) = card (set ?ms - {x})"
    using assms(1) distinct_card [of "filter (\<lambda>i. i \<noteq> x) ?ms"] by simp
  then have len: "Suc (length (filter (\<lambda>i. i \<noteq> x) ?ms)) = length ?ms"
    using assms(1,2) by (simp add: distinct_card card_Diff_singleton card_gt_0_iff) (metis Suc_pred length_pos_if_in_set)
  show "card (set ?ms) < card A + card B"
    using assms(1,6-8) len
    by (auto simp: distinct_card has_quorum_def quorum_size_def config_size_def new split: if_splits)
  show "B \<subseteq> set ?ms"
    using assms(5) by (auto simp: new)
qed (use assms in auto)

section \<open>Accepting a change\<close>

lemma cm_add_server_error:
  "cm_add_server x self is_leader commit cm = Inl e \<longleftrightarrow>
     \<not> (is_leader \<and> no_uncommitted_change cm commit \<and> x \<noteq> self \<and> x \<notin> set (members (cm_config cm))) \<and>
     e = (if \<not> is_leader then NotLeader
          else if \<not> no_uncommitted_change cm commit then ConfigChangeInProgress else NodeAlreadyExists)"
  by (auto simp: cm_add_server_def no_uncommitted_change_def is_change_committed_def split: option.splits)

lemma cm_remove_server_error:
  "cm_remove_server x self is_leader commit cm = Inl e \<longleftrightarrow>
     \<not> (is_leader \<and> no_uncommitted_change cm commit \<and> length (members (cm_config cm)) \<noteq> 1 \<and>
         (x = self \<or> x \<in> set (members (cm_config cm)))) \<and>
     e = (if \<not> is_leader then NotLeader
          else if \<not> no_uncommitted_change cm commit then ConfigChangeInProgress
          else if length (members (cm_config cm)) = 1 then CannotRemoveLastNode else NodeNotFound)"
  by (auto simp: cm_remove_server_def no_uncommitted_change_def is_change_committed_def config_size_def
      split: option.splits)

text \<open>A leader that is alone in its configuration and has applied its whole log commits the change at
  once, since its own entry is a majority.\<close>

definition settled_alone :: "('p mem_storage, 'sm, 'ts, 'p) raft_node \<Rightarrow> bool" where
  "settled_alone n \<longleftrightarrow>
     node_members n = [rn_id n] \<and> ms_current_term (rn_storage n) = rn_term n \<and>
     view_ok (mem_view (rn_storage n)) \<and> Suc (v_next (mem_view (rn_storage n))) < u64_limit \<and>
     commit_index (rn_replication n) = mem_last_log_index (rn_storage n) \<and>
     last_applied (rn_replication n) = mem_last_log_index (rn_storage n)"

lemma lone_leader_commits:
  assumes "rn_role n = Leader" and "settled_alone n"
    and "submit_entry (in_memory_env SM TO) (ConfigChange (AddServer x)) n = (n', r)"
  shows "commit_index (rn_replication n') = mem_last_log_index (rn_storage n') \<and>
    last_applied (rn_replication n') = mem_last_log_index (rn_storage n') \<and> node_members n' = [rn_id n, x]"
proof -
  let ?s = "rn_storage n"
  let ?e = "\<lparr>entry_term = rn_term n, entry_kind = ConfigChange (AddServer x)\<rparr>"
  let ?s1 = "mem_append_entries [?e] ?s"
  let ?i = "mem_last_log_index ?s"
  have ok: "view_ok (mem_view ?s)" using assms(2) by (simp add: settled_alone_def)
  then have room: "1 \<le> ms_first_index ?s" "Suc (ms_first_index ?s + length (ms_log ?s)) < u64_limit"
    using assms(2) by (auto simp: settled_alone_def view_ok_def compacted_def v_next_def split: option.splits)
  have last: "Suc ?i = ms_first_index ?s + length (ms_log ?s)"
    using mem_last_index [OF ok] room by (simp add: v_next_def)
  have log: "ms_log ?s1 = ms_log ?s @ [?e]" "ms_first_index ?s1 = ms_first_index ?s"
    "ms_current_term ?s1 = ms_current_term ?s"
    by (simp_all add: mem_append_entries_def)
  have last1: "mem_last_log_index ?s1 = Suc ?i"
    unfolding last using room by (simp add: mem_last_log_index_def log u64_simps)
  have get1: "mem_get_entry ?s1 (Suc ?i) = Some ?e"
    unfolding last using room by (simp add: mem_get_entry_def log nth_opt_def)
  have median: "in_memory_compute_median m k (cm_config (rn_config n)) c (rn_id n) = Some k" for m k c
    using assms(2) by (simp add: settled_alone_def in_memory_compute_median_def median_of_def)
  have advance: "advance_commit_index in_memory_map_ops in_memory_storage_ops SM in_memory_change_ops
      (cm_config (rn_config n)) (rn_id n) (rn_id n) ?s1 (rn_machine n) (rn_observed n) (rn_replication n) =
      ((rn_replication n)\<lparr>commit_index := Suc ?i, last_applied := Suc ?i\<rparr>, rn_machine n, rn_observed n,
        [(Suc ?i, AddServer x)])"
    using assms(2) get1
    by (simp add: advance_commit_index_def apply_committed_entries_def in_memory_map_ops_def median last1 log
        settled_alone_def in_memory_storage_ops_def mem_current_term_def apply_loop.simps in_memory_change_ops_def
        in_memory_change_push_def Let_def)
  show ?thesis
    using assms advance last1
    by (auto simp: submit_entry_def settled_alone_def in_memory_storage_ops_def apply_config_changes_def cm_apply_changes_def
        send_append_entries_eq members_after_in_memory config_new_def mark_server_catching_up_def Let_def
        in_memory_env_def split: if_splits)
qed

text \<open>C38: A request to add a server, on every branch: it is refused with the error that names the reason and
  changes nothing, or the node leads, has no uncommitted change and does not know the server, and then
  the change is appended in the leader's term, and its index is answered and remembered as the pending
  one.  At a leader with peers the change is not committed and not in force yet; a leader that is
  alone, and has applied its log, commits it at once and has the server as its second member.\<close>

theorem add_server_outcome:
  assumes "add_server (in_memory_env SM TO) x n = (n', r)"
  shows "(case r of
      Inl e \<Rightarrow> n' = n \<and>
        e = (if rn_role n \<noteq> Leader then NotLeader
             else if \<not> no_uncommitted_change (rn_config n) (commit_index (rn_replication n)) then ConfigChangeInProgress
             else NodeAlreadyExists)
    | Inr index \<Rightarrow>
        rn_role n = Leader \<and> no_uncommitted_change (rn_config n) (commit_index (rn_replication n)) \<and>
        x \<noteq> rn_id n \<and> x \<notin> set (node_members n) \<and>
        rn_storage n' = (rn_storage n)\<lparr>ms_log := ms_log (rn_storage n) @
          [\<lparr>entry_term = rn_term n, entry_kind = ConfigChange (AddServer x)\<rparr>]\<rparr> \<and>
        index = mem_last_log_index (rn_storage n') \<and> pending_change (rn_config n') = Some index \<and>
        (1 < length (node_members n) \<longrightarrow>
           node_members n' = node_members n \<and> commit_index (rn_replication n') = commit_index (rn_replication n)) \<and>
        (settled_alone n \<longrightarrow>
           node_members n' = [rn_id n, x] \<and> commit_index (rn_replication n') = index))"
proof (cases r)
  case (Inl e)
  with assms show ?thesis
    by (auto simp: add_server_def add_server_ok_iff cm_add_server_error submit_config_change_def submit_entry_def
        Let_def split: sum.splits if_splits)
next
  case (Inr index)
  with assms obtain n1 where sub: "submit_entry (in_memory_env SM TO) (ConfigChange (AddServer x)) n = (n1, Inr index)"
    and n': "n' = n1\<lparr>rn_config := track_pending_change index (rn_config n1)\<rparr>"
    and ok: "rn_role n = Leader" "no_uncommitted_change (rn_config n) (commit_index (rn_replication n))"
      "x \<noteq> rn_id n" "x \<notin> set (node_members n)"
    by (auto simp: add_server_def add_server_ok_iff submit_config_change_def split: sum.splits prod.splits)
  have "rn_storage n1 = (rn_storage n)\<lparr>ms_log := ms_log (rn_storage n) @
      [\<lparr>entry_term = rn_term n, entry_kind = ConfigChange (AddServer x)\<rparr>]\<rparr> \<and>
      index = mem_last_log_index (rn_storage n1) \<and>
      (1 < length (node_members n) \<longrightarrow>
        node_members n1 = node_members n \<and> commit_index (rn_replication n1) = commit_index (rn_replication n))"
    using sub ok(1)
    by (auto simp: submit_entry_def send_append_entries_eq mem_ops_defs Let_def split: if_splits prod.splits)
  moreover have "commit_index (rn_replication n1) = mem_last_log_index (rn_storage n1) \<and> node_members n1 = [rn_id n, x]"
    if "settled_alone n"
    using lone_leader_commits [OF ok(1) that sub] by blast
  ultimately show ?thesis
    using ok by (simp add: Inr n' track_pending_change_def)
qed

text \<open>A request to remove a server, in the same way: a server is removed only when it is a member or the
  leader itself.\<close>

theorem remove_server_outcome:
  assumes "1 < length (node_members n)" and "remove_server (in_memory_env SM TO) x n = (n', r)"
  shows "(case r of
      Inl e \<Rightarrow> n' = n \<and>
        e = (if rn_role n \<noteq> Leader then NotLeader
             else if \<not> no_uncommitted_change (rn_config n) (commit_index (rn_replication n)) then ConfigChangeInProgress
             else NodeNotFound)
    | Inr index \<Rightarrow>
        rn_role n = Leader \<and> no_uncommitted_change (rn_config n) (commit_index (rn_replication n)) \<and>
        (x = rn_id n \<or> x \<in> set (node_members n)) \<and>
        rn_storage n' = (rn_storage n)\<lparr>ms_log := ms_log (rn_storage n) @
          [\<lparr>entry_term = rn_term n, entry_kind = ConfigChange (RemoveServer x)\<rparr>]\<rparr> \<and>
        index = mem_last_log_index (rn_storage n') \<and> pending_change (rn_config n') = Some index \<and>
        node_members n' = node_members n)"
  using assms
  by (auto simp: remove_server_def remove_server_ok_iff cm_remove_server_error submit_config_change_def submit_entry_def send_append_entries_eq
      track_pending_change_def mem_ops_defs Let_def split: sum.splits)

text \<open>A second membership change is refused until the first is committed: right after an accepted change
  a leader with peers refuses every further server, whatever it is.\<close>

theorem one_change_at_a_time:
  assumes "add_server (in_memory_env SM TO) x n = (n', Inr index)"
    and "1 < length (node_members n)" and "commit_index (rn_replication n) < index"
  shows "snd (add_server (in_memory_env SM TO) y n') = Inl ConfigChangeInProgress"
proof -
  let ?E = "in_memory_env SM TO"
  obtain change where acc: "cm_add_server x (rn_id n) (rn_role n = Leader) (commit_index (rn_replication n))
      (rn_config n) = Inr change"
    using assms(1) by (auto simp: add_server_def split: sum.splits)
  then have leader: "rn_role n = Leader" by (simp add: add_server_ok_iff)
  obtain n1 r where sub: "submit_config_change ?E change n = (n1, r)" by fastforce
  have n': "n' = n1\<lparr>rn_config := track_pending_change index (rn_config n1)\<rparr>"
    using assms(1) acc sub by (auto simp: add_server_def split: sum.splits)
  have "rn_role n1 = Leader \<and> commit_index (rn_replication n1) = commit_index (rn_replication n)"
    using sub leader assms(2)
    by (auto simp: submit_config_change_def submit_entry_def send_append_entries_eq Let_def)
  with n' assms(3) show ?thesis
    by (simp add: add_server_def cm_add_server_def track_pending_change_def is_change_committed_def)
qed

section \<open>Applying a change\<close>

text \<open>Committed changes act on the membership as a set, in log order; a node steps down exactly when it is
  itself removed, and no change ever makes a node a candidate or a leader.\<close>

theorem committed_changes_applied:
  assumes "cm_apply_changes in_memory_node_ops MO cs self lli (cm, lrm, obs, rl) = (cm', lrm', obs', rl')"
  shows "set (members (cm_config cm')) = fold (\<lambda>c. change_set (snd c)) cs (set (members (cm_config cm))) \<and>
     rl' = (if RemoveServer self \<in> snd ` set cs then Follower else rl)"
  using cm_apply_changes_members [OF assms] cm_apply_changes_role [OF assms] by blast

section \<open>Clients\<close>

text \<open>A client command or a membership change submitted to a node that is not the leader changes nothing
  and is answered with the leader the node knows of; at a leader with peers it is appended in the
  leader's term, the answer is its index, and it is not committed yet.\<close>

theorem submitting_an_entry:
  assumes "submit_entry (in_memory_env SM TO) kind n = (n', r)"
  shows "(rn_role n \<noteq> Leader \<longrightarrow> n' = n \<and> r = Inl (ClientNotLeader (rn_leader n))) \<and>
   (rn_role n = Leader \<and> 1 < length (node_members n) \<longrightarrow>
      r = Inr (mem_last_log_index (rn_storage n')) \<and>
      rn_storage n' = (rn_storage n)\<lparr>ms_log := ms_log (rn_storage n) @ [\<lparr>entry_term = rn_term n, entry_kind = kind\<rparr>]\<rparr> \<and>
      commit_index (rn_replication n') = commit_index (rn_replication n) \<and>
      rn_machine n' = rn_machine n)"
  using assms by (auto simp: submit_entry_def send_append_entries_eq mem_ops_defs Let_def)

section \<open>Witnesses\<close>

definition example_config :: config_manager where
  "example_config = config_manager_new \<lparr>members = [1, 2, 3]\<rparr>"

lemma example_change:
  "\<exists>cm lrm obs rl. cm_apply_changes in_memory_node_ops in_memory_map_ops [(1, AddServer 4)] 1 0
     (example_config, replication_new, [] :: nat obs_event list, Follower) = (cm, lrm, obs, rl) \<and>
     members (cm_config cm) = [1, 2, 3, 4]"
  "\<exists>cm lrm obs rl. cm_apply_changes in_memory_node_ops in_memory_map_ops [(1, RemoveServer 3)] 1 0
     (example_config, replication_new, [] :: nat obs_event list, Follower) = (cm, lrm, obs, rl) \<and>
     members (cm_config cm) = [1, 2]"
  by (simp_all add: cm_apply_changes_def members_after_in_memory example_config_def config_manager_new_def
      config_new_def Let_def clear_pending_def)

theorem quorums_intersect_across_add_witness: "{1, 2} \<inter> {2, 3, 4} \<noteq> ({} :: node_id set)"
proof -
  obtain cm lrm obs rl where run: "cm_apply_changes in_memory_node_ops in_memory_map_ops [(1, AddServer 4)] 1 0
     (example_config, replication_new, [] :: nat obs_event list, Follower) = (cm, lrm, obs, rl)"
    and new: "members (cm_config cm) = [1, 2, 3, 4]"
    using example_change(1) by blast
  show ?thesis
    by (rule quorums_intersect_across_add [OF _ _ _ run])
      (simp_all add: new example_config_def config_manager_new_def has_quorum_def quorum_size_def config_size_def)
qed

theorem quorums_intersect_across_remove_witness: "{2, 3} \<inter> {1, 2} \<noteq> ({} :: node_id set)"
proof -
  obtain cm lrm obs rl where run: "cm_apply_changes in_memory_node_ops in_memory_map_ops [(1, RemoveServer 3)] 1 0
     (example_config, replication_new, [] :: nat obs_event list, Follower) = (cm, lrm, obs, rl)"
    and new: "members (cm_config cm) = [1, 2]"
    using example_change(2) by blast
  show ?thesis
    by (rule quorums_intersect_across_remove [OF _ _ run])
      (simp_all add: new example_config_def config_manager_new_def has_quorum_def quorum_size_def config_size_def)
qed

definition example_leader :: "(nat mem_storage, nat list, unit, nat) raft_node" where
  "example_leader = on_event example_env (Message 2 (RequestVoteResponse 1 True)) example_candidate"

lemma example_leader_facts:
  "rn_role example_leader = Leader \<and> rn_term example_leader = 1 \<and> ms_log (rn_storage example_leader) = []"
  by code_simp

lemma example_leader_peers: "1 < length (node_members example_leader)"
  by code_simp

theorem submitting_an_entry_witness:
  "ms_log (rn_storage (fst (submit_entry example_env (Command 7) example_leader))) =
     [\<lparr>entry_term = 1, entry_kind = Command 7\<rparr>]"
proof -
  obtain n' r where run: "submit_entry example_env (Command 7) example_leader = (n', r)" by fastforce
  from submitting_an_entry [OF run [unfolded example_env_def]] example_leader_facts example_leader_peers
  have "rn_storage n' = (rn_storage example_leader)\<lparr>ms_log := ms_log (rn_storage example_leader) @
      [\<lparr>entry_term = rn_term example_leader, entry_kind = Command 7\<rparr>]\<rparr>"
    by blast
  then show ?thesis
    using example_leader_facts by (simp add: run)
qed

text \<open>A leader with two peers, and one that has just elected itself.\<close>

definition example_lone_leader :: "(nat mem_storage, nat list, unit, nat) raft_node" where
  "example_lone_leader = on_event example_env (TimerFired Election) example_single"

lemma example_lone_leader_facts:
  "settled_alone example_lone_leader" "snd (add_server example_env 4 example_lone_leader) = Inr 1"
  unfolding settled_alone_def u64_limit_def by code_simp+

theorem add_server_outcome_witness:
  "ms_log (rn_storage (fst (add_server example_env 4 example_leader))) =
     [\<lparr>entry_term = 1, entry_kind = ConfigChange (AddServer 4)\<rparr>] \<and>
   node_members (fst (add_server example_env 4 example_lone_leader)) = [1, 4]"
proof
  obtain n' r where run: "add_server example_env 4 example_leader = (n', r)" by fastforce
  moreover have "snd (add_server example_env 4 example_leader) = Inr 1"
    by code_simp
  ultimately have "add_server example_env 4 example_leader = (n', Inr 1)"
    by simp
  from add_server_outcome [OF this [unfolded example_env_def]]
  have "rn_storage n' = (rn_storage example_leader)\<lparr>ms_log := ms_log (rn_storage example_leader) @
      [\<lparr>entry_term = rn_term example_leader, entry_kind = ConfigChange (AddServer 4)\<rparr>]\<rparr>"
    unfolding sum.case by blast
  then show "ms_log (rn_storage (fst (add_server example_env 4 example_leader))) =
     [\<lparr>entry_term = 1, entry_kind = ConfigChange (AddServer 4)\<rparr>]"
    using example_leader_facts by (simp add: run)
next
  obtain n' where "add_server example_env 4 example_lone_leader = (n', Inr 1)"
    using example_lone_leader_facts(2) by (metis prod.collapse)
  note run = this
  have "rn_id example_lone_leader = 1" by code_simp
  with add_server_outcome [OF run [unfolded example_env_def]] example_lone_leader_facts(1)
  show "node_members (fst (add_server example_env 4 example_lone_leader)) = [1, 4]"
    by (simp add: run)
qed

theorem remove_server_outcome_witness:
  "remove_server example_env 9 example_leader = (example_leader, Inl NodeNotFound)"
proof -
  obtain n' r where run: "remove_server example_env 9 example_leader = (n', r)" by fastforce
  moreover have "snd (remove_server example_env 9 example_leader) = Inl NodeNotFound"
    by code_simp
  ultimately have "remove_server example_env 9 example_leader = (n', Inl NodeNotFound)"
    by simp
  from remove_server_outcome [OF example_leader_peers this [unfolded example_env_def]]
  have "n' = example_leader"
    unfolding sum.case by blast
  with \<open>remove_server example_env 9 example_leader = (n', Inl NodeNotFound)\<close> show ?thesis
    by simp
qed

theorem one_change_at_a_time_witness:
  "snd (add_server example_env 5 (fst (add_server example_env 4 example_leader))) = Inl ConfigChangeInProgress"
proof -
  obtain n' r where run: "add_server example_env 4 example_leader = (n', r)" by fastforce
  have "snd (add_server example_env 4 example_leader) = Inr 1 \<and> 1 < length (node_members example_leader) \<and>
      commit_index (rn_replication example_leader) < 1"
    by code_simp
  then have "add_server example_env 4 example_leader = (n', Inr 1)" and
    peers: "1 < length (node_members example_leader)" "commit_index (rn_replication example_leader) < 1"
    unfolding run by simp_all
  from one_change_at_a_time [OF this(1) [unfolded example_env_def] peers, folded example_env_def] show ?thesis
    unfolding run by simp
qed

theorem committed_changes_applied_witness:
  "\<exists>cm lrm obs rl. cm_apply_changes in_memory_node_ops in_memory_map_ops [(1, RemoveServer 3)] 1 0
     (example_config, replication_new, [] :: nat obs_event list, Follower) = (cm, lrm, obs, rl) \<and>
     set (members (cm_config cm)) = {1, 2} \<and> rl = Follower"
proof -
  obtain cm lrm obs rl where run: "cm_apply_changes in_memory_node_ops in_memory_map_ops [(1, RemoveServer 3)] 1 0
     (example_config, replication_new, [] :: nat obs_event list, Follower) = (cm, lrm, obs, rl)"
    using example_change(2) by blast
  have "set (members (cm_config cm)) = {1, 2} \<and> rl = Follower"
    using committed_changes_applied [OF run]
    by (simp add: example_config_def config_manager_new_def insert_Diff_if)
  with run show ?thesis by blast
qed

end
