(* ===== verification/Service_Properties.thy ===== *)
theory Service_Properties
  imports Membership_Properties
begin

text \<open>
  The properties of snapshots, leases and linearizable reads, timers, the message broker and the
  key/value state machine.
\<close>

section \<open>Snapshots\<close>

text \<open>C36: Creating a snapshot at an index of the log records that entry's term and the state machine, drops
  exactly the entries up to that index, keeps every later entry where it was, and touches neither
  the term nor the vote; the log continues the snapshot without a gap.\<close>

theorem snapshot_compacts_the_log:
  assumes "create_snapshot in_memory_storage_ops SM i s sm = (s', Inr j)" and "view_ok (mem_view s)"
  shows "j = i \<and> view_ok (mem_view s') \<and> ms_first_index s' = Suc i \<and>
    (\<forall>k. mem_get_entry s' k = (if i < k then mem_get_entry s k else None)) \<and>
    (\<exists>e. mem_get_entry s i = Some e \<and> ms_snapshot s' =
       Some \<lparr>metadata = \<lparr>last_included_index = i, last_included_term = entry_term e\<rparr>,
             snap_data = sm_create_snapshot SM sm\<rparr>) \<and>
    ms_current_term s' = ms_current_term s \<and> ms_voted_for s' = ms_voted_for s"
proof -
  note ok = mem.create_snapshot_ok [OF assms TrueI]
  have entry: "v_entry (mem_view t) k = mem_get_entry t k" for t :: "'a mem_storage" and k
    by (simp add: v_entry_def mem_get_entry_def)
  have "mem_get_entry s' k = (if i < k then mem_get_entry s k else None)" for k
    using ok(4,5) by (auto simp: entry mem_get_entry_def)
  with ok entry show ?thesis by auto
qed

text \<open>A snapshot is due exactly when the commit index has reached the threshold and no snapshot at or
  above the threshold is stored: at most one snapshot per storage is ever taken at the threshold.\<close>

theorem snapshot_due_iff:
  "node_should_create_snapshot (in_memory_env SM TO) n \<longleftrightarrow>
     threshold (rn_snapshots n) \<le> commit_index (rn_replication n) \<and>
     (case ms_snapshot (rn_storage n) of
        None \<Rightarrow> True
      | Some sn \<Rightarrow> last_included_index (metadata sn) < threshold (rn_snapshots n))"
  by (auto simp: node_should_create_snapshot_def mem.should_create_iff split: option.splits)

text \<open>C35: A follower that is behind the leader's log receives the leader's snapshot whole: the leader answers
  with one \<open>InstallSnapshot\<close>, and the follower that handles it ends with the same snapshot, a log that
  continues it, the leader's term, the restored state machine, and indices that cover it.\<close>

theorem snapshot_transfer:
  fixes sl sf :: "'p mem_storage"
  assumes leader: "view_ok (mem_view sl)" "ms_snapshot sl = Some sn" "snap_data sn \<noteq> []"
      "length (snap_data sn) \<le> usize_max"
    and behind: "n = unwrap_or 1 (in_memory_map_get (next_index lrml) peer)" "1 \<le> n" "n < ms_first_index sl"
    and follower: "view_ok (mem_view sf)" "ms_current_term sf \<le> ms_current_term sl"
      "case ms_snapshot sf of None \<Rightarrow> True
       | Some old \<Rightarrow> last_included_index (metadata old) < last_included_index (metadata sn)"
    and run: "lrm_handle_install_snapshot in_memory_storage_ops SM (ms_current_term sl) lid
      (last_included_index (metadata sn)) (last_included_term (metadata sn)) 0 (snap_data sn) True
      (ms_current_term sf) sf sm rl lrm = (lrm', ct', sf', sm', rl', msg)"
  shows "get_append_entries_for_peer in_memory_map_ops in_memory_storage_ops peer lid sl lrml =
      InstallSnapshot (ms_current_term sl) lid (last_included_index (metadata sn))
        (last_included_term (metadata sn)) 0 (snap_data sn) True \<and>
    msg = InstallSnapshotResponse (ms_current_term sl) True \<and> ct' = ms_current_term sl \<and>
    ms_snapshot sf' = Some sn \<and> view_ok (mem_view sf') \<and>
    sm' = fst (sm_restore_from_snapshot SM (snap_data sn) sm) \<and>
    last_included_index (metadata sn) \<le> commit_index lrm' \<and>
    last_included_index (metadata sn) \<le> last_applied lrm'"
proof -
  let ?lii = "last_included_index (metadata sn)" and ?lit = "last_included_term (metadata sn)"
  have first: "ms_first_index sl = Suc ?lii" and lim: "Suc ?lii < u64_limit"
    using leader(1,2) by (auto simp: view_ok_def compacted_def v_next_def)
  have room: "mem_chunk_room (length (snap_data sn))"
    using leader(4) by (simp add: mem_chunk_room_def)
  have chunk: "st_get_snapshot_chunk in_memory_storage_ops sl 0 usize_max =
      Some \<lparr>chunk_offset = 0, chunk_data = snap_data sn, chunk_done = True\<rparr>"
    using mem.whole_chunk [of sl sn] leader(2,3) room by simp
  have sel: "st_first_log_index in_memory_storage_ops sl = ms_first_index sl"
    "st_current_term in_memory_storage_ops sl = ms_current_term sl"
    "st_snapshot_metadata in_memory_storage_ops sl = Some (metadata sn)"
    "mc_get in_memory_map_ops = in_memory_map_get"
    using leader(2) by (simp_all add: mem_ops_defs in_memory_map_ops_def)
  have message: "get_append_entries_for_peer in_memory_map_ops in_memory_storage_ops peer lid sl lrml =
      InstallSnapshot (ms_current_term sl) lid ?lii ?lit 0 (snap_data sn) True"
    using behind(3) unfolding behind(1) by (simp add: get_append_entries_for_peer_def sel chunk Let_def)
  have newer: "v_newer_snapshot ?lii (mem_view sf)"
    using follower(3) by (simp add: v_newer_snapshot_def split: option.splits)
  note inst = mem.install_whole_snapshot [OF TrueI room lim follower(2) newer run]
  let ?v = "if ms_current_term sf < ms_current_term sl
     then (mem_view sf)\<lparr>v_term := ms_current_term sl, v_vote := None\<rparr> else mem_view sf"
  have "view_ok ?v" "v_newer_snapshot ?lii ?v"
    using follower(1) newer by (auto simp: view_ok_def compacted_def v_next_def v_newer_snapshot_def)
  then have "view_ok (v_install ?lii ?lit (snap_data sn) ?v)"
    using behind first lim by (intro v_install_ok) simp_all
  then have ok: "view_ok (mem_view sf')" using inst(3) by simp
  have "v_snap (mem_view sf') = Some sn"
    by (simp add: inst(3) v_install_def)
  then have snap: "ms_snapshot sf' = Some sn" by simp
  from message inst(1,2,4-6) snap ok show ?thesis by simp
qed

text \<open>A node restarted from a storage in which a snapshot was just created starts with the state machine
  that was snapshotted and with exactly the entries the snapshot covers counted as applied, provided
  the state machine restores what it saved.\<close>

theorem restart_from_snapshot:
  fixes s :: "'p mem_storage"
  assumes "create_snapshot in_memory_storage_ops SM i s sm = (s', Inr j)" and "view_ok (mem_view s)"
    and "sm_restore_from_snapshot SM (sm_create_snapshot SM sm) sm0 = (sm, Inr ())"
  shows "rn_machine (build_node (in_memory_env SM TO) self s' sm0 ts ps obs th clk) = sm \<and>
    last_applied (rn_replication (build_node (in_memory_env SM TO) self s' sm0 ts ps obs th clk)) = i \<and>
    rn_term (build_node (in_memory_env SM TO) self s' sm0 ts ps obs th clk) = ms_current_term s"
proof -
  obtain e :: "'p log_entry" where snap: "ms_snapshot s' = Some \<lparr>metadata = \<lparr>last_included_index = i,
      last_included_term = entry_term e\<rparr>, snap_data = sm_create_snapshot SM sm\<rparr>"
    using mem.create_snapshot_ok(3) [OF assms(1,2) TrueI] by auto
  moreover have "ms_current_term s' = ms_current_term s"
    using mem.create_snapshot_ok(7) [OF assms(1,2) TrueI] by simp
  ultimately show ?thesis
    using assms(3)
    by (simp add: build_node_def with_transport_def with_replication_def with_election_def
        with_snapshot_threshold_def builder_new_def new_from_builder_applied mem_setters)
      (simp add: mem_ops_defs)
qed

section \<open>Leases and reads\<close>

text \<open>A lease is valid from the moment it is granted for exactly its duration, and the remaining time it
  reports is the part of the duration that has not passed.\<close>

theorem lease_lasts_its_duration:
  assumes "lease_clock l + lease_duration_millis l < u64_limit"
  shows "(lease_is_valid (lease_advance d (lease_grant l)) \<longleftrightarrow> d < lease_duration_millis l) \<and>
    lease_time_remaining (lease_advance d (lease_grant l)) =
      (if d < lease_duration_millis l then Some (lease_duration_millis l - d) else None)"
  using lease_grant_advance_valid [OF assms, of d] assms
  by (auto simp: lease_time_remaining_def lease_grant_def lease_advance_def instant_add_def instant_sub_def
      u64_simps Let_def)

theorem lease_lasts_its_duration_witness:
  "lease_is_valid (lease_advance 4999 (lease_grant (lease_new 5000 100))) \<and>
   \<not> lease_is_valid (lease_advance 5000 (lease_grant (lease_new 5000 100)))"
  using lease_lasts_its_duration [of "lease_new 5000 100" 4999] lease_lasts_its_duration [of "lease_new 5000 100" 5000]
  by (simp add: lease_new_def u64_limit_def)

fun is_pre_vote :: "'p raft_msg \<Rightarrow> bool" where
  "is_pre_vote (PreVoteRequest _ _ _ _) = True"
| "is_pre_vote (PreVoteResponse _ _) = True"
| "is_pre_vote _ = False"

text \<open>A node that learns of a newer term answers no linearizable read: after any message of a higher term
  other than a pre-vote it is not a leader, and a read is refused.\<close>

theorem newer_term_stops_reads:
  assumes "rn_term n < msg_term m" and "\<not> is_pre_vote m"
    and "n' = on_event (in_memory_env SM TO) (Message f m) n"
  shows "rn_role n' = Follower \<and>
    read_linearizable (in_memory_env SM TO) key n' = (n', Inl (NotLeaderOrNoLease (rn_leader n')))"
proof -
  have down: "validate_term_and_step_down (in_memory_env SM TO) (msg_term m) n =
      (step_down (in_memory_env SM TO) (msg_term m) n, True)"
    using assms(1) by (simp add: validate_term_and_step_down_def)
  have "rn_role n' = Follower"
  proof (cases m)
    case (InstallSnapshot t lid lii lit ofs d dn)
    let ?n1 = "reset_election_timer_if_valid_term (in_memory_env SM TO) t n"
    obtain lrm ct st sm rl msg where run: "lrm_handle_install_snapshot in_memory_storage_ops SM t
      lid lii lit ofs d dn (rn_term ?n1) (rn_storage ?n1) (rn_machine ?n1) (rn_role ?n1) (rn_replication ?n1)
      = (lrm, ct, st, sm, rl, msg)"
      by (metis prod_cases6)
    from mem.handle_install_snapshot_quiet(3) [OF run] assms(1) have "rl = Follower"
      by (simp add: InstallSnapshot)
    with run show ?thesis
      unfolding assms(3) InstallSnapshot by (simp add: handle_install_snapshot_def)
  next
    case (PreVoteRequest t c i lt)
    with assms(2) show ?thesis by simp
  next
    case (PreVoteResponse t granted)
    with assms(2) show ?thesis by simp
  next
    case (RequestVote t c i lt)
    with down show ?thesis
      unfolding assms(3) by (simp add: handle_vote_request_def split: prod.splits)
  next
    case (RequestVoteResponse t granted)
    with down show ?thesis unfolding assms(3) by (simp add: handle_vote_response_def)
  next
    case (AppendEntries t pi pt es lc)
    with down show ?thesis unfolding assms(3) by (simp add: handle_append_entries_def)
  next
    case (AppendEntriesResponse t ok mi)
    with down show ?thesis unfolding assms(3) by (simp add: handle_append_entries_response_def)
  next
    case (InstallSnapshotResponse t ok)
    with down show ?thesis unfolding assms(3) by (simp add: handle_install_snapshot_response_def)
  qed
  then show ?thesis by (simp add: read_linearizable_def)
qed

section \<open>Timers\<close>

text \<open>The randomised election timeout lies in the configured window, and strictly below its end when the
  window is open; it can neither underflow nor overflow.\<close>

theorem election_timeout_in_window:
  assumes "mt_election_timeout_min t < mt_election_timeout_max t" and "mt_election_timeout_max t < u64_limit"
  shows "mt_election_timeout_min t \<le> random_election_timeout t \<and>
         random_election_timeout t < mt_election_timeout_max t"
  using random_election_timeout_window [of t] assms by simp

theorem election_timeout_in_window_witness:
  "150 \<le> random_election_timeout (mock_timer_new 150 300 50 0 1) \<and>
   random_election_timeout (mock_timer_new 150 300 50 0 1) < 300"
  using election_timeout_in_window [of "mock_timer_new 150 300 50 0 1"]
  by (simp add: mock_timer_new_def u64_limit_def)

text \<open>A check of the timers reports exactly those whose deadline has been reached, the election timer
  first, and the two slots always suffice.\<close>

theorem expired_timers_reported:
  "expired_iter (mock_check_expired t) =
     (case mt_election_deadline t of Some d \<Rightarrow> if d \<le> mt_clock t then [Election] else [] | None \<Rightarrow> []) @
     (case mt_heartbeat_deadline t of Some d \<Rightarrow> if d \<le> mt_clock t then [Heartbeat] else [] | None \<Rightarrow> [])"
  by (rule mock_check_expired_iter)

section \<open>The message broker\<close>

text \<open>The broker delivers the messages between two nodes in the order they were sent, once each, and leaves
  the messages of the other senders alone.\<close>

theorem broker_is_fifo:
  assumes "dequeue_from i f b = (b', Some x)"
  shows "filter (\<lambda>(s, _). s = f) (queue_of b i) = x # filter (\<lambda>(s, _). s = f) (queue_of b' i) \<and>
    filter (\<lambda>(s, _). s \<noteq> f) (queue_of b' i) = filter (\<lambda>(s, _). s \<noteq> f) (queue_of b i)"
  using dequeue_from_fifo [OF assms] by blast

section \<open>The key/value state machine\<close>

definition set_command :: "string \<times> string \<Rightarrow> string" where
  "set_command kv = ''SET '' @ fst kv @ CHR ''='' # snd kv"

lemma kv_apply_commands:
  "\<forall>(k, v)\<in>set kvs. CHR ''='' \<notin> set k \<Longrightarrow>
   kv_data (fold kv_apply (map set_command kvs) m) = kv_data m ++ map_of (rev kvs)"
proof (induction kvs arbitrary: m)
  case Nil
  then show ?case by simp
next
  case (Cons kv kvs)
  then have "CHR ''='' \<notin> set (fst kv)"
    by auto
  then have "kv_apply (set_command kv) m = m\<lparr>kv_data := (kv_data m)(fst kv \<mapsto> snd kv)\<rparr>"
    unfolding set_command_def by (rule kv_apply_set)
  with Cons show ?case
    by (simp add: map_add_assoc map_add_upd_left [symmetric] map_add_def fun_eq_iff split: option.splits)
qed

text \<open>After any sequence of commands \<open>SET key=value\<close> the value of a key is the one set last, or the one
  from before when it was never set, and a snapshot of the machine restores it whenever the serializer
  reads back what it wrote.\<close>

theorem key_value_machine:
  assumes "\<forall>(k, v)\<in>set kvs. CHR ''='' \<notin> set k"
    and "m' = fold kv_apply (map set_command kvs) m"
    and "to_vec (kv_data m') = Some b" and "from_slice b = Some (kv_data m')"
  shows "kv_get m' key = (case map_of (rev kvs) key of Some v \<Rightarrow> Some v | None \<Rightarrow> kv_get m key) \<and>
    kv_restore_from_snapshot from_slice (kv_create_snapshot to_vec m') m0 = (m', Inr ())"
  using assms kv_apply_commands [OF assms(1), of m]
  by (simp add: kv_get_def kv_restore_from_snapshot_def kv_create_snapshot_def map_add_def split: option.splits)

section \<open>Witnesses\<close>

definition byte_machine :: "(bytes, 8 word) state_machine_ops" where
  "byte_machine = \<lparr>sm_apply = (\<lambda>p xs. xs @ [p]), sm_get = (\<lambda>_ _. None), sm_create_snapshot = (\<lambda>xs. xs),
     sm_restore_from_snapshot = (\<lambda>d _. (d, Inr ()))\<rparr>"

definition byte_storage :: "8 word mem_storage" where
  "byte_storage = mem_new\<lparr>ms_current_term := 1,
     ms_log := [\<lparr>entry_term = 1, entry_kind = Command 7\<rparr>, \<lparr>entry_term = 1, entry_kind = Command 8\<rparr>]\<rparr>"

definition byte_snapshot :: snapshot where
  "byte_snapshot = \<lparr>metadata = \<lparr>last_included_index = 1, last_included_term = 1\<rparr>, snap_data = [7]\<rparr>"

definition byte_compacted :: "8 word mem_storage" where
  "byte_compacted = byte_storage\<lparr>ms_log := [\<lparr>entry_term = 1, entry_kind = Command 8\<rparr>],
     ms_snapshot := Some byte_snapshot, ms_first_index := 2\<rparr>"

lemma byte_storage_ok: "view_ok (mem_view byte_storage)" "view_ok (mem_view byte_compacted)"
  by (simp_all add: byte_storage_def byte_compacted_def byte_snapshot_def mem_new_def view_ok_def
      compacted_def v_next_def u64_limit_def)

lemma byte_create: "create_snapshot in_memory_storage_ops byte_machine 1 byte_storage [7] = (byte_compacted, Inr 1)"
  by (simp add: create_snapshot_def compact_log_def byte_storage_def byte_compacted_def byte_snapshot_def
      byte_machine_def mem_new_def mem_ops_defs u64_add_def u64_limit_def nth_opt_def)

theorem snapshot_compacts_the_log_witness:
  "create_snapshot in_memory_storage_ops byte_machine 1 byte_storage [7] = (byte_compacted, Inr 1) \<and>
   mem_get_entry byte_compacted 2 = mem_get_entry byte_storage 2 \<and> mem_get_entry byte_compacted 1 = None"
  using snapshot_compacts_the_log [OF byte_create byte_storage_ok(1)] byte_create by simp

theorem restart_from_snapshot_witness:
  "rn_machine (build_node (in_memory_env byte_machine frozen_timer_ops) 1 byte_compacted [] () [2, 3] [] 10 0) = [7]"
  using restart_from_snapshot [OF byte_create byte_storage_ok(1), of "[]" frozen_timer_ops 1 "()" "[2, 3]" "[]" 10 0]
  by (simp add: byte_machine_def)

theorem snapshot_transfer_witness:
  "\<exists>lrm ct st sm rl msg. lrm_handle_install_snapshot in_memory_storage_ops byte_machine 1 1 1 1 0 [7] True 0
     mem_new [] Follower replication_new = (lrm, ct, st, sm, rl, msg) \<and>
     ms_snapshot st = Some byte_snapshot \<and> sm = [7] \<and> msg = InstallSnapshotResponse 1 True"
proof -
  obtain lrm ct st sm rl msg where run: "lrm_handle_install_snapshot in_memory_storage_ops byte_machine 1 1 1 1 0 [7]
     True 0 mem_new [] Follower replication_new = (lrm, ct, st, sm, rl, msg)"
    by (metis prod_cases6)
  have new_ok: "view_ok (mem_view (mem_new :: 8 word mem_storage))" by (rule mem_view_new)
  have vals: "ms_current_term byte_compacted = 1" "ms_snapshot byte_compacted = Some byte_snapshot"
    "ms_first_index byte_compacted = 2" "last_included_index (metadata byte_snapshot) = 1"
    "last_included_term (metadata byte_snapshot) = 1" "snap_data byte_snapshot = [7]"
    "ms_current_term (mem_new :: 8 word mem_storage) = 0" "ms_snapshot (mem_new :: 8 word mem_storage) = None"
    by (simp_all add: byte_compacted_def byte_storage_def byte_snapshot_def mem_new_def)
  have "ms_snapshot st = Some byte_snapshot \<and> sm = [7] \<and> msg = InstallSnapshotResponse 1 True"
    using snapshot_transfer [OF byte_storage_ok(2) vals(2), of 1 "replication_new\<lparr>next_index := [(2, 1)]\<rparr>" 2
        mem_new byte_machine 1 "[]" Follower replication_new lrm ct st sm rl msg] run new_ok
    by (simp add: vals in_memory_map_get_def usize_max_def u64_limit_def byte_machine_def)
  with run show ?thesis by blast
qed

theorem newer_term_stops_reads_witness:
  "rn_role (on_event example_env (Message 2 (AppendEntriesResponse 7 True 0)) example_leader) = Follower"
proof -
  have "rn_term example_leader = 1" by code_simp
  then show ?thesis
    using newer_term_stops_reads [of example_leader "AppendEntriesResponse 7 True 0"
        "on_event example_env (Message 2 (AppendEntriesResponse 7 True 0)) example_leader" example_machine
        frozen_timer_ops 2]
    by (auto simp: example_env_def)
qed

theorem key_value_machine_witness:
  "kv_get (fold kv_apply [''SET a=0'', ''SET a=1''] kv_new) ''a'' = Some ''1''"
proof -
  let ?m = "fold kv_apply (map set_command [(''a'', ''0''), (''a'', ''1'')]) kv_new"
  have data: "kv_data ?m = [''a'' \<mapsto> ''1'']"
    by (subst kv_apply_commands) (auto simp: kv_new_def)
  have "kv_get ?m ''a'' = Some ''1''"
    by (rule key_value_machine [where kvs = "[(''a'', ''0''), (''a'', ''1'')]" and m = kv_new and key = "''a''"
          and to_vec = "\<lambda>d. if d ''a'' = Some ''1'' then Some [1] else None" and b = "[1]"
          and from_slice = "\<lambda>_. Some [''a'' \<mapsto> ''1'']" and m' = ?m, THEN conjunct1, THEN trans])
      (simp_all only: data, simp_all)
  then show ?thesis
    by (simp add: set_command_def)
qed

theorem broker_is_fifo_witness:
  "\<exists>b'. dequeue_from 1 2 (post 2 [(1, PreVoteResponse 0 True), (1, PreVoteResponse 1 True)]
       (broker_new :: nat message_broker)) = (b', Some (2, PreVoteResponse 0 True)) \<and>
     filter (\<lambda>(s, _). s = 2) (queue_of b' 1) = [(2, PreVoteResponse 1 True)]"
proof -
  let ?b = "post 2 [(1, PreVoteResponse 0 True), (1, PreVoteResponse 1 True)] (broker_new :: nat message_broker)"
  obtain b' where run: "dequeue_from 1 2 ?b = (b', Some (2, PreVoteResponse 0 True))"
    by (simp add: dequeue_from_def remove_at_def post_def transport_send_def enqueue_def queue_of_def broker_new_def)
  have "filter (\<lambda>(s, _). s = 2) (queue_of ?b 1) = [(2, PreVoteResponse 0 True), (2, PreVoteResponse 1 True)]"
    by (simp add: queue_of_post)
  with broker_is_fifo [OF run] have "filter (\<lambda>(s, _). s = 2) (queue_of b' 1) = [(2, PreVoteResponse 1 True)]"
    by simp
  with run show ?thesis by blast
qed

end
