(* ===== verification/Known_Deviations.thy ===== *)
theory Known_Deviations
  imports Service_Properties
begin

text \<open>
  Runs and calls in which the code departs from the protocol its documentation describes, each
  evaluated on the model.  They delimit the properties of the other theories: none of those says
  that a committed entry is never lost.
\<close>

definition three_nodes :: "(nat mem_storage, nat list, unit, nat) cluster" where
  "three_nodes = cluster_init example_env [1, 2, 3] (\<lambda>_. mem_new) [] (\<lambda>_. ()) 10"

definition observed_at ::
  "node_id \<Rightarrow> (nat mem_storage, nat list, unit, nat) cluster \<Rightarrow> nat obs_event list" where
  "observed_at i cl = (case cl_nodes cl i of Some n \<Rightarrow> rn_observed n | None \<Rightarrow> [])"

section \<open>An acknowledgement that acknowledges too much\<close>

text \<open>
  A follower answers an append-entries message with the last index of its log, not with the last
  index the message confirmed, and it does so for an empty message too.  In the run below node 1
  leads term 1 and keeps an entry to itself; node 2 is elected for term 2 with an empty log, its
  second heartbeat is acknowledged by node 1 with match index 1, and node 2 appends an entry of its own
  before that answer arrives.  The answer then counts as an acknowledgement of the new entry: node 2
  commits and applies it although node 1 holds another entry at that index and node 3 holds none.
\<close>

definition leads_term_1 :: "nat action list" where
  "leads_term_1 = [Fire 1 Election, Deliver 2 0, Deliver 1 0, Deliver 2 0, Deliver 1 0, Submit 1 100]"

definition leads_term_2 :: "nat action list" where
  "leads_term_2 = [Fire 2 Election, Deliver 3 4, Deliver 2 2, Deliver 3 4, Deliver 2 2,
     Deliver 1 2, Fire 2 Heartbeat, Deliver 1 2, Submit 2 200, Deliver 2 2]"

definition log_at ::
  "node_id \<Rightarrow> (nat mem_storage, nat list, unit, nat) cluster \<Rightarrow> nat log_entry list" where
  "log_at i cl = (case cl_nodes cl i of Some n \<Rightarrow> ms_log (rn_storage n) | None \<Rightarrow> [])"

theorem committed_without_a_majority:
  "let cl = run_cluster example_env (leads_term_1 @ leads_term_2) three_nodes
   in StateMachineApplied 2 1 200 \<in> set (observed_at 2 cl) \<and>
      log_at 1 cl = [example_entry 100] \<and> log_at 3 cl = []"
  by code_simp

section \<open>Append-entries messages out of order\<close>

text \<open>
  Entries are not compared with those already present: a delayed message truncates whatever follows
  it, committed or not, and the follower's commit index is left beyond the end of its log.
\<close>

definition committed_follower :: "nat mem_storage" where
  "committed_follower = mem_new\<lparr>ms_current_term := 1, ms_log := [example_entry 7, example_entry 8]\<rparr>"

theorem stale_message_drops_committed_entry:
  "(case try_append_entries in_memory_storage_ops example_machine in_memory_change_ops 2 0 0 [example_entry 7] 0
      committed_follower [7, 8] [] (replication_new\<lparr>commit_index := 2, last_applied := 2\<rparr>)
    of (lrm, s, sm, obs, res) \<Rightarrow>
      res = Some [] \<and> mem_last_log_index s = 1 \<and> commit_index lrm = 2 \<and> mem_get_entry s 2 = None)"
  by code_simp

text \<open>
  With the previous index 0 the check always passes, also when the follower's log starts behind a
  snapshot: entries 1 and 2 of the leader end up at the indices 6 and 7.
\<close>

definition compacted_follower :: "nat mem_storage" where
  "compacted_follower = mem_new\<lparr>ms_current_term := 1, ms_first_index := 6, ms_snapshot := Some
     \<lparr>metadata = \<lparr>last_included_index = 5, last_included_term = 1\<rparr>, snap_data = [1]\<rparr>\<rparr>"

theorem entries_land_behind_the_snapshot:
  "(case try_append_entries in_memory_storage_ops example_machine in_memory_change_ops 2 0 0
      [example_entry 7, example_entry 8] 0 compacted_follower [] [] replication_new
    of (lrm, s, sm, obs, res) \<Rightarrow>
      res = Some [] \<and> mem_get_entry s 6 = Some (example_entry 7) \<and> mem_get_entry s 7 = Some (example_entry 8))"
  by code_simp

section \<open>Votes and pre-votes\<close>

text \<open>Votes are counted, not collected: a vote that is delivered twice counts twice.\<close>

theorem duplicated_vote_counts_twice:
  "em_handle_vote_response in_memory_node_ops 2 1 True 1 Candidate \<lparr>members = [1, 2, 3, 4, 5]\<rparr>
     (fst (em_handle_vote_response in_memory_node_ops 2 1 True 1 Candidate \<lparr>members = [1, 2, 3, 4, 5]\<rparr>
        ((election_new ())\<lparr>votes_received := [1]\<rparr>)))
   = ((election_new ())\<lparr>votes_received := [1, 2, 2]\<rparr>, True)"
  by code_simp

text \<open>
  Becoming leader does not end a pre-vote: pre-vote answers that arrive late make the leader start
  an election against itself.
\<close>

definition late_pre_vote_run :: "nat action list" where
  "late_pre_vote_run = [Fire 1 Election, Deliver 2 0, Deliver 1 0, Fire 1 Election, Deliver 2 0, Deliver 1 0,
     Deliver 2 0, Deliver 1 0]"

theorem late_pre_vote_unseats_leader:
  "map_option (\<lambda>n. (rn_role n, rn_term n)) (cl_nodes (run_cluster example_env (take 6 late_pre_vote_run) three_nodes) 1)
     = Some (Leader, 1) \<and>
   map_option (\<lambda>n. (rn_role n, rn_term n)) (cl_nodes (run_cluster example_env late_pre_vote_run three_nodes) 1)
     = Some (Candidate, 2)"
  by code_simp

section \<open>Snapshots are taken once\<close>

text \<open>Once a snapshot at or above the threshold is stored no further snapshot is ever due, however far the
  commit index moves, so the log grows without bound again.\<close>

theorem no_second_snapshot:
  "ms_snapshot (rn_storage n) = Some sn \<Longrightarrow> threshold (rn_snapshots n) \<le> last_included_index (metadata sn) \<Longrightarrow>
   \<not> node_should_create_snapshot (in_memory_env SM TO) n"
  by (auto simp: node_should_create_snapshot_def mem.should_create_iff)

section \<open>A leader from an old term\<close>

text \<open>A follower takes the sender of an append-entries message for its leader even when it refuses the
  message because its term is old, and redirects clients there.\<close>

theorem stale_leader_becomes_hint:
  "rn_term n > t \<Longrightarrow>
   rn_leader (on_event (in_memory_env SM TO) (Message f (AppendEntries t prev pt es lc)) n) = Some f"
  by (simp add: handle_append_entries_def validate_term_and_step_down_def Let_def split: prod.splits)

end
