(* ===== verification/Log_Properties.thy ===== *)
theory Log_Properties
  imports Known_Deviations
begin

text \<open>
  What holds of the logs of whole runs of a test cluster: log matching, and that a leader only appends.
  The runs are those in which no snapshot becomes due, because fewer commands are submitted than the
  snapshot threshold; messages may be delayed, reordered and lost, and nodes restarted.
\<close>

text \<open>A node whose log starts at index 1, is not longer than \<open>K\<close>, and is not due for a snapshot.\<close>

definition mem_log_wf :: "nat \<Rightarrow> ('p mem_storage, 'sm, 'ts, 'p) raft_node \<Rightarrow> bool" where
  "mem_log_wf K n \<longleftrightarrow> ms_first_index (rn_storage n) = 1 \<and> ms_snapshot (rn_storage n) = None \<and>
     length (ms_log (rn_storage n)) \<le> K \<and> rn_term n = ms_current_term (rn_storage n) \<and>
     commit_index (rn_replication n) \<le> K \<and> K < threshold (rn_snapshots n) \<and> Suc K < u64_limit"

lemma mem_log_wf_iff: "mem_log_wf K n \<longleftrightarrow> mem_log.log_wf K n"
  by (auto simp: mem_log_wf_def mem_log.log_wf_def)

section \<open>Refinement\<close>

text \<open>C3: A run of a test cluster in which no membership change is submitted is a run of the election
  protocol: the abstraction of the initial cluster is a start of the protocol, and every action is a
  protocol step.\<close>

theorem cluster_refines_election_protocol:
  assumes "distinct ids" and "\<forall>a\<in>set acts. keeps_members a" and "length acts < u64_limit"
  shows "protocol_start (set ids) (abs_cluster (in_memory_env SM TO)
      (cluster_init (in_memory_env SM TO) ids (\<lambda>_. mem_new) sm ts th)) \<and>
    (protocol_step (set ids))\<^sup>*\<^sup>*
      (abs_cluster (in_memory_env SM TO) (cluster_init (in_memory_env SM TO) ids (\<lambda>_. mem_new) sm ts th))
      (abs_cluster (in_memory_env SM TO)
         (run_cluster (in_memory_env SM TO) acts (cluster_init (in_memory_env SM TO) ids (\<lambda>_. mem_new) sm ts th)))"
proof
  let ?cl = "cluster_init (in_memory_env SM TO) ids (\<lambda>_. mem_new) sm ts th"
  show "protocol_start (set ids) (abs_cluster (in_memory_env SM TO) ?cl)"
    by (rule mem_node.cluster_init_start) (simp add: mem_new_blank)
  have "mem_node.cluster_wf SM TO 0 ?cl"
    by (rule mem_node.cluster_init_wf [OF assms(1) _ mem_all_blank]) (simp add: in_memory_members_fit)
  moreover have "cl_ids ?cl = ids" by (simp add: cluster_init_def)
  ultimately show "(protocol_step (set ids))\<^sup>*\<^sup>* (abs_cluster (in_memory_env SM TO) ?cl)
      (abs_cluster (in_memory_env SM TO) (run_cluster (in_memory_env SM TO) acts ?cl))"
    using mem_node.run_refines [where k = 0 and cl = ?cl and acts = acts and SM = SM and TO = TO] assms(2,3)
    by simp
qed

text \<open>C4: An event of the fixed-membership protocol, handled by a node that has not compacted its log, is a
  step of the log replication protocol: the log stays as it is, or a leader appends the submitted
  command to it, or the entries of a message whose previous entry matches replace what follows that
  entry.  Left out are membership changes, as events and as entries, vote requests that do not come from
  their candidate, InstallSnapshot messages, and terms, indices and logs beyond the bounds \<open>k\<close> and \<open>K\<close>,
  of which \<open>K\<close> is below the snapshot threshold (\<open>event_ok\<close>, \<open>event_bounded\<close> and \<open>mem_log_wf\<close>).\<close>

theorem event_refines_log_protocol:
  fixes n :: "('p mem_storage, 'sm, 'ts, 'p) raft_node"
  assumes "mem_log_wf K n" and "mem_node_wf k n" and "event_ok k ev" and "event_bounded K ev"
    and "submits ev \<Longrightarrow> length (ms_log (rn_storage n)) < K"
  shows "log_step (shipment_trigger ev) (submits ev)
      (eview (in_memory_env SM TO) n) (ms_log (rn_storage n))
      (eview (in_memory_env SM TO) (on_event (in_memory_env SM TO) ev n))
      (ms_log (rn_storage (on_event (in_memory_env SM TO) ev n)))"
  using mem_log.on_event_log(2) [OF assms(1) [unfolded mem_log_wf_iff] assms(2) [unfolded mem_node_wf_iff] assms(3,4)] assms(5)
  by simp

section \<open>Logs of whole runs\<close>

text \<open>C5: Log matching, as long as nothing is compacted: in a run without membership changes and with fewer
  submissions than the snapshot threshold, if the logs of two nodes hold entries of the same term at
  the same index, the logs are identical up to that index.\<close>

theorem logs_match:
  assumes "distinct ids" and "\<forall>a\<in>set acts. keeps_members a" and "Suc (length acts) < u64_limit"
    and "submit_count acts < th"
    and "cl = run_cluster (in_memory_env SM TO) acts (cluster_init (in_memory_env SM TO) ids (\<lambda>_. mem_new) sm ts th)"
    and "cl_nodes cl a = Some na" and "cl_nodes cl b = Some nb"
    and "k < length (ms_log (rn_storage na))" and "k < length (ms_log (rn_storage nb))"
    and "entry_term (ms_log (rn_storage na) ! k) = entry_term (ms_log (rn_storage nb) ! k)"
  shows "take (Suc k) (ms_log (rn_storage na)) = take (Suc k) (ms_log (rn_storage nb))"
  using mem_log.log_matching [OF assms(1) _ mem_all_fresh assms(2-7)] assms(8-10)
  by (simp add: in_memory_members_fit)

text \<open>C20: As long as nothing is compacted, in a run without membership changes and with fewer submissions than
  the snapshot threshold, a node that leads the same term at two points of the run has only appended
  to its log in between.\<close>

theorem leaders_only_append:
  assumes "distinct ids" and "\<forall>a\<in>set (acts @ acts'). keeps_members a"
    and "Suc (length (acts @ acts')) < u64_limit" and "submit_count (acts @ acts') < th"
    and "cl = run_cluster (in_memory_env SM TO) acts (cluster_init (in_memory_env SM TO) ids (\<lambda>_. mem_new) sm ts th)"
    and "cl' = run_cluster (in_memory_env SM TO) acts' cl"
    and "cl_nodes cl a = Some n" and "cl_nodes cl' a = Some n'"
    and "rn_role n = Leader" and "rn_role n' = Leader" and "rn_term n' = rn_term n"
  shows "\<exists>ys. ms_log (rn_storage n') = ms_log (rn_storage n) @ ys"
  using mem_log.leader_append_only [OF assms(1) _ mem_all_fresh assms(2-8)] assms(9-11)
  by (simp add: in_memory_members_fit)

text \<open>C6: As long as nothing is compacted, in a run without membership changes and with fewer submissions than
  the snapshot threshold, every entry of a leader's own term, on whichever node it is stored, stands
  at the same index of the leader's log, behind the same entries.\<close>

theorem leader_holds_the_entries_of_its_term:
  assumes "distinct ids" and "\<forall>a\<in>set acts. keeps_members a" and "Suc (length acts) < u64_limit"
    and "submit_count acts < th"
    and "cl = run_cluster (in_memory_env SM TO) acts (cluster_init (in_memory_env SM TO) ids (\<lambda>_. mem_new) sm ts th)"
    and "cl_nodes cl a = Some na" and "cl_nodes cl b = Some nb" and "rn_role na = Leader"
    and "k < length (ms_log (rn_storage nb))" and "entry_term (ms_log (rn_storage nb) ! k) = rn_term na"
  shows "k < length (ms_log (rn_storage na)) \<and>
    take (Suc k) (ms_log (rn_storage nb)) = take (Suc k) (ms_log (rn_storage na))"
  using mem_log.leader_has_its_entries [OF assms(1) _ mem_all_fresh assms(2-7)] assms(8-10)
  by (simp add: in_memory_members_fit)

section \<open>Witnesses\<close>

text \<open>The leader's entry reaches node 2; then the leader appends a second one.\<close>

definition replicated_run :: "nat action list" where
  "replicated_run = leads_term_1 @ [Deliver 2 1]"

lemma replicated_run_hyps:
  "distinct [1, 2, 3 :: nat]" "\<forall>a\<in>set replicated_run. keeps_members a"
  "Suc (length replicated_run) < u64_limit" "submit_count replicated_run < 10"
  "\<forall>a\<in>set (replicated_run @ [Submit 1 101]). keeps_members a"
  "Suc (length (replicated_run @ [Submit 1 101])) < u64_limit" "submit_count (replicated_run @ [Submit 1 101]) < 10"
  by (simp_all add: replicated_run_def leads_term_1_def u64_limit_def submit_count_def)

lemma replicated_run_result:
  obtains na nb nc where
    "cl_nodes (run_cluster example_env replicated_run three_nodes) 1 = Some na"
    "cl_nodes (run_cluster example_env replicated_run three_nodes) 2 = Some nb"
    "cl_nodes (run_cluster example_env [Submit 1 101] (run_cluster example_env replicated_run three_nodes)) 1 = Some nc"
    "rn_role na = Leader" "rn_term na = 1" "rn_role nc = Leader" "rn_term nc = 1"
    "ms_log (rn_storage na) = [example_entry 100]" "ms_log (rn_storage nb) = [example_entry 100]"
    "ms_log (rn_storage nc) = [example_entry 100, example_entry 101]"
proof -
  let ?P = "\<lambda>n m ls. case n of None \<Rightarrow> False | Some n \<Rightarrow>
    (m \<longrightarrow> rn_role n = Leader \<and> rn_term n = 1) \<and> ms_log (rn_storage n) = map example_entry ls"
  have "let cl = run_cluster example_env replicated_run three_nodes
     in ?P (cl_nodes cl 1) True [100] \<and> ?P (cl_nodes cl 2) False [100] \<and>
        ?P (cl_nodes (run_cluster example_env [Submit 1 101] cl) 1) True [100, 101]"
    by code_simp
  then show thesis by (auto simp: Let_def split: option.splits intro: that)
qed

theorem cluster_refines_election_protocol_witness:
  "(protocol_step {1, 2, 3})\<^sup>*\<^sup>* (abs_cluster example_env three_nodes)
     (abs_cluster example_env (run_cluster example_env replicated_run three_nodes))"
  using cluster_refines_election_protocol [OF replicated_run_hyps(1,2) Suc_lessD [OF replicated_run_hyps(3)],
      of example_machine frozen_timer_ops "[]" "\<lambda>_. ()" 10]
  unfolding example_env_def three_nodes_def by simp

theorem logs_match_witness:
  "take 1 (log_at 1 (run_cluster example_env replicated_run three_nodes)) =
     take 1 (log_at 2 (run_cluster example_env replicated_run three_nodes)) \<and>
   log_at 2 (run_cluster example_env replicated_run three_nodes) = [example_entry 100]"
proof (rule replicated_run_result)
  fix na nb nc
  assume run: "cl_nodes (run_cluster example_env replicated_run three_nodes) 1 = Some na"
    "cl_nodes (run_cluster example_env replicated_run three_nodes) 2 = Some nb"
    and logs: "ms_log (rn_storage na) = [example_entry 100]" "ms_log (rn_storage nb) = [example_entry 100]"
  have "take (Suc 0) (ms_log (rn_storage na)) = take (Suc 0) (ms_log (rn_storage nb))"
    by (rule logs_match [OF replicated_run_hyps(1-4) refl run [unfolded example_env_def three_nodes_def]])
      (simp_all add: logs)
  with run logs show ?thesis by (simp add: log_at_def)
qed

theorem leaders_only_append_witness:
  "\<exists>ys. log_at 1 (run_cluster example_env [Submit 1 101] (run_cluster example_env replicated_run three_nodes)) =
     log_at 1 (run_cluster example_env replicated_run three_nodes) @ ys"
proof (rule replicated_run_result)
  fix na nb nc
  assume run: "cl_nodes (run_cluster example_env replicated_run three_nodes) 1 = Some na"
    "cl_nodes (run_cluster example_env [Submit 1 101] (run_cluster example_env replicated_run three_nodes)) 1 = Some nc"
    and lead: "rn_role na = Leader" "rn_role nc = Leader" "rn_term na = 1" "rn_term nc = 1"
  have "\<exists>ys. ms_log (rn_storage nc) = ms_log (rn_storage na) @ ys"
    by (rule leaders_only_append [OF replicated_run_hyps(1,5-7) refl refl run [unfolded example_env_def three_nodes_def]])
      (simp_all add: lead)
  with run show ?thesis by (simp add: log_at_def)
qed

theorem leader_holds_the_entries_of_its_term_witness:
  "take 1 (log_at 2 (run_cluster example_env replicated_run three_nodes)) =
     take 1 (log_at 1 (run_cluster example_env replicated_run three_nodes))"
proof (rule replicated_run_result)
  fix na nb nc
  assume run: "cl_nodes (run_cluster example_env replicated_run three_nodes) 1 = Some na"
    "cl_nodes (run_cluster example_env replicated_run three_nodes) 2 = Some nb"
    and lead: "rn_role na = Leader" "rn_term na = 1"
    and logs: "ms_log (rn_storage na) = [example_entry 100]" "ms_log (rn_storage nb) = [example_entry 100]"
  have "0 < length (ms_log (rn_storage na)) \<and>
      take (Suc 0) (ms_log (rn_storage nb)) = take (Suc 0) (ms_log (rn_storage na))"
    by (rule leader_holds_the_entries_of_its_term [OF replicated_run_hyps(1-4) refl
          run [unfolded example_env_def three_nodes_def] lead(1)])
      (simp_all add: logs lead example_entry_def)
  with run show ?thesis by (simp add: log_at_def)
qed

text \<open>A follower accepts the first entry of the leader of its term.\<close>

definition log_follower :: "(nat mem_storage, nat list, unit, nat) raft_node" where
  "log_follower = build_node example_env 2 (mem_new\<lparr>ms_current_term := 1\<rparr>) [] () [1, 3] [] 10 0"

theorem event_refines_log_protocol_witness:
  "log_step (Some (1, Ship 1 0 0 [example_entry 100])) False (eview example_env log_follower) []
     (eview example_env (on_event example_env (Message 1 (AppendEntries 1 0 0 [example_entry 100] 0)) log_follower))
     [example_entry 100]"
proof -
  let ?ev = "Message 1 (AppendEntries 1 0 0 [example_entry 100] 0)"
  have "mem_log_wf 5 log_follower" and "mem_node_wf 1 log_follower"
    unfolding mem_log_wf_def mem_node_wf_def by code_simp+
  moreover have "event_ok 1 ?ev" and "event_bounded 5 ?ev"
    by (simp_all add: msg_ok_def msg_bounded_def example_entry_def is_command_def)
  ultimately have "log_step (shipment_trigger ?ev) (submits ?ev) (eview example_env log_follower)
      (ms_log (rn_storage log_follower)) (eview example_env (on_event example_env ?ev log_follower))
      (ms_log (rn_storage (on_event example_env ?ev log_follower)))"
    unfolding example_env_def by (rule event_refines_log_protocol) simp
  moreover have "ms_log (rn_storage log_follower) = []"
    "ms_log (rn_storage (on_event example_env ?ev log_follower)) = [example_entry 100]"
    by code_simp+
  ultimately show ?thesis by simp
qed

end
