(* ===== verification/Log_Collections.thy ===== *)
theory Log_Collections
  imports Raft_Collections
begin

text \<open>
  The collections that carry log entries and snapshot bytes: \<open>LogEntryCollection\<close> and
  \<open>ChunkCollection\<close> of \<open>core/src/collections\<close>, with the unbounded implementations of
  \<open>test-utils\<close> and the bounded ones of \<open>embassy\<close>.  A collection is the list its \<open>as_slice\<close> yields.
\<close>

section \<open>The contract\<close>

text \<open>
  Building a collection from a slice keeps a prefix of it, and an element that is pushed either
  lands at the end or is refused.
\<close>

locale slice_collection =
  fixes new :: "'a list \<Rightarrow> 'a list"
    and push :: "'a \<Rightarrow> 'a list \<Rightarrow> collection_error + 'a list"
    and cap :: capacity
  assumes new_clip: "new xs = (case cap of None \<Rightarrow> xs | Some n \<Rightarrow> take n xs)"
    and push_room: "has_room cap (length xs) \<Longrightarrow> push x xs = Inr (xs @ [x])"
    and push_full: "\<not> has_room cap (length xs) \<Longrightarrow> push x xs = Inl Full"
begin

lemma new_prefix: "\<exists>n. new xs = take n xs"
  by (cases cap) (auto simp: new_clip intro: exI [of _ "length xs"])

lemma new_fits: "cap = Some n \<Longrightarrow> length (new xs) \<le> n"
  by (simp add: new_clip)

lemma new_whole: "(\<And>n. cap = Some n \<Longrightarrow> length xs \<le> n) \<Longrightarrow> new xs = xs"
  by (simp add: new_clip split: option.splits)

lemma set_new: "set (new xs) \<subseteq> set xs"
  by (auto simp: new_clip dest: in_set_takeD split: option.splits)

end

lemma vec_from_slice:
  "extend_ok (vec_push cap) xs [] = (case cap of None \<Rightarrow> xs | Some n \<Rightarrow> take n xs)"
  by (cases cap) (simp_all add: extend_ok_bounded)

text \<open>\<open>extend_from_slice\<close> pushes byte by byte and stops at the first that does not fit.\<close>

fun extend_from_slice :: "capacity \<Rightarrow> 'a list \<Rightarrow> 'a list \<Rightarrow> 'a list \<times> (collection_error + unit)" where
  "extend_from_slice cap [] xs = (xs, Inr ())"
| "extend_from_slice cap (b # bs) xs =
     (case vec_push cap b xs of
        Inl e \<Rightarrow> (xs, Inl e)
      | Inr xs' \<Rightarrow> extend_from_slice cap bs xs')"

lemma extend_from_slice_cases:
  "extend_from_slice cap bs xs =
     (if \<forall>n. cap = Some n \<longrightarrow> bs = [] \<or> length xs + length bs \<le> n then (xs @ bs, Inr ())
      else (xs @ take (the cap - length xs) bs, Inl Full))"
proof (induction bs arbitrary: xs)
  case (Cons b bs)
  show ?case
  proof (cases cap)
    case (Some n)
    with Cons.IH [of "xs @ [b]"] show ?thesis
      by (auto simp: vec_push_def has_room_def take_Cons' not_less Suc_diff_le)
  qed (use Cons.IH [of "xs @ [b]"] in \<open>simp add: vec_push_def\<close>)
qed simp

section \<open>The collections of test-utils\<close>

definition in_memory_log_new :: "'p log_entry list \<Rightarrow> 'p log_entry list" where
  "in_memory_log_new entries = entries"

definition in_memory_log_push ::
  "'p log_entry \<Rightarrow> 'p log_entry list \<Rightarrow> collection_error + 'p log_entry list" where
  "in_memory_log_push entry entries = Inr (entries @ [entry])"

definition in_memory_log_truncate :: "nat \<Rightarrow> 'p log_entry list \<Rightarrow> 'p log_entry list" where
  "in_memory_log_truncate index entries = take index entries"

definition in_memory_chunk_new :: "bytes \<Rightarrow> bytes" where
  "in_memory_chunk_new data = data"

definition in_memory_chunk_extend :: "bytes \<Rightarrow> bytes \<Rightarrow> bytes \<times> (collection_error + unit)" where
  "in_memory_chunk_extend extra data = (data @ extra, Inr ())"

interpretation mem_entries: slice_collection in_memory_log_new in_memory_log_push None
  by unfold_locales (simp_all add: in_memory_log_new_def in_memory_log_push_def)

section \<open>The collections of embassy\<close>

definition embassy_log_new :: "'p log_entry list \<Rightarrow> 'p log_entry list" where
  "embassy_log_new entries = extend_ok (vec_push (Some 128)) entries []"

definition embassy_log_push ::
  "'p log_entry \<Rightarrow> 'p log_entry list \<Rightarrow> collection_error + 'p log_entry list" where
  "embassy_log_push entry entries = vec_push (Some 128) entry entries"

definition embassy_log_truncate :: "nat \<Rightarrow> 'p log_entry list \<Rightarrow> 'p log_entry list" where
  "embassy_log_truncate len entries = take len entries"

definition heapless_chunk_new :: "nat \<Rightarrow> bytes \<Rightarrow> bytes" where
  "heapless_chunk_new n data = extend_ok (vec_push (Some n)) data []"

definition heapless_chunk_extend :: "nat \<Rightarrow> bytes \<Rightarrow> bytes \<Rightarrow> bytes \<times> (collection_error + unit)" where
  "heapless_chunk_extend n data chunk = extend_from_slice (Some n) data chunk"

interpretation emb_entries: slice_collection embassy_log_new embassy_log_push "Some 128"
  by unfold_locales (simp_all add: embassy_log_new_def embassy_log_push_def vec_from_slice vec_push_def)

interpretation emb_chunks: slice_collection "heapless_chunk_new n" "vec_push (Some n)" "Some n"
  by unfold_locales (simp_all add: heapless_chunk_new_def vec_from_slice vec_push_def)

end
