(* ===== verification/Embassy_Timer.thy ===== *)
theory Embassy_Timer
  imports Clock_Timers
begin

text \<open>
  \<open>embassy/src/embassy_timer.rs\<close> and the tick counter of \<open>embassy/src/time_driver.rs\<close>.  A tick is a
  millisecond (feature \<open>tick-hz-1_000\<close> of \<open>embassy-time\<close>), so that \<open>as_ticks\<close> and \<open>as_millis\<close> agree.  The
  timer carries the reading of the clock it sees; time passes by storing a later reading.  Adding a
  duration to an instant of \<open>embassy-time\<close> panics past the range of 64 bits, some 584 million years
  after the start; the sums are left unbounded.
\<close>

section \<open>The tick counter\<close>

definition systick :: "64 word \<Rightarrow> 64 word" where
  "systick ticks = ticks + 1"

definition embassy_clock_now :: "nat \<Rightarrow> instant" where
  "embassy_clock_now embassy_now = instant_from_millis embassy_now"

section \<open>The timer\<close>

record embassy_timer =
  tm_election_deadline :: "nat option"
  tm_heartbeat_deadline :: "nat option"
  tm_entropy_state :: "64 word"
  tm_now :: nat

definition embassy_timer_new :: "nat \<Rightarrow> embassy_timer" where
  "embassy_timer_new now_ticks =
     \<lparr>tm_election_deadline = None, tm_heartbeat_deadline = None,
      tm_entropy_state = word_of_nat now_ticks, tm_now = now_ticks\<rparr>"

definition election_timeout_min_ms :: nat where "election_timeout_min_ms = 300"

definition election_timeout_max_ms :: nat where "election_timeout_max_ms = 600"

definition heartbeat_timeout_ms :: nat where "heartbeat_timeout_ms = 100"

definition embassy_random_timeout :: "embassy_timer \<Rightarrow> embassy_timer \<times> nat" where
  "embassy_random_timeout t =
     (let now_ticks = tm_now t;
          t1 = t\<lparr>tm_entropy_state := tm_entropy_state t * 6364136223846793005 + word_of_nat now_ticks\<rparr>;
          range = election_timeout_max_ms - election_timeout_min_ms;
          offset = unat (tm_entropy_state t1) mod (range + 1)
      in (t1, election_timeout_min_ms + offset))"

definition embassy_reset_election :: "embassy_timer \<Rightarrow> embassy_timer" where
  "embassy_reset_election t =
     (let now = tm_now t; (t1, timeout) = embassy_random_timeout t
      in t1\<lparr>tm_election_deadline := Some (now + timeout)\<rparr>)"

definition embassy_reset_heartbeat :: "embassy_timer \<Rightarrow> embassy_timer" where
  "embassy_reset_heartbeat t = t\<lparr>tm_heartbeat_deadline := Some (tm_now t + heartbeat_timeout_ms)\<rparr>"

definition embassy_stop_timers :: "embassy_timer \<Rightarrow> embassy_timer" where
  "embassy_stop_timers t = t\<lparr>tm_election_deadline := None, tm_heartbeat_deadline := None\<rparr>"

definition embassy_check_expired :: "embassy_timer \<Rightarrow> expired_timers" where
  "embassy_check_expired t =
     (let expired = expired_new;
          now = tm_now t;
          expired1 =
            (case tm_election_deadline t of
               Some deadline \<Rightarrow> if deadline \<le> now then expired_push Election expired else expired
             | None \<Rightarrow> expired)
      in case tm_heartbeat_deadline t of
           Some deadline \<Rightarrow> if deadline \<le> now then expired_push Heartbeat expired1 else expired1
         | None \<Rightarrow> expired1)"

definition embassy_timer_ops :: "embassy_timer timer_ops" where
  "embassy_timer_ops = \<lparr>ts_reset_election = embassy_reset_election,
     ts_reset_heartbeat = embassy_reset_heartbeat, ts_stop_timers = embassy_stop_timers,
     ts_check_expired = embassy_check_expired\<rparr>"

definition timer_elapse :: "nat \<Rightarrow> embassy_timer \<Rightarrow> embassy_timer" where
  \<comment> \<open>\<open>ticks\<close> interrupts of the system timer.\<close>
  "timer_elapse ticks t = t\<lparr>tm_now := tm_now t + ticks\<rparr>"

section \<open>Facts\<close>

lemma embassy_timer_simps [simp]:
  "tm_now (embassy_reset_election t) = tm_now t" "tm_now (embassy_reset_heartbeat t) = tm_now t"
  "tm_now (embassy_stop_timers t) = tm_now t"
  "tm_heartbeat_deadline (embassy_reset_election t) = tm_heartbeat_deadline t"
  "tm_heartbeat_deadline (embassy_reset_heartbeat t) = Some (tm_now t + 100)"
  "tm_heartbeat_deadline (embassy_stop_timers t) = None"
  "tm_election_deadline (embassy_reset_heartbeat t) = tm_election_deadline t"
  "tm_heartbeat_deadline (timer_elapse d t) = tm_heartbeat_deadline t"
  "tm_election_deadline (timer_elapse d t) = tm_election_deadline t"
  "tm_now (timer_elapse d t) = tm_now t + d"
  by (simp_all add: embassy_reset_election_def embassy_reset_heartbeat_def embassy_stop_timers_def
      embassy_random_timeout_def timer_elapse_def heartbeat_timeout_ms_def Let_def)

lemma embassy_timeout_window:
  "300 \<le> snd (embassy_random_timeout t) \<and> snd (embassy_random_timeout t) \<le> 600"
proof -
  have "unat w mod 301 \<le> 300" for w :: "64 word"
    using mod_less_divisor [of 301 "unat w"] by linarith
  then show ?thesis
    by (simp add: embassy_random_timeout_def election_timeout_min_ms_def election_timeout_max_ms_def Let_def)
qed

lemma embassy_election_deadline:
  obtains d where "tm_election_deadline (embassy_reset_election t) = Some (tm_now t + d)" "300 \<le> d" "d \<le> 600"
  by (rule that [of "snd (embassy_random_timeout t)"])
    (use embassy_timeout_window [of t] in \<open>simp_all add: embassy_reset_election_def split: prod.splits\<close>)

lemma embassy_check_expired_iter:
  "expired_iter (embassy_check_expired t) =
     (case tm_election_deadline t of Some d \<Rightarrow> if d \<le> tm_now t then [Election] else [] | None \<Rightarrow> []) @
     (case tm_heartbeat_deadline t of Some d \<Rightarrow> if d \<le> tm_now t then [Heartbeat] else [] | None \<Rightarrow> [])"
  by (auto simp: embassy_check_expired_def expired_push_def expired_new_def expired_iter_def
      map_filter_simps Let_def split: option.splits)

text \<open>A heartbeat deadline that has passed stays passed, whatever happens to the election timer.\<close>

definition heartbeat_overdue :: "embassy_timer \<Rightarrow> bool" where
  "heartbeat_overdue t \<longleftrightarrow> (\<exists>d. tm_heartbeat_deadline t = Some d \<and> d \<le> tm_now t)"

lemma heartbeat_overdue_stays:
  "heartbeat_overdue t \<Longrightarrow> heartbeat_overdue (embassy_reset_election t)"
  "heartbeat_overdue t \<Longrightarrow> heartbeat_overdue (timer_elapse d t)"
  by (auto simp: heartbeat_overdue_def)

lemma heartbeat_overdue_expired: "heartbeat_overdue t \<Longrightarrow> expired_iter (embassy_check_expired t) \<noteq> []"
  by (auto simp: heartbeat_overdue_def embassy_check_expired_iter)

end
