(* ===== verification/Byte_Codec.thy ===== *)
theory Byte_Codec
  imports Raft_Types
begin

text \<open>
  Bytes and text: the little-endian integers of \<open>to_le_bytes\<close> and \<open>from_le_bytes\<close>, decimal numbers as
  \<open>format!\<close> prints them, and the UTF-8 check of \<open>String::from_utf8\<close>.  A Rust string is its list of
  UTF-8 code units, each a \<open>char\<close>.
\<close>

section \<open>Little-endian integers\<close>

fun le_bytes :: "nat \<Rightarrow> nat \<Rightarrow> bytes" where
  "le_bytes 0 n = []"
| "le_bytes (Suc k) n = word_of_nat (n mod 256) # le_bytes k (n div 256)"

fun le_nat :: "bytes \<Rightarrow> nat" where
  "le_nat [] = 0"
| "le_nat (b # bs) = unat b + 256 * le_nat bs"

lemma length_le_bytes [simp]: "length (le_bytes k n) = k"
  by (induction k arbitrary: n) simp_all

lemma le_nat_le_bytes: "le_nat (le_bytes k n) = n mod 256 ^ k"
proof (induction k arbitrary: n)
  case (Suc k)
  have "unat (word_of_nat (n mod 256) :: 8 word) = n mod 256"
    by (simp add: unat_of_nat)
  with Suc.IH [of "n div 256"] show ?case
    by (simp add: mod_mult2_eq)
qed simp

lemma le_nat_u64: "n < u64_limit \<Longrightarrow> le_nat (le_bytes 8 n) = n"
  by (simp add: le_nat_le_bytes u64_limit_def)

text \<open>Reading \<open>k\<close> bytes at an offset; \<open>None\<close> is an index out of range, where the code panics.\<close>

definition le_at :: "nat \<Rightarrow> nat \<Rightarrow> bytes \<Rightarrow> nat option" where
  "le_at k offset data = (if offset + k \<le> length data then Some (le_nat (take k (drop offset data))) else None)"

lemma le_at_inside: "offset = length pre \<Longrightarrow> le_at k offset (pre @ le_bytes k n @ post) = Some (n mod 256 ^ k)"
  by (simp add: le_at_def le_nat_le_bytes)

section \<open>Machine words of the target\<close>

text \<open>The embassy target has 32-bit \<open>usize\<close>.\<close>

definition usize32_limit :: nat where
  "usize32_limit = 2 ^ 32"

definition usize32_add :: "nat \<Rightarrow> nat \<Rightarrow> nat" where
  "usize32_add a b = (a + b) mod usize32_limit"

lemma usize32_add_small: "a + b < usize32_limit \<Longrightarrow> usize32_add a b = a + b"
  by (simp add: usize32_add_def)

section \<open>Strings\<close>

definition string_bytes :: "string \<Rightarrow> bytes" where
  "string_bytes s = map (\<lambda>c. word_of_nat (of_char c)) s"

definition bytes_string :: "bytes \<Rightarrow> string" where
  "bytes_string bs = map (\<lambda>b. char_of (unat b)) bs"

lemma bytes_string_bytes [simp]: "bytes_string (string_bytes s) = s"
proof -
  have "char_of (unat (word_of_nat (of_char c) :: 8 word)) = c" for c :: char
  proof -
    have "of_char c < (256 :: nat)" by (rule of_char_mod_256 [THEN subst, of "\<lambda>x. x < 256"]) simp
    then show ?thesis by (simp add: unat_of_nat)
  qed
  then show ?thesis by (induction s) (simp_all add: string_bytes_def bytes_string_def)
qed

lemma length_string_bytes [simp]: "length (string_bytes s) = length s"
  by (simp add: string_bytes_def)

lemma string_bytes_append [simp]: "string_bytes (s @ t) = string_bytes s @ string_bytes t"
  by (simp add: string_bytes_def)

lemma string_bytes_inject [simp]: "string_bytes s = string_bytes t \<longleftrightarrow> s = t"
  by (metis bytes_string_bytes)

definition utf8_tail :: "8 word \<Rightarrow> bool" where
  "utf8_tail b \<longleftrightarrow> 0x80 \<le> b \<and> b \<le> 0xBF"

text \<open>Well-formed UTF-8 (table 3-7 of the Unicode standard), which \<open>core::str::from_utf8\<close> checks.\<close>

fun utf8_valid :: "bytes \<Rightarrow> bool" where
  "utf8_valid [] = True"
| "utf8_valid (a # bs) =
     (if a < 0x80 then utf8_valid bs
      else if 0xC2 \<le> a \<and> a \<le> 0xDF then
        (case bs of b # cs \<Rightarrow> utf8_tail b \<and> utf8_valid cs | [] \<Rightarrow> False)
      else if 0xE0 \<le> a \<and> a \<le> 0xEF then
        (case bs of b # c # ds \<Rightarrow>
             (if a = 0xE0 then 0xA0 \<le> b \<and> b \<le> 0xBF
              else if a = 0xED then 0x80 \<le> b \<and> b \<le> 0x9F
              else utf8_tail b) \<and> utf8_tail c \<and> utf8_valid ds
         | _ \<Rightarrow> False)
      else if 0xF0 \<le> a \<and> a \<le> 0xF4 then
        (case bs of b # c # d # es \<Rightarrow>
             (if a = 0xF0 then 0x90 \<le> b \<and> b \<le> 0xBF
              else if a = 0xF4 then 0x80 \<le> b \<and> b \<le> 0x8F
              else utf8_tail b) \<and> utf8_tail c \<and> utf8_tail d \<and> utf8_valid es
         | _ \<Rightarrow> False)
      else False)"

lemma utf8_steps:
  "a < 0x80 \<Longrightarrow> utf8_valid (a # bs) = utf8_valid bs"
  "\<not> a < 0x80 \<Longrightarrow> 0xC2 \<le> a \<and> a \<le> 0xDF \<Longrightarrow> utf8_valid (a # b # cs) \<longleftrightarrow> utf8_tail b \<and> utf8_valid cs"
  "\<not> a < 0x80 \<Longrightarrow> \<not> (0xC2 \<le> a \<and> a \<le> 0xDF) \<Longrightarrow> 0xE0 \<le> a \<and> a \<le> 0xEF \<Longrightarrow> utf8_valid (a # b # c # ds) \<longleftrightarrow>
     (if a = 0xE0 then 0xA0 \<le> b \<and> b \<le> 0xBF else if a = 0xED then 0x80 \<le> b \<and> b \<le> 0x9F else utf8_tail b) \<and>
     utf8_tail c \<and> utf8_valid ds"
  "\<not> a < 0x80 \<Longrightarrow> \<not> (0xC2 \<le> a \<and> a \<le> 0xDF) \<Longrightarrow> \<not> (0xE0 \<le> a \<and> a \<le> 0xEF) \<Longrightarrow> 0xF0 \<le> a \<and> a \<le> 0xF4 \<Longrightarrow>
     utf8_valid (a # b # c # d # es) \<longleftrightarrow>
     (if a = 0xF0 then 0x90 \<le> b \<and> b \<le> 0xBF else if a = 0xF4 then 0x80 \<le> b \<and> b \<le> 0x8F else utf8_tail b) \<and>
     utf8_tail c \<and> utf8_tail d \<and> utf8_valid es"
  by (subst utf8_valid.simps, simp only: if_True if_False simp_thms list.case)+

lemma utf8_valid_append: "utf8_valid a \<Longrightarrow> utf8_valid b \<Longrightarrow> utf8_valid (a @ b)"
proof (induction a rule: utf8_valid.induct)
  case (2 a bs)
  consider (one) "a < 0x80" | (two) "\<not> a < 0x80" "0xC2 \<le> a \<and> a \<le> 0xDF"
    | (three) "\<not> a < 0x80" "\<not> (0xC2 \<le> a \<and> a \<le> 0xDF)" "0xE0 \<le> a \<and> a \<le> 0xEF"
    | (four) "\<not> a < 0x80" "\<not> (0xC2 \<le> a \<and> a \<le> 0xDF)" "\<not> (0xE0 \<le> a \<and> a \<le> 0xEF)" "0xF0 \<le> a \<and> a \<le> 0xF4"
    using "2.prems"(1) unfolding utf8_valid.simps(2) by argo
  then show ?case
  proof cases
    case one
    with "2.prems" "2.IH"(1) show ?thesis by (simp only: append_Cons utf8_steps)
  next
    case two
    with "2.prems"(1) obtain b1 cs where bs: "bs = b1 # cs" by (cases bs) simp_all
    from "2.prems" "2.IH"(2) [OF two bs] show ?thesis unfolding bs append_Cons utf8_steps(2) [OF two] by blast
  next
    case three
    with "2.prems"(1) obtain b1 c ds where bs: "bs = b1 # c # ds" by (simp split: list.splits)
    from "2.prems" "2.IH"(3) [OF three bs refl] show ?thesis
      unfolding bs append_Cons utf8_steps(3) [OF three] by blast
  next
    case four
    with "2.prems"(1) obtain b1 c d es where bs: "bs = b1 # c # d # es" by (simp split: list.splits)
    from "2.prems" "2.IH"(4) [OF four bs refl refl] show ?thesis
      unfolding bs append_Cons utf8_steps(4) [OF four] by blast
  qed
qed simp

text \<open>For evaluation: what does not begin an ASCII character is looked at only when there is one.\<close>

definition utf8_multibyte :: "8 word \<Rightarrow> bytes \<Rightarrow> bool" where
  "utf8_multibyte a bs \<longleftrightarrow>
     (if 0xC2 \<le> a \<and> a \<le> 0xDF then
        (case bs of b # cs \<Rightarrow> utf8_tail b \<and> utf8_valid cs | [] \<Rightarrow> False)
      else if 0xE0 \<le> a \<and> a \<le> 0xEF then
        (case bs of b # c # ds \<Rightarrow>
             (if a = 0xE0 then 0xA0 \<le> b \<and> b \<le> 0xBF
              else if a = 0xED then 0x80 \<le> b \<and> b \<le> 0x9F
              else utf8_tail b) \<and> utf8_tail c \<and> utf8_valid ds
         | _ \<Rightarrow> False)
      else if 0xF0 \<le> a \<and> a \<le> 0xF4 then
        (case bs of b # c # d # es \<Rightarrow>
             (if a = 0xF0 then 0x90 \<le> b \<and> b \<le> 0xBF
              else if a = 0xF4 then 0x80 \<le> b \<and> b \<le> 0x8F
              else utf8_tail b) \<and> utf8_tail c \<and> utf8_tail d \<and> utf8_valid es
         | _ \<Rightarrow> False)
      else False)"

lemma utf8_valid_code [code]:
  "utf8_valid [] = True"
  "utf8_valid (a # bs) = (if a < 0x80 then utf8_valid bs else utf8_multibyte a bs)"
  by (simp_all add: utf8_multibyte_def)

definition from_utf8 :: "bytes \<Rightarrow> string option" where
  "from_utf8 bs = (if utf8_valid bs then Some (bytes_string bs) else None)"

definition ascii :: "string \<Rightarrow> bool" where
  "ascii s \<longleftrightarrow> (\<forall>c\<in>set s. of_char c < (128 :: nat))"

lemma utf8_valid_ascii: "ascii s \<Longrightarrow> utf8_valid (string_bytes s)"
proof (induction s)
  case (Cons c s)
  then have "of_char c < (128 :: nat)" by (simp add: ascii_def)
  then have "(word_of_nat (of_char c) :: 8 word) < 0x80"
    by (simp add: word_less_nat_alt unat_of_nat)
  with Cons show ?case by (simp add: string_bytes_def ascii_def)
qed (simp add: string_bytes_def)

lemma ascii_append [simp]: "ascii (s @ t) \<longleftrightarrow> ascii s \<and> ascii t"
  by (auto simp: ascii_def)

section \<open>Decimal numbers\<close>

definition digit :: "nat \<Rightarrow> char" where
  "digit d = char_of (48 + d)"

function decimal :: "nat \<Rightarrow> string" where
  "decimal n = (if n < 10 then [digit n] else decimal (n div 10) @ [digit (n mod 10)])"
  by pat_completeness auto
termination by (relation "measure (\<lambda>n. n)") auto

declare decimal.simps [simp del]

lemma of_char_digit: "d < 10 \<Longrightarrow> of_char (digit d) = 48 + d"
  by (simp add: digit_def)

lemma digit_inject: "a < 10 \<Longrightarrow> b < 10 \<Longrightarrow> digit a = digit b \<longleftrightarrow> a = b"
  by (metis of_char_digit add_left_cancel)

lemma decimal_chars: "c \<in> set (decimal n) \<Longrightarrow> 48 \<le> (of_char c :: nat) \<and> of_char c < (58 :: nat)"
proof (induction n rule: decimal.induct)
  case (1 n)
  show ?case
  proof (cases "n < 10")
    case True
    with 1(2) show ?thesis by (simp add: decimal.simps [of n] of_char_digit)
  next
    case False
    with 1(2) have "c \<in> set (decimal (n div 10)) \<or> c = digit (n mod 10)"
      by (subst (asm) decimal.simps) auto
    with 1(1) False show ?thesis by (auto simp: of_char_digit)
  qed
qed

lemma ascii_decimal [simp]: "ascii (decimal n)"
  using decimal_chars by (fastforce simp: ascii_def)

lemma decimal_inject: "decimal a = decimal b \<Longrightarrow> a = b"
proof (induction a arbitrary: b rule: decimal.induct)
  case (1 a)
  have ne: "decimal n \<noteq> []" for n by (subst decimal.simps) simp
  show ?case
  proof (cases "a < 10")
    case True
    show ?thesis
    proof (cases "b < 10")
      case True
      with 1(2) \<open>a < 10\<close> show ?thesis
        by (simp add: decimal.simps [of a] decimal.simps [of b] digit_inject)
    next
      case False
      with 1(2) \<open>a < 10\<close> ne [of "b div 10"] show ?thesis
        by (simp add: decimal.simps [of a] decimal.simps [of b] Cons_eq_append_conv)
    qed
  next
    case False
    show ?thesis
    proof (cases "b < 10")
      case True
      with 1(2) False ne [of "a div 10"] show ?thesis
        by (simp add: decimal.simps [of a] decimal.simps [of b] append_eq_Cons_conv)
    next
      case b: False
      with 1(2) False have "decimal (a div 10) = decimal (b div 10)" "digit (a mod 10) = digit (b mod 10)"
        by (simp_all add: decimal.simps [of a] decimal.simps [of b])
      with 1(1) [OF False] have "a div 10 = b div 10" "a mod 10 = b mod 10"
        by (simp_all add: digit_inject)
      then show ?thesis by (metis div_mult_mod_eq)
    qed
  qed
qed

end
