(* ===== verification/Embassy_Machine.thy ===== *)
theory Embassy_Machine
  imports In_Memory_Node Byte_Codec "HOL-Library.AList"
begin

text \<open>
  \<open>embassy/src/embassy_state_machine.rs\<close>: the key/value state machine of the bare-metal nodes, with at
  most 16 keys and snapshots of at most 512 bytes.  \<open>FnvIndexMap\<close> is an association list in the order
  of insertion; a new key is refused once 16 are stored.
\<close>

section \<open>Lines of a string\<close>

text \<open>
  \<open>str::lines\<close>: a line ends at a newline, which is dropped together with a carriage return right
  before it; the text behind the last newline is a line of its own unless it is empty.
\<close>

abbreviation (input) newline :: char where
  "newline \<equiv> CHR 0x0A"

abbreviation (input) carriage_return :: char where
  "carriage_return \<equiv> CHR 0x0D"

definition strip_cr :: "string \<Rightarrow> string" where
  "strip_cr l = (if l \<noteq> [] \<and> last l = carriage_return then butlast l else l)"

function str_lines :: "string \<Rightarrow> string list" where
  "str_lines s =
     (if s = [] then []
      else case dropWhile (\<lambda>c. c \<noteq> newline) s of
             [] \<Rightarrow> [s]
           | _ # rest \<Rightarrow> strip_cr (takeWhile (\<lambda>c. c \<noteq> newline) s) # str_lines rest)"
  by pat_completeness auto

termination
proof (relation "measure length")
  fix s :: string and c rest
  assume "dropWhile (\<lambda>c. c \<noteq> newline) s = c # rest"
  with length_dropWhile_le [of "\<lambda>c. c \<noteq> newline" s] show "(rest, s) \<in> measure length" by simp
qed simp

declare str_lines.simps [simp del]

lemma str_lines_Nil [simp]: "str_lines [] = []"
  by (simp add: str_lines.simps)

lemma str_lines_line:
  assumes "newline \<notin> set l"
  shows "str_lines (l @ newline # rest) = strip_cr l # str_lines rest"
proof -
  have "dropWhile (\<lambda>c. c \<noteq> newline) (l @ newline # rest) = newline # rest"
    and "takeWhile (\<lambda>c. c \<noteq> newline) (l @ newline # rest) = l"
    using assms by (induction l) auto
  then show ?thesis by (subst str_lines.simps) simp
qed

section \<open>The state machine\<close>

type_synonym kv_list = "(string \<times> string) list"

record embassy_state_machine =
  em_data :: kv_list

definition esm_new :: embassy_state_machine where
  "esm_new = \<lparr>em_data = []\<rparr>"

definition index_map_insert :: "nat \<Rightarrow> 'k \<Rightarrow> 'v \<Rightarrow> ('k \<times> 'v) list \<Rightarrow> ('k \<times> 'v) list" where
  \<comment> \<open>\<open>let _ = map.insert(k, v)\<close> on a \<open>FnvIndexMap<_, _, cap>\<close>\<close>
  "index_map_insert cap k v m = (if map_of m k \<noteq> None \<or> length m < cap then AList.update k v m else m)"

definition esm_insert :: "string \<times> string \<Rightarrow> kv_list \<Rightarrow> kv_list" where
  "esm_insert kv data = index_map_insert 16 (fst kv) (snd kv) data"

definition esm_apply :: "string \<Rightarrow> embassy_state_machine \<Rightarrow> embassy_state_machine" where
  "esm_apply payload m =
     (case split_once (CHR ''='') payload of
        Some kv \<Rightarrow> m\<lparr>em_data := esm_insert kv (em_data m)\<rparr>
      | None \<Rightarrow> m)"

definition esm_get :: "embassy_state_machine \<Rightarrow> string \<Rightarrow> string option" where
  "esm_get m key = map_of (em_data m) key"

definition push_bytes :: "bytes \<Rightarrow> bytes \<Rightarrow> bytes" where
  \<comment> \<open>\<open>for byte in bytes { let _ = data.push(*byte); }\<close> on a \<open>Vec<u8, 512>\<close>\<close>
  "push_bytes bs data = extend_ok (vec_push (Some 512)) bs data"

definition esm_snapshot_entry :: "string \<times> string \<Rightarrow> bytes \<Rightarrow> bytes" where
  "esm_snapshot_entry kv data =
     push_bytes (string_bytes [newline]) (push_bytes (string_bytes (snd kv))
       (push_bytes (string_bytes ''='') (push_bytes (string_bytes (fst kv)) data)))"

definition esm_create_snapshot :: "embassy_state_machine \<Rightarrow> bytes" where
  "esm_create_snapshot m = fold esm_snapshot_entry (em_data m) []"

definition esm_restore_line :: "string \<Rightarrow> kv_list \<Rightarrow> kv_list" where
  "esm_restore_line line data =
     (case split_once (CHR ''='') line of Some kv \<Rightarrow> esm_insert kv data | None \<Rightarrow> data)"

definition esm_restore_from_snapshot ::
  "bytes \<Rightarrow> embassy_state_machine \<Rightarrow> embassy_state_machine \<times> (snapshot_error + unit)" where
  "esm_restore_from_snapshot data m =
     (let m1 = m\<lparr>em_data := []\<rparr> in
      case from_utf8 data of
        None \<Rightarrow> (m1, Inl DeserializationFailed)
      | Some data_str \<Rightarrow> (m1\<lparr>em_data := fold esm_restore_line (str_lines data_str) []\<rparr>, Inr ()))"

definition embassy_machine_ops :: "(embassy_state_machine, string) state_machine_ops" where
  "embassy_machine_ops =
     \<lparr>sm_apply = esm_apply, sm_get = esm_get, sm_create_snapshot = esm_create_snapshot,
      sm_restore_from_snapshot = esm_restore_from_snapshot\<rparr>"

section \<open>Bounds and functional behaviour\<close>

definition esm_wf :: "embassy_state_machine \<Rightarrow> bool" where
  "esm_wf m \<longleftrightarrow> distinct (map fst (em_data m)) \<and> length (em_data m) \<le> 16 \<and>
     (\<forall>kv\<in>set (em_data m). CHR ''='' \<notin> set (fst kv))"

lemma length_index_map_insert: "length m \<le> cap \<Longrightarrow> length (index_map_insert cap k v m) \<le> cap"
proof -
  have "length (AList.update k v m) \<le> (if map_of m k \<noteq> None then length m else Suc (length m))"
    by (induction m) auto
  then show "length m \<le> cap \<Longrightarrow> ?thesis" by (auto simp: index_map_insert_def split: if_splits)
qed

lemma distinct_index_map_insert:
  "distinct (map fst m) \<Longrightarrow> distinct (map fst (index_map_insert cap k v m))"
  by (simp add: index_map_insert_def distinct_update)

lemma set_update: "x \<in> set (AList.update k v m) \<Longrightarrow> x = (k, v) \<or> x \<in> set m"
  by (induction m) (auto split: if_splits)

lemma split_once_key: "split_once c s = Some (k, v) \<Longrightarrow> c \<notin> set k"
  by (auto simp: split_once_def split: list.splits dest: set_takeWhileD)

lemma esm_wf_new: "esm_wf esm_new"
  by (simp add: esm_wf_def esm_new_def)

lemma esm_wf_insert:
  assumes "esm_wf m" and "CHR ''='' \<notin> set (fst kv)"
  shows "esm_wf (m\<lparr>em_data := esm_insert kv (em_data m)\<rparr>)"
proof -
  have "\<forall>x\<in>set (esm_insert kv (em_data m)). CHR ''='' \<notin> set (fst x)"
    using assms by (auto simp: esm_wf_def esm_insert_def index_map_insert_def dest!: set_update split: if_splits)
  then show ?thesis
    using assms(1)
    by (simp add: esm_wf_def esm_insert_def distinct_index_map_insert length_index_map_insert)
qed

lemma esm_wf_apply: "esm_wf m \<Longrightarrow> esm_wf (esm_apply payload m)"
  by (auto simp: esm_apply_def esm_wf_insert split_once_key split: option.splits)

lemma esm_wf_restore: "esm_wf (fst (esm_restore_from_snapshot data m))"
proof -
  have "esm_wf \<lparr>em_data = d\<rparr> \<Longrightarrow> esm_wf \<lparr>em_data = fold esm_restore_line ls d\<rparr>" for ls d
  proof (induction ls arbitrary: d)
    case (Cons l ls)
    have "esm_wf \<lparr>em_data = esm_restore_line l d\<rparr>"
      using Cons.prems esm_wf_insert [of "\<lparr>em_data = d\<rparr>"]
      by (auto simp: esm_restore_line_def split_once_key split: option.splits)
    then show ?case using Cons.IH by simp
  qed simp
  from this [of "[]"] show ?thesis
    by (cases m) (simp add: esm_restore_from_snapshot_def esm_wf_def Let_def split: option.splits)
qed

lemma esm_apply_get:
  assumes "CHR ''='' \<notin> set k" and "esm_get m k \<noteq> None \<or> length (em_data m) < 16"
  shows "esm_get (esm_apply (k @ CHR ''='' # v) m) k' = (if k' = k then Some v else esm_get m k')"
  using assms
  by (auto simp: esm_apply_def esm_get_def esm_insert_def index_map_insert_def split_once_at update_conv')

lemma esm_apply_full:
  assumes "CHR ''='' \<notin> set k" and "esm_get m k = None" and "16 \<le> length (em_data m)"
  shows "esm_apply (k @ CHR ''='' # v) m = m"
  using assms by (simp add: esm_apply_def esm_get_def esm_insert_def index_map_insert_def split_once_at)

section \<open>Snapshots restore the state\<close>

definition kv_line :: "string \<times> string \<Rightarrow> string" where
  "kv_line kv = fst kv @ ''='' @ snd kv @ [newline]"

text \<open>
  A pair that survives the text format: valid UTF-8, no newline in it, and no carriage return at the
  end of the value.
\<close>

definition kv_plain :: "string \<times> string \<Rightarrow> bool" where
  "kv_plain kv \<longleftrightarrow> utf8_valid (string_bytes (fst kv)) \<and> utf8_valid (string_bytes (snd kv)) \<and>
     newline \<notin> set (fst kv) \<and> newline \<notin> set (snd kv) \<and>
     (snd kv \<noteq> [] \<longrightarrow> last (snd kv) \<noteq> carriage_return)"

lemma take_512_append [simp]: "take 512 (take 512 xs @ ys) = take 512 (xs @ ys)"
  by (simp add: take_append min_def)

lemma push_bytes_take: "push_bytes bs (take 512 xs) = take 512 (xs @ bs)"
  by (simp add: push_bytes_def extend_ok_bounded take_append min_def)

lemma esm_snapshot_entry_take:
  "esm_snapshot_entry kv (take 512 xs) = take 512 (xs @ string_bytes (kv_line kv))"
  by (simp only: esm_snapshot_entry_def push_bytes_take kv_line_def string_bytes_append append_assoc)

lemma esm_snapshot_fold:
  "fold esm_snapshot_entry kvs (take 512 acc) = take 512 (acc @ string_bytes (concat (map kv_line kvs)))"
proof (induction kvs arbitrary: acc)
  case Nil
  show ?case by (simp add: string_bytes_def)
next
  case (Cons kv kvs)
  then show ?case by (simp only: fold_simps esm_snapshot_entry_take) (simp add: string_bytes_def)
qed

lemma esm_create_snapshot_bytes:
  "esm_create_snapshot m = take 512 (string_bytes (concat (map kv_line (em_data m))))"
  using esm_snapshot_fold [of "em_data m" "[]"] by (simp add: esm_create_snapshot_def)

lemma esm_create_snapshot_length: "length (esm_create_snapshot m) \<le> 512"
  by (simp add: esm_create_snapshot_bytes)

lemma utf8_valid_kv_lines:
  "\<forall>kv\<in>set kvs. kv_plain kv \<Longrightarrow> utf8_valid (string_bytes (concat (map kv_line kvs)))"
proof (induction kvs)
  case (Cons kv kvs)
  have "utf8_valid (string_bytes ''='')" "utf8_valid (string_bytes [newline])"
    by (simp_all add: string_bytes_def)
  then have "utf8_valid (string_bytes (kv_line kv))"
    using Cons.prems unfolding kv_line_def string_bytes_append by (simp add: kv_plain_def utf8_valid_append)
  with Cons show ?case by (simp add: utf8_valid_append)
qed (simp add: string_bytes_def)

lemma str_lines_kv_lines:
  "\<forall>kv\<in>set kvs. kv_plain kv \<Longrightarrow>
   str_lines (concat (map kv_line kvs)) = map (\<lambda>kv. fst kv @ ''='' @ snd kv) kvs"
proof (induction kvs)
  case (Cons kv kvs)
  then have "newline \<notin> set (fst kv @ ''='' @ snd kv)" and "strip_cr (fst kv @ ''='' @ snd kv) = fst kv @ ''='' @ snd kv"
    by (auto simp: kv_plain_def strip_cr_def)
  moreover have "concat (map kv_line (kv # kvs)) = (fst kv @ ''='' @ snd kv) @ newline # concat (map kv_line kvs)"
    by (simp add: kv_line_def)
  ultimately show ?case using Cons str_lines_line [of "fst kv @ ''='' @ snd kv" "concat (map kv_line kvs)"] by simp
qed simp

lemma update_fresh: "map_of m k = None \<Longrightarrow> AList.update k v m = m @ [(k, v)]"
  by (induction m) (auto split: if_splits)

lemma esm_restore_fold:
  assumes "distinct (map fst (acc @ kvs))" and "length (acc @ kvs) \<le> 16"
    and "\<forall>kv\<in>set kvs. CHR ''='' \<notin> set (fst kv)"
  shows "fold esm_restore_line (map (\<lambda>kv. fst kv @ ''='' @ snd kv) kvs) acc = acc @ kvs"
  using assms
proof (induction kvs arbitrary: acc)
  case (Cons kv kvs)
  have "map_of acc (fst kv) = None"
    using Cons.prems(1) by (auto simp: map_of_eq_None_iff)
  then have "esm_restore_line (fst kv @ ''='' @ snd kv) acc = acc @ [kv]"
    using Cons.prems
    by (simp add: esm_restore_line_def split_once_at esm_insert_def index_map_insert_def update_fresh)
  with Cons.IH [of "acc @ [kv]"] Cons.prems show ?case by simp
qed simp

lemma esm_restore_created:
  assumes "esm_wf m" and "\<forall>kv\<in>set (em_data m). kv_plain kv"
    and "(\<Sum>kv\<leftarrow>em_data m. length (kv_line kv)) \<le> 512"
  shows "esm_restore_from_snapshot (esm_create_snapshot m) m' = (m'\<lparr>em_data := em_data m\<rparr>, Inr ())"
proof -
  have "esm_create_snapshot m = string_bytes (concat (map kv_line (em_data m)))"
    using assms(3) by (simp add: esm_create_snapshot_bytes length_concat comp_def)
  then show ?thesis
    using assms(1,2) esm_restore_fold [of "[]" "em_data m"]
    by (simp add: esm_restore_from_snapshot_def from_utf8_def utf8_valid_kv_lines str_lines_kv_lines esm_wf_def)
qed

end
