(* ===== verification/Embassy_Storage.thy ===== *)
theory Embassy_Storage
  imports Storage_Interface Log_Collections
begin

text \<open>
  \<open>embassy/src/configurations/storage/in_memory/in_memory_storage.rs\<close> and the snapshot data of
  \<open>embassy/src/embassy_state_machine.rs\<close>: the storage of the bare-metal nodes, with a log of at most
  256 entries, batches of at most 128 entries and snapshots of at most 512 bytes.  The casts
  \<open>(index - first) as usize\<close> to 32 bits are left out: they change nothing below \<open>2 ^ 32\<close>, and no offset into
  such a log is larger.  The theory ends with the proof that it keeps the storage contract within
  these bounds.
\<close>

section \<open>Snapshot data and its builder\<close>

definition emb_chunk_at :: "bytes \<Rightarrow> nat \<Rightarrow> nat \<Rightarrow> bytes option" where
  "emb_chunk_at data offset max_size =
     (if length data \<le> offset then None
      else let end_pos = min (u64_add offset max_size) (length data)
           in Some (heapless_chunk_new 512 (take (end_pos - offset) (drop offset data))))"

definition emb_builder_new :: bytes where
  "emb_builder_new = []"

definition emb_builder_add_chunk :: "nat \<Rightarrow> bytes \<Rightarrow> bytes \<Rightarrow> bytes \<times> (snapshot_build_error + unit)" where
  \<comment> \<open>The offset is not looked at.\<close>
  "emb_builder_add_chunk offset chunk builder =
     (case extend_from_slice (Some 512) chunk builder of
        (data, Inr _) \<Rightarrow> (data, Inr ())
      | (data, Inl _) \<Rightarrow> (data, Inl OutOfBounds))"

definition emb_builder_is_complete :: "bytes \<Rightarrow> nat \<Rightarrow> bool" where
  "emb_builder_is_complete builder expected_size = (expected_size \<le> length builder)"

definition emb_builder_build :: "bytes \<Rightarrow> snapshot_build_error + bytes" where
  "emb_builder_build builder = Inr builder"

section \<open>Operations on the parts of a storage\<close>

text \<open>
  The embassy storages answer these queries from the first index, the log and the snapshot in the
  same way.
\<close>

definition parts_last_index :: "log_index \<Rightarrow> 'p log_entry list \<Rightarrow> snapshot option \<Rightarrow> log_index" where
  "parts_last_index first_index log snap =
     (if log = [] then
        case snap of Some sn \<Rightarrow> last_included_index (metadata sn) | None \<Rightarrow> 0
      else u64_sub (u64_add first_index (length log)) 1)"

definition parts_last_term :: "'p log_entry list \<Rightarrow> snapshot option \<Rightarrow> log_term" where
  "parts_last_term log snap =
     (if log \<noteq> [] then entry_term (last log)
      else case snap of Some sn \<Rightarrow> last_included_term (metadata sn) | None \<Rightarrow> 0)"

definition parts_entry :: "log_index \<Rightarrow> 'p log_entry list \<Rightarrow> log_index \<Rightarrow> 'p log_entry option" where
  "parts_entry first_index log index =
     (if index < first_index then None else nth_opt log (index - first_index))"

definition parts_entries ::
  "log_index \<Rightarrow> 'p log_entry list \<Rightarrow> log_index \<Rightarrow> log_index \<Rightarrow> 'p log_entry list" where
  "parts_entries first_index log start end_index =
     (if end_index \<le> start \<or> start < first_index then embassy_log_new []
      else
        let start_offset = start - first_index;
            end_offset = end_index - first_index
        in if length log \<le> start_offset then embassy_log_new []
           else
             let actual_end_offset = min end_offset (length log)
             in embassy_log_new (take (actual_end_offset - start_offset) (drop start_offset log)))"

definition parts_truncate :: "log_index \<Rightarrow> log_index \<Rightarrow> 'p log_entry list \<Rightarrow> 'p log_entry list" where
  "parts_truncate first_index index log =
     (if index < first_index then [] else take (u64_add (index - first_index) 1) log)"

definition parts_chunk :: "snapshot option \<Rightarrow> nat \<Rightarrow> nat \<Rightarrow> snapshot_chunk option" where
  "parts_chunk snap offset max_size =
     (case snap of
        None \<Rightarrow> None
      | Some sn \<Rightarrow>
          (case emb_chunk_at (snap_data sn) offset max_size of
             None \<Rightarrow> None
           | Some chunk \<Rightarrow>
               Some \<lparr>chunk_offset = offset, chunk_data = chunk,
                     chunk_done = (length (snap_data sn) \<le> u64_add offset (length chunk))\<rparr>))"

definition parts_apply_chunk ::
  "nat \<Rightarrow> bytes \<Rightarrow> bool \<Rightarrow> log_index \<Rightarrow> log_term \<Rightarrow> snapshot_error + snapshot" where
  "parts_apply_chunk offset chunk done_flag lii lit =
     (if offset = 0 \<and> done_flag then
        (case extend_from_slice (Some 512) chunk [] of
           (data, Inr _) \<Rightarrow>
             Inr \<lparr>metadata = \<lparr>last_included_index = lii, last_included_term = lit\<rparr>, snap_data = data\<rparr>
         | (_, Inl _) \<Rightarrow> Inl CorruptData)
      else Inl CorruptData)"

text \<open>What they are in terms of the view of a storage.\<close>

definition parts_view ::
  "log_term \<Rightarrow> node_id option \<Rightarrow> log_index \<Rightarrow> 'p log_entry list \<Rightarrow> snapshot option \<Rightarrow> 'p log_view" where
  "parts_view t vote first_index log snap =
     \<lparr>v_term = t, v_vote = vote, v_first = first_index, v_log = log, v_snap = snap\<rparr>"

lemma parts_view_simps [simp]:
  "v_term (parts_view t vo f l sn) = t" "v_vote (parts_view t vo f l sn) = vo"
  "v_first (parts_view t vo f l sn) = f" "v_log (parts_view t vo f l sn) = l"
  "v_snap (parts_view t vo f l sn) = sn"
  by (simp_all add: parts_view_def)

lemma parts_view_update [simp]:
  "(parts_view t vo f l sn)\<lparr>v_term := t'\<rparr> = parts_view t' vo f l sn"
  "(parts_view t vo f l sn)\<lparr>v_vote := vo'\<rparr> = parts_view t vo' f l sn"
  "(parts_view t vo f l sn)\<lparr>v_log := l'\<rparr> = parts_view t vo f l' sn"
  "(parts_view t vo f l sn)\<lparr>v_first := f'\<rparr> = parts_view t vo f' l sn"
  "(parts_view t vo f l sn)\<lparr>v_snap := sn'\<rparr> = parts_view t vo f l sn'"
  by (simp_all add: parts_view_def)

lemma parts_view_eq [simp]:
  "parts_view t vo f l sn = parts_view t' vo' f' l' sn' \<longleftrightarrow> t = t' \<and> vo = vo' \<and> f = f' \<and> l = l' \<and> sn = sn'"
  by (auto simp: parts_view_def)

lemma parts_last_index_view:
  "view_ok (parts_view t vo f l sn) \<Longrightarrow> parts_last_index f l sn = v_next (parts_view t vo f l sn) - 1"
  by (auto simp: parts_last_index_def view_ok_def compacted_def v_next_def u64_simps split: option.splits)

lemma parts_last_term_view: "parts_last_term l sn = v_last_term (parts_view t vo f l sn)"
  by (simp add: parts_last_term_def v_last_term_def)

lemma parts_entry_view: "parts_entry f l i = v_entry (parts_view t vo f l sn) i"
  by (simp add: parts_entry_def v_entry_def)

lemma parts_entries_view:
  "f \<le> a \<Longrightarrow> a < b \<Longrightarrow> b \<le> v_next (parts_view t vo f l sn) \<Longrightarrow>
   parts_entries f l a b = clip (Some 128) (v_segment (parts_view t vo f l sn) a b)"
  by (auto simp: parts_entries_def emb_entries.new_clip clip_def v_segment_def v_next_def min_def Let_def)

lemma parts_entries_none: "a < f \<or> b \<le> a \<Longrightarrow> parts_entries f l a b = []"
  by (auto simp: parts_entries_def emb_entries.new_clip)

lemma parts_entries_subset: "set (parts_entries f l a b) \<subseteq> set l"
  by (auto simp: parts_entries_def emb_entries.new_clip Let_def dest!: in_set_takeD in_set_dropD)

lemma parts_truncate_view:
  "Suc i < u64_limit \<Longrightarrow> parts_truncate f i l = v_log (v_truncate i (parts_view t vo f l sn))"
  by (auto simp: parts_truncate_def u64_simps Suc_diff_le)

lemma parts_truncate_prefix: "\<exists>n. parts_truncate f i l = take n l"
  by (auto simp: parts_truncate_def intro: exI [of _ 0])

lemma parts_chunk_whole:
  assumes "length (snap_data sn) \<le> 512"
  shows "parts_chunk (Some sn) 0 usize_max =
    (if snap_data sn = [] then None
     else Some \<lparr>chunk_offset = 0, chunk_data = snap_data sn, chunk_done = True\<rparr>)"
  using assms
  by (auto simp: parts_chunk_def emb_chunk_at_def emb_chunks.new_clip Let_def u64_add_def usize_max_def
      u64_limit_def min_def)

lemma parts_apply_whole:
  "length d \<le> 512 \<Longrightarrow> parts_apply_chunk 0 d True lii lit =
     Inr \<lparr>metadata = \<lparr>last_included_index = lii, last_included_term = lit\<rparr>, snap_data = d\<rparr>"
  by (simp add: parts_apply_chunk_def extend_from_slice_cases)

section \<open>The storage\<close>

record 'p emb_storage =
  es_current_term :: log_term
  es_voted_for :: "node_id option"
  es_log :: "'p log_entry list"
  es_snapshot :: "snapshot option"
  es_first_index :: log_index

definition emb_new :: "'p emb_storage" where
  "emb_new = \<lparr>es_current_term = 0, es_voted_for = None, es_log = [], es_snapshot = None, es_first_index = 1\<rparr>"

definition emb_current_term :: "'p emb_storage \<Rightarrow> log_term" where
  "emb_current_term s = es_current_term s"

definition emb_set_current_term :: "log_term \<Rightarrow> 'p emb_storage \<Rightarrow> 'p emb_storage" where
  "emb_set_current_term t s = s\<lparr>es_current_term := t\<rparr>"

definition emb_voted_for :: "'p emb_storage \<Rightarrow> node_id option" where
  "emb_voted_for s = es_voted_for s"

definition emb_set_voted_for :: "node_id option \<Rightarrow> 'p emb_storage \<Rightarrow> 'p emb_storage" where
  "emb_set_voted_for vote s = s\<lparr>es_voted_for := vote\<rparr>"

definition emb_last_log_index :: "'p emb_storage \<Rightarrow> log_index" where
  "emb_last_log_index s = parts_last_index (es_first_index s) (es_log s) (es_snapshot s)"

definition emb_last_log_term :: "'p emb_storage \<Rightarrow> log_term" where
  "emb_last_log_term s = parts_last_term (es_log s) (es_snapshot s)"

definition emb_get_entry :: "'p emb_storage \<Rightarrow> log_index \<Rightarrow> 'p log_entry option" where
  "emb_get_entry s index = parts_entry (es_first_index s) (es_log s) index"

definition emb_get_entries :: "'p emb_storage \<Rightarrow> log_index \<Rightarrow> log_index \<Rightarrow> 'p log_entry list" where
  "emb_get_entries s start end_index = parts_entries (es_first_index s) (es_log s) start end_index"

definition emb_append_entries :: "'p log_entry list \<Rightarrow> 'p emb_storage \<Rightarrow> 'p emb_storage" where
  "emb_append_entries entries s = s\<lparr>es_log := extend_ok (vec_push (Some 256)) entries (es_log s)\<rparr>"

definition emb_truncate_after :: "log_index \<Rightarrow> 'p emb_storage \<Rightarrow> 'p emb_storage" where
  "emb_truncate_after index s = s\<lparr>es_log := parts_truncate (es_first_index s) index (es_log s)\<rparr>"

definition emb_save_snapshot :: "snapshot \<Rightarrow> 'p emb_storage \<Rightarrow> 'p emb_storage" where
  "emb_save_snapshot sn s = s\<lparr>es_snapshot := Some sn\<rparr>"

definition emb_load_snapshot :: "'p emb_storage \<Rightarrow> snapshot option" where
  "emb_load_snapshot s = es_snapshot s"

definition emb_snapshot_metadata :: "'p emb_storage \<Rightarrow> snapshot_metadata option" where
  "emb_snapshot_metadata s = map_option metadata (es_snapshot s)"

definition emb_get_snapshot_chunk :: "'p emb_storage \<Rightarrow> nat \<Rightarrow> nat \<Rightarrow> snapshot_chunk option" where
  "emb_get_snapshot_chunk s offset max_size = parts_chunk (es_snapshot s) offset max_size"

definition emb_begin_snapshot_transfer :: "'p emb_storage \<Rightarrow> bytes" where
  "emb_begin_snapshot_transfer s = emb_builder_new"

definition emb_apply_snapshot_chunk ::
  "nat \<Rightarrow> bytes \<Rightarrow> bool \<Rightarrow> log_index \<Rightarrow> log_term \<Rightarrow> 'p emb_storage \<Rightarrow> 'p emb_storage \<times> (snapshot_error + unit)" where
  "emb_apply_snapshot_chunk offset chunk done_flag lii lit s =
     (case parts_apply_chunk offset chunk done_flag lii lit of
        Inr sn \<Rightarrow> (s\<lparr>es_snapshot := Some sn\<rparr>, Inr ())
      | Inl e \<Rightarrow> (s, Inl e))"

definition emb_finalize_snapshot ::
  "bytes \<Rightarrow> snapshot_metadata \<Rightarrow> 'p emb_storage \<Rightarrow> 'p emb_storage \<times> (snapshot_error + unit)" where
  "emb_finalize_snapshot builder md s =
     (case emb_builder_build builder of
        Inl _ \<Rightarrow> (s, Inl CorruptData)
      | Inr data \<Rightarrow> (s\<lparr>es_snapshot := Some \<lparr>metadata = md, snap_data = data\<rparr>\<rparr>, Inr ()))"

definition emb_discard_entries_before :: "log_index \<Rightarrow> 'p emb_storage \<Rightarrow> 'p emb_storage" where
  "emb_discard_entries_before index s =
     (if index \<le> es_first_index s then s
      else
        let num_to_discard = index - es_first_index s;
            new_log = (if length (es_log s) \<le> num_to_discard then []
                       else extend_ok (vec_push (Some 256)) (drop num_to_discard (es_log s)) [])
        in s\<lparr>es_log := new_log, es_first_index := index\<rparr>)"

definition emb_first_log_index :: "'p emb_storage \<Rightarrow> log_index" where
  "emb_first_log_index s = es_first_index s"

definition embassy_storage_ops :: "('p emb_storage, 'p) storage_ops" where
  "embassy_storage_ops =
     \<lparr>st_current_term = emb_current_term,
      st_set_current_term = emb_set_current_term,
      st_voted_for = emb_voted_for,
      st_set_voted_for = emb_set_voted_for,
      st_last_log_index = emb_last_log_index,
      st_last_log_term = emb_last_log_term,
      st_get_entry = emb_get_entry,
      st_get_entries = emb_get_entries,
      st_append_entries = emb_append_entries,
      st_truncate_after = emb_truncate_after,
      st_save_snapshot = emb_save_snapshot,
      st_load_snapshot = emb_load_snapshot,
      st_snapshot_metadata = emb_snapshot_metadata,
      st_get_snapshot_chunk = emb_get_snapshot_chunk,
      st_apply_snapshot_chunk = emb_apply_snapshot_chunk,
      st_discard_entries_before = emb_discard_entries_before,
      st_first_log_index = emb_first_log_index\<rparr>"

lemmas emb_ops_defs = embassy_storage_ops_def emb_current_term_def emb_set_current_term_def
  emb_voted_for_def emb_set_voted_for_def emb_last_log_index_def emb_last_log_term_def
  emb_get_entry_def emb_get_entries_def emb_append_entries_def emb_truncate_after_def
  emb_save_snapshot_def emb_load_snapshot_def emb_snapshot_metadata_def
  emb_get_snapshot_chunk_def emb_apply_snapshot_chunk_def emb_discard_entries_before_def
  emb_first_log_index_def

section \<open>The storage keeps the contract\<close>

definition emb_view :: "'p emb_storage \<Rightarrow> 'p log_view" where
  "emb_view s = parts_view (es_current_term s) (es_voted_for s) (es_first_index s) (es_log s) (es_snapshot s)"

text \<open>The bounds of the log, of an append, and of a snapshot that travels whole.\<close>

definition emb_fits :: "'p emb_storage \<Rightarrow> bool" where
  "emb_fits s \<longleftrightarrow> length (es_log s) \<le> 256"

definition emb_room :: "'p emb_storage \<Rightarrow> nat \<Rightarrow> bool" where
  "emb_room s n \<longleftrightarrow> length (es_log s) + n \<le> 256"

definition emb_chunk_room :: "nat \<Rightarrow> bool" where
  "emb_chunk_room n \<longleftrightarrow> n \<le> 512"

lemma emb_push_prefix: "\<exists>n. extend_ok (vec_push (Some c)) es acc = acc @ take n es"
proof (cases "length acc \<le> c")
  case False
  then have "extend_ok (vec_push (Some c)) es acc = acc"
    by (induction es) (simp_all add: extend_ok_def push_ok_def vec_push_def has_room_def)
  then show ?thesis by (auto intro: exI [of _ 0])
qed (auto simp: extend_ok_bounded)

interpretation emb: storage_frame embassy_storage_ops emb_view
proof (unfold_locales, goal_cases)
  case (5 es s)
  show ?case using emb_push_prefix [of 256 es "es_log s"] by (auto simp: emb_ops_defs emb_view_def)
next
  case (6 i s)
  show ?case using parts_truncate_prefix by (auto simp: emb_ops_defs emb_view_def)
next
  case (7 s i)
  show ?case
    by (rule exI [of _ "es_log (emb_discard_entries_before i s)"],
        rule exI [of _ "es_first_index (emb_discard_entries_before i s)"])
      (auto simp: emb_ops_defs emb_view_def Let_def vec_from_slice dest!: in_set_takeD in_set_dropD)
next
  case (11 ofs d dn lii lit s)
  show ?case by (auto simp: emb_ops_defs emb_view_def split: sum.splits)
next
  case (12 s i e)
  then show ?case
    by (auto simp: emb_ops_defs emb_view_def parts_entry_def dest: nth_opt_in_set split: if_splits)
next
  case (13 s a b)
  show ?case using parts_entries_subset by (simp add: emb_ops_defs emb_view_def)
qed (simp_all add: emb_ops_defs emb_view_def)

interpretation emb: raft_storage embassy_storage_ops emb_view emb_fits emb_room "Some 128" emb_chunk_room
proof (unfold_locales, goal_cases)
  case (2 s)
  then show ?case unfolding emb_view_def by (simp add: emb_ops_defs parts_last_index_view)
next
  case (5 s a b)
  then show ?case unfolding emb_view_def by (simp add: emb_ops_defs parts_entries_view)
next
  case (7 s es)
  then show ?case
    by (simp add: emb_ops_defs emb_view_def emb_fits_def emb_room_def extend_ok_bounded)
next
  case (8 s i)
  then show ?case
    by (simp add: emb_ops_defs emb_view_def v_truncate_def
        parts_truncate_view [where t = "es_current_term s" and vo = "es_voted_for s" and sn = "es_snapshot s"])
next
  case (9 s i)
  then show ?case
    by (auto simp: emb_ops_defs emb_view_def emb_fits_def v_discard_def vec_from_slice Let_def)
next
  case (10 s sn)
  then show ?case
    using parts_chunk_whole [of sn] by (simp add: emb_ops_defs emb_view_def emb_chunk_room_def)
next
  case (12 d lii lit s)
  then show ?case by (simp add: emb_ops_defs emb_view_def emb_chunk_room_def parts_apply_whole)
next
  case (15 s es)
  then show ?case by (simp add: emb_ops_defs emb_fits_def extend_ok_bounded)
next
  case (16 s i)
  then show ?case by (auto simp: emb_ops_defs emb_fits_def parts_truncate_def)
next
  case (17 s n i)
  then show ?case by (auto simp: emb_ops_defs emb_room_def parts_truncate_def)
next
  case (20 s i)
  then show ?case by (auto simp: emb_ops_defs emb_fits_def vec_from_slice Let_def)
next
  case (22 ofs d dn lii lit s)
  show ?case by (simp add: emb_ops_defs emb_fits_def split: sum.splits)
qed (auto simp: emb_ops_defs emb_view_def emb_fits_def emb_room_def parts_last_term_view parts_entry_view
  parts_entries_none parts_chunk_def v_last_term_def parts_last_term_def v_entry_def parts_entry_def)

end
