(* ===== verification/Timer_Independence.thy ===== *)
theory Timer_Independence
  imports Cluster
begin

text \<open>
  A node never asks its timer service when a timer is due: the handlers only set and clear timers.
  Forgetting the timers therefore commutes with every event, and what is proved of runs in which
  timers fire at any time holds of every way to drive the timers.
\<close>

section \<open>A node without its timers\<close>

definition forget_em :: "'ts election_manager \<Rightarrow> unit election_manager" where
  "forget_em em = \<lparr>votes_received = votes_received em, pre_votes_received = pre_votes_received em,
     in_pre_vote = in_pre_vote em, timer_service = ()\<rparr>"

definition forget :: "('s, 'sm, 'ts, 'p) raft_node \<Rightarrow> ('s, 'sm, unit, 'p) raft_node" where
  "forget n = \<lparr>rn_id = rn_id n, rn_role = rn_role n, rn_term = rn_term n, rn_leader = rn_leader n,
     rn_outbox = rn_outbox n, rn_storage = rn_storage n, rn_machine = rn_machine n,
     rn_observed = rn_observed n, rn_election = forget_em (rn_election n),
     rn_replication = rn_replication n, rn_config = rn_config n, rn_snapshots = rn_snapshots n,
     rn_lease = rn_lease n\<rparr>"

definition untimed :: "('s, 'sm, 'ts, 'p) env \<Rightarrow> ('s, 'sm, unit, 'p) env" where
  "untimed E = \<lparr>env_storage = env_storage E, env_machine = env_machine E, env_timers = frozen_timer_ops,
     env_nodes = env_nodes E, env_maps = env_maps E, env_changes = env_changes E\<rparr>"

lemma untimed_simps [simp]:
  "env_storage (untimed E) = env_storage E" "env_machine (untimed E) = env_machine E"
  "env_timers (untimed E) = frozen_timer_ops" "env_nodes (untimed E) = env_nodes E"
  "env_maps (untimed E) = env_maps E" "env_changes (untimed E) = env_changes E"
  by (simp_all add: untimed_def)

lemma forget_em_simps [simp]:
  "votes_received (forget_em em) = votes_received em"
  "pre_votes_received (forget_em em) = pre_votes_received em"
  "in_pre_vote (forget_em em) = in_pre_vote em"
  "forget_em (em\<lparr>votes_received := v\<rparr>) = (forget_em em)\<lparr>votes_received := v\<rparr>"
  "forget_em (em\<lparr>pre_votes_received := v\<rparr>) = (forget_em em)\<lparr>pre_votes_received := v\<rparr>"
  "forget_em (em\<lparr>in_pre_vote := b\<rparr>) = (forget_em em)\<lparr>in_pre_vote := b\<rparr>"
  "forget_em (em\<lparr>timer_service := ts\<rparr>) = forget_em em"
  "forget_em (em_reset_election_timer TO em) = forget_em em"
  by (simp_all add: forget_em_def em_reset_election_timer_def)

lemma unit_timer [simp]: "(em :: unit election_manager)\<lparr>timer_service := u\<rparr> = em"
  by simp

lemma frozen_reset [simp]: "em_reset_election_timer frozen_timer_ops em = em"
  by (simp add: em_reset_election_timer_def frozen_timer_ops_def)

lemma forget_simps [simp]:
  "rn_id (forget n) = rn_id n" "rn_role (forget n) = rn_role n" "rn_term (forget n) = rn_term n"
  "rn_leader (forget n) = rn_leader n" "rn_outbox (forget n) = rn_outbox n"
  "rn_storage (forget n) = rn_storage n" "rn_machine (forget n) = rn_machine n"
  "rn_observed (forget n) = rn_observed n" "rn_election (forget n) = forget_em (rn_election n)"
  "rn_replication (forget n) = rn_replication n" "rn_config (forget n) = rn_config n"
  "rn_snapshots (forget n) = rn_snapshots n" "rn_lease (forget n) = rn_lease n"
  by (simp_all add: forget_def)

lemma forget_update:
  "forget (n\<lparr>rn_role := r\<rparr>) = (forget n)\<lparr>rn_role := r\<rparr>"
  "forget (n\<lparr>rn_term := t\<rparr>) = (forget n)\<lparr>rn_term := t\<rparr>"
  "forget (n\<lparr>rn_leader := l\<rparr>) = (forget n)\<lparr>rn_leader := l\<rparr>"
  "forget (n\<lparr>rn_outbox := ob\<rparr>) = (forget n)\<lparr>rn_outbox := ob\<rparr>"
  "forget (n\<lparr>rn_storage := st\<rparr>) = (forget n)\<lparr>rn_storage := st\<rparr>"
  "forget (n\<lparr>rn_machine := sm\<rparr>) = (forget n)\<lparr>rn_machine := sm\<rparr>"
  "forget (n\<lparr>rn_observed := obs\<rparr>) = (forget n)\<lparr>rn_observed := obs\<rparr>"
  "forget (n\<lparr>rn_election := em\<rparr>) = (forget n)\<lparr>rn_election := forget_em em\<rparr>"
  "forget (n\<lparr>rn_replication := lrm\<rparr>) = (forget n)\<lparr>rn_replication := lrm\<rparr>"
  "forget (n\<lparr>rn_config := cm\<rparr>) = (forget n)\<lparr>rn_config := cm\<rparr>"
  "forget (n\<lparr>rn_lease := la\<rparr>) = (forget n)\<lparr>rn_lease := la\<rparr>"
  by (simp_all add: forget_def)

section \<open>The handlers commute with forgetting\<close>

lemma forget_election_manager:
  "em_start_pre_vote NO frozen_timer_ops S i t st (forget_em em) =
     map_prod forget_em id (em_start_pre_vote NO TO S i t st em)"
  "em_handle_pre_vote_response NO from g c (forget_em em) =
     map_prod forget_em id (em_handle_pre_vote_response NO from g c em)"
  "em_start_election NO frozen_timer_ops S i t st (forget_em em) =
     map_prod forget_em id (em_start_election NO TO S i t st em)"
  "em_handle_vote_request frozen_timer_ops S t' cand lli llt t st (forget_em em) =
     map_prod forget_em id (em_handle_vote_request TO S t' cand lli llt t st em)"
  "em_handle_vote_response NO from t' g t rl c (forget_em em) =
     map_prod forget_em id (em_handle_vote_response NO from t' g t rl c em)"
  by (simp_all add: em_start_pre_vote_def em_handle_pre_vote_response_def em_start_election_def
      em_handle_vote_request_def em_handle_vote_response_def Let_def)

text \<open>Updates are moved inside \<open>forget\<close>, so that a handler's intermediate states are images of \<open>forget\<close>.\<close>

lemmas forget_out = forget_update [symmetric]

lemma forget_basic [simp]:
  "peer_ids (untimed E) (forget n) = peer_ids E n"
  "send to m (forget n) = forget (send to m n)"
  "observe ev (forget n) = forget (observe ev n)"
  by (simp_all add: peer_ids_def send_def observe_def forget_out)

lemma forget_reset_timer [simp]:
  "reset_election_timer_if_valid_term (untimed E) t (forget n) = forget (reset_election_timer_if_valid_term E t n)"
  by (simp add: reset_election_timer_if_valid_term_def forget_def)

lemma forget_broadcast [simp]: "broadcast (untimed E) m (forget n) = forget (broadcast E m n)"
  by (simp add: broadcast_eq forget_out)

lemma forget_send_entries [simp]:
  "send_append_entries_to_followers (untimed E) (forget n) = forget (send_append_entries_to_followers E n)"
  by (simp add: send_append_entries_eq forget_out)

lemma forget_apply_config [simp]:
  "apply_config_changes (untimed E) cs (forget n) = forget (apply_config_changes E cs n)"
  by (simp add: apply_config_changes_def Let_def forget_out split: prod.splits)

lemma forget_step_down [simp]: "step_down (untimed E) t (forget n) = forget (step_down E t n)"
  by (simp add: step_down_def rt_step_down_def Let_def forget_update)

lemma forget_validate [simp]:
  "validate_term_and_step_down (untimed E) t (forget n) = map_prod forget id (validate_term_and_step_down E t n)"
  by (simp add: validate_term_and_step_down_def)

lemma forget_become_leader [simp]: "become_leader (untimed E) (forget n) = forget (become_leader E n)"
proof -
  define em where "em = (rn_election n)\<lparr>timer_service := ts_reset_heartbeat (env_timers E)
      (ts_stop_timers (env_timers E) (timer_service (rn_election n)))\<rparr>"
  have "forget_em (rn_election n) = forget_em em" by (simp add: em_def)
  then show ?thesis by (simp add: become_leader_def rt_become_leader_def Let_def forget_out flip: em_def)
qed

lemma forget_start_pre_vote [simp]: "start_pre_vote (untimed E) (forget n) = forget (start_pre_vote E n)"
proof -
  obtain em msg where "em_start_pre_vote (env_nodes E) (env_timers E) (env_storage E) (rn_id n) (rn_term n)
      (rn_storage n) (rn_election n) = (em, msg)" by fastforce
  then show ?thesis
    by (simp add: start_pre_vote_def rt_start_pre_vote_def forget_election_manager(1) [where TO = "env_timers E"] forget_out)
qed

lemma forget_start_election [simp]: "start_election (untimed E) (forget n) = forget (start_election E n)"
proof -
  obtain em t st rl msg where "em_start_election (env_nodes E) (env_timers E) (env_storage E) (rn_id n) (rn_term n)
      (rn_storage n) (rn_election n) = (em, t, st, rl, msg)" by (metis prod_cases5)
  then show ?thesis
    by (simp add: start_election_def rt_start_election_def Let_def
        forget_election_manager(3) [where TO = "env_timers E"] forget_out)
qed

lemma forget_timers [simp]:
  "handle_heartbeat_timer (untimed E) (forget n) = forget (handle_heartbeat_timer E n)"
  "handle_election_timer (untimed E) (forget n) = forget (handle_election_timer E n)"
  by (simp_all add: handle_heartbeat_timer_def handle_election_timer_def send_heartbeats_def Let_def)

lemma forget_pre_votes [simp]:
  "handle_pre_vote_request (untimed E) from trm cand lli llt (forget n) =
     forget (handle_pre_vote_request E from trm cand lli llt n)"
  "handle_pre_vote_response (untimed E) from trm g (forget n) = forget (handle_pre_vote_response E from trm g n)"
proof -
  show "handle_pre_vote_request (untimed E) from trm cand lli llt (forget n) =
     forget (handle_pre_vote_request E from trm cand lli llt n)"
    by (simp add: handle_pre_vote_request_def em_handle_pre_vote_request_def Let_def)
  obtain em b where "em_handle_pre_vote_response (env_nodes E) from g (cm_config (rn_config n)) (rn_election n) = (em, b)"
    by fastforce
  then show "handle_pre_vote_response (untimed E) from trm g (forget n) = forget (handle_pre_vote_response E from trm g n)"
    by (simp add: handle_pre_vote_response_def Let_def forget_election_manager(2) forget_out)
qed

lemma forget_votes [simp]:
  "handle_vote_request (untimed E) from trm cand lli llt (forget n) =
     forget (handle_vote_request E from trm cand lli llt n)"
  "handle_vote_response (untimed E) from trm g (forget n) = forget (handle_vote_response E from trm g n)"
proof -
  obtain n1 b where v: "validate_term_and_step_down E trm n = (n1, b)" by fastforce
  obtain em t st r where "em_handle_vote_request (env_timers E) (env_storage E) trm cand lli llt (rn_term n1)
      (rn_storage n1) (rn_election n1) = (em, t, st, r)" by (metis prod_cases4)
  with v show "handle_vote_request (untimed E) from trm cand lli llt (forget n) =
     forget (handle_vote_request E from trm cand lli llt n)"
    by (simp add: handle_vote_request_def forget_election_manager(4) [where TO = "env_timers E"] forget_out)
  obtain em2 c where "em_handle_vote_response (env_nodes E) from trm g (rn_term n1) (rn_role n1)
      (cm_config (rn_config n1)) (rn_election n1) = (em2, c)" by fastforce
  with v show "handle_vote_response (untimed E) from trm g (forget n) = forget (handle_vote_response E from trm g n)"
    by (simp add: handle_vote_response_def forget_election_manager(5) forget_out Let_def)
qed

lemma forget_snapshots [simp]:
  "node_should_create_snapshot (untimed E) (forget n) = node_should_create_snapshot E n"
  "create_snapshot_internal (untimed E) (forget n) = forget (create_snapshot_internal E n)"
  by (simp_all add: node_should_create_snapshot_def create_snapshot_internal_def Let_def forget_out split: prod.splits)

lemma forget_handle_append_entries [simp]:
  "handle_append_entries (untimed E) from trm pli plt es lc (forget n) = forget (handle_append_entries E from trm pli plt es lc n)"
  by (cases "validate_term_and_step_down E trm n"; simp add: handle_append_entries_def Let_def forget_out split: prod.splits option.splits)

lemma forget_handle_append_entries_response [simp]:
  "handle_append_entries_response (untimed E) from trm ok mi (forget n) = forget (handle_append_entries_response E from trm ok mi n)"
  by (cases "validate_term_and_step_down E trm n"; simp add: handle_append_entries_response_def Let_def forget_out split: prod.splits option.splits)

lemma forget_handle_install_snapshot [simp]:
  "handle_install_snapshot (untimed E) from trm lid lii lit ofs d dn (forget n) = forget (handle_install_snapshot E from trm lid lii lit ofs d dn n)"
  by (simp add: handle_install_snapshot_def Let_def forget_out split: prod.splits option.splits)

lemma forget_handle_install_snapshot_response [simp]:
  "handle_install_snapshot_response (untimed E) from trm ok (forget n) = forget (handle_install_snapshot_response E from trm ok n)"
  by (cases "validate_term_and_step_down E trm n"; simp add: handle_install_snapshot_response_def Let_def forget_out split: prod.splits option.splits)

lemma forget_submit [simp]:
  "submit_entry (untimed E) kind (forget n) = map_prod forget id (submit_entry E kind n)"
  by (simp add: submit_entry_def Let_def forget_out split: prod.splits)

section \<open>Events and runs\<close>

lemma forget_on_event: "on_event (untimed E) ev (forget n) = forget (on_event E ev n)"
proof (cases ev)
  case (Message f m)
  then show ?thesis by (cases m) simp_all
next
  case (TimerFired k)
  then show ?thesis by (cases k) simp_all
qed (simp_all add: submit_client_command_def submit_config_change_def)

lemma forget_build_node:
  "build_node (untimed E) i st sm () ps obs th clk = forget (build_node E i st sm ts ps obs th clk)"
  by (simp add: build_node_def with_transport_def with_replication_def with_election_def
      with_snapshot_threshold_def builder_new_def new_from_builder_def election_new_def forget_def forget_em_def
      em_reset_election_timer_def Let_def split: option.splits)

lemma eview_forget [simp]: "eview (untimed E) (forget n) = eview E n"
  by (simp add: eview_def)

end
