(* ===== verification/Embassy_Node.thy ===== *)
theory Embassy_Node
  imports Embassy_Timer Embassy_Machine Embassy_Storage Timer_Independence
begin

text \<open>
  The node of the bare-metal cluster: \<open>embassy/src/embassy_node.rs\<close> with \<open>led_state.rs\<close> and the request
  types of \<open>raft_client.rs\<close>.  A node is an asynchronous task; the model splits it at its \<open>await\<close>
  points: it picks an event, handles it, hands the messages that produced to the transport one by one,
  and answers the clients whose commands are committed.

  A response channel is a name \<open>'c\<close>; the answers a node tries to send are kept in order.
\<close>

section \<open>The LED\<close>

record led_state =
  led_node_id :: nat
  led_current_state :: node_state
  led_displayed :: "string list"

definition led_new :: "node_id \<Rightarrow> led_state" where
  \<comment> \<open>\<open>node_id as u8\<close>\<close>
  "led_new i = \<lparr>led_node_id = i mod 256, led_current_state = Follower, led_displayed = []\<rparr>"

fun led_color :: "node_state \<Rightarrow> string" where
  "led_color Leader = ''Green''"
| "led_color Candidate = ''Yellow''"
| "led_color Follower = ''Red''"

definition led_display :: "led_state \<Rightarrow> led_state" where
  "led_display l = l\<lparr>led_displayed := led_displayed l @ [led_color (led_current_state l)]\<rparr>"

definition led_update :: "node_state \<Rightarrow> led_state \<Rightarrow> led_state" where
  "led_update new_state l =
     (if led_current_state l \<noteq> new_state then led_display (l\<lparr>led_current_state := new_state\<rparr>) else l)"

section \<open>Requests and answers\<close>

datatype cluster_error = ClusterNotLeader "node_id option" | ChannelFull | Timeout

datatype 'c client_request = Write string 'c | Read string 'c | GetLeader

datatype 'c reply =
    WriteReply 'c "cluster_error + unit"
  | ReadReply 'c "cluster_error + string option"

section \<open>The node\<close>

datatype phase = Polling | Waiting | Sending | Stopped

record ('s, 'c) embassy_node =
  en_id :: node_id
  en_raft :: "('s, embassy_state_machine, embassy_timer, string) raft_node"
  en_led :: led_state
  en_pending :: "(log_index \<times> 'c) list"
  en_unsent :: "(node_id \<times> string raft_msg) list"
  en_replies :: "'c reply list"
  en_phase :: phase

type_synonym 's embassy_env = "('s, embassy_state_machine, embassy_timer, string) env"

definition embassy_env :: "('s, string) storage_ops \<Rightarrow> 's embassy_env" where
  "embassy_env S = \<lparr>env_storage = S, env_machine = embassy_machine_ops, env_timers = embassy_timer_ops,
     env_nodes = embassy_node_ops, env_maps = embassy_map_ops, env_changes = embassy_change_ops\<rparr>"

lemma embassy_env_simps [simp]:
  "env_storage (embassy_env S) = S" "env_machine (embassy_env S) = embassy_machine_ops"
  "env_timers (embassy_env S) = embassy_timer_ops" "env_nodes (embassy_env S) = embassy_node_ops"
  "env_maps (embassy_env S) = embassy_map_ops" "env_changes (embassy_env S) = embassy_change_ops"
  by (simp_all add: embassy_env_def)

definition embassy_peers :: "node_id \<Rightarrow> node_id list" where
  "embassy_peers i = extend_ok embassy_node_push (filter (\<lambda>id. id \<noteq> i) [1..<6]) []"

definition embassy_node_new :: "('s, string) storage_ops \<Rightarrow> node_id \<Rightarrow> 's \<Rightarrow> nat \<Rightarrow> ('s, 'c) embassy_node" where
  "embassy_node_new S i st now =
     \<lparr>en_id = i,
      en_raft = with_transport (embassy_env S) [] (embassy_peers i) [] (embassy_clock_now now)
        (with_replication replication_new
          (with_election (election_new (embassy_timer_new now)) (builder_new i st esm_new))),
      en_led = led_new i, en_pending = [], en_unsent = [], en_replies = [], en_phase = Polling\<rparr>"

text \<open>\<open>BTreeMap\<close>: the pairs in the order of their keys.\<close>

definition btree_insert :: "nat \<Rightarrow> 'v \<Rightarrow> (nat \<times> 'v) list \<Rightarrow> (nat \<times> 'v) list" where
  "btree_insert k v m = insort_key fst (k, v) (AList.delete k m)"

definition reply :: "'c reply \<Rightarrow> ('s, 'c) embassy_node \<Rightarrow> ('s, 'c) embassy_node" where
  "reply r n = n\<lparr>en_replies := en_replies n @ [r]\<rparr>"

definition handle_client_request ::
  "('s, string) storage_ops \<Rightarrow> 'c client_request \<Rightarrow> ('s, 'c) embassy_node \<Rightarrow> ('s, 'c) embassy_node option" where
  \<comment> \<open>\<open>None\<close> is the panic of \<open>todo!\<close>.\<close>
  "handle_client_request S request n =
     (case request of
        Write payload tx \<Rightarrow>
          (case node_submit_client_command (embassy_env S) payload (en_raft n) of
             (raft, Inr index) \<Rightarrow>
               Some (n\<lparr>en_raft := raft, en_pending := btree_insert index tx (en_pending n)\<rparr>)
           | (raft, Inl (ClientNotLeader leader_hint)) \<Rightarrow>
               (case leader_hint of
                  Some leader \<Rightarrow> Some (reply (WriteReply tx (Inl (ClusterNotLeader (Some leader)))) (n\<lparr>en_raft := raft\<rparr>))
                | None \<Rightarrow> Some (reply (WriteReply tx (Inl (ClusterNotLeader None))) (n\<lparr>en_raft := raft\<rparr>))))
      | Read key tx \<Rightarrow>
          (case read_linearizable (embassy_env S) key (en_raft n) of
             (raft, Inr (Some val)) \<Rightarrow> Some (reply (ReadReply tx (Inr (Some val))) (n\<lparr>en_raft := raft\<rparr>))
           | (raft, Inr None) \<Rightarrow> Some (reply (ReadReply tx (Inr None)) (n\<lparr>en_raft := raft\<rparr>))
           | (raft, Inl (NotLeaderOrNoLease leader_hint)) \<Rightarrow>
               (case leader_hint of
                  Some leader \<Rightarrow> Some (reply (ReadReply tx (Inl (ClusterNotLeader (Some leader)))) (n\<lparr>en_raft := raft\<rparr>))
                | None \<Rightarrow> Some (reply (ReadReply tx (Inl (ClusterNotLeader None))) (n\<lparr>en_raft := raft\<rparr>))))
      | GetLeader \<Rightarrow> None)"

definition completed_requests :: "log_index \<Rightarrow> (log_index \<times> 'c) list \<Rightarrow> log_index list" where
  "completed_requests commit pending = map fst (takeWhile (\<lambda>(index, _). index \<le> commit) pending)"

definition complete_request :: "log_index \<Rightarrow> ('s, 'c) embassy_node \<Rightarrow> ('s, 'c) embassy_node" where
  "complete_request index n =
     (case map_of (en_pending n) index of
        Some tx \<Rightarrow> reply (WriteReply tx (Inr ())) (n\<lparr>en_pending := AList.delete index (en_pending n)\<rparr>)
      | None \<Rightarrow> n)"

definition process_committed_requests :: "('s, 'c) embassy_node \<Rightarrow> ('s, 'c) embassy_node" where
  "process_committed_requests n =
     fold complete_request (completed_requests (node_commit_index (en_raft n)) (en_pending n)) n"

section \<open>The event loop\<close>

datatype 'c selected =
    Cancelled
  | ClientRequested "'c client_request"
  | TimerExpired timer_kind
  | Received node_id "string raft_msg"

text \<open>
  \<open>select4\<close> polls its futures in order and takes the first that is ready.  They are created anew in
  every iteration, so the first poll looks at the cancellation flag, the client queue, the timers and
  the transport, in this order.  When none is ready the futures sleep, each on its own, and whichever
  becomes ready is taken.
\<close>

definition expired_kind :: "('s, 'c) embassy_node \<Rightarrow> timer_kind option" where
  \<comment> \<open>\<open>timer_service.check_expired().iter().next()\<close>\<close>
  "expired_kind n =
     (case expired_iter (embassy_check_expired (timer_service (rn_election (en_raft n)))) of
        [] \<Rightarrow> None | k # _ \<Rightarrow> Some k)"

definition first_ready ::
  "bool \<Rightarrow> 'c client_request list \<Rightarrow> (node_id \<times> string raft_msg) option \<Rightarrow> ('s, 'c) embassy_node
   \<Rightarrow> 'c selected option" where
  "first_ready cancelled client_rx incoming n =
     (if cancelled then Some Cancelled
      else case client_rx of
             request # _ \<Rightarrow> Some (ClientRequested request)
           | [] \<Rightarrow>
               (case expired_kind n of
                  Some k \<Rightarrow> Some (TimerExpired k)
                | None \<Rightarrow> map_option (\<lambda>(f, m). Received f m) incoming))"

definition is_ready ::
  "bool \<Rightarrow> 'c client_request list \<Rightarrow> (node_id \<times> string raft_msg) option \<Rightarrow> ('s, 'c) embassy_node
   \<Rightarrow> 'c selected \<Rightarrow> bool" where
  "is_ready cancelled client_rx incoming n sel =
     (case sel of
        Cancelled \<Rightarrow> cancelled
      | ClientRequested request \<Rightarrow> client_rx \<noteq> [] \<and> hd client_rx = request
      | TimerExpired k \<Rightarrow> expired_kind n = Some k
      | Received f m \<Rightarrow> incoming = Some (f, m))"

definition drain :: "('s, 'c) embassy_node \<Rightarrow> ('s, 'c) embassy_node" where
  \<comment> \<open>\<open>transport.drain_outbox()\<close>; the messages are sent one at a time.\<close>
  "drain n = n\<lparr>en_unsent := rn_outbox (en_raft n), en_raft := (en_raft n)\<lparr>rn_outbox := []\<rparr>, en_phase := Sending\<rparr>"

definition raft_event :: "('s, string) storage_ops \<Rightarrow> string event \<Rightarrow> ('s, 'c) embassy_node \<Rightarrow> ('s, 'c) embassy_node" where
  "raft_event S ev n =
     (let raft = on_event (embassy_env S) ev (en_raft n)
      in n\<lparr>en_raft := raft, en_led := led_update (rn_role raft) (en_led n)\<rparr>)"

definition handle_selected ::
  "('s, string) storage_ops \<Rightarrow> 'c selected \<Rightarrow> ('s, 'c) embassy_node \<Rightarrow> ('s, 'c) embassy_node option" where
  "handle_selected S sel n =
     (case sel of
        Cancelled \<Rightarrow> Some (n\<lparr>en_phase := Stopped\<rparr>)
      | ClientRequested request \<Rightarrow> map_option drain (handle_client_request S request n)
      | TimerExpired k \<Rightarrow> Some (drain (raft_event S (TimerFired k) n))
      | Received f m \<Rightarrow> Some (drain (raft_event S (Message f m) n)))"

definition finish_iteration :: "('s, 'c) embassy_node \<Rightarrow> ('s, 'c) embassy_node" where
  "finish_iteration n = (process_committed_requests n)\<lparr>en_phase := Polling\<rparr>"

definition node_elapse :: "nat \<Rightarrow> ('s, 'c) embassy_node \<Rightarrow> ('s, 'c) embassy_node" where
  \<comment> \<open>The clock the lease and the timer read moves on.\<close>
  "node_elapse ticks n =
     n\<lparr>en_raft := (en_raft n)\<lparr>rn_lease := lease_advance ticks (rn_lease (en_raft n)),
         rn_election := (rn_election (en_raft n))\<lparr>timer_service :=
           timer_elapse ticks (timer_service (rn_election (en_raft n)))\<rparr>\<rparr>\<rparr>"

section \<open>Facts\<close>

lemma btree_insert_sorted:
  "sorted (map fst m) \<Longrightarrow> distinct (map fst m) \<Longrightarrow>
   sorted (map fst (btree_insert k v m)) \<and> distinct (map fst (btree_insert k v m))"
proof -
  assume m: "sorted (map fst m)" "distinct (map fst m)"
  have sorted: "sorted (map fst (AList.delete k m))"
    using m(1) by (simp add: AList.delete_eq sorted_filter)
  have dist: "distinct (map fst (AList.delete k m))" and fresh: "k \<notin> fst ` set (AList.delete k m)"
    using m(2) by (simp_all add: distinct_delete delete_keys [symmetric])
      (simp add: AList.delete_eq image_iff)
  have "distinct (map fst (insort_key fst (k, v) xs))" if "distinct (map fst xs)" "k \<notin> fst ` set xs" for xs :: "(nat \<times> 'a) list"
    using that by (induction xs) (auto simp: set_insort_key)
  with sorted dist fresh show ?thesis by (simp add: btree_insert_def sorted_insort_key)
qed

lemma set_btree_insert: "set (btree_insert k v m) = insert (k, v) {p \<in> set m. fst p \<noteq> k}"
  by (auto simp: btree_insert_def set_insort_key AList.delete_eq)

text \<open>In a sorted map the requests up to the commit index are exactly those completed.\<close>

lemma completed_requests_sorted:
  "sorted (map fst m) \<Longrightarrow> set (completed_requests c m) = {i \<in> fst ` set m. i \<le> c}"
proof (induction m)
  case (Cons p m)
  show ?case
  proof (cases "fst p \<le> c")
    case True
    with Cons show ?thesis by (cases p) (auto simp: completed_requests_def)
  next
    case False
    with Cons.prems have "\<not> fst q \<le> c" if "q \<in> set (p # m)" for q using that by fastforce
    with False show ?thesis by (cases p) (auto simp: completed_requests_def)
  qed
qed (simp add: completed_requests_def)

end
