(* ===== verification/Message_Bounds.thy ===== *)
theory Message_Bounds
  imports Embassy_Node
begin

text \<open>
  The collections of the bare-metal messages are bounded by their types: at most 128 entries in an
  \<open>AppendEntries\<close>, at most 512 bytes in an \<open>InstallSnapshot\<close>.  The model keeps plain lists, and this
  theory proves that a node never sends more, whatever event it handles.
\<close>

fun msg_fits :: "'p raft_msg \<Rightarrow> bool" where
  "msg_fits (AppendEntries _ _ _ es _) \<longleftrightarrow> length es \<le> 128"
| "msg_fits (InstallSnapshot _ _ _ _ _ d _) \<longleftrightarrow> length d \<le> 512"
| "msg_fits _ \<longleftrightarrow> True"

definition bounded_batches :: "('s, 'p) storage_ops \<Rightarrow> bool" where
  "bounded_batches S \<longleftrightarrow> (\<forall>st a b. length (st_get_entries S st a b) \<le> 128) \<and>
     (\<forall>st ofs mx c. st_get_snapshot_chunk S st ofs mx = Some c \<longrightarrow> length (chunk_data c) \<le> 512)"

text \<open>\<open>sends_fit n n'\<close>: getting from \<open>n\<close> to \<open>n'\<close> only adds messages that fit.\<close>

definition sends_fit :: "('s, 'sm, 'ts, 'p) raft_node \<Rightarrow> ('s, 'sm, 'ts, 'p) raft_node \<Rightarrow> bool" where
  "sends_fit n n' \<longleftrightarrow> (\<forall>(t, m)\<in>set (rn_outbox n'). (t, m) \<in> set (rn_outbox n) \<or> msg_fits m)"

lemma sends_fit_same: "rn_outbox n' = rn_outbox n \<Longrightarrow> sends_fit n n'"
  by (auto simp: sends_fit_def)

lemma sends_fit_trans: "sends_fit n n1 \<Longrightarrow> sends_fit n1 n2 \<Longrightarrow> sends_fit n n2"
  by (fastforce simp: sends_fit_def)

lemma sends_fit_send: "msg_fits m \<Longrightarrow> rn_outbox n' = rn_outbox n \<Longrightarrow> sends_fit n (send t m n')"
  by (auto simp: sends_fit_def)

lemma sends_fit_broadcast:
  "msg_fits m \<Longrightarrow> rn_outbox n' = rn_outbox n \<Longrightarrow> sends_fit n (broadcast E m n')"
  by (auto simp: sends_fit_def broadcast_eq)

lemma peer_message_fits:
  "bounded_batches (env_storage E) \<Longrightarrow> msg_fits (get_append_entries_for_peer MO (env_storage E) p i st lrm)"
  by (auto simp: get_append_entries_for_peer_def get_append_entries_for_follower_def bounded_batches_def Let_def
      split: option.splits)

lemma fits_entries:
  "bounded_batches (env_storage E) \<Longrightarrow> rn_outbox n' = rn_outbox n \<Longrightarrow>
   sends_fit n (send_append_entries_to_followers E n')"
  using peer_message_fits [of E] by (auto simp: sends_fit_def send_append_entries_eq)

lemma fits_become_leader:
  "bounded_batches (env_storage E) \<Longrightarrow> rn_outbox n' = rn_outbox n \<Longrightarrow> sends_fit n (become_leader E n')"
  by (simp add: become_leader_def rt_become_leader_def fits_entries)

lemma fits_start_pre_vote: "rn_outbox n' = rn_outbox n \<Longrightarrow> sends_fit n (start_pre_vote E n')"
  by (simp add: start_pre_vote_def rt_start_pre_vote_def em_start_pre_vote_def Let_def sends_fit_broadcast)

lemma fits_start_election:
  assumes "bounded_batches (env_storage E)" and "rn_outbox n' = rn_outbox n"
  shows "sends_fit n (start_election E n')"
proof -
  obtain em t st rl obs lli llt where run: "rt_start_election (env_nodes E) (env_timers E) (env_storage E)
      (rn_id n') (rn_term n') (rn_storage n') (rn_election n') (rn_observed n') (node_state_to_role (rn_role n')) =
      (em, t, st, rl, obs, RequestVote t (rn_id n') lli llt)"
    by (simp add: rt_start_election_def em_start_election_def Let_def)
  define n2 where "n2 = broadcast E (RequestVote t (rn_id n') lli llt)
      (n'\<lparr>rn_election := em, rn_term := t, rn_storage := st, rn_role := rl, rn_observed := obs\<rparr>)"
  have eq: "start_election E n' = (if length (node_members n2) \<le> 1 then become_leader E n2 else n2)"
    unfolding start_election_def Let_def run n2_def by simp
  have 1: "sends_fit n n2"
    using assms(2) by (simp add: n2_def sends_fit_broadcast)
  show ?thesis
    using 1 sends_fit_trans [OF 1 fits_become_leader [OF assms(1) refl]] by (simp add: eq)
qed

lemma fits_timers:
  assumes "bounded_batches (env_storage E)"
  shows "sends_fit n (handle_heartbeat_timer E n)" and "sends_fit n (handle_election_timer E n)"
proof -
  let ?n1 = "observe (ObsTimerFired (rn_id n) ObserverHeartbeat (rn_term n)) n"
  have "sends_fit n (send_append_entries_to_followers E ?n1)" by (rule fits_entries [OF assms]) simp
  then have "sends_fit n (send_heartbeats E ?n1)" by (simp add: sends_fit_def send_heartbeats_def Let_def)
  then show "sends_fit n (handle_heartbeat_timer E n)"
    by (simp add: handle_heartbeat_timer_def sends_fit_same Let_def)
  have 1: "sends_fit n (start_pre_vote E m)" if "rn_outbox m = rn_outbox n" for m
    using that by (rule fits_start_pre_vote)
  then show "sends_fit n (handle_election_timer E n)"
    using sends_fit_trans [OF 1 fits_start_election [OF assms refl]]
    by (simp add: handle_election_timer_def sends_fit_same Let_def)
qed

lemma validate_outbox [simp]: "rn_outbox (fst (validate_term_and_step_down E t n)) = rn_outbox n"
  by (simp add: validate_term_and_step_down_def)

lemma fits_election_messages:
  assumes "bounded_batches (env_storage E)"
  shows "sends_fit n (handle_pre_vote_request E from trm cand lli llt n)"
    and "sends_fit n (handle_pre_vote_response E from trm g n)"
    and "sends_fit n (handle_vote_request E from trm cand lli llt n)"
    and "sends_fit n (handle_vote_response E from trm g n)"
proof -
  show "sends_fit n (handle_pre_vote_request E from trm cand lli llt n)"
    by (simp add: handle_pre_vote_request_def em_handle_pre_vote_request_def sends_fit_send Let_def)
  show "sends_fit n (handle_pre_vote_response E from trm g n)"
    by (simp add: handle_pre_vote_response_def fits_start_election [OF assms] sends_fit_same Let_def split: prod.splits)
  obtain n1 b where v: "validate_term_and_step_down E trm n = (n1, b)" by fastforce
  then have ob: "rn_outbox n1 = rn_outbox n" using validate_outbox [of E trm n] by simp
  show "sends_fit n (handle_vote_request E from trm cand lli llt n)"
    using ob by (simp add: handle_vote_request_def v em_handle_vote_request_def sends_fit_send Let_def)
  show "sends_fit n (handle_vote_response E from trm g n)"
    using ob by (simp add: handle_vote_response_def v fits_become_leader [OF assms] sends_fit_same Let_def
        split: prod.splits)
qed

lemma fits_append_entries: "sends_fit n (handle_append_entries E from trm pli plt es lc n)"
proof -
  obtain n1 b where v: "validate_term_and_step_down E trm n = (n1, b)" by fastforce
  then have ob: "rn_outbox n1 = rn_outbox n" using validate_outbox [of E trm n] by simp
  define n2 where "n2 = (reset_election_timer_if_valid_term E trm n1)\<lparr>rn_leader := Some from\<rparr>"
  obtain lrm ct st sm rl obs msg cs where run: "lrm_handle_append_entries (env_storage E) (env_machine E)
      (env_changes E) (rn_id n2) trm pli plt es lc (rn_term n2) (rn_storage n2) (rn_machine n2) (rn_role n2)
      (rn_observed n2) (rn_replication n2) = (lrm, ct, st, sm, rl, obs, msg, cs)"
    using prod.exhaust by metis
  then have "msg_fits msg"
    unfolding lrm_handle_append_entries_def Let_def by (auto split: prod.splits)
  then show ?thesis
    unfolding handle_append_entries_def v Let_def n2_def [symmetric] prod.case run
    using ob by (simp add: n2_def sends_fit_send sends_fit_same)
qed

lemma fits_snapshot_messages:
  "sends_fit n (handle_install_snapshot E from trm lid lii lit ofs d dn n)"
  "sends_fit n (handle_install_snapshot_response E from trm ok n)"
  "sends_fit n (handle_append_entries_response E from trm ok mi n)"
proof -
  define n1 where "n1 = reset_election_timer_if_valid_term E trm n"
  obtain lrm ct st sm rl msg where run: "lrm_handle_install_snapshot (env_storage E) (env_machine E) trm lid lii lit ofs
      d dn (rn_term n1) (rn_storage n1) (rn_machine n1) (rn_role n1) (rn_replication n1) =
      (lrm, ct, st, sm, rl, msg)"
    using prod.exhaust by metis
  then have "msg_fits msg"
    unfolding lrm_handle_install_snapshot_def Let_def by (auto split: prod.splits if_splits option.splits sum.splits)
  then show "sends_fit n (handle_install_snapshot E from trm lid lii lit ofs d dn n)"
    unfolding handle_install_snapshot_def Let_def n1_def [symmetric] run
    by (simp add: n1_def sends_fit_send)
  obtain m b where v: "validate_term_and_step_down E trm n = (m, b)" by fastforce
  then have ob: "rn_outbox m = rn_outbox n" using validate_outbox [of E trm n] by simp
  show "sends_fit n (handle_install_snapshot_response E from trm ok n)"
    unfolding handle_install_snapshot_response_def v using ob by (simp add: sends_fit_same split: option.splits)
  show "sends_fit n (handle_append_entries_response E from trm ok mi n)"
    unfolding handle_append_entries_response_def v
    using ob by (simp add: sends_fit_same create_snapshot_internal_def Let_def split: prod.splits)
qed

lemma fits_submit_entry:
  assumes "bounded_batches (env_storage E)"
  shows "sends_fit n (fst (submit_entry E kind n))"
  by (simp add: submit_entry_def Let_def sends_fit_same fits_entries [OF assms] split: prod.splits)

lemma fits_on_event: "bounded_batches (env_storage E) \<Longrightarrow> sends_fit n (on_event E ev n)"
proof (cases ev)
  case (Message f m)
  then show "bounded_batches (env_storage E) \<Longrightarrow> ?thesis"
    by (cases m) (simp_all add: fits_election_messages fits_append_entries fits_snapshot_messages)
next
  case (TimerFired k)
  then show "bounded_batches (env_storage E) \<Longrightarrow> ?thesis" by (cases k) (simp_all add: fits_timers)
qed (simp_all add: submit_client_command_def submit_config_change_def fits_submit_entry)

lemma on_event_sends_fit:
  "bounded_batches (env_storage E) \<Longrightarrow> rn_outbox n = [] \<Longrightarrow> (t, m) \<in> set (rn_outbox (on_event E ev n)) \<Longrightarrow> msg_fits m"
  using fits_on_event [of E n ev] by (auto simp: sends_fit_def)

section \<open>The storages keep the bounds\<close>

lemma parts_bounds:
  "length (parts_entries f l a b) \<le> 128"
  "parts_chunk sn ofs mx = Some c \<Longrightarrow> length (chunk_data c) \<le> 512"
  by (auto simp: parts_entries_def emb_entries.new_clip parts_chunk_def emb_chunk_at_def emb_chunks.new_clip Let_def
      split: option.splits if_splits)

lemma emb_bounded: "bounded_batches embassy_storage_ops"
  using parts_bounds by (auto simp: bounded_batches_def emb_ops_defs)

end
