(* ===== verification/Wire_Codec.thy ===== *)
theory Wire_Codec
  imports Message_Bounds
begin

text \<open>
  \<open>embassy/src/configurations/transport/udp/serde_raft_message.rs\<close>: the mirror of the message type that
  can be serialised, the conversions to and from it, and the packets of \<open>transport.rs\<close> around it.
  \<open>postcard\<close>, which turns values into bytes, is a parameter.
\<close>

section \<open>The wire types\<close>

datatype wire_configuration_change = WireAddServer node_id | WireRemoveServer node_id

datatype wire_entry_type = WireCommand string | WireConfigChange wire_configuration_change

record wire_log_entry =
  wire_term :: log_term
  wire_entry_type :: wire_entry_type

datatype wire_raft_msg =
    WireRequestVote log_term node_id log_index log_term
  | WireRequestVoteResponse log_term bool
  | WireAppendEntries log_term log_index log_term "wire_log_entry list" log_index
  | WireAppendEntriesResponse log_term bool log_index
  | WireInstallSnapshot log_term node_id log_index log_term nat bytes bool
  | WireInstallSnapshotResponse log_term bool
  | WirePreVoteRequest log_term node_id log_index log_term
  | WirePreVoteResponse log_term bool

section \<open>The conversions\<close>

fun change_to_wire :: "configuration_change \<Rightarrow> wire_configuration_change" where
  "change_to_wire (AddServer i) = WireAddServer i"
| "change_to_wire (RemoveServer i) = WireRemoveServer i"

fun change_from_wire :: "wire_configuration_change \<Rightarrow> configuration_change" where
  "change_from_wire (WireAddServer i) = AddServer i"
| "change_from_wire (WireRemoveServer i) = RemoveServer i"

fun entry_type_to_wire :: "string entry_type \<Rightarrow> wire_entry_type" where
  "entry_type_to_wire (Command payload) = WireCommand payload"
| "entry_type_to_wire (ConfigChange change) = WireConfigChange (change_to_wire change)"

fun entry_type_from_wire :: "wire_entry_type \<Rightarrow> string entry_type" where
  "entry_type_from_wire (WireCommand payload) = Command payload"
| "entry_type_from_wire (WireConfigChange change) = ConfigChange (change_from_wire change)"

definition entry_to_wire :: "string log_entry \<Rightarrow> wire_log_entry" where
  "entry_to_wire e = \<lparr>wire_term = entry_term e, wire_entry_type = entry_type_to_wire (entry_kind e)\<rparr>"

definition entry_from_wire :: "wire_log_entry \<Rightarrow> string log_entry" where
  "entry_from_wire w = \<lparr>entry_term = wire_term w, entry_kind = entry_type_from_wire (wire_entry_type w)\<rparr>"

fun to_wire :: "string raft_msg \<Rightarrow> wire_raft_msg" where
  "to_wire (RequestVote t i lli llt) = WireRequestVote t i lli llt"
| "to_wire (RequestVoteResponse t g) = WireRequestVoteResponse t g"
| "to_wire (AppendEntries t pli plt entries lc) = WireAppendEntries t pli plt (map entry_to_wire entries) lc"
| "to_wire (AppendEntriesResponse t s mi) = WireAppendEntriesResponse t s mi"
| "to_wire (InstallSnapshot t i lii lit offset data d) = WireInstallSnapshot t i lii lit offset data d"
| "to_wire (InstallSnapshotResponse t s) = WireInstallSnapshotResponse t s"
| "to_wire (PreVoteRequest t i lli llt) = WirePreVoteRequest t i lli llt"
| "to_wire (PreVoteResponse t g) = WirePreVoteResponse t g"

fun try_from_wire :: "wire_raft_msg \<Rightarrow> string + string raft_msg" where
  "try_from_wire (WireRequestVote t i lli llt) = Inr (RequestVote t i lli llt)"
| "try_from_wire (WireRequestVoteResponse t g) = Inr (RequestVoteResponse t g)"
| "try_from_wire (WireAppendEntries t pli plt entries lc) =
     (let log_entries = map entry_from_wire entries;
          collection = embassy_log_new log_entries
      in Inr (AppendEntries t pli plt collection lc))"
| "try_from_wire (WireAppendEntriesResponse t s mi) = Inr (AppendEntriesResponse t s mi)"
| "try_from_wire (WireInstallSnapshot t i lii lit offset data d) =
     (let chunk = heapless_chunk_new 512 data in Inr (InstallSnapshot t i lii lit offset chunk d))"
| "try_from_wire (WireInstallSnapshotResponse t s) = Inr (InstallSnapshotResponse t s)"
| "try_from_wire (WirePreVoteRequest t i lli llt) = Inr (PreVoteRequest t i lli llt)"
| "try_from_wire (WirePreVoteResponse t g) = Inr (PreVoteResponse t g)"

section \<open>Round trips\<close>

lemma change_wire [simp]: "change_from_wire (change_to_wire c) = c"
  by (cases c) simp_all

lemma entry_type_wire [simp]: "entry_type_from_wire (entry_type_to_wire k) = k"
  by (cases k) simp_all

lemma entry_wire [simp]: "entry_from_wire (entry_to_wire e) = e"
  by (simp add: entry_to_wire_def entry_from_wire_def)

lemma wire_entries [simp]: "map (entry_from_wire \<circ> entry_to_wire) es = es"
  by (induction es) simp_all

lemma wire_roundtrip: "msg_fits m \<Longrightarrow> try_from_wire (to_wire m) = Inr m"
  by (cases m) (simp_all add: emb_entries.new_clip emb_chunks.new_clip Let_def)

lemma try_from_wire_ok: "\<exists>m. try_from_wire w = Inr m \<and> msg_fits m"
  by (cases w) (simp_all add: emb_entries.new_clip emb_chunks.new_clip Let_def)

lemma wire_roundtrip_iff: "try_from_wire (to_wire m) = Inr m \<longleftrightarrow> msg_fits m"
  using wire_roundtrip try_from_wire_ok [of "to_wire m"] by auto

section \<open>Packets\<close>

record udp_envelope =
  ue_from :: node_id
  ue_to :: node_id
  ue_message_bytes :: bytes

text \<open>\<open>postcard::to_allocvec\<close> and \<open>from_bytes\<close> on the two types the transport sends.\<close>

record postcard =
  pc_msg_bytes :: "wire_raft_msg \<Rightarrow> bytes option"
  pc_msg_of :: "bytes \<Rightarrow> wire_raft_msg option"
  pc_env_bytes :: "udp_envelope \<Rightarrow> bytes option"
  pc_env_of :: "bytes \<Rightarrow> udp_envelope option"

definition postcard_ok :: "postcard \<Rightarrow> bool" where
  "postcard_ok P \<longleftrightarrow> (\<forall>w b. pc_msg_bytes P w = Some b \<longrightarrow> pc_msg_of P b = Some w) \<and>
     (\<forall>e b. pc_env_bytes P e = Some b \<longrightarrow> pc_env_of P b = Some e)"

definition encode_packet :: "postcard \<Rightarrow> node_id \<Rightarrow> node_id \<Rightarrow> string raft_msg \<Rightarrow> bytes option" where
  "encode_packet P self to message =
     (let wire_msg = to_wire message in
      case pc_msg_bytes P wire_msg of
        None \<Rightarrow> None
      | Some message_bytes \<Rightarrow>
          let envelope = \<lparr>ue_from = self, ue_to = to, ue_message_bytes = message_bytes\<rparr>
          in pc_env_bytes P envelope)"

definition decode_packet :: "postcard \<Rightarrow> bytes \<Rightarrow> (node_id \<times> string raft_msg) option" where
  "decode_packet P bytes =
     (case pc_env_of P bytes of
        None \<Rightarrow> None
      | Some envelope \<Rightarrow>
          (case pc_msg_of P (ue_message_bytes envelope) of
             None \<Rightarrow> None
           | Some wire_msg \<Rightarrow>
               (case try_from_wire wire_msg of
                  Inl _ \<Rightarrow> None
                | Inr message \<Rightarrow> Some (ue_from envelope, message))))"

lemma decode_encode:
  "postcard_ok P \<Longrightarrow> msg_fits m \<Longrightarrow> encode_packet P i t m = Some b \<Longrightarrow> decode_packet P b = Some (i, m)"
  by (auto simp: postcard_ok_def encode_packet_def decode_packet_def wire_roundtrip Let_def split: option.splits)

end
