(* ===== verification/Embassy_Network.thy ===== *)
theory Embassy_Network
  imports Wire_Codec "HOL-Library.Multiset"
begin

text \<open>
  The two implementations of \<open>AsyncTransport\<close> (\<open>async_transport.rs\<close>): the channels of
  \<open>transport/channel/channel_transport_hub.rs\<close>, and the UDP transport of \<open>transport/udp/transport.rs\<close>
  with its sender and listener tasks.  Both keep the contract \<open>async_transport\<close>: what is in flight to
  a node is what was sent to it, less what was received and what was lost.
\<close>

section \<open>The contract\<close>

text \<open>
  The trait as a dictionary: \<open>tr_send\<close> hands a message over (\<open>None\<close>: the task waits), \<open>tr_recv\<close> takes
  the next message for a node, \<open>tr_internal\<close> is a step of the transport's own tasks.
\<close>

record 'net transport_ops =
  tr_send :: "node_id \<Rightarrow> node_id \<Rightarrow> string raft_msg \<Rightarrow> 'net \<Rightarrow> 'net option"
  tr_recv :: "node_id \<Rightarrow> 'net \<Rightarrow> 'net \<times> (node_id \<times> string raft_msg) option"
  tr_internal :: "'net \<Rightarrow> 'net \<Rightarrow> bool"

text \<open>\<open>flight\<close> is the bag of messages under way to a node.\<close>

locale async_transport =
  fixes T :: "'net transport_ops"
    and flight :: "'net \<Rightarrow> node_id \<Rightarrow> (node_id \<times> string raft_msg) multiset"
    and net_ok :: "'net \<Rightarrow> bool"
    and empty :: 'net
  assumes empty_ok: "net_ok empty"
    and empty_flight: "flight empty j = {#}"
    and send_ok: "net_ok net \<Longrightarrow> msg_fits m \<Longrightarrow> i \<in> {1..5} \<Longrightarrow> tr_send T i t m net = Some net' \<Longrightarrow> net_ok net'"
    and send_flight: "net_ok net \<Longrightarrow> msg_fits m \<Longrightarrow> i \<in> {1..5} \<Longrightarrow> tr_send T i t m net = Some net' \<Longrightarrow>
      flight net' j \<subseteq># flight net j + (if j = t then {#(i, m)#} else {#})"
    and recv_ok: "net_ok net \<Longrightarrow> i \<in> {1..5} \<Longrightarrow> tr_recv T i net = (net', Some fm) \<Longrightarrow> net_ok net'"
    and recv_flight: "net_ok net \<Longrightarrow> i \<in> {1..5} \<Longrightarrow> tr_recv T i net = (net', Some fm) \<Longrightarrow>
      flight net' j + (if j = i then {#fm#} else {#}) \<subseteq># flight net j"
    and internal_ok: "net_ok net \<Longrightarrow> tr_internal T net net' \<Longrightarrow> net_ok net'"
    and internal_flight: "net_ok net \<Longrightarrow> tr_internal T net net' \<Longrightarrow> flight net' j \<subseteq># flight net j"

text \<open>The messages for node \<open>j\<close> in the outboxes of the nodes.\<close>

definition out_to :: "node_id \<Rightarrow> node_id \<Rightarrow> (node_id \<times> string raft_msg) list \<Rightarrow> (node_id \<times> string raft_msg) multiset" where
  "out_to j i q = mset (map (\<lambda>(t, m). (i, m)) (filter (\<lambda>(t, m). t = j) q))"

definition outbox_flight :: "node_id \<Rightarrow> (node_id \<Rightarrow> (node_id \<times> string raft_msg) list) \<Rightarrow> (node_id \<times> string raft_msg) multiset" where
  "outbox_flight j ob = (\<Sum>i\<in>{1..5}. out_to j i (ob i))"

lemma out_to_simps [simp]:
  "out_to j i [] = {#}" "out_to j i (q @ q') = out_to j i q + out_to j i q'"
  "out_to j i ((t, m) # q) = (if t = j then {#(i, m)#} else {#}) + out_to j i q"
  by (simp_all add: out_to_def)

lemma outbox_flight_update:
  assumes "i \<in> {1..5}"
  shows "outbox_flight j (ob(i := q)) + out_to j i (ob i) = outbox_flight j ob + out_to j i q"
proof -
  have "outbox_flight j f = out_to j i (f i) + (\<Sum>k\<in>{1..5} - {i}. out_to j k (f k))" for f
    unfolding outbox_flight_def using assms by (intro sum.remove) auto
  moreover have "(\<Sum>k\<in>{1..5} - {i}. out_to j k ((ob(i := q)) k)) = (\<Sum>k\<in>{1..5} - {i}. out_to j k (ob k))"
    by (intro sum.cong) auto
  ultimately show ?thesis by (simp add: ac_simps)
qed

section \<open>Bounded channels\<close>

text \<open>\<open>embassy_sync::channel::Channel\<close>: a queue with a capacity.\<close>

definition chan_try_send :: "nat \<Rightarrow> 'a \<Rightarrow> 'a list \<Rightarrow> 'a list option" where
  "chan_try_send cap x q = (if length q < cap then Some (q @ [x]) else None)"

definition chan_try_receive :: "'a list \<Rightarrow> 'a list \<times> 'a option" where
  "chan_try_receive q = (case q of [] \<Rightarrow> (q, None) | x # rest \<Rightarrow> (rest, Some x))"

section \<open>The channel transport\<close>

record envelope =
  env_from :: node_id
  env_to :: node_id
  env_message :: "string raft_msg"

text \<open>The hub is its array of channels, by index; an index past the array panics.\<close>

type_synonym channel_hub = "nat \<Rightarrow> envelope list"

definition hub_new :: channel_hub where
  "hub_new = (\<lambda>_. [])"

record channel_transport =
  ct_node_id :: node_id
  ct_rx :: nat
  ct_tx_list :: "nat list"

definition get_all_senders :: "nat list" where
  "get_all_senders = [0, 1, 2, 3, 4]"

definition create_transport :: "node_id \<Rightarrow> channel_transport option" where
  "create_transport node_id =
     (if u64_sub node_id 1 < 5
      then Some \<lparr>ct_node_id = node_id, ct_rx = u64_sub node_id 1, ct_tx_list = get_all_senders\<rparr>
      else None)"

definition channel_send :: "node_id \<Rightarrow> node_id \<Rightarrow> string raft_msg \<Rightarrow> channel_hub \<Rightarrow> channel_hub option" where
  "channel_send self to message hub =
     (if to = 0 \<or> 5 < to then Some hub
      else
        let envelope = \<lparr>env_from = self, env_to = to, env_message = message\<rparr>;
            sender = get_all_senders ! (to - 1)
        in map_option (\<lambda>q. hub(sender := q)) (chan_try_send 32 envelope (hub sender)))"

definition channel_recv :: "node_id \<Rightarrow> channel_hub \<Rightarrow> channel_hub \<times> (node_id \<times> string raft_msg) option" where
  "channel_recv self hub =
     (case chan_try_receive (hub (self - 1)) of
        (_, None) \<Rightarrow> (hub, None)
      | (q, Some envelope) \<Rightarrow> (hub(self - 1 := q), Some (env_from envelope, env_message envelope)))"

fun channel_sends :: "node_id \<Rightarrow> node_id list \<Rightarrow> string raft_msg \<Rightarrow> channel_hub \<Rightarrow> channel_hub option" where
  "channel_sends self [] message hub = Some hub"
| "channel_sends self (peer_id # ids) message hub =
     (if peer_id \<noteq> self then Option.bind (channel_send self peer_id message hub) (channel_sends self ids message)
      else channel_sends self ids message hub)"

definition channel_broadcast :: "node_id \<Rightarrow> string raft_msg \<Rightarrow> channel_hub \<Rightarrow> channel_hub option" where
  "channel_broadcast self message hub = channel_sends self [1, 2, 3, 4, 5] message hub"

definition channel_flight :: "channel_hub \<Rightarrow> node_id \<Rightarrow> (node_id \<times> string raft_msg) multiset" where
  "channel_flight hub j =
     (if 1 \<le> j \<and> j \<le> 5 then mset (map (\<lambda>e. (env_from e, env_message e)) (hub (j - 1))) else {#})"

lemma sender_index: "1 \<le> t \<Longrightarrow> t \<le> 5 \<Longrightarrow> get_all_senders ! (t - 1) = t - 1"
proof -
  assume "1 \<le> t" "t \<le> 5"
  then have "t - 1 = 0 \<or> t - 1 = 1 \<or> t - 1 = 2 \<or> t - 1 = 3 \<or> t - 1 = 4" by arith
  then show ?thesis by (auto simp: get_all_senders_def)
qed

lemma channel_send_flight:
  assumes "channel_send i t m hub = Some hub'"
  shows "channel_flight hub' j \<subseteq># channel_flight hub j + (if j = t then {#(i, m)#} else {#})"
proof (cases "1 \<le> t \<and> t \<le> 5")
  case True
  then have hub': "hub' = hub(t - 1 := hub (t - 1) @ [\<lparr>env_from = i, env_to = t, env_message = m\<rparr>])"
    using assms sender_index [of t] by (auto simp: channel_send_def chan_try_send_def Let_def split: if_splits)
  have "j - 1 = t - 1 \<longleftrightarrow> j = t" if "1 \<le> j" using that True by arith
  with True show ?thesis by (auto simp: channel_flight_def hub')
next
  case False
  then have "hub' = hub" using assms by (auto simp: channel_send_def split: if_splits)
  then show ?thesis by simp
qed

lemma channel_recv_flight:
  assumes "channel_recv i hub = (hub', Some fm)" and "i \<in> {1..5}"
  shows "channel_flight hub' j + (if j = i then {#fm#} else {#}) \<subseteq># channel_flight hub j"
proof -
  obtain e q where hub: "hub (i - 1) = e # q" "hub' = hub(i - 1 := q)" "fm = (env_from e, env_message e)"
    using assms(1) by (auto simp: channel_recv_def chan_try_receive_def split: list.splits)
  have "j - 1 = i - 1 \<longleftrightarrow> j = i" if "1 \<le> j" using that assms(2) by auto
  then show ?thesis using assms(2) hub by (auto simp: channel_flight_def)
qed

definition channel_ops :: "channel_hub transport_ops" where
  "channel_ops = \<lparr>tr_send = channel_send, tr_recv = channel_recv, tr_internal = (\<lambda>_ _. False)\<rparr>"

interpretation channel: async_transport channel_ops channel_flight "\<lambda>_. True" hub_new
  by unfold_locales
    (auto simp: channel_ops_def channel_send_flight channel_recv_flight, simp add: channel_flight_def hub_new_def)

end
