(* ===== verification/Udp_Transport.thy ===== *)
theory Udp_Transport
  imports Embassy_Network
begin

text \<open>
  \<open>embassy/src/configurations/transport/udp/transport.rs\<close>: \<open>UdpTransport\<close> and its sender and listener
  tasks.  The IP stack between the tasks is not under \<open>src\<close>: it is a parameter, with the two calls of a
  socket that the tasks make and the steps it takes on its own.
\<close>

section \<open>The state of the transport\<close>

type_synonym endpoint = "nat \<times> nat"

text \<open>
  \<open>ip_send\<close> is \<open>send_to\<close> on the socket of a node; a datagram that cannot be sent is gone.  \<open>ip_receive\<close> is
  \<open>recv_from\<close> on the socket bound to an endpoint; \<open>None\<close> is waiting.
\<close>

record 'ip ip_stack =
  ip_send :: "node_id \<Rightarrow> endpoint \<Rightarrow> bytes \<Rightarrow> 'ip \<Rightarrow> 'ip"
  ip_receive :: "endpoint \<Rightarrow> 'ip \<Rightarrow> ('ip \<times> bytes) option"
  ip_step :: "'ip \<Rightarrow> 'ip \<Rightarrow> bool"

text \<open>
  What a run may rely on: the stack hands over a datagram at most as often as it was sent.  It may
  lose, delay and reorder datagrams.  \<open>carried\<close> are the datagrams under way.  Stacks that duplicate are
  excluded: with them elections are not safe (\<open>duplicated_vote_counts_twice\<close>).
\<close>

definition never_duplicates :: "'ip ip_stack \<Rightarrow> ('ip \<Rightarrow> (endpoint \<times> bytes) multiset) \<Rightarrow> 'ip \<Rightarrow> bool" where
  "never_duplicates D carried ip0 \<longleftrightarrow>
     carried ip0 = {#} \<and>
     (\<forall>i e b ip. carried (ip_send D i e b ip) \<subseteq># add_mset (e, b) (carried ip)) \<and>
     (\<forall>e b ip ip'. ip_receive D e ip = Some (ip', b) \<longrightarrow> add_mset (e, b) (carried ip') \<subseteq># carried ip) \<and>
     (\<forall>ip ip'. ip_step D ip ip' \<longrightarrow> carried ip' \<subseteq># carried ip)"

lemma never_duplicatesD:
  assumes "never_duplicates D carried ip0"
  shows "carried ip0 = {#}" and "carried (ip_send D i e b ip) \<subseteq># add_mset (e, b) (carried ip)"
    and "ip_receive D e ip = Some (ip', b) \<Longrightarrow> add_mset (e, b) (carried ip') \<subseteq># carried ip"
    and "ip_step D ip ip' \<Longrightarrow> carried ip' \<subseteq># carried ip"
  using assms unfolding never_duplicates_def by blast+

record 'ip udp_net =
  un_outbox :: "node_id \<Rightarrow> (node_id \<times> string raft_msg) list"
  un_inbox :: "node_id \<Rightarrow> (node_id \<times> string raft_msg) list"
  un_ip :: 'ip

definition udp_new :: "'ip \<Rightarrow> 'ip udp_net" where
  "udp_new ip0 = \<lparr>un_outbox = (\<lambda>_. []), un_inbox = (\<lambda>_. []), un_ip = ip0\<rparr>"

definition base_port :: nat where "base_port = 9000"

definition max_packet_size :: nat where "max_packet_size = 4096"

definition peer_addrs :: "endpoint list" where
  \<comment> \<open>The last byte of the address \<open>10.0.0.x\<close>, and the port.\<close>
  "peer_addrs = [(1, base_port + 1), (2, base_port + 2), (3, base_port + 3), (4, base_port + 4), (5, base_port + 5)]"

definition listen_addr :: "node_id \<Rightarrow> endpoint" where
  "listen_addr self = (self, base_port + self)"

section \<open>The operations of the transport\<close>

definition udp_send :: "node_id \<Rightarrow> node_id \<Rightarrow> string raft_msg \<Rightarrow> 'ip udp_net \<Rightarrow> 'ip udp_net option" where
  \<comment> \<open>A full queue drops the message.\<close>
  "udp_send self to message net =
     (case chan_try_send 64 (to, message) (un_outbox net self) of
        Some q \<Rightarrow> Some (net\<lparr>un_outbox := (un_outbox net)(self := q)\<rparr>)
      | None \<Rightarrow> Some net)"

definition udp_recv :: "node_id \<Rightarrow> 'ip udp_net \<Rightarrow> 'ip udp_net \<times> (node_id \<times> string raft_msg) option" where
  "udp_recv self net =
     (case chan_try_receive (un_inbox net self) of
        (_, None) \<Rightarrow> (net, None)
      | (q, Some fm) \<Rightarrow> (net\<lparr>un_inbox := (un_inbox net)(self := q)\<rparr>, Some fm))"

fun udp_sends :: "node_id \<Rightarrow> node_id list \<Rightarrow> string raft_msg \<Rightarrow> 'ip udp_net \<Rightarrow> 'ip udp_net option" where
  "udp_sends self [] message net = Some net"
| "udp_sends self (peer_id # ids) message net =
     (if peer_id \<noteq> self then Option.bind (udp_send self peer_id message net) (udp_sends self ids message)
      else udp_sends self ids message net)"

definition udp_broadcast :: "node_id \<Rightarrow> string raft_msg \<Rightarrow> 'ip udp_net \<Rightarrow> 'ip udp_net option" where
  "udp_broadcast self message net = udp_sends self [1, 2, 3, 4, 5] message net"

section \<open>The tasks\<close>

definition sender_step :: "'ip ip_stack \<Rightarrow> postcard \<Rightarrow> node_id \<Rightarrow> 'ip udp_net \<Rightarrow> 'ip udp_net option" where
  \<comment> \<open>One round of the loop of \<open>run_udp_sender\<close>; \<open>None\<close> when there is nothing to send, or when the
      index into \<open>peer_addrs\<close> panics.\<close>
  "sender_step D P self net =
     (case un_outbox net self of
        [] \<Rightarrow> None
      | (to, message) # rest \<Rightarrow>
          let net1 = net\<lparr>un_outbox := (un_outbox net)(self := rest)\<rparr> in
          case encode_packet P self to message of
            None \<Rightarrow> Some net1
          | Some bytes \<Rightarrow>
              if u64_sub to 1 < 5
              then Some (net1\<lparr>un_ip := ip_send D self (peer_addrs ! u64_sub to 1) bytes (un_ip net1)\<rparr>)
              else None)"

definition listener_step :: "'ip ip_stack \<Rightarrow> postcard \<Rightarrow> node_id \<Rightarrow> 'ip udp_net \<Rightarrow> 'ip udp_net option" where
  \<comment> \<open>One round of the loop of \<open>run_udp_listener\<close>; \<open>None\<close> when it waits for a datagram.  One that is too
      long for the buffer makes \<open>recv_from\<close> fail.\<close>
  "listener_step D P self net =
     (case ip_receive D (listen_addr self) (un_ip net) of
        None \<Rightarrow> None
      | Some (ip', bytes) \<Rightarrow>
          let net1 = net\<lparr>un_ip := ip'\<rparr> in
          if max_packet_size < length bytes then Some net1
          else case decode_packet P bytes of
                 None \<Rightarrow> Some net1
               | Some fm \<Rightarrow>
                   (case chan_try_send 64 fm (un_inbox net1 self) of
                      Some q \<Rightarrow> Some (net1\<lparr>un_inbox := (un_inbox net1)(self := q)\<rparr>)
                    | None \<Rightarrow> Some net1))"

text \<open>The steps of the tasks of the transport, and those of the IP stack.\<close>

inductive udp_internal :: "'ip ip_stack \<Rightarrow> postcard \<Rightarrow> 'ip udp_net \<Rightarrow> 'ip udp_net \<Rightarrow> bool" for D P where
  sent: "i \<in> {1..5} \<Longrightarrow> sender_step D P i net = Some net' \<Longrightarrow> udp_internal D P net net'"
| heard: "i \<in> {1..5} \<Longrightarrow> listener_step D P i net = Some net' \<Longrightarrow> udp_internal D P net net'"
| carried: "ip_step D (un_ip net) ip' \<Longrightarrow> udp_internal D P net (net\<lparr>un_ip := ip'\<rparr>)"

section \<open>What is in flight\<close>

definition packet_for :: "postcard \<Rightarrow> node_id \<Rightarrow> endpoint \<times> bytes \<Rightarrow> (node_id \<times> string raft_msg) multiset" where
  "packet_for P j p = (if fst p = listen_addr j then
     case decode_packet P (snd p) of None \<Rightarrow> {#} | Some fm \<Rightarrow> {#fm#} else {#})"

definition ip_flight :: "postcard \<Rightarrow> node_id \<Rightarrow> (endpoint \<times> bytes) multiset \<Rightarrow> (node_id \<times> string raft_msg) multiset" where
  "ip_flight P j datagrams = (\<Sum>p\<in>#datagrams. packet_for P j p)"

definition udp_flight ::
  "postcard \<Rightarrow> ('ip \<Rightarrow> (endpoint \<times> bytes) multiset) \<Rightarrow> 'ip udp_net \<Rightarrow> node_id \<Rightarrow> (node_id \<times> string raft_msg) multiset" where
  "udp_flight P carried net j =
     outbox_flight j (un_outbox net) + ip_flight P j (carried (un_ip net)) + mset (un_inbox net j)"

definition udp_ok :: "'ip udp_net \<Rightarrow> bool" where
  "udp_ok net \<longleftrightarrow> (\<forall>i t m. (t, m) \<in> set (un_outbox net i) \<longrightarrow> msg_fits m)"

lemma ip_flight_simps [simp]:
  "ip_flight P j {#} = {#}" "ip_flight P j (add_mset p M) = packet_for P j p + ip_flight P j M"
  by (simp_all add: ip_flight_def)

lemma ip_flight_mono: "M \<subseteq># N \<Longrightarrow> ip_flight P j M \<subseteq># ip_flight P j N"
  by (auto simp: ip_flight_def subset_mset.le_iff_add)

lemma peer_addr: "u64_sub t 1 < 5 \<Longrightarrow> peer_addrs ! u64_sub t 1 = listen_addr t"
proof -
  assume "u64_sub t 1 < 5"
  then have "t = 1 \<or> t = 2 \<or> t = 3 \<or> t = 4 \<or> t = 5"
    by (auto simp: u64_sub_def u64_limit_def split: if_splits)
  then show ?thesis by (auto simp: peer_addrs_def listen_addr_def u64_sub_small)
qed

section \<open>The contract holds\<close>

lemma udp_send_flight:
  assumes "i \<in> {1..5}" and "udp_send i t m net = Some net'"
  shows "udp_flight P carried net' j \<subseteq># udp_flight P carried net j + (if j = t then {#(i, m)#} else {#})"
proof (cases "length (un_outbox net i) < 64")
  case True
  then have net': "net' = net\<lparr>un_outbox := (un_outbox net)(i := un_outbox net i @ [(t, m)])\<rparr>"
    using assms(2) by (simp add: udp_send_def chan_try_send_def)
  from outbox_flight_update [OF assms(1), of j "un_outbox net" "un_outbox net i @ [(t, m)]"] show ?thesis
    by (auto simp: udp_flight_def net' ac_simps)
next
  case False
  then have "net' = net" using assms(2) by (simp add: udp_send_def chan_try_send_def)
  then show ?thesis by simp
qed

lemma sender_step_flight:
  assumes P: "postcard_ok P" and D: "never_duplicates D carried ip0" and ok: "udp_ok net" and i: "i \<in> {1..5}"
    and step: "sender_step D P i net = Some net'"
  shows "udp_flight P carried net' j \<subseteq># udp_flight P carried net j"
proof -
  obtain t m rest where out: "un_outbox net i = (t, m) # rest"
    using step by (auto simp: sender_step_def split: list.splits)
  have fit: "msg_fits m" using ok out unfolding udp_ok_def by (metis list.set_intros(1))
  let ?net1 = "net\<lparr>un_outbox := (un_outbox net)(i := rest)\<rparr>"
  from outbox_flight_update [OF i, of j "un_outbox net" rest] out
  have less: "udp_flight P carried ?net1 j + (if t = j then {#(i, m)#} else {#}) = udp_flight P carried net j"
    by (simp add: udp_flight_def ac_simps)
  show ?thesis
  proof (cases "encode_packet P i t m")
    case None
    with step out have "net' = ?net1" by (simp add: sender_step_def Let_def)
    with less show ?thesis by (metis mset_subset_eq_add_left)
  next
    case (Some b)
    let ?e = "peer_addrs ! u64_sub t 1"
    from Some step out have idx: "u64_sub t 1 < 5" and net': "net' = ?net1\<lparr>un_ip := ip_send D i ?e b (un_ip net)\<rparr>"
      by (simp_all add: sender_step_def Let_def split: if_splits)
    have "packet_for P j (?e, b) = (if t = j then {#(i, m)#} else {#})"
      using decode_encode [OF P fit Some]
      unfolding packet_for_def fst_conv snd_conv peer_addr [OF idx] by (auto simp: listen_addr_def)
    moreover have "ip_flight P j (carried (ip_send D i ?e b (un_ip net))) \<subseteq>#
        ip_flight P j (add_mset (?e, b) (carried (un_ip net)))"
      by (rule ip_flight_mono [OF never_duplicatesD(2) [OF D]])
    ultimately have "udp_flight P carried net' j \<subseteq># udp_flight P carried ?net1 j + (if t = j then {#(i, m)#} else {#})"
      by (simp add: udp_flight_def net' ac_simps)
    then show ?thesis by (simp only: less)
  qed
qed

lemma listener_step_flight:
  assumes D: "never_duplicates D carried ip0" and step: "listener_step D P i net = Some net'"
  shows "udp_flight P carried net' j \<subseteq># udp_flight P carried net j"
proof -
  obtain ip' b where rcv: "ip_receive D (listen_addr i) (un_ip net) = Some (ip', b)"
    using step by (auto simp: listener_step_def split: option.splits)
  then have "add_mset (listen_addr i, b) (carried ip') \<subseteq># carried (un_ip net)"
    by (rule never_duplicatesD(3) [OF D])
  from ip_flight_mono [OF this, of P j]
  have less: "packet_for P j (listen_addr i, b) + ip_flight P j (carried ip') \<subseteq># ip_flight P j (carried (un_ip net))"
    by simp
  have packet: "packet_for P j (listen_addr i, b) =
      (if j = i then case decode_packet P b of None \<Rightarrow> {#} | Some fm \<Rightarrow> {#fm#} else {#})"
    by (auto simp: packet_for_def listen_addr_def)
  consider "net' = net\<lparr>un_ip := ip'\<rparr>"
    | fm where "decode_packet P b = Some fm" "net' = net\<lparr>un_ip := ip', un_inbox := (un_inbox net)(i := un_inbox net i @ [fm])\<rparr>"
    using step rcv by (auto simp: listener_step_def chan_try_send_def Let_def split: if_splits option.splits)
  then show ?thesis
  proof cases
    case 1
    have "ip_flight P j (carried ip') \<subseteq># ip_flight P j (carried (un_ip net))"
      using less by (metis mset_subset_eq_add_right subset_mset.order_trans)
    then show ?thesis by (simp add: 1 udp_flight_def)
  next
    case 2
    with less packet show ?thesis by (auto simp: udp_flight_def ac_simps)
  qed
qed

lemma ip_step_flight:
  assumes "never_duplicates D carried ip0" and "ip_step D (un_ip net) ip'"
  shows "udp_flight P carried (net\<lparr>un_ip := ip'\<rparr>) j \<subseteq># udp_flight P carried net j"
  using assms ip_flight_mono [of "carried ip'" "carried (un_ip net)" P j] by (simp add: never_duplicates_def udp_flight_def)

lemma udp_internal_flight:
  "postcard_ok P \<Longrightarrow> never_duplicates D carried ip0 \<Longrightarrow> udp_ok net \<Longrightarrow> udp_internal D P net net' \<Longrightarrow>
   udp_flight P carried net' j \<subseteq># udp_flight P carried net j"
  by (auto elim!: udp_internal.cases simp: ip_step_flight listener_step_flight sender_step_flight)

lemma udp_internal_outbox:
  "udp_internal D P net net' \<Longrightarrow> set (un_outbox net' i) \<subseteq> set (un_outbox net i)"
  by (auto elim!: udp_internal.cases simp: sender_step_def listener_step_def Let_def
      split: list.splits option.splits if_splits)

lemma udp_internal_ok: "udp_ok net \<Longrightarrow> udp_internal D P net net' \<Longrightarrow> udp_ok net'"
  using udp_internal_outbox unfolding udp_ok_def by blast

lemma udp_recv_Some:
  assumes "udp_recv i net = (net', Some fm)"
  obtains q where "un_inbox net i = fm # q" "net' = net\<lparr>un_inbox := (un_inbox net)(i := q)\<rparr>"
  using assms by (auto simp: udp_recv_def chan_try_receive_def split: list.splits)

definition udp_ops :: "'ip ip_stack \<Rightarrow> postcard \<Rightarrow> 'ip udp_net transport_ops" where
  "udp_ops D P = \<lparr>tr_send = udp_send, tr_recv = udp_recv, tr_internal = udp_internal D P\<rparr>"

lemma udp_ops_simps [simp]:
  "tr_send (udp_ops D P) = udp_send" "tr_recv (udp_ops D P) = udp_recv" "tr_internal (udp_ops D P) = udp_internal D P"
  by (simp_all add: udp_ops_def)

text \<open>The contract, for every \<open>postcard\<close> that decodes what it encoded and every stack that does not duplicate.\<close>

lemma udp_contract:
  assumes "postcard_ok P" and "never_duplicates D carried ip0"
  shows "async_transport (udp_ops D P) (udp_flight P carried) udp_ok (udp_new ip0)"
proof (unfold_locales, goal_cases)
  case (2 j)
  then show ?case using assms(2) by (simp add: udp_flight_def udp_new_def outbox_flight_def never_duplicates_def)
next
  case (3 net m i t net')
  then have "net' = net \<or> net' = net\<lparr>un_outbox := (un_outbox net)(i := un_outbox net i @ [(t, m)])\<rparr>"
    by (auto simp: udp_send_def chan_try_send_def split: option.splits if_splits)
  with 3 show ?case by (auto simp: udp_ok_def split: if_splits)
next
  case (4 net m i t net' j)
  then show ?case by (simp add: udp_send_flight)
next
  case (5 net i net' fm)
  from 5(3) have "udp_recv i net = (net', Some fm)" by simp
  then show ?case by (rule udp_recv_Some) (use 5 in \<open>simp add: udp_ok_def\<close>)
next
  case (6 net i net' fm j)
  from 6(3) have "udp_recv i net = (net', Some fm)" by simp
  then show ?case by (rule udp_recv_Some) (auto simp: udp_flight_def)
next
  case (7 net net')
  then show ?case using udp_internal_ok [of net D P] by simp
next
  case (8 net net' j)
  then show ?case using udp_internal_flight [OF assms, of net] by simp
qed (simp add: udp_ok_def udp_new_def)

end
