(* ===== verification/Embassy_System.thy ===== *)
theory Embassy_System
  imports Udp_Transport
begin

text \<open>
  The whole bare-metal cluster: five node tasks, an asynchronous transport and the client queues
  (\<open>client_channel_hub.rs\<close>, \<open>cancellation_token.rs\<close>, the \<open>initialize_client\<close> of the two
  configurations).  Every interleaving of the tasks is a run of the labelled step relation
  \<open>system_step\<close>.  The main result is that such a run is a run of the cluster of \<open>Cluster\<close>: what is
  proved there of elections and logs holds of the bare-metal cluster, over either transport.
\<close>

section \<open>The system\<close>

record ('s, 'c, 'net) embassy_system =
  sy_nodes :: "node_id \<Rightarrow> ('s, 'c) embassy_node"
  sy_net :: 'net
  sy_clients :: "node_id \<Rightarrow> 'c client_request list"
  sy_cancelled :: bool

definition system_boot ::
  "('s, string) storage_ops \<Rightarrow> (node_id \<Rightarrow> 's) \<Rightarrow> nat \<Rightarrow> 'net \<Rightarrow> ('s, 'c, 'net) embassy_system" where
  "system_boot S st now net =
     \<lparr>sy_nodes = (\<lambda>i. embassy_node_new S i (st i) now), sy_net = net, sy_clients = (\<lambda>_. []),
      sy_cancelled = False\<rparr>"

datatype 'c label = Handled node_id "'c selected" | Other

definition incoming ::
  "'net transport_ops \<Rightarrow> node_id \<Rightarrow> ('s, 'c, 'net) embassy_system \<Rightarrow> (node_id \<times> string raft_msg) option" where
  "incoming T i sy = snd (tr_recv T i (sy_net sy))"

definition take_selected ::
  "('s, string) storage_ops \<Rightarrow> 'net transport_ops \<Rightarrow> node_id \<Rightarrow> 'c selected
   \<Rightarrow> ('s, 'c, 'net) embassy_system \<Rightarrow> ('s, 'c, 'net) embassy_system option" where
  \<comment> \<open>The selected future has taken its value out of its queue; the node handles it.\<close>
  "take_selected S T i sel sy =
     map_option
       (\<lambda>n. sy\<lparr>sy_nodes := (sy_nodes sy)(i := n),
               sy_net := (case sel of Received _ _ \<Rightarrow> fst (tr_recv T i (sy_net sy)) | _ \<Rightarrow> sy_net sy),
               sy_clients := (case sel of
                  ClientRequested _ \<Rightarrow> (sy_clients sy)(i := tl (sy_clients sy i)) | _ \<Rightarrow> sy_clients sy)\<rparr>)
       (handle_selected S sel (sy_nodes sy i))"

definition set_node :: "node_id \<Rightarrow> ('s, 'c) embassy_node \<Rightarrow> ('s, 'c, 'net) embassy_system \<Rightarrow> ('s, 'c, 'net) embassy_system" where
  "set_node i n sy = sy\<lparr>sy_nodes := (sy_nodes sy)(i := n)\<rparr>"

definition client_submit :: "node_id \<Rightarrow> 'c client_request \<Rightarrow> ('s, 'c, 'net) embassy_system \<Rightarrow> ('s, 'c, 'net) embassy_system option" where
  \<comment> \<open>\<open>client_channels[i - 1].try_send(request)\<close>; there are five channels of four requests each.\<close>
  "client_submit i request sy =
     (if 1 \<le> i \<and> i \<le> 5
      then map_option (\<lambda>q. sy\<lparr>sy_clients := (sy_clients sy)(i := q)\<rparr>) (chan_try_send 4 request (sy_clients sy i))
      else None)"

definition cancel :: "('s, 'c, 'net) embassy_system \<Rightarrow> ('s, 'c, 'net) embassy_system" where
  "cancel sy = sy\<lparr>sy_cancelled := True\<rparr>"

definition system_elapse :: "nat \<Rightarrow> ('s, 'c, 'net) embassy_system \<Rightarrow> ('s, 'c, 'net) embassy_system" where
  "system_elapse ticks sy = sy\<lparr>sy_nodes := \<lambda>i. node_elapse ticks (sy_nodes sy i)\<rparr>"

inductive system_step ::
  "('s, string) storage_ops \<Rightarrow> 'net transport_ops \<Rightarrow> 'c label
   \<Rightarrow> ('s, 'c, 'net) embassy_system \<Rightarrow> ('s, 'c, 'net) embassy_system \<Rightarrow> bool"
  for S T where
  polled: "i \<in> {1..5} \<Longrightarrow> en_phase (sy_nodes sy i) = Polling \<Longrightarrow>
    first_ready (sy_cancelled sy) (sy_clients sy i) (incoming T i sy) (sy_nodes sy i) = Some sel \<Longrightarrow>
    take_selected S T i sel sy = Some sy' \<Longrightarrow> system_step S T (Handled i sel) sy sy'"
| slept: "i \<in> {1..5} \<Longrightarrow> en_phase (sy_nodes sy i) = Polling \<Longrightarrow>
    first_ready (sy_cancelled sy) (sy_clients sy i) (incoming T i sy) (sy_nodes sy i) = None \<Longrightarrow>
    system_step S T Other sy (set_node i ((sy_nodes sy i)\<lparr>en_phase := Waiting\<rparr>) sy)"
| woken: "i \<in> {1..5} \<Longrightarrow> en_phase (sy_nodes sy i) = Waiting \<Longrightarrow>
    is_ready (sy_cancelled sy) (sy_clients sy i) (incoming T i sy) (sy_nodes sy i) sel \<Longrightarrow>
    take_selected S T i sel sy = Some sy' \<Longrightarrow> system_step S T (Handled i sel) sy sy'"
| sent: "i \<in> {1..5} \<Longrightarrow> en_phase (sy_nodes sy i) = Sending \<Longrightarrow> en_unsent (sy_nodes sy i) = (t, m) # rest \<Longrightarrow>
    tr_send T i t m (sy_net sy) = Some net' \<Longrightarrow>
    system_step S T Other sy ((set_node i ((sy_nodes sy i)\<lparr>en_unsent := rest\<rparr>) sy)\<lparr>sy_net := net'\<rparr>)"
| finished: "i \<in> {1..5} \<Longrightarrow> en_phase (sy_nodes sy i) = Sending \<Longrightarrow> en_unsent (sy_nodes sy i) = [] \<Longrightarrow>
    system_step S T Other sy (set_node i (finish_iteration (sy_nodes sy i)) sy)"
| transported: "tr_internal T (sy_net sy) net' \<Longrightarrow> system_step S T Other sy (sy\<lparr>sy_net := net'\<rparr>)"
| requested: "client_submit i request sy = Some sy' \<Longrightarrow> system_step S T Other sy sy'"
| cancelled: "system_step S T Other sy (cancel sy)"
| elapsed: "system_step S T Other sy (system_elapse ticks sy)"

inductive system_run ::
  "('s, string) storage_ops \<Rightarrow> 'net transport_ops \<Rightarrow> 'c label list
   \<Rightarrow> ('s, 'c, 'net) embassy_system \<Rightarrow> ('s, 'c, 'net) embassy_system \<Rightarrow> bool"
  for S T where
  none: "system_run S T [] sy sy"
| more: "system_step S T l sy sy1 \<Longrightarrow> system_run S T ls sy1 sy2 \<Longrightarrow> system_run S T (l # ls) sy sy2"

text \<open>The commands that have been handed to a node.\<close>

fun is_write :: "'c label \<Rightarrow> bool" where
  "is_write (Handled i (ClientRequested (Write p tx))) = True"
| "is_write _ = False"

definition write_count :: "'c label list \<Rightarrow> nat" where
  "write_count ls = length (filter is_write ls)"

section \<open>The cluster behind the system\<close>

abbreviation embassy_ids :: "node_id list" where
  "embassy_ids \<equiv> [1, 2, 3, 4, 5]"

abbreviation abstract_env :: "('s, string) storage_ops \<Rightarrow> ('s, embassy_state_machine, unit, string) env" where
  "abstract_env S \<equiv> untimed (embassy_env S)"

definition embassy_cluster ::
  "('s, string) storage_ops \<Rightarrow> (node_id \<Rightarrow> 's) \<Rightarrow> ('s, embassy_state_machine, unit, string) cluster" where
  "embassy_cluster S st = cluster_init (abstract_env S) embassy_ids st esm_new (\<lambda>_. ()) 10"

lemma forget_read: "fst (read_linearizable (untimed E) key (forget n)) = forget (fst (read_linearizable E key n))"
  by (simp add: read_linearizable_eq)

lemma forget_elapse:
  "forget (en_raft (node_elapse d n)) =
     (forget (en_raft n))\<lparr>rn_lease := lease_advance d (rn_lease (forget (en_raft n)))\<rparr>"
  by (simp add: node_elapse_def forget_update)

lemma process_committed_frame [simp]:
  "en_raft (process_committed_requests n) = en_raft n" "en_unsent (process_committed_requests n) = en_unsent n"
  "en_id (process_committed_requests n) = en_id n" "en_phase (process_committed_requests n) = en_phase n"
proof -
  have "en_raft (fold complete_request is m) = en_raft m \<and> en_unsent (fold complete_request is m) = en_unsent m \<and>
      en_id (fold complete_request is m) = en_id m \<and> en_phase (fold complete_request is m) = en_phase m" for "is" and m :: "('a, 'b) embassy_node"
    by (induction "is" arbitrary: m) (simp_all add: complete_request_def reply_def split: option.splits)
  then show "en_raft (process_committed_requests n) = en_raft n" "en_unsent (process_committed_requests n) = en_unsent n"
    "en_id (process_committed_requests n) = en_id n" "en_phase (process_committed_requests n) = en_phase n"
    by (simp_all add: process_committed_requests_def)
qed

section \<open>The simulation\<close>

text \<open>
  The nodes are those of the cluster up to their timers, and what is under way to a node, in its
  peers' hands or in the transport, is in the node's queue of the broker, which may hold more.
\<close>

definition under_way ::
  "('net \<Rightarrow> node_id \<Rightarrow> (node_id \<times> string raft_msg) multiset) \<Rightarrow> ('s, 'c, 'net) embassy_system \<Rightarrow> node_id
   \<Rightarrow> (node_id \<times> string raft_msg) multiset" where
  "under_way fl sy j = fl (sy_net sy) j + outbox_flight j (\<lambda>i. en_unsent (sy_nodes sy i))"

definition nodes_match ::
  "('s, 'c, 'net) embassy_system \<Rightarrow> ('s, embassy_state_machine, unit, string) cluster \<Rightarrow> bool" where
  "nodes_match sy cl \<longleftrightarrow> cl_ids cl = embassy_ids \<and>
     (\<forall>i\<in>{1..5}. cl_nodes cl i = Some (forget (en_raft (sy_nodes sy i))) \<and> rn_outbox (en_raft (sy_nodes sy i)) = [])"

definition unsent_fit :: "('s, 'c, 'net) embassy_system \<Rightarrow> bool" where
  "unsent_fit sy \<longleftrightarrow> (\<forall>i\<in>{1..5}. \<forall>t m. (t, m) \<in> set (en_unsent (sy_nodes sy i)) \<longrightarrow> msg_fits m)"

definition simulates ::
  "('net \<Rightarrow> node_id \<Rightarrow> (node_id \<times> string raft_msg) multiset) \<Rightarrow> ('net \<Rightarrow> bool) \<Rightarrow> ('s, 'c, 'net) embassy_system
   \<Rightarrow> ('s, embassy_state_machine, unit, string) cluster \<Rightarrow> bool" where
  "simulates fl ok sy cl \<longleftrightarrow> ok (sy_net sy) \<and> nodes_match sy cl \<and> unsent_fit sy \<and>
     (\<forall>j. under_way fl sy j \<subseteq># mset (queue_of (cl_broker cl) j))"

lemma set_node_simps [simp]:
  "sy_nodes (set_node i n sy) = (sy_nodes sy)(i := n)" "sy_net (set_node i n sy) = sy_net sy"
  by (simp_all add: set_node_def)

lemma under_way_set_node:
  "i \<in> {1..5} \<Longrightarrow> under_way fl (set_node i n sy) j + out_to j i (en_unsent (sy_nodes sy i)) =
     under_way fl sy j + out_to j i (en_unsent n)"
  using outbox_flight_update [of i j "\<lambda>k. en_unsent (sy_nodes sy k)" "en_unsent n"]
  by (simp add: under_way_def fun_upd_def if_distrib [of en_unsent] ac_simps cong: if_cong)

lemma simulates_frame:
  "simulates fl ok sy cl \<Longrightarrow> sy_nodes sy' = sy_nodes sy \<Longrightarrow> sy_net sy' = sy_net sy \<Longrightarrow> simulates fl ok sy' cl"
  by (simp add: simulates_def nodes_match_def unsent_fit_def under_way_def)

lemma simulates_shrink:
  assumes "simulates fl ok sy cl" and "\<And>j. under_way fl sy' j \<subseteq># under_way fl sy j"
    and "ok (sy_net sy')" and "nodes_match sy' cl'" and "unsent_fit sy'" and "cl_broker cl' = cl_broker cl"
  shows "simulates fl ok sy' cl'"
  using assms subset_mset.order_trans unfolding simulates_def by metis

text \<open>A step of one node that the cluster does not see, because it changes neither raft state nor messages.\<close>

lemma simulates_quiet:
  assumes "simulates fl ok sy cl" and "i \<in> {1..5}" and "forget (en_raft n) = forget (en_raft (sy_nodes sy i))"
    and "en_unsent n = en_unsent (sy_nodes sy i) \<or> en_unsent n = []"
  shows "simulates fl ok (set_node i n sy) cl"
proof -
  have "rn_outbox (en_raft n) = rn_outbox (en_raft (sy_nodes sy i))"
    using assms(3) by (metis forget_simps(5))
  then have "nodes_match (set_node i n sy) cl" "unsent_fit (set_node i n sy)"
    using assms by (auto simp: simulates_def nodes_match_def unsent_fit_def)
  moreover have "under_way fl (set_node i n sy) j \<subseteq># under_way fl sy j" for j
    using under_way_set_node [OF assms(2), of fl n sy j] assms(4) by auto (metis mset_subset_eq_add_left)
  ultimately show ?thesis
    using assms(1) unfolding simulates_def by (metis set_node_simps(2) subset_mset.order_trans)
qed

text \<open>An event at a node, whose messages the node takes into its hands.\<close>

lemma simulates_event:
  assumes sim: "simulates fl ok sy cl" and i: "i \<in> {1..5}" and S: "bounded_batches S"
    and raft: "raft = on_event (embassy_env S) ev (en_raft (sy_nodes sy i))"
    and n: "en_raft n = raft\<lparr>rn_outbox := []\<rparr>" "en_unsent n = rn_outbox raft"
  shows "simulates fl ok (set_node i n sy) (feed (abstract_env S) i ev cl)"
proof -
  have match: "nodes_match sy cl" using sim by (simp add: simulates_def)
  then have node: "cl_nodes cl i = Some (forget (en_raft (sy_nodes sy i)))"
    and outbox: "rn_outbox (en_raft (sy_nodes sy i)) = []" using i by (simp_all add: nodes_match_def)
  have feed: "feed (abstract_env S) i ev cl =
      cl\<lparr>cl_nodes := (cl_nodes cl)(i \<mapsto> forget (en_raft n)), cl_broker := post i (en_unsent n) (cl_broker cl)\<rparr>"
    by (simp add: feed_def node forget_on_event flip: raft) (simp add: n forget_update)
  have "nodes_match (set_node i n sy) (feed (abstract_env S) i ev cl)"
    using match by (simp add: feed nodes_match_def n)
  moreover have "unsent_fit (set_node i n sy)"
    using sim on_event_sends_fit [of "embassy_env S", OF _ outbox] S
    by (auto simp: simulates_def unsent_fit_def n raft)
  moreover have "under_way fl (set_node i n sy) j \<subseteq># mset (queue_of (cl_broker (feed (abstract_env S) i ev cl)) j)" for j
  proof -
    have "under_way fl (set_node i n sy) j \<subseteq># under_way fl sy j + out_to j i (en_unsent n)"
      using under_way_set_node [OF i, of fl n sy j] by (metis mset_subset_eq_add_left)
    also have "\<dots> \<subseteq># mset (queue_of (cl_broker cl) j) + out_to j i (en_unsent n)"
      using sim by (simp add: simulates_def)
    also have "\<dots> = mset (queue_of (cl_broker (feed (abstract_env S) i ev cl)) j)"
      by (simp add: feed queue_of_post out_to_def)
    finally show ?thesis .
  qed
  ultimately show ?thesis using sim by (simp add: simulates_def)
qed

lemma deliver_position:
  assumes "(f, m) \<in># mset (queue_of b i)"
  obtains pos b' where "remove_at i pos b = (b', Some (f, m))"
    "mset (queue_of b' i) + {#(f, m)#} = mset (queue_of b i)" "\<And>j. j \<noteq> i \<Longrightarrow> queue_of b' j = queue_of b j"
proof -
  from assms obtain pos where pos: "pos < length (queue_of b i)" "queue_of b i ! pos = (f, m)"
    by (auto simp: in_set_conv_nth)
  then obtain b' where rm: "remove_at i pos b = (b', Some (f, m))"
    by (simp add: remove_at_def Let_def)
  note q = remove_at_Some [OF rm]
  have "mset (queue_of b' i) + {#(f, m)#} = mset (queue_of b i)"
    using arg_cong [OF q(1), of mset] by (simp add: q(2))
  with rm q(2) that show thesis by auto
qed

context async_transport
begin

lemma drained: "rn_outbox n = [] \<Longrightarrow> n\<lparr>rn_outbox := []\<rparr> = n"
  by (cases n) simp

text \<open>Receiving a message is taking it out of the broker's queue.\<close>

lemma simulates_recv:
  assumes sim: "simulates flight net_ok sy cl" and i: "i \<in> {1..5}"
    and recv: "tr_recv T i (sy_net sy) = (net', Some (f, m))"
  obtains pos b where "remove_at i pos (cl_broker cl) = (b, Some (f, m))"
    "simulates flight net_ok (sy\<lparr>sy_net := net'\<rparr>) (cl\<lparr>cl_broker := b\<rparr>)"
proof -
  have ok: "net_ok (sy_net sy)" and under: "under_way flight sy j \<subseteq># mset (queue_of (cl_broker cl) j)" for j
    using sim by (simp_all add: simulates_def)
  note fl = recv_flight [OF ok i recv]
  have less: "under_way flight (sy\<lparr>sy_net := net'\<rparr>) j + (if j = i then {#(f, m)#} else {#}) \<subseteq># under_way flight sy j" for j
    using fl [of j] by (simp add: under_way_def ac_simps)
  have "{#(f, m)#} \<subseteq># mset (queue_of (cl_broker cl) i)"
    using less [of i] under [of i] by (metis (full_types) mset_subset_eq_add_right subset_mset.order_trans)
  then have "(f, m) \<in># mset (queue_of (cl_broker cl) i)" by simp
  then obtain pos b where b: "remove_at i pos (cl_broker cl) = (b, Some (f, m))"
    "mset (queue_of b i) + {#(f, m)#} = mset (queue_of (cl_broker cl) i)" "\<And>j. j \<noteq> i \<Longrightarrow> queue_of b j = queue_of (cl_broker cl) j"
    by (rule deliver_position) blast
  have "under_way flight (sy\<lparr>sy_net := net'\<rparr>) j \<subseteq># mset (queue_of b j)" for j
  proof (cases "j = i")
    case True
    from subset_mset.order_trans [OF less under, of i] b(2)
    have "under_way flight (sy\<lparr>sy_net := net'\<rparr>) i + {#(f, m)#} \<subseteq># mset (queue_of b i) + {#(f, m)#}" by simp
    with True show ?thesis by simp
  next
    case False
    with subset_mset.order_trans [OF less under, of j] b(3) show ?thesis by simp
  qed
  moreover have "nodes_match (sy\<lparr>sy_net := net'\<rparr>) (cl\<lparr>cl_broker := b\<rparr>)" "unsent_fit (sy\<lparr>sy_net := net'\<rparr>)"
    using sim by (simp_all add: simulates_def nodes_match_def unsent_fit_def)
  ultimately show thesis
    using that [OF b(1)] recv_ok [OF ok i recv] by (simp add: simulates_def)
qed

text \<open>Handling what was selected is one action of the cluster, or none.\<close>

lemma selected_simulated:
  assumes sim: "simulates flight net_ok sy cl" and i: "i \<in> {1..5}" and S: "bounded_batches S"
    and ready: "\<And>f m. sel = Received f m \<Longrightarrow> incoming T i sy = Some (f, m)"
    and took: "take_selected S T i sel sy = Some sy'"
  shows "\<exists>acts. length acts \<le> 1 \<and> (\<forall>a\<in>set acts. keeps_members a) \<and>
    submit_count acts = (if is_write (Handled i sel) then 1 else 0) \<and>
    simulates flight net_ok sy' (run_cluster (abstract_env S) acts cl)"
proof -
  let ?E = "embassy_env S" and ?n = "sy_nodes sy i"
  have node: "cl_nodes cl i = Some (forget (en_raft ?n))" and outbox: "rn_outbox (en_raft ?n) = []"
    using sim i by (simp_all add: simulates_def nodes_match_def)
  have one: ?thesis if "keeps_members a" "submit_count [a] = (if is_write (Handled i sel) then 1 else 0)"
    "simulates flight net_ok sy' (act (abstract_env S) a cl)" for a
    using that by (intro exI [of _ "[a]"]) (simp add: run_cluster_def)
  have zero: ?thesis if "\<not> is_write (Handled i sel)" "simulates flight net_ok sy' cl"
    using that by (intro exI [of _ "[]"]) (simp add: run_cluster_def submit_count_def)
  obtain n where n: "handle_selected S sel ?n = Some n" and
    sy': "sy_nodes sy' = (sy_nodes sy)(i := n)"
      "sy_net sy' = (case sel of Received _ _ \<Rightarrow> fst (tr_recv T i (sy_net sy)) | _ \<Rightarrow> sy_net sy)"
    using took by (auto simp: take_selected_def)
  show ?thesis
  proof (cases sel)
    case Cancelled
    with n have "n = ?n\<lparr>en_phase := Stopped\<rparr>" by (simp add: handle_selected_def)
    then have "simulates flight net_ok (set_node i n sy) cl"
      by (intro simulates_quiet [OF sim i]) simp_all
    with Cancelled sy' show ?thesis by (intro zero) (auto elim!: simulates_frame)
  next
    case (TimerExpired k)
    with n have "n = drain (raft_event S (TimerFired k) ?n)" by (simp add: handle_selected_def)
    then have "simulates flight net_ok (set_node i n sy) (feed (abstract_env S) i (TimerFired k) cl)"
      by (intro simulates_event [OF sim i S refl]) (simp_all add: drain_def raft_event_def Let_def)
    with TimerExpired sy' show ?thesis
      by (intro one [of "Fire i k"]) (auto simp: submit_count_def elim!: simulates_frame)
  next
    case (Received f m)
    with n have n': "n = drain (raft_event S (Message f m) ?n)" by (simp add: handle_selected_def)
    obtain net' where recv: "tr_recv T i (sy_net sy) = (net', Some (f, m))"
      using ready [OF Received] unfolding incoming_def by (metis prod.collapse)
    obtain pos b where b: "remove_at i pos (cl_broker cl) = (b, Some (f, m))"
      "simulates flight net_ok (sy\<lparr>sy_net := net'\<rparr>) (cl\<lparr>cl_broker := b\<rparr>)"
      by (rule simulates_recv [OF sim i recv])
    from b(2) have "simulates flight net_ok (set_node i n (sy\<lparr>sy_net := net'\<rparr>))
        (feed (abstract_env S) i (Message f m) (cl\<lparr>cl_broker := b\<rparr>))"
      by (rule simulates_event [OF _ i S refl]) (simp_all add: n' drain_def raft_event_def Let_def)
    with Received sy' recv b(1) show ?thesis
      by (intro one [of "Deliver i pos"]) (auto simp: submit_count_def elim!: simulates_frame)
  next
    case (ClientRequested request)
    with n obtain n0 where n0: "handle_client_request S request ?n = Some n0" "n = drain n0"
      by (auto simp: handle_selected_def)
    show ?thesis
    proof (cases request)
      case (Write p tx)
      have raft: "en_raft n0 = on_event ?E (ClientCommand p) (en_raft ?n)"
        using n0(1) Write by (auto simp: handle_client_request_def node_submit_client_command_def reply_def
            split: prod.splits sum.splits client_error.splits option.splits)
      then have "simulates flight net_ok (set_node i n sy) (feed (abstract_env S) i (ClientCommand p) cl)"
        by (intro simulates_event [OF sim i S raft [symmetric, THEN sym]]) (simp_all add: n0(2) drain_def)
      with ClientRequested Write sy' show ?thesis
        by (intro one [of "Submit i p"]) (auto simp: submit_count_def elim!: simulates_frame)
    next
      case (Read key tx)
      have raft: "en_raft n0 = fst (read_linearizable ?E key (en_raft ?n))"
        using n0(1) Read by (auto simp: handle_client_request_def reply_def
            split: prod.splits sum.splits read_error.splits option.splits)
      then have quiet: "rn_outbox (en_raft n0) = []" by (simp add: read_linearizable_eq outbox)
      then have same: "en_raft n = en_raft n0" using drained [OF quiet] unfolding n0(2) drain_def by simp
      let ?cl' = "act (abstract_env S) (ReadKey i key) cl"
      have cl': "?cl' = cl\<lparr>cl_nodes := (cl_nodes cl)(i \<mapsto> forget (en_raft n))\<rparr>"
        by (simp add: node forget_read same flip: raft)
      have "en_unsent n = []" "rn_outbox (en_raft n) = []" using quiet by (simp_all add: n0(2) drain_def)
      moreover have "under_way flight (set_node i n sy) j \<subseteq># under_way flight sy j" for j
        using under_way_set_node [OF i, of flight n sy j] \<open>en_unsent n = []\<close> by auto (metis mset_subset_eq_add_left)
      ultimately have "simulates flight net_ok (set_node i n sy) ?cl'"
        using sim unfolding cl' by (intro simulates_shrink [OF sim])
          (auto simp: simulates_def nodes_match_def unsent_fit_def)
      with ClientRequested Read sy' show ?thesis
        by (intro one [of "ReadKey i key"]) (auto simp: submit_count_def elim!: simulates_frame)
    next
      case GetLeader
      with n0(1) show ?thesis by (simp add: handle_client_request_def)
    qed
  qed
qed

lemma step_simulated:
  assumes sim: "simulates flight net_ok sy cl" and S: "bounded_batches S" and step: "system_step S T l sy sy'"
  shows "\<exists>acts. length acts \<le> 5 \<and> (\<forall>a\<in>set acts. keeps_members a) \<and>
    submit_count acts = (if is_write l then 1 else 0) \<and>
    simulates flight net_ok sy' (run_cluster (abstract_env S) acts cl)"
proof -
  have none: ?thesis if "l = Other" "simulates flight net_ok sy' cl"
    using that by (intro exI [of _ "[]"]) (simp add: run_cluster_def submit_count_def)
  have some: ?thesis if "l = Handled i sel" "i \<in> {1..5}" "\<And>f m. sel = Received f m \<Longrightarrow> incoming T i sy = Some (f, m)"
    "take_selected S T i sel sy = Some sy'" for i sel
  proof -
    have "\<exists>acts. length acts \<le> 1 \<and> (\<forall>a\<in>set acts. keeps_members a) \<and>
      submit_count acts = (if is_write l then 1 else 0) \<and>
      simulates flight net_ok sy' (run_cluster (abstract_env S) acts cl)"
      unfolding that(1) by (rule selected_simulated [OF sim that(2) S _ that(4)]) (rule that(3))
    then obtain acts where
      "length acts \<le> 1" "\<forall>a\<in>set acts. keeps_members a" "submit_count acts = (if is_write l then 1 else 0)"
      "simulates flight net_ok sy' (run_cluster (abstract_env S) acts cl)" by blast
    then show ?thesis by (intro exI [of _ acts]) simp
  qed
  from step show ?thesis
  proof cases
    case (polled i sel)
    then show ?thesis
      by (intro some) (auto simp: first_ready_def split: if_splits list.splits option.splits)
  next
    case (woken i sel)
    then show ?thesis by (intro some) (auto simp: is_ready_def)
  next
    case (slept i)
    then show ?thesis by (intro none) (auto intro!: simulates_quiet [OF sim])
  next
    case (finished i)
    then show ?thesis by (intro none) (auto intro!: simulates_quiet [OF sim] simp: finish_iteration_def)
  next
    case (sent i t m rest net')
    have ok: "net_ok (sy_net sy)" and fit: "msg_fits m"
      using sim sent(3,5) unfolding simulates_def unsent_fit_def by (blast, metis list.set_intros(1))
    have "under_way flight sy' j \<subseteq># under_way flight sy j" for j
    proof -
      let ?n = "(sy_nodes sy i)\<lparr>en_unsent := rest\<rparr>"
      have "under_way flight (set_node i ?n sy) j + (if j = t then {#(i, m)#} else {#}) = under_way flight sy j"
        using under_way_set_node [OF sent(3), of flight ?n sy j] sent(5) by (auto simp: ac_simps)
      moreover have "under_way flight sy' j \<subseteq># under_way flight (set_node i ?n sy) j + (if j = t then {#(i, m)#} else {#})"
        using send_flight [OF ok fit sent(3,6), of j] by (simp add: sent(2) under_way_def ac_simps)
      ultimately show ?thesis by simp
    qed
    moreover have "msg_fits m'" if "(t', m') \<in> set rest" for t' m'
      using sim sent(3,5) that unfolding simulates_def unsent_fit_def by (metis list.set_intros(2))
    then have "nodes_match sy' cl" "unsent_fit sy'"
      using sim by (auto simp: simulates_def nodes_match_def unsent_fit_def sent(2))
    moreover have "net_ok (sy_net sy')" using send_ok [OF ok fit sent(3,6)] by (simp add: sent(2))
    ultimately show ?thesis
      using sent(1) by (intro none simulates_shrink [OF sim]) simp_all
  next
    case (transported net')
    have ok: "net_ok (sy_net sy)" using sim by (simp add: simulates_def)
    have "under_way flight sy' j \<subseteq># under_way flight sy j" for j
      using internal_flight [OF ok transported(3), of j] by (simp add: transported(2) under_way_def)
    moreover have "nodes_match sy' cl" "unsent_fit sy'"
      using sim by (simp_all add: simulates_def nodes_match_def unsent_fit_def transported(2))
    ultimately show ?thesis
      using transported(1) internal_ok [OF ok transported(3)]
      by (intro none simulates_shrink [OF sim]) (simp_all add: transported(2))
  next
    case (requested i request)
    then show ?thesis using simulates_frame [OF sim] by (intro none) (auto simp: client_submit_def split: if_splits)
  next
    case cancelled
    then show ?thesis using simulates_frame [OF sim] by (intro none) (auto simp: cancel_def)
  next
    case (elapsed ticks)
    let ?acts = "map (\<lambda>i. Elapse i ticks) embassy_ids"
    have in_ids: "i \<in> set embassy_ids \<longleftrightarrow> i \<in> {1..5}" for i :: nat by (simp, arith)
    have "nodes_match sy' (run_cluster (abstract_env S) ?acts cl)"
      using sim by (auto simp: run_elapse simulates_def nodes_match_def elapsed(2) system_elapse_def forget_elapse
          in_ids simp del: list.map) (simp_all add: node_elapse_def)
    moreover have "under_way flight sy' j = under_way flight sy j" "unsent_fit sy' = unsent_fit sy" "sy_net sy' = sy_net sy" for j
      by (simp_all add: under_way_def unsent_fit_def elapsed(2) system_elapse_def node_elapse_def)
    moreover have "cl_broker (run_cluster (abstract_env S) ?acts cl) = cl_broker cl"
      by (simp add: run_elapse del: list.map)
    ultimately have "simulates flight net_ok sy' (run_cluster (abstract_env S) ?acts cl)"
      using sim by (simp add: simulates_def del: list.map)
    then show ?thesis
      using elapsed(1) by (intro exI [of _ ?acts]) (simp add: submit_count_def)
  qed
qed

end

end
