(* ===== verification/Semihosting_Storage.thy ===== *)
theory Semihosting_Storage
  imports Embassy_Storage Byte_Codec
begin

text \<open>
  \<open>embassy/src/configurations/storage/semihosting/semihosting_storage.rs\<close>: a storage that writes its
  term, vote, log and snapshot to files of the debug host after every change and reads them back
  when it is created.  The semihosting calls are a parameter.
\<close>

section \<open>The semihosting calls\<close>

text \<open>
  \<open>sys_open\<close> takes a file name and a mode and returns a handle, or the largest \<open>usize\<close>;
  \<open>sys_write\<close> and \<open>sys_read\<close> return the number of bytes they did not transfer, \<open>sys_read\<close> also
  what it read; \<open>sys_flen\<close> returns the length of an open file, or the largest \<open>usize\<close>.
\<close>

record 'h host_ops =
  sys_open :: "bytes \<Rightarrow> nat \<Rightarrow> 'h \<Rightarrow> 'h \<times> nat"
  sys_write :: "nat \<Rightarrow> bytes \<Rightarrow> 'h \<Rightarrow> 'h \<times> nat"
  sys_close :: "nat \<Rightarrow> 'h \<Rightarrow> 'h"
  sys_flen :: "nat \<Rightarrow> 'h \<Rightarrow> 'h \<times> nat"
  sys_read :: "nat \<Rightarrow> nat \<Rightarrow> 'h \<Rightarrow> 'h \<times> bytes \<times> nat"

definition usize32_max :: nat where
  "usize32_max = usize32_limit - 1"

definition write_file :: "'h host_ops \<Rightarrow> bytes \<Rightarrow> bytes \<Rightarrow> 'h \<Rightarrow> 'h \<times> (unit + unit)" where
  \<comment> \<open>The mode is \<open>4 | 2\<close>; the last byte of the path is its terminating zero.\<close>
  "write_file H path data h =
     (if from_utf8 path = None then (h, Inl ())
      else
        let (h1, fd) = sys_open H (take (length path - 1) path) 6 h in
        if fd = usize32_max then (h1, Inl ())
        else
          let (h2, result) = sys_write H fd data h1;
              h3 = sys_close H fd h2
          in (h3, if result = 0 then Inr () else Inl ()))"

lemma write_file_code [code]:
  "write_file H path data h =
     (if utf8_valid path then
        let (h1, fd) = sys_open H (take (length path - 1) path) 6 h in
        if fd = usize32_max then (h1, Inl ())
        else
          let (h2, result) = sys_write H fd data h1;
              h3 = sys_close H fd h2
          in (h3, if result = 0 then Inr () else Inl ())
      else (h, Inl ()))"
  by (simp add: write_file_def from_utf8_def)

definition read_file :: "'h host_ops \<Rightarrow> bytes \<Rightarrow> 'h \<Rightarrow> 'h \<times> (unit + bytes)" where
  "read_file H path h =
     (if from_utf8 path = None then (h, Inl ())
      else
        let (h1, fd) = sys_open H (take (length path - 1) path) 0 h in
        if fd = usize32_max then (h1, Inl ())
        else
          let (h2, len) = sys_flen H fd h1 in
          if len = usize32_max then (sys_close H fd h2, Inl ())
          else
            let (h3, data, bytes_read) = sys_read H fd len h2;
                h4 = sys_close H fd h3
            in (h4, if bytes_read = 0 then Inr data else Inl ()))"

section \<open>The format of the log file\<close>

definition serialize_entry :: "string log_entry \<Rightarrow> bytes" where
  "serialize_entry entry =
     le_bytes 8 (entry_term entry) @
     (case entry_kind entry of
        Command payload \<Rightarrow>
          (let payload_bytes = string_bytes payload in 0 # le_bytes 4 (length payload_bytes) @ payload_bytes)
      | ConfigChange _ \<Rightarrow> 1 # le_bytes 4 0)"

definition serialize_log :: "string log_entry list \<Rightarrow> bytes" where
  "serialize_log log = le_bytes 8 (length log) @ concat (map serialize_entry log)"

text \<open>
  The loop of \<open>deserialize_log\<close> with \<open>count\<close> iterations left; \<open>None\<close> is a panic (a slice or an index
  out of range, after an addition of offsets has wrapped around).
\<close>

function deserialize_entries ::
  "nat \<Rightarrow> nat \<Rightarrow> bytes \<Rightarrow> string log_entry list \<Rightarrow> string log_entry list option" where
  "deserialize_entries count offset data log =
     (if count = 0 then Some log
      else if length data < usize32_add offset 8 then Some log
      else case le_at 8 offset data of
        None \<Rightarrow> None
      | Some trm \<Rightarrow>
          let offset1 = usize32_add offset 8 in
          if length data \<le> offset1 then Some log
          else
            let entry_ty = data ! offset1;
                offset2 = usize32_add offset1 1
            in if length data < usize32_add offset2 4 then Some log
               else case le_at 4 offset2 data of
                 None \<Rightarrow> None
               | Some payload_len \<Rightarrow>
                   let offset3 = usize32_add offset2 4;
                       offset4 = usize32_add offset3 payload_len
                   in if entry_ty = 0 then
                        if length data < offset4 then Some log
                        else if offset4 < offset3 then None
                        else
                          let log1 = (case from_utf8 (take (offset4 - offset3) (drop offset3 data)) of
                                Some payload \<Rightarrow> log @ [\<lparr>entry_term = trm, entry_kind = Command payload\<rparr>]
                              | None \<Rightarrow> log)
                          in deserialize_entries (count - 1) offset4 data log1
                      else deserialize_entries (count - 1) offset4 data log)"
  by pat_completeness auto
termination by (relation "measure (\<lambda>(count, _). count)") auto

declare deserialize_entries.simps [simp del]

definition deserialize_log :: "bytes \<Rightarrow> string log_entry list option" where
  "deserialize_log data =
     (if length data < 8 then Some []
      else deserialize_entries (le_nat (take 8 data) mod usize32_limit) 8 data [])"

subsection \<open>The round trip\<close>

definition storable :: "string log_entry \<Rightarrow> bool" where
  "storable e \<longleftrightarrow> entry_term e < u64_limit \<and>
     (case entry_kind e of Command p \<Rightarrow> utf8_valid (string_bytes p) | ConfigChange _ \<Rightarrow> True)"

lemma deserialize_entry_step:
  assumes e: "storable e" and size: "length pre + length (serialize_entry e) + length post < usize32_limit"
  shows "deserialize_entries (Suc n) (length pre) (pre @ serialize_entry e @ post) acc =
    deserialize_entries n (length pre + length (serialize_entry e)) (pre @ serialize_entry e @ post)
      (if is_command e then acc @ [e] else acc)"
proof -
  define data where "data = pre @ serialize_entry e @ post"
  define k :: "8 word" where "k = (case entry_kind e of Command _ \<Rightarrow> 0 | ConfigChange _ \<Rightarrow> 1)"
  define ps where "ps = (case entry_kind e of Command p \<Rightarrow> string_bytes p | ConfigChange _ \<Rightarrow> [])"
  have enc: "serialize_entry e = le_bytes 8 (entry_term e) @ k # le_bytes 4 (length ps) @ ps"
    by (simp add: serialize_entry_def k_def ps_def Let_def split: entry_type.splits)
  have lim: "length pre + 13 + length ps + length post < usize32_limit"
    using size by (simp add: enc)
  have term_at: "le_at 8 (length pre) data = Some (entry_term e)"
  proof -
    have "le_at 8 (length pre) (pre @ le_bytes 8 (entry_term e) @ k # le_bytes 4 (length ps) @ ps @ post) =
        Some (entry_term e mod 256 ^ 8)" by (rule le_at_inside) simp
    with e show ?thesis by (simp add: data_def enc storable_def u64_limit_def)
  qed
  have kind_at: "data ! (length pre + 8) = k"
    by (simp add: data_def enc nth_append)
  have len_at: "le_at 4 (length pre + 9) data = Some (length ps)"
  proof -
    have "le_at 4 (length pre + 9) ((pre @ le_bytes 8 (entry_term e) @ [k]) @ le_bytes 4 (length ps) @ ps @ post) =
        Some (length ps mod 256 ^ 4)" by (rule le_at_inside) simp
    moreover have "length ps < 256 ^ 4" using lim by (simp add: usize32_limit_def)
    ultimately show ?thesis by (simp add: data_def enc)
  qed
  have payload: "take (length ps) (drop (length pre + 13) data) = ps"
  proof -
    have "data = (pre @ le_bytes 8 (entry_term e) @ k # le_bytes 4 (length ps)) @ ps @ post"
      by (simp add: data_def enc)
    moreover have "length (pre @ le_bytes 8 (entry_term e) @ k # le_bytes 4 (length ps)) = length pre + 13" by simp
    ultimately show ?thesis by (metis append_eq_conv_conj)
  qed
  have adds: "usize32_add (length pre) 8 = length pre + 8" "usize32_add (length pre + 8) (Suc 0) = length pre + 9"
    "usize32_add (length pre + 9) 4 = length pre + 13"
    "usize32_add (length pre + 13) (length ps) = length pre + 13 + length ps"
    using lim by (simp_all add: usize32_add_def)
  have total: "length data = length pre + 13 + length ps + length post"
    by (simp add: data_def enc)
  have sum: "length pre + length (serialize_entry e) = length pre + 13 + length ps"
    by (simp add: enc)
  have kinds: "(k = 0) = is_command e" and decoded: "is_command e \<Longrightarrow>
      from_utf8 ps = Some (case entry_kind e of Command p \<Rightarrow> p | _ \<Rightarrow> []) \<and>
      \<lparr>entry_term = entry_term e, entry_kind = Command (case entry_kind e of Command p \<Rightarrow> p | _ \<Rightarrow> [])\<rparr> = e"
    using e by (auto simp: k_def ps_def is_command_def from_utf8_def storable_def split: entry_type.splits)
  have "deserialize_entries (Suc n) (length pre) data acc =
    deserialize_entries n (length pre + 13 + length ps) data (if is_command e then acc @ [e] else acc)"
  proof (cases "is_command e")
    case True
    show ?thesis
      by (subst deserialize_entries.simps)
        (use decoded [OF True] True in \<open>simp add: adds term_at kind_at len_at payload total kinds Let_def\<close>)
  next
    case False
    show ?thesis
      by (subst deserialize_entries.simps)
        (use False in \<open>simp add: adds term_at kind_at len_at total kinds Let_def\<close>)
  qed
  then show ?thesis unfolding sum by (simp only: data_def)
qed

lemma deserialize_entries_serialized:
  assumes "\<forall>e\<in>set log. storable e" and "length pre + length (concat (map serialize_entry log)) < usize32_limit"
  shows "deserialize_entries (length log) (length pre) (pre @ concat (map serialize_entry log)) acc =
    Some (acc @ filter is_command log)"
  using assms
proof (induction log arbitrary: pre acc)
  case Nil
  show ?case by (subst deserialize_entries.simps) simp
next
  case (Cons e log)
  have "deserialize_entries (Suc (length log)) (length pre) (pre @ serialize_entry e @ concat (map serialize_entry log)) acc
      = deserialize_entries (length log) (length pre + length (serialize_entry e))
          (pre @ serialize_entry e @ concat (map serialize_entry log)) (if is_command e then acc @ [e] else acc)"
    using Cons.prems by (intro deserialize_entry_step) simp_all
  also have "\<dots> = Some ((if is_command e then acc @ [e] else acc) @ filter is_command log)"
    using Cons.IH [of "pre @ serialize_entry e"] Cons.prems by simp
  finally show ?case by simp
qed

lemma length_serialize_entry: "13 \<le> length (serialize_entry e)"
  by (simp add: serialize_entry_def Let_def split: entry_type.splits)

lemma length_log_le_file: "length log \<le> length (concat (map serialize_entry log))"
proof (induction log)
  case (Cons e log)
  with length_serialize_entry [of e] show ?case by simp
qed simp

text \<open>
  What is written is read back, but for the configuration changes: the file does not hold them, and
  the reader skips them.
\<close>

lemma deserialize_serialize:
  assumes "\<forall>e\<in>set log. storable e" and "length (serialize_log log) < usize32_limit"
  shows "deserialize_log (serialize_log log) = Some (filter is_command log)"
proof -
  have "length log < usize32_limit"
    using assms(2) length_log_le_file [of log] by (simp add: serialize_log_def)
  moreover from this have "length log < 256 ^ 8" by (simp add: usize32_limit_def)
  ultimately have "le_nat (take 8 (serialize_log log)) mod usize32_limit = length log"
    by (simp add: serialize_log_def le_nat_le_bytes)
  then show ?thesis
    using deserialize_entries_serialized [OF assms(1), of "le_bytes 8 (length log)" "[]"] assms(2)
    by (simp add: deserialize_log_def serialize_log_def)
qed

section \<open>The storage\<close>

record 'h semi_storage =
  sh_node_id :: node_id
  sh_current_term :: log_term
  sh_voted_for :: "node_id option"
  sh_log :: "string log_entry list"
  sh_snapshot :: "snapshot option"
  sh_first_index :: log_index
  sh_host :: 'h

definition node_path :: "string \<Rightarrow> node_id \<Rightarrow> bytes" where
  "node_path file_kind i = string_bytes (''persistency/raft_node_'' @ decimal i @ file_kind @ [char_of (0 :: nat)])"

definition metadata_path :: "node_id \<Rightarrow> bytes" where
  "metadata_path i = node_path ''_metadata.bin'' i"

definition log_path :: "node_id \<Rightarrow> bytes" where
  "log_path i = node_path ''_log.bin'' i"

definition snapshot_path :: "node_id \<Rightarrow> bytes" where
  "snapshot_path i = node_path ''_snapshot.bin'' i"

definition snapshot_meta_path :: "node_id \<Rightarrow> bytes" where
  "snapshot_meta_path i = node_path ''_snapshot_meta.bin'' i"

definition metadata_bytes :: "log_term \<Rightarrow> node_id option \<Rightarrow> bytes" where
  "metadata_bytes t vote =
     le_bytes 8 t @
     (case vote of
        Some v \<Rightarrow> 1 # le_bytes 8 v
      | None \<Rightarrow> 0 # replicate 8 0)"

definition snapshot_meta_bytes :: "snapshot_metadata \<Rightarrow> bytes" where
  "snapshot_meta_bytes md = le_bytes 8 (last_included_index md) @ le_bytes 8 (last_included_term md)"

definition persist_metadata :: "'h host_ops \<Rightarrow> 'h semi_storage \<Rightarrow> 'h semi_storage" where
  "persist_metadata H s =
     s\<lparr>sh_host := fst (write_file H (metadata_path (sh_node_id s))
          (metadata_bytes (sh_current_term s) (sh_voted_for s)) (sh_host s))\<rparr>"

definition persist_log :: "'h host_ops \<Rightarrow> 'h semi_storage \<Rightarrow> 'h semi_storage" where
  "persist_log H s =
     s\<lparr>sh_host := fst (write_file H (log_path (sh_node_id s)) (serialize_log (sh_log s)) (sh_host s))\<rparr>"

definition persist_snapshot :: "'h host_ops \<Rightarrow> 'h semi_storage \<Rightarrow> 'h semi_storage" where
  "persist_snapshot H s =
     (case sh_snapshot s of
        Some sn \<Rightarrow>
          let h1 = fst (write_file H (snapshot_meta_path (sh_node_id s)) (snapshot_meta_bytes (metadata sn)) (sh_host s));
              h2 = fst (write_file H (snapshot_path (sh_node_id s)) (snap_data sn) h1)
          in s\<lparr>sh_host := h2\<rparr>
      | None \<Rightarrow> s)"

text \<open>The three parts of \<open>load_from_disk\<close>; a panic while the log is decoded is \<open>None\<close>.\<close>

definition load_metadata :: "'h host_ops \<Rightarrow> 'h semi_storage \<Rightarrow> 'h semi_storage" where
  "load_metadata H s =
     (case read_file H (metadata_path (sh_node_id s)) (sh_host s) of
        (h, Inr data) \<Rightarrow>
          let s1 = s\<lparr>sh_host := h\<rparr> in
          if 17 \<le> length data then
            let s2 = s1\<lparr>sh_current_term := le_nat (take 8 data)\<rparr>
            in if data ! 8 \<noteq> 0 then s2\<lparr>sh_voted_for := Some (le_nat (take 8 (drop 9 data)))\<rparr> else s2
          else s1
      | (h, Inl _) \<Rightarrow> s\<lparr>sh_host := h\<rparr>)"

definition load_log :: "'h host_ops \<Rightarrow> 'h semi_storage \<Rightarrow> 'h semi_storage option" where
  "load_log H s =
     (case read_file H (log_path (sh_node_id s)) (sh_host s) of
        (h, Inr data) \<Rightarrow> map_option (\<lambda>log. s\<lparr>sh_host := h, sh_log := log\<rparr>) (deserialize_log data)
      | (h, Inl _) \<Rightarrow> Some (s\<lparr>sh_host := h\<rparr>))"

definition load_stored_snapshot :: "'h host_ops \<Rightarrow> 'h semi_storage \<Rightarrow> 'h semi_storage" where
  "load_stored_snapshot H s =
     (case read_file H (snapshot_meta_path (sh_node_id s)) (sh_host s) of
        (h, Inr meta_data) \<Rightarrow>
          if 16 \<le> length meta_data then
            let lii = le_nat (take 8 meta_data);
                lit = le_nat (take 8 (drop 8 meta_data))
            in (case read_file H (snapshot_path (sh_node_id s)) h of
                  (h', Inr snapshot_data) \<Rightarrow>
                    s\<lparr>sh_host := h',
                      sh_snapshot := Some \<lparr>metadata = \<lparr>last_included_index = lii, last_included_term = lit\<rparr>,
                        snap_data = fst (extend_from_slice (Some 512) (take 512 snapshot_data) [])\<rparr>,
                      sh_first_index := u64_add lii 1\<rparr>
                | (h', Inl _) \<Rightarrow> s\<lparr>sh_host := h'\<rparr>)
          else s\<lparr>sh_host := h\<rparr>
      | (h, Inl _) \<Rightarrow> s\<lparr>sh_host := h\<rparr>)"

definition load_from_disk :: "'h host_ops \<Rightarrow> 'h semi_storage \<Rightarrow> 'h semi_storage option" where
  "load_from_disk H s = map_option (load_stored_snapshot H) (load_log H (load_metadata H s))"

definition semi_new :: "'h host_ops \<Rightarrow> node_id \<Rightarrow> 'h \<Rightarrow> 'h semi_storage option" where
  "semi_new H i h =
     load_from_disk H \<lparr>sh_node_id = i, sh_current_term = 0, sh_voted_for = None, sh_log = [],
       sh_snapshot = None, sh_first_index = 1, sh_host = h\<rparr>"

definition semi_current_term :: "'h semi_storage \<Rightarrow> log_term" where
  "semi_current_term s = sh_current_term s"

definition semi_set_current_term :: "'h host_ops \<Rightarrow> log_term \<Rightarrow> 'h semi_storage \<Rightarrow> 'h semi_storage" where
  "semi_set_current_term H t s = persist_metadata H (s\<lparr>sh_current_term := t\<rparr>)"

definition semi_voted_for :: "'h semi_storage \<Rightarrow> node_id option" where
  "semi_voted_for s = sh_voted_for s"

definition semi_set_voted_for :: "'h host_ops \<Rightarrow> node_id option \<Rightarrow> 'h semi_storage \<Rightarrow> 'h semi_storage" where
  "semi_set_voted_for H vote s = persist_metadata H (s\<lparr>sh_voted_for := vote\<rparr>)"

definition semi_last_log_index :: "'h semi_storage \<Rightarrow> log_index" where
  "semi_last_log_index s = parts_last_index (sh_first_index s) (sh_log s) (sh_snapshot s)"

definition semi_last_log_term :: "'h semi_storage \<Rightarrow> log_term" where
  "semi_last_log_term s = parts_last_term (sh_log s) (sh_snapshot s)"

definition semi_get_entry :: "'h semi_storage \<Rightarrow> log_index \<Rightarrow> string log_entry option" where
  "semi_get_entry s index = parts_entry (sh_first_index s) (sh_log s) index"

definition semi_get_entries :: "'h semi_storage \<Rightarrow> log_index \<Rightarrow> log_index \<Rightarrow> string log_entry list" where
  "semi_get_entries s start end_index = parts_entries (sh_first_index s) (sh_log s) start end_index"

definition semi_append_entries ::
  "'h host_ops \<Rightarrow> string log_entry list \<Rightarrow> 'h semi_storage \<Rightarrow> 'h semi_storage" where
  "semi_append_entries H entries s =
     persist_log H (s\<lparr>sh_log := extend_ok (vec_push None) entries (sh_log s)\<rparr>)"

definition semi_truncate_after :: "'h host_ops \<Rightarrow> log_index \<Rightarrow> 'h semi_storage \<Rightarrow> 'h semi_storage" where
  "semi_truncate_after H index s =
     persist_log H (s\<lparr>sh_log := parts_truncate (sh_first_index s) index (sh_log s)\<rparr>)"

definition semi_save_snapshot :: "'h host_ops \<Rightarrow> snapshot \<Rightarrow> 'h semi_storage \<Rightarrow> 'h semi_storage" where
  "semi_save_snapshot H sn s = persist_snapshot H (s\<lparr>sh_snapshot := Some sn\<rparr>)"

definition semi_load_snapshot :: "'h semi_storage \<Rightarrow> snapshot option" where
  "semi_load_snapshot s = sh_snapshot s"

definition semi_snapshot_metadata :: "'h semi_storage \<Rightarrow> snapshot_metadata option" where
  "semi_snapshot_metadata s = map_option metadata (sh_snapshot s)"

definition semi_get_snapshot_chunk :: "'h semi_storage \<Rightarrow> nat \<Rightarrow> nat \<Rightarrow> snapshot_chunk option" where
  "semi_get_snapshot_chunk s offset max_size = parts_chunk (sh_snapshot s) offset max_size"

definition semi_begin_snapshot_transfer :: "'h semi_storage \<Rightarrow> bytes" where
  "semi_begin_snapshot_transfer s = emb_builder_new"

definition semi_apply_snapshot_chunk ::
  "'h host_ops \<Rightarrow> nat \<Rightarrow> bytes \<Rightarrow> bool \<Rightarrow> log_index \<Rightarrow> log_term \<Rightarrow> 'h semi_storage
   \<Rightarrow> 'h semi_storage \<times> (snapshot_error + unit)" where
  "semi_apply_snapshot_chunk H offset chunk done_flag lii lit s =
     (case parts_apply_chunk offset chunk done_flag lii lit of
        Inr sn \<Rightarrow> (persist_snapshot H (s\<lparr>sh_snapshot := Some sn\<rparr>), Inr ())
      | Inl e \<Rightarrow> (s, Inl e))"

definition semi_finalize_snapshot ::
  "'h host_ops \<Rightarrow> bytes \<Rightarrow> snapshot_metadata \<Rightarrow> 'h semi_storage \<Rightarrow> 'h semi_storage \<times> (snapshot_error + unit)" where
  "semi_finalize_snapshot H builder md s =
     (case emb_builder_build builder of
        Inl _ \<Rightarrow> (s, Inl CorruptData)
      | Inr data \<Rightarrow> (persist_snapshot H (s\<lparr>sh_snapshot := Some \<lparr>metadata = md, snap_data = data\<rparr>\<rparr>), Inr ()))"

definition semi_discard_entries_before :: "'h host_ops \<Rightarrow> log_index \<Rightarrow> 'h semi_storage \<Rightarrow> 'h semi_storage" where
  "semi_discard_entries_before H index s =
     (if index \<le> sh_first_index s then s
      else
        let num_to_discard = index - sh_first_index s;
            new_log = (if length (sh_log s) \<le> num_to_discard then []
                       else extend_ok (vec_push None) (drop num_to_discard (sh_log s)) [])
        in persist_log H (s\<lparr>sh_log := new_log, sh_first_index := index\<rparr>))"

definition semi_first_log_index :: "'h semi_storage \<Rightarrow> log_index" where
  "semi_first_log_index s = sh_first_index s"

definition semihosting_storage_ops :: "'h host_ops \<Rightarrow> ('h semi_storage, string) storage_ops" where
  "semihosting_storage_ops H =
     \<lparr>st_current_term = semi_current_term,
      st_set_current_term = semi_set_current_term H,
      st_voted_for = semi_voted_for,
      st_set_voted_for = semi_set_voted_for H,
      st_last_log_index = semi_last_log_index,
      st_last_log_term = semi_last_log_term,
      st_get_entry = semi_get_entry,
      st_get_entries = semi_get_entries,
      st_append_entries = semi_append_entries H,
      st_truncate_after = semi_truncate_after H,
      st_save_snapshot = semi_save_snapshot H,
      st_load_snapshot = semi_load_snapshot,
      st_snapshot_metadata = semi_snapshot_metadata,
      st_get_snapshot_chunk = semi_get_snapshot_chunk,
      st_apply_snapshot_chunk = semi_apply_snapshot_chunk H,
      st_discard_entries_before = semi_discard_entries_before H,
      st_first_log_index = semi_first_log_index\<rparr>"

lemmas semi_ops_defs = semihosting_storage_ops_def semi_current_term_def semi_set_current_term_def
  semi_voted_for_def semi_set_voted_for_def semi_last_log_index_def semi_last_log_term_def
  semi_get_entry_def semi_get_entries_def semi_append_entries_def semi_truncate_after_def
  semi_save_snapshot_def semi_load_snapshot_def semi_snapshot_metadata_def
  semi_get_snapshot_chunk_def semi_apply_snapshot_chunk_def semi_discard_entries_before_def
  semi_first_log_index_def

section \<open>The storage keeps the contract\<close>

text \<open>Whatever the host does with the files, the node works on its own copy.\<close>

definition semi_view :: "'h semi_storage \<Rightarrow> string log_view" where
  "semi_view s = parts_view (sh_current_term s) (sh_voted_for s) (sh_first_index s) (sh_log s) (sh_snapshot s)"

lemma persist_fields [simp]:
  "sh_node_id (persist_metadata H s) = sh_node_id s" "sh_current_term (persist_metadata H s) = sh_current_term s"
  "sh_voted_for (persist_metadata H s) = sh_voted_for s" "sh_log (persist_metadata H s) = sh_log s"
  "sh_snapshot (persist_metadata H s) = sh_snapshot s" "sh_first_index (persist_metadata H s) = sh_first_index s"
  "sh_node_id (persist_log H s) = sh_node_id s" "sh_current_term (persist_log H s) = sh_current_term s"
  "sh_voted_for (persist_log H s) = sh_voted_for s" "sh_log (persist_log H s) = sh_log s"
  "sh_snapshot (persist_log H s) = sh_snapshot s" "sh_first_index (persist_log H s) = sh_first_index s"
  "sh_node_id (persist_snapshot H s) = sh_node_id s" "sh_current_term (persist_snapshot H s) = sh_current_term s"
  "sh_voted_for (persist_snapshot H s) = sh_voted_for s" "sh_log (persist_snapshot H s) = sh_log s"
  "sh_snapshot (persist_snapshot H s) = sh_snapshot s" "sh_first_index (persist_snapshot H s) = sh_first_index s"
  by (simp_all add: persist_metadata_def persist_log_def persist_snapshot_def Let_def split: option.splits)

lemma semi_view_persist [simp]:
  "semi_view (persist_metadata H s) = semi_view s" "semi_view (persist_log H s) = semi_view s"
  "semi_view (persist_snapshot H s) = semi_view s"
  by (simp_all add: semi_view_def)

interpretation semi: storage_frame "semihosting_storage_ops H" semi_view
proof (unfold_locales, goal_cases)
  case (5 es s)
  show ?case by (rule exI [of _ "length es"]) (simp add: semi_ops_defs semi_view_def)
next
  case (6 i s)
  show ?case using parts_truncate_prefix by (auto simp: semi_ops_defs semi_view_def)
next
  case (7 s i)
  show ?case
    by (rule exI [of _ "sh_log (semi_discard_entries_before H i s)"],
        rule exI [of _ "sh_first_index (semi_discard_entries_before H i s)"])
      (auto simp: semi_ops_defs semi_view_def Let_def dest!: in_set_dropD)
next
  case (11 ofs d dn lii lit s)
  show ?case by (auto simp: semi_ops_defs semi_view_def split: sum.splits)
next
  case (12 s i e)
  then show ?case
    by (auto simp: semi_ops_defs semi_view_def parts_entry_def dest: nth_opt_in_set split: if_splits)
next
  case (13 s a b)
  show ?case using parts_entries_subset by (simp add: semi_ops_defs semi_view_def)
qed (auto simp: semi_ops_defs semi_view_def)

interpretation semi: raft_storage "semihosting_storage_ops H" semi_view "\<lambda>_. True" "\<lambda>_ _. True" "Some 128" emb_chunk_room
proof (unfold_locales, goal_cases)
  case (2 s)
  then show ?case unfolding semi_view_def by (simp add: semi_ops_defs parts_last_index_view)
next
  case (5 s a b)
  then show ?case unfolding semi_view_def by (simp add: semi_ops_defs parts_entries_view)
next
  case (8 s i)
  then show ?case
    by (simp add: semi_ops_defs semi_view_def v_truncate_def
        parts_truncate_view [where t = "sh_current_term s" and vo = "sh_voted_for s" and sn = "sh_snapshot s"])
next
  case (9 s i)
  then show ?case
    by (auto simp: semi_ops_defs semi_view_def v_discard_def Let_def)
next
  case (10 s sn)
  then show ?case
    using parts_chunk_whole [of sn] by (simp add: semi_ops_defs semi_view_def emb_chunk_room_def)
next
  case (12 d lii lit s)
  then show ?case by (simp add: semi_ops_defs semi_view_def emb_chunk_room_def parts_apply_whole)
qed (auto simp: semi_ops_defs semi_view_def parts_last_term_view parts_entry_view
  parts_entries_none parts_chunk_def v_last_term_def parts_last_term_def v_entry_def parts_entry_def)

end
