(* ===== verification/Semihosting_Recovery.thy ===== *)
theory Semihosting_Recovery
  imports Semihosting_Storage
begin

text \<open>
  What survives a restart of a node with the semihosting storage, on a host that carries out the
  calls: the term, the vote, the snapshot and the commands of the log.  Configuration changes are
  lost, and a restart between storing a snapshot and discarding the entries it covers moves the
  entries to other indices.
\<close>

section \<open>A host that carries out the calls\<close>

text \<open>
  \<open>files\<close> reads the files off the state of the host.  Opening in mode 6 (\<open>w+\<close>), writing and closing
  leaves exactly the bytes written in the file and every other file alone; opening in mode 0 (\<open>r\<close>)
  fails for a file that does not exist, and otherwise reading as many bytes as \<open>sys_flen\<close> reports
  yields the file.
\<close>

definition reliable_host :: "'h host_ops \<Rightarrow> ('h \<Rightarrow> bytes \<rightharpoonup> bytes) \<Rightarrow> bool" where
  "reliable_host H files \<longleftrightarrow>
     (\<forall>h p d h1 fd h2 r. sys_open H p 6 h = (h1, fd) \<longrightarrow> sys_write H fd d h1 = (h2, r) \<longrightarrow>
        fd \<noteq> usize32_max \<and> r = 0 \<and> files (sys_close H fd h2) = (files h)(p \<mapsto> d)) \<and>
     (\<forall>h p h1 fd. files h p = None \<longrightarrow> sys_open H p 0 h = (h1, fd) \<longrightarrow> fd = usize32_max \<and> files h1 = files h) \<and>
     (\<forall>h p d h1 fd h2 n h3 buf r. files h p = Some d \<longrightarrow> length d < usize32_max \<longrightarrow> sys_open H p 0 h = (h1, fd) \<longrightarrow>
        sys_flen H fd h1 = (h2, n) \<longrightarrow> sys_read H fd n h2 = (h3, buf, r) \<longrightarrow>
        fd \<noteq> usize32_max \<and> n = length d \<and> buf = d \<and> r = 0 \<and> files (sys_close H fd h3) = files h)"

definition node_file :: "string \<Rightarrow> node_id \<Rightarrow> bytes" where
  "node_file k i = string_bytes (''persistency/raft_node_'' @ decimal i @ k)"

lemma node_path_file:
  assumes "ascii k"
  shows "take (length (node_path k i) - 1) (node_path k i) = node_file k i" and "from_utf8 (node_path k i) \<noteq> None"
proof -
  show "take (length (node_path k i) - 1) (node_path k i) = node_file k i"
    by (simp add: node_path_def node_file_def string_bytes_def)
  have "ascii ''persistency/raft_node_''" "ascii [char_of (0 :: nat)]" by (simp_all add: ascii_def)
  with assms have "ascii (''persistency/raft_node_'' @ decimal i @ k @ [char_of (0 :: nat)])"
    by (simp only: ascii_append ascii_decimal)
  from utf8_valid_ascii [OF this] show "from_utf8 (node_path k i) \<noteq> None"
    by (simp add: node_path_def from_utf8_def)
qed

text \<open>Files of different kinds, and of different nodes, are different files.\<close>

lemma node_file_kinds [simp]: "node_file k i = node_file k' i \<longleftrightarrow> k = k'"
  by (simp add: node_file_def)

lemma split_at_first_non_digit:
  assumes "decimal i @ CHR ''_'' # ks = decimal j @ CHR ''_'' # ks'"
  shows "i = j \<and> ks = ks'"
proof -
  have no: "CHR ''_'' \<notin> set (decimal n)" for n
    using decimal_chars [of "CHR ''_''" n] by auto
  have "takeWhile (\<lambda>c. c \<noteq> CHR ''_'') (decimal n @ CHR ''_'' # ks) = decimal n" for n ks
    using no by (subst takeWhile_append2) auto
  with assms have "decimal i = decimal j" by metis
  with assms decimal_inject show ?thesis by auto
qed

lemma node_files_distinct:
  "node_file (CHR ''_'' # ks) i = node_file (CHR ''_'' # ks') j \<longleftrightarrow> i = j \<and> ks = ks'"
  using split_at_first_non_digit [of i ks j ks'] by (auto simp: node_file_def)

lemma write_reliable:
  assumes "reliable_host H files" and "ascii k"
  shows "files (fst (write_file H (node_path k i) d h)) = (files h)(node_file k i \<mapsto> d)"
proof -
  obtain h1 fd where op: "sys_open H (node_file k i) 6 h = (h1, fd)" by fastforce
  obtain h2 r where wr: "sys_write H fd d h1 = (h2, r)" by fastforce
  from assms(1) op wr have "fd \<noteq> usize32_max \<and> r = 0 \<and> files (sys_close H fd h2) = (files h)(node_file k i \<mapsto> d)"
    unfolding reliable_host_def by metis
  then show ?thesis
    using node_path_file [OF assms(2), of i] op wr by (auto simp: write_file_def)
qed

lemma read_reliable:
  assumes "reliable_host H files" and "ascii k" and "files h (node_file k i) = Some d" and "length d < usize32_max"
  obtains h' where "read_file H (node_path k i) h = (h', Inr d)" "files h' = files h"
proof -
  obtain h1 fd where op: "sys_open H (node_file k i) 0 h = (h1, fd)" by fastforce
  obtain h2 n where fl: "sys_flen H fd h1 = (h2, n)" by fastforce
  obtain h3 buf r where rd: "sys_read H fd n h2 = (h3, buf, r)" by (metis prod_cases3)
  from assms(1,3,4) op fl rd have "fd \<noteq> usize32_max" "n = length d" "buf = d" "r = 0"
    "files (sys_close H fd h3) = files h"
    unfolding reliable_host_def by blast+
  then show thesis
    using that node_path_file [OF assms(2), of i] op fl rd assms(4) by (simp add: read_file_def)
qed

lemma read_missing:
  assumes "reliable_host H files" and "ascii k" and "files h (node_file k i) = None"
  obtains h' where "read_file H (node_path k i) h = (h', Inl ())" "files h' = files h"
proof -
  obtain h1 fd where op: "sys_open H (node_file k i) 0 h = (h1, fd)" by fastforce
  with assms(1,3) have "fd = usize32_max" "files h1 = files h"
    unfolding reliable_host_def by blast+
  then show thesis
    using that node_path_file [OF assms(2), of i] op by (simp add: read_file_def)
qed

section \<open>The files are in step with the storage\<close>

definition on_disk :: "('h \<Rightarrow> bytes \<rightharpoonup> bytes) \<Rightarrow> 'h semi_storage \<Rightarrow> bool" where
  "on_disk files s \<longleftrightarrow>
     (case files (sh_host s) (node_file ''_metadata.bin'' (sh_node_id s)) of
        None \<Rightarrow> sh_current_term s = 0 \<and> sh_voted_for s = None
      | Some d \<Rightarrow> d = metadata_bytes (sh_current_term s) (sh_voted_for s)) \<and>
     (case files (sh_host s) (node_file ''_log.bin'' (sh_node_id s)) of
        None \<Rightarrow> sh_log s = []
      | Some d \<Rightarrow> d = serialize_log (sh_log s)) \<and>
     (case sh_snapshot s of
        None \<Rightarrow> files (sh_host s) (node_file ''_snapshot_meta.bin'' (sh_node_id s)) = None
      | Some sn \<Rightarrow>
          files (sh_host s) (node_file ''_snapshot_meta.bin'' (sh_node_id s)) = Some (snapshot_meta_bytes (metadata sn)) \<and>
          files (sh_host s) (node_file ''_snapshot.bin'' (sh_node_id s)) = Some (snap_data sn))"

lemma ascii_kinds [simp]:
  "ascii ''_metadata.bin''" "ascii ''_log.bin''" "ascii ''_snapshot.bin''" "ascii ''_snapshot_meta.bin''"
  by (simp_all add: ascii_def)

lemmas path_defs = metadata_path_def log_path_def snapshot_path_def snapshot_meta_path_def

lemma persist_files:
  assumes "reliable_host H files"
  shows "files (sh_host (persist_metadata H s)) =
      (files (sh_host s))(node_file ''_metadata.bin'' (sh_node_id s) \<mapsto> metadata_bytes (sh_current_term s) (sh_voted_for s))"
    and "files (sh_host (persist_log H s)) =
      (files (sh_host s))(node_file ''_log.bin'' (sh_node_id s) \<mapsto> serialize_log (sh_log s))"
    and "sh_snapshot s = Some sn \<Longrightarrow> files (sh_host (persist_snapshot H s)) =
      (files (sh_host s))(node_file ''_snapshot_meta.bin'' (sh_node_id s) \<mapsto> snapshot_meta_bytes (metadata sn),
        node_file ''_snapshot.bin'' (sh_node_id s) \<mapsto> snap_data sn)"
  using write_reliable [OF assms ascii_kinds(1)] write_reliable [OF assms ascii_kinds(2)]
    write_reliable [OF assms ascii_kinds(3)] write_reliable [OF assms ascii_kinds(4)]
  by (simp_all add: persist_metadata_def persist_log_def persist_snapshot_def path_defs Let_def)

text \<open>Writing one of the files after changing what it holds brings the disk back in step.\<close>

lemma on_disk_metadata:
  "reliable_host H files \<Longrightarrow> on_disk files s \<Longrightarrow> sh_log s' = sh_log s \<Longrightarrow> sh_snapshot s' = sh_snapshot s \<Longrightarrow>
   sh_node_id s' = sh_node_id s \<Longrightarrow> sh_host s' = sh_host s \<Longrightarrow> on_disk files (persist_metadata H s')"
  by (auto simp: on_disk_def persist_files split: option.splits)

lemma on_disk_log:
  "reliable_host H files \<Longrightarrow> on_disk files s \<Longrightarrow> sh_current_term s' = sh_current_term s \<Longrightarrow>
   sh_voted_for s' = sh_voted_for s \<Longrightarrow> sh_snapshot s' = sh_snapshot s \<Longrightarrow>
   sh_node_id s' = sh_node_id s \<Longrightarrow> sh_host s' = sh_host s \<Longrightarrow> on_disk files (persist_log H s')"
  by (auto simp: on_disk_def persist_files split: option.splits)

lemma on_disk_snapshot:
  "reliable_host H files \<Longrightarrow> on_disk files s \<Longrightarrow> sh_current_term s' = sh_current_term s \<Longrightarrow>
   sh_voted_for s' = sh_voted_for s \<Longrightarrow> sh_log s' = sh_log s \<Longrightarrow> sh_snapshot s' = Some sn \<Longrightarrow>
   sh_node_id s' = sh_node_id s \<Longrightarrow> sh_host s' = sh_host s \<Longrightarrow> on_disk files (persist_snapshot H s')"
  by (auto simp: on_disk_def persist_files split: option.splits)

lemma on_disk_ops:
  assumes "reliable_host H files" and "on_disk files s"
  shows "on_disk files (semi_set_current_term H t s)" "on_disk files (semi_set_voted_for H vote s)"
    "on_disk files (semi_append_entries H es s)" "on_disk files (semi_truncate_after H i s)"
    "on_disk files (semi_discard_entries_before H i s)" "on_disk files (semi_save_snapshot H sn s)"
    "on_disk files (fst (semi_apply_snapshot_chunk H ofs d dn lii lit s))"
    "on_disk files (fst (semi_finalize_snapshot H b md s))"
  using assms
  by (simp_all add: semi_ops_defs semi_finalize_snapshot_def emb_builder_build_def on_disk_metadata on_disk_log
      on_disk_snapshot Let_def split: sum.splits)

section \<open>Restart\<close>

definition small_enough :: "'h semi_storage \<Rightarrow> bool" where
  "small_enough s \<longleftrightarrow> sh_current_term s < u64_limit \<and> (\<forall>v. sh_voted_for s = Some v \<longrightarrow> v < u64_limit) \<and>
     (\<forall>e\<in>set (sh_log s). storable e) \<and> length (serialize_log (sh_log s)) < usize32_max \<and>
     (\<forall>sn. sh_snapshot s = Some sn \<longrightarrow> length (snap_data sn) \<le> 512 \<and>
        Suc (last_included_index (metadata sn)) < u64_limit \<and> last_included_term (metadata sn) < u64_limit)"

lemma metadata_read:
  assumes "t < u64_limit" and "\<forall>v. vote = Some v \<longrightarrow> v < u64_limit"
  shows "le_nat (take 8 (metadata_bytes t vote)) = t" and "length (metadata_bytes t vote) = 17"
    and "metadata_bytes t vote ! 8 \<noteq> 0 \<longleftrightarrow> vote \<noteq> None"
    and "vote = Some v \<Longrightarrow> le_nat (take 8 (drop 9 (metadata_bytes t vote))) = v"
proof -
  show "le_nat (take 8 (metadata_bytes t vote)) = t" "length (metadata_bytes t vote) = 17"
    "metadata_bytes t vote ! 8 \<noteq> 0 \<longleftrightarrow> vote \<noteq> None"
    using le_nat_u64 [OF assms(1)] by (auto simp: metadata_bytes_def nth_append split: option.splits)
  show "le_nat (take 8 (drop 9 (metadata_bytes t vote))) = v" if "vote = Some v"
    using le_nat_u64 [of v] assms(2) that by (simp add: metadata_bytes_def)
qed

lemma snapshot_meta_read:
  assumes "last_included_index md < u64_limit" and "last_included_term md < u64_limit"
  shows "le_nat (take 8 (snapshot_meta_bytes md)) = last_included_index md"
    and "le_nat (take 8 (drop 8 (snapshot_meta_bytes md))) = last_included_term md"
    and "length (snapshot_meta_bytes md) = 16"
  using le_nat_u64 [OF assms(1)] le_nat_u64 [OF assms(2)] by (simp_all add: snapshot_meta_bytes_def)

lemma usize32_max_big: "600 < usize32_max"
  by (simp add: usize32_max_def usize32_limit_def)

lemma load_metadata_on_disk:
  assumes rel: "reliable_host H files" and disk: "on_disk files s" and small: "small_enough s"
    and s0: "sh_node_id s0 = sh_node_id s" "files (sh_host s0) = files (sh_host s)" "sh_current_term s0 = 0" "sh_voted_for s0 = None"
  obtains h where "load_metadata H s0 = s0\<lparr>sh_current_term := sh_current_term s, sh_voted_for := sh_voted_for s, sh_host := h\<rparr>"
    "files h = files (sh_host s)"
proof (cases "files (sh_host s) (node_file ''_metadata.bin'' (sh_node_id s))")
  case None
  then have old: "sh_current_term s = 0" "sh_voted_for s = None" using disk by (auto simp: on_disk_def)
  obtain h where "read_file H (metadata_path (sh_node_id s)) (sh_host s0) = (h, Inl ())" "files h = files (sh_host s0)"
    using read_missing [OF rel ascii_kinds(1), of "sh_host s0" "sh_node_id s"] None s0(2) by (auto simp: path_defs)
  with old s0 show thesis by (intro that [of h]) (simp_all add: load_metadata_def)
next
  case (Some d)
  then have d: "d = metadata_bytes (sh_current_term s) (sh_voted_for s)" using disk by (auto simp: on_disk_def)
  have bounds: "sh_current_term s < u64_limit" "\<forall>v. sh_voted_for s = Some v \<longrightarrow> v < u64_limit"
    using small by (simp_all add: small_enough_def)
  note m = metadata_read [OF bounds]
  have "length d < usize32_max" using m(2) usize32_max_big by (simp add: d)
  then obtain h where "read_file H (metadata_path (sh_node_id s)) (sh_host s0) = (h, Inr d)" "files h = files (sh_host s0)"
    using read_reliable [OF rel ascii_kinds(1), of "sh_host s0" "sh_node_id s"] Some s0(2) by (auto simp: path_defs)
  with d m s0 show thesis
    by (intro that [of h]) (cases "sh_voted_for s"; simp add: load_metadata_def Let_def)+
qed

lemma load_log_on_disk:
  assumes rel: "reliable_host H files" and disk: "on_disk files s" and small: "small_enough s"
    and s0: "sh_node_id s0 = sh_node_id s" "files (sh_host s0) = files (sh_host s)" "sh_log s0 = []"
  obtains h where "load_log H s0 = Some (s0\<lparr>sh_host := h, sh_log := filter is_command (sh_log s)\<rparr>)"
    "files h = files (sh_host s)"
proof (cases "files (sh_host s) (node_file ''_log.bin'' (sh_node_id s))")
  case None
  then have old: "sh_log s = []" using disk by (auto simp: on_disk_def)
  obtain h where "read_file H (log_path (sh_node_id s)) (sh_host s0) = (h, Inl ())" "files h = files (sh_host s0)"
    using read_missing [OF rel ascii_kinds(2), of "sh_host s0" "sh_node_id s"] None s0(2) by (auto simp: path_defs)
  with old s0 show thesis by (intro that [of h]) (simp_all add: load_log_def)
next
  case (Some d)
  then have d: "d = serialize_log (sh_log s)" using disk by (auto simp: on_disk_def)
  have small': "\<forall>e\<in>set (sh_log s). storable e" "length (serialize_log (sh_log s)) < usize32_max"
    using small by (simp_all add: small_enough_def)
  then obtain h where "read_file H (log_path (sh_node_id s)) (sh_host s0) = (h, Inr d)" "files h = files (sh_host s0)"
    using read_reliable [OF rel ascii_kinds(2), of "sh_host s0" "sh_node_id s"] Some s0(2) d by (auto simp: path_defs)
  moreover have "length (serialize_log (sh_log s)) < usize32_limit"
    using small'(2) by (simp add: usize32_max_def)
  ultimately show thesis
    using deserialize_serialize [OF small'(1)] s0 d by (intro that [of h]) (simp_all add: load_log_def)
qed

lemma load_snapshot_on_disk:
  assumes rel: "reliable_host H files" and disk: "on_disk files s" and small: "small_enough s"
    and s0: "sh_node_id s0 = sh_node_id s" "files (sh_host s0) = files (sh_host s)" "sh_snapshot s0 = None" "sh_first_index s0 = 1"
  obtains h where "load_stored_snapshot H s0 = s0\<lparr>sh_host := h, sh_snapshot := sh_snapshot s,
      sh_first_index := (case sh_snapshot s of None \<Rightarrow> 1 | Some sn \<Rightarrow> last_included_index (metadata sn) + 1)\<rparr>"
    "files h = files (sh_host s)"
proof (cases "sh_snapshot s")
  case None
  then have "files (sh_host s) (node_file ''_snapshot_meta.bin'' (sh_node_id s)) = None"
    using disk by (simp add: on_disk_def)
  then obtain h where "read_file H (snapshot_meta_path (sh_node_id s)) (sh_host s0) = (h, Inl ())" "files h = files (sh_host s0)"
    using read_missing [OF rel ascii_kinds(4), of "sh_host s0" "sh_node_id s"] s0(2) by (auto simp: path_defs)
  with None s0 show thesis by (intro that [of h]) (simp_all add: load_stored_snapshot_def)
next
  case (Some sn)
  then have disk': "files (sh_host s) (node_file ''_snapshot_meta.bin'' (sh_node_id s)) = Some (snapshot_meta_bytes (metadata sn))"
    "files (sh_host s) (node_file ''_snapshot.bin'' (sh_node_id s)) = Some (snap_data sn)"
    using disk by (simp_all add: on_disk_def)
  have bounds: "length (snap_data sn) \<le> 512" "Suc (last_included_index (metadata sn)) < u64_limit"
    "last_included_index (metadata sn) < u64_limit" "last_included_term (metadata sn) < u64_limit"
    using small Some by (auto simp: small_enough_def)
  note m = snapshot_meta_read [OF bounds(3,4)]
  obtain h1 where h1: "read_file H (snapshot_meta_path (sh_node_id s)) (sh_host s0) = (h1, Inr (snapshot_meta_bytes (metadata sn)))"
    "files h1 = files (sh_host s0)"
    by (rule read_reliable [OF rel ascii_kinds(4), of "sh_host s0" "sh_node_id s" "snapshot_meta_bytes (metadata sn)"])
      (use disk' s0(2) m(3) usize32_max_big in \<open>simp_all add: path_defs\<close>)
  obtain h2 where h2: "read_file H (snapshot_path (sh_node_id s)) h1 = (h2, Inr (snap_data sn))" "files h2 = files h1"
    by (rule read_reliable [OF rel ascii_kinds(3), of h1 "sh_node_id s" "snap_data sn"])
      (use disk' s0(2) h1(2) bounds(1) usize32_max_big in \<open>simp_all add: path_defs\<close>)
  note h1 h2
  with Some m bounds s0 show thesis
    by (intro that [of h2]) (simp_all add: load_stored_snapshot_def extend_from_slice_cases u64_simps Let_def)
qed

lemma semi_restart:
  assumes rel: "reliable_host H files" and disk: "on_disk files s" and small: "small_enough s"
    and comp: "compacted (semi_view s)"
  shows "\<exists>s'. semi_new H (sh_node_id s) (sh_host s) = Some s' \<and>
    semi_view s' = (semi_view s)\<lparr>v_log := filter is_command (sh_log s)\<rparr> \<and> files (sh_host s') = files (sh_host s)"
proof -
  let ?s0 = "\<lparr>sh_node_id = sh_node_id s, sh_current_term = 0, sh_voted_for = None, sh_log = [],
       sh_snapshot = None, sh_first_index = 1, sh_host = sh_host s\<rparr>"
  obtain h1 where 1: "load_metadata H ?s0 = ?s0\<lparr>sh_current_term := sh_current_term s, sh_voted_for := sh_voted_for s, sh_host := h1\<rparr>"
    "files h1 = files (sh_host s)"
    by (rule load_metadata_on_disk [OF rel disk small, of ?s0]) simp_all
  let ?s1 = "?s0\<lparr>sh_current_term := sh_current_term s, sh_voted_for := sh_voted_for s, sh_host := h1\<rparr>"
  obtain h2 where 2: "load_log H ?s1 = Some (?s1\<lparr>sh_host := h2, sh_log := filter is_command (sh_log s)\<rparr>)"
    "files h2 = files (sh_host s)"
    by (rule load_log_on_disk [OF rel disk small, of ?s1]) (simp_all add: 1(2))
  let ?s2 = "?s1\<lparr>sh_host := h2, sh_log := filter is_command (sh_log s)\<rparr>"
  obtain h3 where 3: "load_stored_snapshot H ?s2 = ?s2\<lparr>sh_host := h3, sh_snapshot := sh_snapshot s,
      sh_first_index := (case sh_snapshot s of None \<Rightarrow> 1 | Some sn \<Rightarrow> last_included_index (metadata sn) + 1)\<rparr>"
    "files h3 = files (sh_host s)"
    by (rule load_snapshot_on_disk [OF rel disk small, of ?s2]) (simp_all add: 2(2))
  have "sh_first_index s = (case sh_snapshot s of None \<Rightarrow> 1 | Some sn \<Rightarrow> last_included_index (metadata sn) + 1)"
    using comp by (simp add: compacted_def semi_view_def)
  then show ?thesis
    using 1 2 3 by (simp add: semi_new_def load_from_disk_def semi_view_def)
qed

section \<open>A concrete host\<close>

text \<open>A host with a directory of files and one open file at a time.\<close>

record file_host =
  fh_files :: "(bytes \<times> bytes) list"
  fh_open :: bytes

definition file_host_ops :: "file_host host_ops" where
  "file_host_ops =
     \<lparr>sys_open = (\<lambda>p mode h.
        if mode = 6 then (h\<lparr>fh_files := (p, []) # fh_files h, fh_open := p\<rparr>, 1)
        else if map_of (fh_files h) p = None then (h, usize32_max)
        else (h\<lparr>fh_open := p\<rparr>, 1)),
      sys_write = (\<lambda>fd d h. (h\<lparr>fh_files := (fh_open h, d) # fh_files h\<rparr>, 0)),
      sys_close = (\<lambda>fd h. h\<lparr>fh_open := []\<rparr>),
      sys_flen = (\<lambda>fd h. (h, case map_of (fh_files h) (fh_open h) of Some d \<Rightarrow> length d | None \<Rightarrow> 0)),
      sys_read = (\<lambda>fd n h. (h, case map_of (fh_files h) (fh_open h) of Some d \<Rightarrow> d | None \<Rightarrow> [], 0))\<rparr>"

definition host_files :: "file_host \<Rightarrow> bytes \<rightharpoonup> bytes" where
  "host_files h = map_of (fh_files h)"

lemma file_host_reliable: "reliable_host file_host_ops host_files"
  using usize32_max_big
  by (auto simp: reliable_host_def file_host_ops_def host_files_def fun_eq_iff split: if_splits)

definition empty_host :: file_host where
  "empty_host = \<lparr>fh_files = [], fh_open = []\<rparr>"

definition blank_storage :: "node_id \<Rightarrow> 'h \<Rightarrow> 'h semi_storage" where
  "blank_storage i h = \<lparr>sh_node_id = i, sh_current_term = 0, sh_voted_for = None, sh_log = [],
     sh_snapshot = None, sh_first_index = 1, sh_host = h\<rparr>"

lemma blank_on_disk: "on_disk host_files (blank_storage i empty_host)"
  by (simp add: on_disk_def blank_storage_def host_files_def empty_host_def)

end
