(* ===== verification/Embassy_Runs.thy ===== *)
theory Embassy_Runs
  imports Embassy_System Semihosting_Recovery
begin

text \<open>
  Runs of the bare-metal cluster: the simulation of \<open>Embassy_System\<close> carried over whole runs, from the
  boot on, and what the two storages bring to the theorems on clusters.
\<close>

section \<open>Whole runs\<close>

lemma embassy_peers_eq: "i \<in> {1..5} \<Longrightarrow> embassy_peers i = filter (\<lambda>j. j \<noteq> i) embassy_ids"
proof -
  have push: "embassy_node_push = vec_push (Some 10)" by (intro ext) (simp add: embassy_node_push_def)
  have ids: "[1..<6] = embassy_ids" by (simp add: upt_rec)
  have "length (filter (\<lambda>j. j \<noteq> i) embassy_ids) \<le> length embassy_ids" by (rule length_filter_le)
  then show ?thesis
    unfolding embassy_peers_def push ids by (subst extend_ok_bounded) simp_all
qed

lemma forget_boot:
  assumes "i \<in> {1..5}"
  shows "forget (en_raft (embassy_node_new S i st now)) =
    (let n = build_node (abstract_env S) i st esm_new () (filter (\<lambda>j. j \<noteq> i) embassy_ids) [] 10 0
     in n\<lparr>rn_lease := lease_advance now (rn_lease n)\<rparr>)"
  unfolding embassy_node_new_def embassy_peers_eq [OF assms]
  by (simp add: build_node_def with_transport_def with_replication_def with_election_def with_snapshot_threshold_def
      builder_new_def new_from_builder_def forget_def forget_em_def em_reset_election_timer_def election_new_def
      lease_new_def lease_advance_def embassy_clock_now_def instant_from_millis_def Let_def split: option.splits)

lemma embassy_ids_set: "set embassy_ids = {1..5}"
proof (rule set_eqI)
  fix i :: nat
  show "i \<in> set embassy_ids \<longleftrightarrow> i \<in> {1..5}" by (simp, arith)
qed

lemma system_boot_simps [simp]:
  "en_unsent (sy_nodes (system_boot S st now net) i) = []" "sy_net (system_boot S st now net) = net"
  by (simp_all add: system_boot_def embassy_node_new_def)

context async_transport
begin

lemma boot_simulated:
  "simulates flight net_ok (system_boot S st now empty)
     (run_cluster (abstract_env S) (map (\<lambda>i. Elapse i now) embassy_ids) (embassy_cluster S st))"
proof -
  let ?sy = "system_boot S st now empty"
  let ?cl = "run_cluster (abstract_env S) (map (\<lambda>i. Elapse i now) embassy_ids) (embassy_cluster S st)"
  have dist: "distinct embassy_ids" by simp
  note eq = run_elapse [OF dist, unfolded embassy_ids_set]
  have cl: "cl_ids ?cl = embassy_ids" "cl_broker ?cl = broker_new"
    unfolding eq by (simp_all add: embassy_cluster_def cluster_init_def)
  have nodes: "cl_nodes ?cl i = Some (forget (en_raft (sy_nodes ?sy i)))" if i: "i \<in> {1..5}" for i
  proof -
    have "cl_nodes (embassy_cluster S st) i =
        Some (build_node (abstract_env S) i (st i) esm_new () (filter (\<lambda>j. j \<noteq> i) embassy_ids) [] 10 0)"
      unfolding embassy_cluster_def cluster_init_def embassy_ids_set using i by simp
    then show ?thesis
      unfolding eq using i by (simp add: system_boot_def forget_boot Let_def del: filter.simps)
  qed
  have outbox: "rn_outbox (en_raft (sy_nodes ?sy i)) = []" for i
    by (simp add: system_boot_def embassy_node_new_def with_transport_def)
  have "outbox_flight j (\<lambda>i. []) = {#}" for j by (simp add: outbox_flight_def)
  then have "under_way flight ?sy j \<subseteq># mset (queue_of (cl_broker ?cl) j)" and "unsent_fit ?sy" for j
    by (simp_all add: under_way_def unsent_fit_def empty_flight)
  moreover have "nodes_match ?sy ?cl" unfolding nodes_match_def using cl(1) nodes outbox by blast
  ultimately show ?thesis
    using empty_ok unfolding simulates_def system_boot_simps by blast
qed

lemma run_simulated:
  assumes "system_run S T ls sy sy'" and "simulates flight net_ok sy cl" and "bounded_batches S"
  shows "\<exists>acts. length acts \<le> 5 * length ls \<and> (\<forall>a\<in>set acts. keeps_members a) \<and>
    submit_count acts = write_count ls \<and> simulates flight net_ok sy' (run_cluster (abstract_env S) acts cl)"
  using assms
proof (induction arbitrary: cl rule: system_run.induct)
  case (none sy)
  then show ?case
    by (intro exI [of _ "[]"]) (simp add: run_cluster_def submit_count_def write_count_def)
next
  case (more l sy sy1 ls sy2)
  from step_simulated [OF more.prems(1) more.prems(2) more.hyps(1)] obtain acts where
    1: "length acts \<le> 5" "\<forall>a\<in>set acts. keeps_members a" "submit_count acts = (if is_write l then 1 else 0)"
      "simulates flight net_ok sy1 (run_cluster (abstract_env S) acts cl)" by blast
  from more.IH [OF 1(4) more.prems(2)] obtain acts' where
    2: "length acts' \<le> 5 * length ls" "\<forall>a\<in>set acts'. keeps_members a" "submit_count acts' = write_count ls"
      "simulates flight net_ok sy2 (run_cluster (abstract_env S) acts' (run_cluster (abstract_env S) acts cl))" by blast
  from 1 2 show ?case
    by (intro exI [of _ "acts @ acts'"]) (auto simp: run_cluster_def submit_count_def write_count_def)
qed

text \<open>A run of the system from its boot is a run of the cluster.\<close>

lemma system_refines_cluster:
  assumes "system_run S T ls (system_boot S st now empty) sy" and "bounded_batches S"
  shows "\<exists>acts. length acts \<le> 5 * Suc (length ls) \<and> (\<forall>a\<in>set acts. keeps_members a) \<and>
    submit_count acts = write_count ls \<and>
    nodes_match sy (run_cluster (abstract_env S) acts (embassy_cluster S st))"
proof -
  let ?start = "map (\<lambda>i. Elapse i now) embassy_ids"
  from run_simulated [OF assms(1) boot_simulated assms(2)] obtain acts where
    acts: "length acts \<le> 5 * length ls" "\<forall>a\<in>set acts. keeps_members a" "submit_count acts = write_count ls"
      "simulates flight net_ok sy (run_cluster (abstract_env S) acts (run_cluster (abstract_env S) ?start (embassy_cluster S st)))"
    by blast
  then have "nodes_match sy (run_cluster (abstract_env S) (?start @ acts) (embassy_cluster S st))"
    by (simp add: simulates_def run_cluster_def)
  moreover have "length (?start @ acts) \<le> 5 * Suc (length ls)" "\<forall>a\<in>set (?start @ acts). keeps_members a"
    "submit_count (?start @ acts) = write_count ls"
    using acts(1-3) by (simp_all add: submit_count_def)
  ultimately show ?thesis by blast
qed

end

section \<open>The nodes of the two configurations\<close>

lemma embassy_members_fit: "length ids \<le> 10 \<Longrightarrow> members_fit embassy_node_ops ids"
proof -
  assume ids: "length ids \<le> 10"
  have push: "nc_push embassy_node_ops = vec_push (Some 10)"
    by (intro ext) (simp add: embassy_node_ops_def embassy_node_push_def)
  have "extend_ok (vec_push (Some 10)) (filter (\<lambda>j. j \<noteq> i) ids) [i] = i # filter (\<lambda>j. j \<noteq> i) ids"
    if "i \<in> set ids" for i
  proof -
    have "length (filter (\<lambda>j. j \<noteq> i) ids) < length ids" using that by (intro length_filter_less) auto
    with ids show ?thesis by (subst extend_ok_bounded) simp_all
  qed
  then show ?thesis
    unfolding members_fit_def push by (simp add: push_ok_def vec_push_def has_room_def)
qed

interpretation emb_node: election_env "abstract_env embassy_storage_ops" emb_view
  by (intro election_env.intro) (simp_all add: emb.storage_frame_axioms embassy_node_ops_def emb_nodes.node_collection_axioms)

interpretation emb_log: log_env "abstract_env embassy_storage_ops" emb_view emb_fits emb_room "Some 128" emb_chunk_room
  by (intro log_env.intro) (simp_all add: emb_node.election_env_axioms emb.raft_storage_axioms)

interpretation semi_node: election_env "abstract_env (semihosting_storage_ops H)" semi_view
  by (intro election_env.intro) (simp_all add: semi.storage_frame_axioms embassy_node_ops_def emb_nodes.node_collection_axioms)

interpretation semi_log: log_env "abstract_env (semihosting_storage_ops H)" semi_view "\<lambda>_. True" "\<lambda>_ _. True" "Some 128" emb_chunk_room
  by (intro log_env.intro) (simp_all add: semi_node.election_env_axioms semi.raft_storage_axioms)

lemma emb_new_fresh: "\<forall>i\<in>set ids. emb_log.fresh emb_new"
  by (simp add: emb_log.fresh_def emb_node.blank_def emb_view_def emb_new_def emb_fits_def)

lemma blank_storage_fresh: "\<forall>i\<in>set ids. semi_log.fresh (blank_storage i (h i))"
  by (simp add: semi_log.fresh_def semi_node.blank_def semi_view_def blank_storage_def parts_view_def)

lemma semi_bounded: "bounded_batches (semihosting_storage_ops H)"
  using parts_bounds by (auto simp: bounded_batches_def semi_ops_defs)

end
