(* ===== verification/Embassy_Schedules.thy ===== *)
theory Embassy_Schedules
  imports Embassy_Runs
begin

text \<open>
  Runs of the bare-metal cluster that can be computed.  A schedule says which node moves next, when
  time passes and when a client asks; what a node does in its move is determined by its state.  The
  state is kept as data, five of everything, instead of as functions of the node id.
\<close>

section \<open>Computing runs\<close>

text \<open>A schedule of the tasks: the next move of a node is determined by its phase.\<close>

datatype 'c command = Move node_id | Tick nat | Ask node_id "'c client_request"

definition move ::
  "('s, string) storage_ops \<Rightarrow> 'net transport_ops \<Rightarrow> node_id \<Rightarrow> ('s, 'c, 'net) embassy_system
   \<Rightarrow> ('c label \<times> ('s, 'c, 'net) embassy_system) option" where
  "move S T i sy =
     (let n = sy_nodes sy i; ready = first_ready (sy_cancelled sy) (sy_clients sy i) (incoming T i sy) n in
      case en_phase n of
        Polling \<Rightarrow>
          (case ready of
             None \<Rightarrow> Some (Other, set_node i (n\<lparr>en_phase := Waiting\<rparr>) sy)
           | Some sel \<Rightarrow> map_option (Pair (Handled i sel)) (take_selected S T i sel sy))
      | Waiting \<Rightarrow>
          (case ready of
             None \<Rightarrow> None
           | Some sel \<Rightarrow> map_option (Pair (Handled i sel)) (take_selected S T i sel sy))
      | Sending \<Rightarrow>
          (case en_unsent n of
             [] \<Rightarrow> Some (Other, set_node i (finish_iteration n) sy)
           | (t, m) # rest \<Rightarrow>
               map_option (\<lambda>net'. (Other, (set_node i (n\<lparr>en_unsent := rest\<rparr>) sy)\<lparr>sy_net := net'\<rparr>))
                 (tr_send T i t m (sy_net sy)))
      | Stopped \<Rightarrow> None)"

fun command_step ::
  "('s, string) storage_ops \<Rightarrow> 'net transport_ops \<Rightarrow> 'c command \<Rightarrow> ('s, 'c, 'net) embassy_system
   \<Rightarrow> ('c label \<times> ('s, 'c, 'net) embassy_system) option" where
  "command_step S T (Move i) sy = (if 1 \<le> i \<and> i \<le> 5 then move S T i sy else None)"
| "command_step S T (Tick d) sy = Some (Other, system_elapse d sy)"
| "command_step S T (Ask i r) sy = map_option (Pair Other) (client_submit i r sy)"

lemma first_ready_is_ready:
  "first_ready c rx inc n = Some sel \<Longrightarrow> is_ready c rx inc n sel"
  by (auto simp: first_ready_def is_ready_def split: if_splits list.splits option.splits)

lemma command_step_system:
  assumes "command_step S T c sy = Some (l, sy')"
  shows "system_step S T l sy sy'"
proof (cases c)
  case (Move i)
  with assms have i: "i \<in> {1..5}" and mv: "move S T i sy = Some (l, sy')" by (auto split: if_splits)
  show ?thesis
  proof (cases "en_phase (sy_nodes sy i)")
    case Polling
    show ?thesis
    proof (cases "first_ready (sy_cancelled sy) (sy_clients sy i) (incoming T i sy) (sy_nodes sy i)")
      case None
      with mv Polling have "l = Other" "sy' = set_node i ((sy_nodes sy i)\<lparr>en_phase := Waiting\<rparr>) sy"
        by (simp_all add: move_def)
      with system_step.slept [OF i Polling None] show ?thesis by simp
    next
      case (Some sel)
      with mv Polling have "l = Handled i sel" "take_selected S T i sel sy = Some sy'" by (auto simp: move_def)
      with system_step.polled [OF i Polling Some] show ?thesis by simp
    qed
  next
    case Waiting
    with mv obtain sel where sel: "first_ready (sy_cancelled sy) (sy_clients sy i) (incoming T i sy) (sy_nodes sy i) = Some sel"
      "l = Handled i sel" "take_selected S T i sel sy = Some sy'"
      by (auto simp: move_def Let_def split: option.splits)
    with system_step.woken [OF i Waiting first_ready_is_ready [OF sel(1)] sel(3)] show ?thesis by simp
  next
    case Sending
    show ?thesis
    proof (cases "en_unsent (sy_nodes sy i)")
      case Nil
      with mv Sending have "l = Other" "sy' = set_node i (finish_iteration (sy_nodes sy i)) sy" by (simp_all add: move_def)
      with system_step.finished [OF i Sending Nil] show ?thesis by simp
    next
      case (Cons tm rest)
      obtain t m where tm: "tm = (t, m)" by fastforce
      with mv Sending Cons obtain net' where net: "tr_send T i t m (sy_net sy) = Some net'" "l = Other"
        "sy' = (set_node i ((sy_nodes sy i)\<lparr>en_unsent := rest\<rparr>) sy)\<lparr>sy_net := net'\<rparr>"
        by (auto simp: move_def)
      with system_step.sent [OF i Sending Cons [unfolded tm] net(1)] show ?thesis by simp
    qed
  next
    case Stopped
    with mv show ?thesis by (simp add: move_def Let_def)
  qed
next
  case (Tick d)
  with assms show ?thesis by (auto intro: system_step.elapsed)
next
  case (Ask i r)
  with assms show ?thesis by (auto intro: system_step.requested)
qed


section \<open>Systems that look alike to the five nodes\<close>

text \<open>\<open>R\<close> relates the states of a transport in which the five nodes see the same.\<close>

definition agree_by ::
  "('net \<Rightarrow> 'net \<Rightarrow> bool) \<Rightarrow> ('s, 'c, 'net) embassy_system \<Rightarrow> ('s, 'c, 'net) embassy_system \<Rightarrow> bool" where
  "agree_by R sy sy' \<longleftrightarrow> (\<forall>i\<in>{1..5}. sy_nodes sy i = sy_nodes sy' i \<and> sy_clients sy i = sy_clients sy' i) \<and>
     R (sy_net sy) (sy_net sy') \<and> sy_cancelled sy = sy_cancelled sy'"

lemma agree_byD:
  assumes "agree_by R sy sy'"
  shows "i \<in> {1..5} \<Longrightarrow> sy_nodes sy i = sy_nodes sy' i" "i \<in> {1..5} \<Longrightarrow> sy_clients sy i = sy_clients sy' i"
    "R (sy_net sy) (sy_net sy')" "sy_cancelled sy = sy_cancelled sy'"
  using assms by (simp_all add: agree_by_def)

lemma agree_set_node: "agree_by R sy sy' \<Longrightarrow> agree_by R (set_node i n sy) (set_node i n sy')"
  by (simp add: agree_by_def set_node_def)

lemma agree_net:
  "agree_by R sy sy' \<Longrightarrow> R net net' \<Longrightarrow> agree_by R (sy\<lparr>sy_net := net\<rparr>) (sy'\<lparr>sy_net := net'\<rparr>)"
  by (simp add: agree_by_def)

text \<open>A transport whose calls respect such a relation.\<close>

locale transport_relation =
  fixes T :: "'net transport_ops" and R :: "'net \<Rightarrow> 'net \<Rightarrow> bool"
  assumes send_agree: "R net net' \<Longrightarrow> i \<in> {1..5} \<Longrightarrow> tr_send T i t m net = Some net1 \<Longrightarrow>
      \<exists>net1'. tr_send T i t m net' = Some net1' \<and> R net1 net1'"
    and recv_same: "R net net' \<Longrightarrow> i \<in> {1..5} \<Longrightarrow> snd (tr_recv T i net) = snd (tr_recv T i net')"
    and recv_agree: "R net net' \<Longrightarrow> i \<in> {1..5} \<Longrightarrow> R (fst (tr_recv T i net)) (fst (tr_recv T i net'))"
begin

lemma incoming_agree:
  "agree_by R sy sy' \<Longrightarrow> i \<in> {1..5} \<Longrightarrow> incoming T i sy = incoming T i sy'"
  using recv_same [OF agree_byD(3)] by (simp add: incoming_def)

lemma take_selected_agree:
  assumes "agree_by R sy sy'" and "i \<in> {1..5}" and "take_selected S T i sel sy = Some sy1"
  obtains sy1' where "take_selected S T i sel sy' = Some sy1'" "agree_by R sy1 sy1'"
proof -
  obtain n where n: "handle_selected S sel (sy_nodes sy' i) = Some n"
    using assms(3) agree_byD(1) [OF assms(1,2)] by (auto simp: take_selected_def)
  then obtain sy1' where sy1': "take_selected S T i sel sy' = Some sy1'" by (simp add: take_selected_def)
  have "agree_by R sy1 sy1'"
    using assms(1,3) sy1' n agree_byD [OF assms(1)] assms(2) recv_agree [OF agree_byD(3) [OF assms(1)] assms(2)]
    by (auto simp: take_selected_def agree_by_def split: selected.splits)
  with sy1' show thesis by (rule that)
qed

lemma move_agree:
  assumes ag: "agree_by R sy sy'" and i: "i \<in> {1..5}" and mv: "move S T i sy = Some (l, sy1)"
  obtains sy1' where "move S T i sy' = Some (l, sy1')" "agree_by R sy1 sy1'"
proof -
  note same = agree_byD(1,2) [OF ag i] agree_byD(4) [OF ag] incoming_agree [OF ag i]
  let ?r = "first_ready (sy_cancelled sy') (sy_clients sy' i) (incoming T i sy') (sy_nodes sy' i)"
  note mv = mv [unfolded move_def same Let_def]
  show thesis
  proof (cases "en_phase (sy_nodes sy' i)")
    case Polling
    show thesis
    proof (cases ?r)
      case None
      with mv Polling agree_set_node [OF ag] that show thesis by (auto simp: move_def Let_def)
    next
      case (Some sel)
      with mv Polling have "take_selected S T i sel sy = Some sy1" and l: "l = Handled i sel" by auto
      from take_selected_agree [OF ag i this(1)] obtain sy1' where
        "take_selected S T i sel sy' = Some sy1'" "agree_by R sy1 sy1'" .
      with that Some Polling l show thesis by (auto simp: move_def Let_def)
    qed
  next
    case Waiting
    with mv obtain sel where r: "?r = Some sel" "l = Handled i sel" and "take_selected S T i sel sy = Some sy1"
      by (auto split: option.splits)
    from take_selected_agree [OF ag i this(3)] obtain sy1' where
      "take_selected S T i sel sy' = Some sy1'" "agree_by R sy1 sy1'" .
    with that r Waiting show thesis by (auto simp: move_def Let_def)
  next
    case Sending
    show thesis
    proof (cases "en_unsent (sy_nodes sy' i)")
      case Nil
      with mv Sending agree_set_node [OF ag] that show thesis by (auto simp: move_def Let_def)
    next
      case (Cons tm rest)
      obtain t m where tm: "tm = (t, m)" by fastforce
      let ?n = "(sy_nodes sy' i)\<lparr>en_unsent := rest\<rparr>"
      from mv Sending Cons tm obtain net1 where net1: "tr_send T i t m (sy_net sy) = Some net1"
        and l: "l = Other" "sy1 = (set_node i ?n sy)\<lparr>sy_net := net1\<rparr>" by auto
      from send_agree [OF agree_byD(3) [OF ag] i net1] obtain net1' where
        "tr_send T i t m (sy_net sy') = Some net1'" "R net1 net1'" by blast
      with that [of "(set_node i ?n sy')\<lparr>sy_net := net1'\<rparr>"] Sending Cons tm l agree_net [OF agree_set_node [OF ag]]
      show thesis by (auto simp: move_def Let_def)
    qed
  next
    case Stopped
    with mv show thesis by simp
  qed
qed

lemma command_agree:
  assumes ag: "agree_by R sy sy'" and step: "command_step S T c sy = Some (l, sy1)"
  obtains sy1' where "command_step S T c sy' = Some (l, sy1')" "agree_by R sy1 sy1'"
proof (cases c)
  case (Move i)
  with step have i: "i \<in> {1..5}" and mv: "move S T i sy = Some (l, sy1)" by (auto split: if_splits)
  from move_agree [OF ag i mv] obtain sy1' where "move S T i sy' = Some (l, sy1')" "agree_by R sy1 sy1'" .
  with that i Move show thesis by auto
next
  case (Tick d)
  with step that ag show thesis by (auto simp: agree_by_def system_elapse_def)
next
  case (Ask i r)
  with step have i: "i \<in> {1..5}" by (auto simp: client_submit_def split: if_splits)
  with agree_byD(2) [OF ag i] Ask step that ag show thesis by (auto simp: agree_by_def client_submit_def)
qed

end

section \<open>The system as data\<close>

datatype 'a five = Five 'a 'a 'a 'a 'a

fun at :: "'a five \<Rightarrow> nat \<Rightarrow> 'a" where
  "at (Five a b c d e) i = (if i = 1 then a else if i = 2 then b else if i = 3 then c else if i = 4 then d else e)"

definition five :: "(nat \<Rightarrow> 'a) \<Rightarrow> 'a five" where
  "five f = Five (f 1) (f 2) (f 3) (f 4) (f 5)"

lemma at_five: "i \<in> {1..5} \<Longrightarrow> at (five f) i = f i"
  unfolding embassy_ids_set [symmetric] by (auto simp: five_def)

type_synonym ('s, 'c) flat =
  "('s, 'c) embassy_node five \<times> envelope list five \<times> 'c client_request list five \<times> bool"

fun unflat :: "('s, 'c) flat \<Rightarrow> ('s, 'c, channel_hub) embassy_system" where
  "unflat (ns, hub, cs, stop) =
     \<lparr>sy_nodes = at ns, sy_net = (\<lambda>k. at hub (k + 1)), sy_clients = at cs, sy_cancelled = stop\<rparr>"

definition flatten :: "('s, 'c, channel_hub) embassy_system \<Rightarrow> ('s, 'c) flat" where
  "flatten sy = (five (sy_nodes sy), five (\<lambda>i. sy_net sy (i - 1)), five (sy_clients sy), sy_cancelled sy)"

definition flat_step ::
  "('s, string) storage_ops \<Rightarrow> 'c command \<Rightarrow> ('s, 'c) flat \<Rightarrow> ('c label \<times> ('s, 'c) flat) option" where
  "flat_step S c fs =
     (case command_step S channel_ops c (unflat fs) of
        None \<Rightarrow> None
      | Some (l, sy) \<Rightarrow> Some (l, flatten sy))"

fun schedule ::
  "('s, string) storage_ops \<Rightarrow> 'c command list \<Rightarrow> ('s, 'c) flat \<Rightarrow> ('c label list \<times> ('s, 'c) flat) option" where
  "schedule S [] fs = Some ([], fs)"
| "schedule S (c # cs) fs =
     (case flat_step S c fs of
        None \<Rightarrow> None
      | Some (l, fs1) \<Rightarrow>
          (case schedule S cs fs1 of
             None \<Rightarrow> None
           | Some (ls, fs2) \<Rightarrow> Some (l # ls, fs2)))"

definition moves :: "node_id \<Rightarrow> nat \<Rightarrow> 'c command list" where
  "moves i k = replicate k (Move i)"

text \<open>The channels as the five nodes see them.\<close>

definition same_hub :: "channel_hub \<Rightarrow> channel_hub \<Rightarrow> bool" where
  "same_hub hub hub' \<longleftrightarrow> (\<forall>k<5. hub k = hub' k)"

abbreviation agree :: "('s, 'c, channel_hub) embassy_system \<Rightarrow> ('s, 'c, channel_hub) embassy_system \<Rightarrow> bool" where
  "agree \<equiv> agree_by same_hub"

lemmas agree_def = agree_by_def [of same_hub]
lemmas agreeD = agree_byD [of same_hub]

lemma same_hub_upd: "same_hub hub hub' \<Longrightarrow> same_hub (hub(k := q)) (hub'(k := q))"
  by (simp add: same_hub_def)

lemma same_hub_at: "same_hub hub hub' \<Longrightarrow> i \<in> {1..5} \<Longrightarrow> hub (i - 1) = hub' (i - 1)"
  unfolding same_hub_def by (drule spec [of _ "i - 1"]) auto

lemma channel_send_cases:
  "channel_send i t m hub =
     (if t \<notin> {1..5} then Some hub
      else if length (hub (t - 1)) < 32
        then Some (hub(t - 1 := hub (t - 1) @ [\<lparr>env_from = i, env_to = t, env_message = m\<rparr>])) else None)"
  using sender_index [of t] by (auto simp: channel_send_def chan_try_send_def Let_def)

lemma channel_ops_simps [simp]:
  "tr_send channel_ops = channel_send" "tr_recv channel_ops = channel_recv"
  by (simp_all add: channel_ops_def)

interpretation channel_relation: transport_relation channel_ops same_hub
proof
  fix hub hub' :: channel_hub and i
  assume same: "same_hub hub hub'"
  show "\<exists>hub1'. tr_send channel_ops i t m hub' = Some hub1' \<and> same_hub hub1 hub1'"
    if "tr_send channel_ops i t m hub = Some hub1" for t m hub1
    using that same same_hub_at [OF same, of t] same_hub_upd [OF same]
    by (auto simp: channel_send_cases split: if_splits)
  assume i: "i \<in> {1..5}"
  show "snd (tr_recv channel_ops i hub) = snd (tr_recv channel_ops i hub')"
    and "same_hub (fst (tr_recv channel_ops i hub)) (fst (tr_recv channel_ops i hub'))"
    using same same_hub_at [OF same i] same_hub_upd [OF same]
    by (auto simp: channel_recv_def split: prod.splits option.splits)
qed

lemma unflat_flatten: "agree (unflat (flatten sy)) sy"
proof -
  have "at (five (\<lambda>i. sy_net sy (i - 1))) (k + 1) = sy_net sy k" if "k < 5" for k
    using that by (subst at_five) auto
  then show ?thesis unfolding agree_def same_hub_def flatten_def by (simp add: at_five)
qed

text \<open>What is computed is a run of the system.\<close>

lemma schedule_run:
  assumes "schedule S cs fs = Some (ls, fs')" and "agree (unflat fs) sy"
  shows "\<exists>sy'. system_run S channel_ops ls sy sy' \<and> agree (unflat fs') sy'"
  using assms
proof (induction cs arbitrary: fs ls sy)
  case Nil
  then show ?case by (auto intro: system_run.none)
next
  case (Cons c cs)
  from Cons.prems(1) obtain l sy1 ls1 where 1: "command_step S channel_ops c (unflat fs) = Some (l, sy1)"
    "schedule S cs (flatten sy1) = Some (ls1, fs')" "ls = l # ls1"
    by (auto simp: flat_step_def split: option.splits prod.splits)
  from channel_relation.command_agree [OF Cons.prems(2) 1(1)] obtain sy1' where
    2: "command_step S channel_ops c sy = Some (l, sy1')" "agree sy1 sy1'" .
  have "agree (unflat (flatten sy1)) sy1'"
    using unflat_flatten [of sy1] 2(2) by (simp add: agree_def same_hub_def)
  from Cons.IH [OF 1(2) this] 1(3) command_step_system [OF 2(1)] show ?case by (auto intro: system_run.more)
qed

lemma boot_run:
  assumes "schedule S cs (flatten (system_boot S st now hub_new)) = Some (ls, fs)"
  obtains sy where "system_run S channel_ops ls (system_boot S st now hub_new) sy" "agree (unflat fs) sy"
  using schedule_run [OF assms unflat_flatten] by blast

end
