(* ===== verification/Embassy_Starvation.thy ===== *)
theory Embassy_Starvation
  imports Embassy_Schedules
begin

text \<open>
  A node of the bare-metal cluster that stops listening.  The event loop takes the first expired timer
  before it looks at the transport, \<open>stop_timers\<close> is only called on the way to leadership, and a follower
  does nothing about its heartbeat timer.  So a leader that steps down, and whose heartbeat deadline
  then passes, handles the same expired timer again and again.
\<close>

definition starving :: "('s, 'c) embassy_node \<Rightarrow> bool" where
  "starving n \<longleftrightarrow> rn_role (en_raft n) \<noteq> Leader \<and> 1 < length (node_members (en_raft n)) \<and>
     heartbeat_overdue (timer_service (rn_election (en_raft n))) \<and> en_phase n \<noteq> Waiting"

text \<open>What a timer does to a node that is not the leader and not alone.\<close>

lemma timer_keeps_overdue:
  fixes n :: "('s, 'sm, embassy_timer, string) raft_node"
  assumes "rn_role n \<noteq> Leader" and "1 < length (node_members n)"
    and "heartbeat_overdue (timer_service (rn_election n))" and "env_timers E = embassy_timer_ops"
  shows "rn_role (on_event E (TimerFired k) n) \<noteq> Leader \<and> node_members (on_event E (TimerFired k) n) = node_members n \<and>
    heartbeat_overdue (timer_service (rn_election (on_event E (TimerFired k) n)))"
  using assms
  by (cases k) (auto simp: broadcast_eq handle_election_timer_def handle_heartbeat_timer_def start_pre_vote_def
      rt_start_pre_vote_def em_start_pre_vote_def em_reset_election_timer_def observe_def
      embassy_timer_ops_def heartbeat_overdue_stays Let_def)

lemma starving_finish: "starving n \<Longrightarrow> starving (finish_iteration n)"
  by (simp add: starving_def finish_iteration_def)

lemma starving_expired: "starving n \<Longrightarrow> expired_kind n \<noteq> None"
  using heartbeat_overdue_expired by (auto simp: starving_def expired_kind_def split: list.splits)

lemma starving_request:
  assumes "starving n" and "handle_client_request S r n = Some n'"
  shows "starving n'"
  using assms
  by (auto simp: starving_def handle_client_request_def node_submit_client_command_def submit_client_command_def
      submit_entry_def read_linearizable_def reply_def Let_def
      split: client_request.splits option.splits prod.splits sum.splits client_error.splits read_error.splits if_splits)

lemma starving_handles:
  assumes "starving n" and "handle_selected S sel n = Some n'" and "\<And>f m. sel \<noteq> Received f m"
  shows "starving n'"
proof (cases sel)
  case Cancelled
  with assms show ?thesis by (auto simp: handle_selected_def starving_def)
next
  case (ClientRequested r)
  with assms(2) obtain n1 where "handle_client_request S r n = Some n1" "n' = drain n1" by (auto simp: handle_selected_def)
  with starving_request [OF assms(1)] show ?thesis by (simp add: starving_def drain_def)
next
  case (TimerExpired k)
  with assms(1,2) timer_keeps_overdue [of "en_raft n" "embassy_env S" k] show ?thesis
    by (auto simp: handle_selected_def starving_def drain_def raft_event_def Let_def)
next
  case (Received f m)
  with assms(3) [of f m] show ?thesis by simp
qed

lemma starving_step:
  assumes "system_step S T l sy sy'" and "i \<in> {1..5}" and st: "starving (sy_nodes sy i)"
  shows "starving (sy_nodes sy' i) \<and> (\<forall>f m. l \<noteq> Handled i (Received f m))"
  using assms(1)
proof cases
  case (polled j sel)
  show ?thesis
  proof (cases "j = i")
    case True
    have "sel \<noteq> Received f m" for f m
      using polled(4) starving_expired [OF st] True by (auto simp: first_ready_def split: if_splits list.splits)
    with polled(1,5) starving_handles [OF st] True show ?thesis by (auto simp: take_selected_def)
  qed (use polled st in \<open>auto simp: take_selected_def\<close>)
next
  case (slept j)
  have "j \<noteq> i"
    using slept(5) starving_expired [OF st] by (auto simp: first_ready_def split: if_splits list.splits)
  with slept st show ?thesis by simp
next
  case (woken j sel)
  then have "j \<noteq> i" using st by (auto simp: starving_def)
  with woken st show ?thesis by (auto simp: take_selected_def)
next
  case (sent j t m rest net')
  with st show ?thesis by (auto simp: starving_def)
next
  case (finished j)
  with st starving_finish show ?thesis by (auto simp: starving_def)
next
  case (transported net')
  with st show ?thesis by simp
next
  case (requested j r)
  with st show ?thesis by (auto simp: client_submit_def split: if_splits)
next
  case cancelled
  with st show ?thesis by (simp add: cancel_def)
next
  case (elapsed d)
  with st heartbeat_overdue_stays(2) show ?thesis
    by (simp add: starving_def system_elapse_def node_elapse_def)
qed

lemma starving_run:
  assumes "system_run S T ls sy sy'" and "i \<in> {1..5}" and "starving (sy_nodes sy i)"
  shows "starving (sy_nodes sy' i) \<and> (\<forall>f m. Handled i (Received f m) \<notin> set ls)"
  using assms
proof (induction rule: system_run.induct)
  case (more l sy sy1 ls sy2)
  from starving_step [OF more.hyps(1) more.prems] more.IH more.prems(1) show ?case by auto
qed simp

section \<open>What it does to the others\<close>

text \<open>
  The channel transport waits for room in the receiver's channel.  When the channel of a starving node
  is full, a node with a message for it waits for ever, in the middle of its own event loop.
\<close>

definition stuck :: "node_id \<Rightarrow> node_id \<Rightarrow> (node_id \<times> string raft_msg) list \<Rightarrow> ('s, 'c, channel_hub) embassy_system \<Rightarrow> bool" where
  "stuck i j unsent sy \<longleftrightarrow> starving (sy_nodes sy i) \<and> 32 \<le> length (sy_net sy (i - 1)) \<and>
     en_phase (sy_nodes sy j) = Sending \<and> en_unsent (sy_nodes sy j) = unsent \<and> unsent \<noteq> [] \<and> fst (hd unsent) = i"

lemma channel_send_room:
  assumes "channel_send j t m hub = Some hub'" and "i \<in> {1..5}" and "32 \<le> length (hub (i - 1))"
  shows "t \<noteq> i" and "32 \<le> length (hub' (i - 1))"
  using assms unfolding channel_send_cases by (auto split: if_splits)

lemma channel_recv_room:
  assumes "i \<in> {1..5}" and "j \<in> {1..5}" and "j \<noteq> i"
  shows "fst (channel_recv j hub) (i - 1) = hub (i - 1)"
proof -
  have "i - 1 \<noteq> j - 1" using assms by auto
  then show ?thesis by (auto simp: channel_recv_def split: prod.splits option.splits)
qed

lemma stuck_handled:
  assumes st: "stuck i j unsent sy" and i: "i \<in> {1..5}" and k: "k \<in> {1..5}"
    and take: "take_selected S channel_ops k sel sy = Some sy'" and phase: "en_phase (sy_nodes sy k) \<noteq> Sending"
    and l: "\<And>f m. k = i \<Longrightarrow> sel \<noteq> Received f m" and st': "starving (sy_nodes sy' i)"
  shows "stuck i j unsent sy'"
proof -
  have "k \<noteq> j" using st phase by (auto simp: stuck_def)
  moreover have "sy_net sy' (i - 1) = sy_net sy (i - 1)"
  proof (cases "k = i")
    case True
    with l take show ?thesis by (cases sel) (auto simp: take_selected_def)
  next
    case False
    with channel_recv_room [OF i k False] take show ?thesis by (cases sel) (auto simp: take_selected_def)
  qed
  ultimately show ?thesis using st st' take by (auto simp: stuck_def take_selected_def)
qed

lemma stuck_step:
  assumes "system_step S channel_ops l sy sy'" and i: "i \<in> {1..5}" and st: "stuck i j unsent sy"
  shows "stuck i j unsent sy' \<and> (\<forall>sel. l \<noteq> Handled j sel)"
proof -
  note starve = starving_step [OF assms(1) i, of] st [unfolded stuck_def]
  then have st': "starving (sy_nodes sy' i)" and silent: "\<And>f m. l \<noteq> Handled i (Received f m)" by blast+
  show ?thesis using assms(1)
  proof cases
    case (polled k sel)
    with stuck_handled [OF st i polled(2) polled(5) _ _ st'] silent show ?thesis
      using st by (auto simp: stuck_def)
  next
    case (slept k)
    with st st' show ?thesis by (auto simp: stuck_def)
  next
    case (woken k sel)
    with stuck_handled [OF st i woken(2) woken(5) _ _ st'] silent show ?thesis
      using st by (auto simp: stuck_def)
  next
    case (sent k t m rest net')
    with channel_send_room [of k t m "sy_net sy" net' i] i st st' show ?thesis by (auto simp: stuck_def)
  next
    case (finished k)
    with st st' show ?thesis by (auto simp: stuck_def)
  next
    case (transported net')
    then show ?thesis by (simp add: channel_ops_def)
  next
    case (requested k r)
    with st st' show ?thesis by (auto simp: stuck_def client_submit_def split: if_splits)
  next
    case cancelled
    with st st' show ?thesis by (simp add: stuck_def cancel_def)
  next
    case (elapsed d)
    with st st' show ?thesis by (simp add: stuck_def system_elapse_def node_elapse_def)
  qed
qed

lemma stuck_run:
  assumes "system_run S channel_ops ls sy sy'" and "i \<in> {1..5}" and "stuck i j unsent sy"
  shows "stuck i j unsent sy' \<and> (\<forall>sel. Handled j sel \<notin> set ls)"
  using assms
proof (induction rule: system_run.induct)
  case (more l sy sy1 ls sy2)
  from stuck_step [OF more.hyps(1) more.prems] more.IH more.prems(1) show ?case by auto
qed simp

end
