(* ===== verification/Udp_Runs.thy ===== *)
theory Udp_Runs
  imports Embassy_Schedules Udp_Transport
begin

text \<open>
  Computed runs of the cluster over the network: the moves of the nodes and of the tasks of the
  transport, over a stack that keeps the datagrams in a list and a serializer of four kinds of
  message.  In one run a leader is elected.
\<close>

section \<open>A stack and a serializer\<close>

text \<open>The stack hands over the first datagram for an endpoint; any datagram may get lost.\<close>

type_synonym air = "(endpoint \<times> bytes) list"

fun take_datagram :: "endpoint \<Rightarrow> air \<Rightarrow> (air \<times> bytes) option" where
  "take_datagram e [] = None"
| "take_datagram e ((e', b) # air) =
     (if e' = e then Some (air, b) else map_option (\<lambda>(air', b'). ((e', b) # air', b')) (take_datagram e air))"

definition list_stack :: "air ip_stack" where
  "list_stack = \<lparr>ip_send = (\<lambda>i e b air. air @ [(e, b)]), ip_receive = take_datagram,
     ip_step = (\<lambda>air air'. \<exists>pos\<in>set [0..<length air]. air' = take pos air @ drop (Suc pos) air)\<rparr>"

lemma take_datagram_mset: "take_datagram e air = Some (air', b) \<Longrightarrow> mset air = add_mset (e, b) (mset air')"
  by (induction e air arbitrary: air' rule: take_datagram.induct) (auto split: if_splits)

lemma lost_datagram: "mset (take pos xs @ drop (Suc pos) xs) \<subseteq># mset xs"
proof (cases "pos < length xs")
  case True
  then have "mset xs = add_mset (xs ! pos) (mset (take pos xs @ drop (Suc pos) xs))"
    by (metis id_take_nth_drop mset.simps(2) mset_append union_mset_add_mset_right)
  then show ?thesis by simp
qed simp

lemma list_stack_ok: "never_duplicates list_stack mset []"
  unfolding never_duplicates_def
  by (auto simp: list_stack_def lost_datagram simp del: mset_append dest: take_datagram_mset) (simp add: ac_simps)

text \<open>The kinds of message of an election with small numbers, a byte for each; others are refused.\<close>

fun small_msg_bytes :: "wire_raft_msg \<Rightarrow> bytes option" where
  "small_msg_bytes (WirePreVoteRequest t i lli llt) =
     (if t < 256 \<and> i < 256 \<and> lli < 256 \<and> llt < 256 then Some (map word_of_nat [t, i, lli, llt]) else None)"
| "small_msg_bytes (WirePreVoteResponse t granted) =
     (if t < 256 then Some [word_of_nat t, if granted then 1 else 0] else None)"
| "small_msg_bytes (WireRequestVote t i lli llt) =
     (if t < 256 \<and> i < 256 \<and> lli < 256 \<and> llt < 256 then Some (map word_of_nat [t, i, lli, llt, 0]) else None)"
| "small_msg_bytes (WireRequestVoteResponse t granted) =
     (if t < 256 then Some [word_of_nat t, if granted then 1 else 0, 0] else None)"
| "small_msg_bytes w = None"

fun small_msg_of :: "bytes \<Rightarrow> wire_raft_msg option" where
  "small_msg_of [t, i, lli, llt] = Some (WirePreVoteRequest (unat t) (unat i) (unat lli) (unat llt))"
| "small_msg_of [t, granted] = Some (WirePreVoteResponse (unat t) (granted \<noteq> 0))"
| "small_msg_of [t, i, lli, llt, _] = Some (WireRequestVote (unat t) (unat i) (unat lli) (unat llt))"
| "small_msg_of [t, granted, _] = Some (WireRequestVoteResponse (unat t) (granted \<noteq> 0))"
| "small_msg_of bs = None"

definition small_env_bytes :: "udp_envelope \<Rightarrow> bytes option" where
  "small_env_bytes e = (if ue_from e < 256 \<and> ue_to e < 256
     then Some (word_of_nat (ue_from e) # word_of_nat (ue_to e) # ue_message_bytes e) else None)"

fun small_env_of :: "bytes \<Rightarrow> udp_envelope option" where
  "small_env_of (f # t # bs) = Some \<lparr>ue_from = unat f, ue_to = unat t, ue_message_bytes = bs\<rparr>"
| "small_env_of bs = None"

definition small_postcard :: postcard where
  "small_postcard = \<lparr>pc_msg_bytes = small_msg_bytes, pc_msg_of = small_msg_of,
     pc_env_bytes = small_env_bytes, pc_env_of = small_env_of\<rparr>"

lemma small_postcard_ok: "postcard_ok small_postcard"
proof -
  have byte: "unat (word_of_nat n :: 8 word) = n" if "n < 256" for n
    using that by (simp add: unat_of_nat)
  have "small_msg_of b = Some w" if "small_msg_bytes w = Some b" for w b
    using that by (cases w) (auto simp: byte split: if_splits)
  moreover have "small_env_of b = Some e" if "small_env_bytes e = Some b" for e b
    using that by (auto simp: small_env_bytes_def byte split: if_splits)
  ultimately show ?thesis by (simp add: postcard_ok_def small_postcard_def)
qed

section \<open>The network as the five nodes see it\<close>

definition same_queues :: "'ip udp_net \<Rightarrow> 'ip udp_net \<Rightarrow> bool" where
  "same_queues net net' \<longleftrightarrow>
     (\<forall>i\<in>{1..5}. un_outbox net i = un_outbox net' i \<and> un_inbox net i = un_inbox net' i) \<and> un_ip net = un_ip net'"

interpretation udp_relation: transport_relation "udp_ops D P" same_queues
proof
  fix net net' :: "'a udp_net" and i :: node_id
  assume same: "same_queues net net'" and i: "i \<in> {1..5}"
  then have eq: "un_outbox net i = un_outbox net' i" "un_inbox net i = un_inbox net' i" by (simp_all add: same_queues_def)
  show "\<exists>net1'. tr_send (udp_ops D P) i t m net' = Some net1' \<and> same_queues net1 net1'"
    if "tr_send (udp_ops D P) i t m net = Some net1" for t m net1
    using that same eq by (auto simp: udp_send_def same_queues_def split: option.splits)
  show "snd (tr_recv (udp_ops D P) i net) = snd (tr_recv (udp_ops D P) i net')"
    and "same_queues (fst (tr_recv (udp_ops D P) i net)) (fst (tr_recv (udp_ops D P) i net'))"
    using same eq by (auto simp: udp_recv_def same_queues_def split: prod.splits option.splits)
qed

lemma sender_agree:
  assumes "same_queues net net'" and "i \<in> {1..5}" and "sender_step D P i net = Some net1"
  shows "\<exists>net1'. sender_step D P i net' = Some net1' \<and> same_queues net1 net1'"
proof -
  have "un_outbox net i = un_outbox net' i" using assms(1,2) by (simp add: same_queues_def)
  with assms(1,3) show ?thesis
    by (auto simp: sender_step_def same_queues_def Let_def split: list.splits option.splits if_splits)
qed

lemma listener_agree:
  assumes "same_queues net net'" and "i \<in> {1..5}" and "listener_step D P i net = Some net1"
  shows "\<exists>net1'. listener_step D P i net' = Some net1' \<and> same_queues net1 net1'"
proof -
  have "un_inbox net i = un_inbox net' i" using assms(1,2) by (simp add: same_queues_def)
  with assms(1,3) show ?thesis
    by (auto simp: listener_step_def same_queues_def Let_def split: option.splits prod.splits if_splits)
qed

section \<open>Computing runs\<close>

datatype 'c udp_command = Node "'c command" | Sender node_id | Listener node_id

definition udp_calls :: "'ip udp_net transport_ops" where
  "udp_calls = \<lparr>tr_send = udp_send, tr_recv = udp_recv, tr_internal = (\<lambda>_ _. False)\<rparr>"

fun udp_step ::
  "('s, string) storage_ops \<Rightarrow> 'ip ip_stack \<Rightarrow> postcard \<Rightarrow> 'c udp_command \<Rightarrow> ('s, 'c, 'ip udp_net) embassy_system
   \<Rightarrow> ('c label \<times> ('s, 'c, 'ip udp_net) embassy_system) option" where
  "udp_step S D P (Node c) sy = command_step S udp_calls c sy"
| "udp_step S D P (Sender i) sy =
     (if 1 \<le> i \<and> i \<le> 5 then map_option (\<lambda>net. (Other, sy\<lparr>sy_net := net\<rparr>)) (sender_step D P i (sy_net sy)) else None)"
| "udp_step S D P (Listener i) sy =
     (if 1 \<le> i \<and> i \<le> 5 then map_option (\<lambda>net. (Other, sy\<lparr>sy_net := net\<rparr>)) (listener_step D P i (sy_net sy)) else None)"

lemma udp_calls_step: "command_step S udp_calls c sy = command_step S (udp_ops D P) c sy"
proof -
  have calls: "tr_send udp_calls = tr_send (udp_ops D P)" "tr_recv udp_calls = tr_recv (udp_ops D P)"
    by (simp_all add: udp_calls_def)
  then have "move S udp_calls i sy = move S (udp_ops D P) i sy" for i
    unfolding move_def take_selected_def incoming_def by (simp only:)
  then show ?thesis by (cases c) simp_all
qed

lemma udp_step_system:
  assumes "udp_step S D P c sy = Some (l, sy')"
  shows "system_step S (udp_ops D P) l sy sy'"
proof (cases c)
  case (Node n)
  with assms show ?thesis using command_step_system by (simp add: udp_calls_step [of S _ sy D P])
next
  case (Sender i)
  with assms obtain net where "i \<in> {1..5}" "sender_step D P i (sy_net sy) = Some net" "l = Other" "sy' = sy\<lparr>sy_net := net\<rparr>"
    by (auto split: if_splits)
  with udp_internal.sent [OF this(1,2)] show ?thesis by (auto intro!: system_step.transported)
next
  case (Listener i)
  with assms obtain net where "i \<in> {1..5}" "listener_step D P i (sy_net sy) = Some net" "l = Other" "sy' = sy\<lparr>sy_net := net\<rparr>"
    by (auto split: if_splits)
  with udp_internal.heard [OF this(1,2)] show ?thesis by (auto intro!: system_step.transported)
qed

lemma udp_step_agree:
  assumes ag: "agree_by same_queues sy sy'" and step: "udp_step S D P c sy = Some (l, sy1)"
  obtains sy1' where "udp_step S D P c sy' = Some (l, sy1')" "agree_by same_queues sy1 sy1'"
proof (cases c)
  case (Node n)
  with step have "command_step S (udp_ops D P) n sy = Some (l, sy1)" by (simp add: udp_calls_step [of S _ sy D P])
  from udp_relation.command_agree [OF ag this] that Node show thesis by (auto simp: udp_calls_step [of S _ sy' D P])
next
  case (Sender i)
  with step obtain net where net: "i \<in> {1..5}" "sender_step D P i (sy_net sy) = Some net" "l = Other" "sy1 = sy\<lparr>sy_net := net\<rparr>"
    by (auto split: if_splits)
  from sender_agree [OF agree_byD(3) [OF ag] net(1,2)] that Sender net agree_net [OF ag] show thesis by fastforce
next
  case (Listener i)
  with step obtain net where net: "i \<in> {1..5}" "listener_step D P i (sy_net sy) = Some net" "l = Other" "sy1 = sy\<lparr>sy_net := net\<rparr>"
    by (auto split: if_splits)
  from listener_agree [OF agree_byD(3) [OF ag] net(1,2)] that Listener net agree_net [OF ag] show thesis by fastforce
qed

text \<open>The system as data.\<close>

type_synonym ('s, 'c, 'ip) udp_flat =
  "('s, 'c) embassy_node five \<times> (node_id \<times> string raft_msg) list five \<times> (node_id \<times> string raft_msg) list five \<times> 'ip \<times>
   'c client_request list five \<times> bool"

fun udp_unflat :: "('s, 'c, 'ip) udp_flat \<Rightarrow> ('s, 'c, 'ip udp_net) embassy_system" where
  "udp_unflat (ns, out, inb, ip, cs, stop) =
     \<lparr>sy_nodes = at ns, sy_net = \<lparr>un_outbox = at out, un_inbox = at inb, un_ip = ip\<rparr>, sy_clients = at cs, sy_cancelled = stop\<rparr>"

definition udp_flatten :: "('s, 'c, 'ip udp_net) embassy_system \<Rightarrow> ('s, 'c, 'ip) udp_flat" where
  "udp_flatten sy = (five (sy_nodes sy), five (un_outbox (sy_net sy)), five (un_inbox (sy_net sy)), un_ip (sy_net sy),
     five (sy_clients sy), sy_cancelled sy)"

definition udp_flat_step ::
  "('s, string) storage_ops \<Rightarrow> 'ip ip_stack \<Rightarrow> postcard \<Rightarrow> 'c udp_command \<Rightarrow> ('s, 'c, 'ip) udp_flat
   \<Rightarrow> ('c label \<times> ('s, 'c, 'ip) udp_flat) option" where
  "udp_flat_step S D P c fs =
     (case udp_step S D P c (udp_unflat fs) of
        None \<Rightarrow> None
      | Some (l, sy) \<Rightarrow> Some (l, udp_flatten sy))"

fun udp_schedule ::
  "('s, string) storage_ops \<Rightarrow> 'ip ip_stack \<Rightarrow> postcard \<Rightarrow> 'c udp_command list \<Rightarrow> ('s, 'c, 'ip) udp_flat
   \<Rightarrow> ('c label list \<times> ('s, 'c, 'ip) udp_flat) option" where
  "udp_schedule S D P [] fs = Some ([], fs)"
| "udp_schedule S D P (c # cs) fs =
     (case udp_flat_step S D P c fs of
        None \<Rightarrow> None
      | Some (l, fs1) \<Rightarrow>
          (case udp_schedule S D P cs fs1 of
             None \<Rightarrow> None
           | Some (ls, fs2) \<Rightarrow> Some (l # ls, fs2)))"

lemma udp_unflat_flatten: "agree_by same_queues (udp_unflat (udp_flatten sy)) sy"
  unfolding agree_by_def same_queues_def udp_flatten_def by (simp add: at_five)

lemma udp_schedule_run:
  assumes "udp_schedule S D P cs fs = Some (ls, fs')" and "agree_by same_queues (udp_unflat fs) sy"
  shows "\<exists>sy'. system_run S (udp_ops D P) ls sy sy' \<and> agree_by same_queues (udp_unflat fs') sy'"
  using assms
proof (induction cs arbitrary: fs ls sy)
  case Nil
  then show ?case by (auto intro: system_run.none)
next
  case (Cons c cs)
  from Cons.prems(1) obtain l sy1 ls1 where 1: "udp_step S D P c (udp_unflat fs) = Some (l, sy1)"
    "udp_schedule S D P cs (udp_flatten sy1) = Some (ls1, fs')" "ls = l # ls1"
    by (auto simp: udp_flat_step_def split: option.splits prod.splits)
  from udp_step_agree [OF Cons.prems(2) 1(1)] obtain sy1' where
    2: "udp_step S D P c sy = Some (l, sy1')" "agree_by same_queues sy1 sy1'" .
  have "agree_by same_queues (udp_unflat (udp_flatten sy1)) sy1'"
    using udp_unflat_flatten [of sy1] 2(2) by (simp add: agree_by_def same_queues_def)
  from Cons.IH [OF 1(2) this] 1(3) udp_step_system [OF 2(1)] show ?case by (auto intro: system_run.more)
qed

section \<open>An election over the network\<close>

definition udp_boot :: "(file_host semi_storage, nat, air udp_net) embassy_system" where
  "udp_boot = system_boot (semihosting_storage_ops file_host_ops) (\<lambda>i. blank_storage i empty_host) 0 (udp_new [])"

definition node_moves :: "node_id \<Rightarrow> nat \<Rightarrow> nat udp_command list" where
  "node_moves i k = replicate k (Node (Move i))"

definition udp_election :: "nat udp_command list" where
  "udp_election = Node (Tick 600) # node_moves 1 6 @ replicate 4 (Sender 1) @ [Listener 2, Listener 3] @
     node_moves 2 9 @ node_moves 3 9 @ replicate 5 (Sender 2) @ replicate 5 (Sender 3) @ replicate 4 (Listener 1) @
     node_moves 1 14 @ replicate 6 (Sender 1) @ replicate 3 (Listener 2) @ replicate 3 (Listener 3) @
     node_moves 2 8 @ node_moves 3 8 @ replicate 2 (Sender 2) @ replicate 2 (Sender 3) @ replicate 2 (Listener 1) @
     node_moves 1 3"

fun first_leads :: "(nat label list \<times> (file_host semi_storage, nat, air) udp_flat) option \<Rightarrow> bool" where
  "first_leads None = False"
| "first_leads (Some (ls, Five n1 n2 n3 n4 n5, rest)) \<longleftrightarrow>
     length ls = 96 \<and> rn_role (en_raft n1) = Leader \<and> rn_term (en_raft n1) = 1 \<and>
     LeaderElected 1 1 \<in> set (rn_observed (en_raft n1))"

lemma udp_election_computed:
  "first_leads (udp_schedule (semihosting_storage_ops file_host_ops) list_stack small_postcard udp_election
     (udp_flatten udp_boot))"
  by code_simp

lemma udp_election_run:
  obtains ls sy where
    "system_run (semihosting_storage_ops file_host_ops) (udp_ops list_stack small_postcard) ls udp_boot sy"
    "length ls = 96" "rn_role (en_raft (sy_nodes sy 1)) = Leader" "rn_term (en_raft (sy_nodes sy 1)) = 1"
proof -
  let ?run = "udp_schedule (semihosting_storage_ops file_host_ops) list_stack small_postcard udp_election (udp_flatten udp_boot)"
  obtain ls n1 n2 n3 n4 n5 rest where run: "?run = Some (ls, Five n1 n2 n3 n4 n5, rest)"
    and holds: "length ls = 96" "rn_role (en_raft n1) = Leader" "rn_term (en_raft n1) = 1"
    using udp_election_computed by (cases ?run rule: first_leads.cases) auto
  from udp_schedule_run [OF run udp_unflat_flatten] obtain sy where
    sy: "system_run (semihosting_storage_ops file_host_ops) (udp_ops list_stack small_postcard) ls udp_boot sy"
    "agree_by same_queues (udp_unflat (Five n1 n2 n3 n4 n5, rest)) sy" by blast
  from agree_byD(1) [OF sy(2), of 1] have "n1 = sy_nodes sy 1" by (cases rest) simp
  with sy(1) holds that show thesis by simp
qed

end
