(* ===== verification/Embassy_Properties.thy ===== *)
theory Embassy_Properties
  imports Embassy_Starvation Udp_Runs
begin

text \<open>
  Properties of the bare-metal cluster of \<open>embassy/src\<close> as a whole: its runs are runs of the cluster of
  \<open>Cluster\<close>, and so elections are safe and logs match, over either transport and either storage.
\<close>

section \<open>Refinement\<close>

text \<open>C10: A run of the five tasks of the bare-metal cluster, over any transport that keeps the contract, is a
  run of the cluster in which messages are delivered in any order or lost and timers fire at any time:
  the nodes are those of the cluster, up to the state of their timers, and the commands handed to
  nodes are the commands submitted there.\<close>

theorem bare_metal_refines_cluster:
  assumes "async_transport T fl ok net0" and "bounded_batches S"
    and "system_run S T ls (system_boot S st now net0) sy"
  shows "\<exists>acts. length acts \<le> 5 * Suc (length ls) \<and> (\<forall>a\<in>set acts. keeps_members a) \<and>
    submit_count acts = write_count ls \<and>
    nodes_match sy (run_cluster (untimed (embassy_env S)) acts (embassy_cluster S st))"
  by (rule async_transport.system_refines_cluster [OF assms(1,3,2)])

text \<open>The two configurations of the crate.\<close>

lemma channel_cluster:
  assumes "system_run embassy_storage_ops channel_ops ls (system_boot embassy_storage_ops st now hub_new) sy"
  obtains acts where "length acts \<le> 5 * Suc (length ls)" "\<forall>a\<in>set acts. keeps_members a"
    "submit_count acts = write_count ls"
    "nodes_match sy (run_cluster (abstract_env embassy_storage_ops) acts (embassy_cluster embassy_storage_ops st))"
  using channel.system_refines_cluster [OF assms emb_bounded] by blast


lemma nodes_matchD:
  "nodes_match sy cl \<Longrightarrow> i \<in> {1..5} \<Longrightarrow> cl_nodes cl i = Some (forget (en_raft (sy_nodes sy i)))"
  by (simp add: nodes_match_def)

lemma embassy_fit: "members_fit (env_nodes (abstract_env S)) embassy_ids"
  by (simp add: embassy_members_fit)

section \<open>Elections\<close>

text \<open>C11: Election safety of the in-memory configuration: at no point of a run do two of the five nodes lead in
  the same term.\<close>

theorem memory_channel_one_leader_per_term:
  assumes "system_run embassy_storage_ops channel_ops ls
      (system_boot embassy_storage_ops (\<lambda>_. emb_new) now hub_new) sy"
    and "5 * Suc (length ls) < u64_limit" and "a \<in> {1..5}" and "b \<in> {1..5}"
    and "rn_role (en_raft (sy_nodes sy a)) = Leader" and "rn_role (en_raft (sy_nodes sy b)) = Leader"
    and "rn_term (en_raft (sy_nodes sy a)) = rn_term (en_raft (sy_nodes sy b))"
  shows "a = b"
proof -
  from channel_cluster [OF assms(1)] obtain acts where acts: "length acts \<le> 5 * Suc (length ls)"
    "\<forall>a\<in>set acts. keeps_members a"
    "nodes_match sy (run_cluster (abstract_env embassy_storage_ops) acts
      (embassy_cluster embassy_storage_ops (\<lambda>_. emb_new)))" .
  then show ?thesis
    using emb_node.one_leader_per_term [OF _ embassy_fit _ refl acts(2) _
        nodes_matchD [OF acts(3) assms(3), unfolded embassy_cluster_def]
        nodes_matchD [OF acts(3) assms(4), unfolded embassy_cluster_def]]
      emb_new_fresh [of embassy_ids] assms(2,5-7)
    by (simp add: emb_log.fresh_def)
qed


section \<open>Logs\<close>

text \<open>C13: Log matching in the in-memory configuration, in a run in which fewer than ten write commands are
  handed to nodes, so that no snapshot is ever taken: if two nodes hold entries of the same term at
  the same index, their logs are identical up to there.\<close>

theorem memory_channel_logs_match:
  assumes "system_run embassy_storage_ops channel_ops ls
      (system_boot embassy_storage_ops (\<lambda>_. emb_new) now hub_new) sy"
    and "Suc (5 * Suc (length ls)) < u64_limit" and "write_count ls < 10"
    and "a \<in> {1..5}" and "b \<in> {1..5}"
    and "la = es_log (rn_storage (en_raft (sy_nodes sy a)))" and "lb = es_log (rn_storage (en_raft (sy_nodes sy b)))"
    and "k < length la" and "k < length lb" and "entry_term (la ! k) = entry_term (lb ! k)"
  shows "take (Suc k) la = take (Suc k) lb"
proof -
  from channel_cluster [OF assms(1)] obtain acts where acts: "length acts \<le> 5 * Suc (length ls)"
    "\<forall>a\<in>set acts. keeps_members a" "submit_count acts = write_count ls"
    "nodes_match sy (run_cluster (abstract_env embassy_storage_ops) acts
      (embassy_cluster embassy_storage_ops (\<lambda>_. emb_new)))" .
  then show ?thesis
    using emb_log.log_matching [OF _ embassy_fit emb_new_fresh acts(2) _ _ refl
        nodes_matchD [OF acts(4) assms(4), unfolded embassy_cluster_def]
        nodes_matchD [OF acts(4) assms(5), unfolded embassy_cluster_def]] assms(2,3,6-)
    by (simp add: emb_view_def parts_view_def)
qed

section \<open>A node that stops listening\<close>

text \<open>C21: A follower or candidate whose heartbeat deadline has passed, and that is not asleep, never handles a
  message again, whatever happens: every iteration of its loop handles an expired timer or a client.\<close>

theorem starving_node_hears_nothing:
  assumes "system_run S T ls sy sy'" and "i \<in> {1..5}" and "starving (sy_nodes sy i)"
  shows "starving (sy_nodes sy' i) \<and> (\<forall>f m. Handled i (Received f m) \<notin> set ls)"
  by (rule starving_run [OF assms])

text \<open>When the channel of such a node is full, every node that has a message for it is stuck for good: it
  handles no message, no timer and no client any more.\<close>

theorem starving_node_blocks_its_peers:
  assumes "system_run S channel_ops ls sy sy'" and "i \<in> {1..5}" and "starving (sy_nodes sy i)"
    and "32 \<le> length (sy_net sy (i - 1))" and "en_phase (sy_nodes sy j) = Sending"
    and "en_unsent (sy_nodes sy j) = (i, m) # rest"
  shows "en_phase (sy_nodes sy' j) = Sending \<and> en_unsent (sy_nodes sy' j) = (i, m) # rest \<and>
    (\<forall>sel. Handled j sel \<notin> set ls)"
  using stuck_run [OF assms(1,2), of j "(i, m) # rest"] assms(3-) by (simp add: stuck_def)

section \<open>Witnesses\<close>

text \<open>
  Three of the five nodes compete until node 3 leads term 2; a client then writes \<open>a=1\<close> through node 3 and
  reads it back.
\<close>

definition bare_metal_boot :: "(string emb_storage, nat, channel_hub) embassy_system" where
  "bare_metal_boot = system_boot embassy_storage_ops (\<lambda>_. emb_new) 0 hub_new"

definition story :: "nat command list" where
  "story = [Tick 600] @ moves 1 7 @ moves 2 10 @ moves 3 13 @ moves 1 15 @ moves 2 15 @ moves 3 15 @ moves 1 11 @
     moves 2 8 @ moves 3 9 @ moves 1 4 @ moves 2 4 @ moves 3 5 @ [Ask 3 (Write ''a=1'' 7)] @ moves 3 7 @
     moves 1 4 @ moves 2 4 @ moves 3 5 @ [Ask 3 (Read ''a'' 8)] @ moves 3 3"

definition story_holds :: "nat label list \<Rightarrow> (string emb_storage, nat) embassy_node \<Rightarrow> (string emb_storage, nat) embassy_node \<Rightarrow> bool" where
  "story_holds ls n1 n3 \<longleftrightarrow> length ls = 142 \<and> write_count ls = 1 \<and>
     rn_role (en_raft n3) = Leader \<and> rn_term (en_raft n3) = 2 \<and> rn_role (en_raft n1) = Follower \<and>
     es_log (rn_storage (en_raft n1)) = [\<lparr>entry_term = 2, entry_kind = Command ''a=1''\<rparr>] \<and>
     es_log (rn_storage (en_raft n3)) = [\<lparr>entry_term = 2, entry_kind = Command ''a=1''\<rparr>] \<and>
     en_replies n3 = [WriteReply 7 (Inr ()), ReadReply 8 (Inr (Some ''1''))]"

fun story_end :: "(nat label list \<times> (string emb_storage, nat) flat) option \<Rightarrow> bool" where
  "story_end None = False"
| "story_end (Some (ls, Five n1 n2 n3 n4 n5, rest)) = story_holds ls n1 n3"

lemma story_computed: "story_end (schedule embassy_storage_ops story (flatten bare_metal_boot))"
  by code_simp

lemma story_run:
  obtains ls sy where "system_run embassy_storage_ops channel_ops ls bare_metal_boot sy"
    "story_holds ls (sy_nodes sy 1) (sy_nodes sy 3)"
proof -
  from story_computed obtain ls n1 n2 n3 n4 n5 rest where
    run: "schedule embassy_storage_ops story (flatten bare_metal_boot) = Some (ls, Five n1 n2 n3 n4 n5, rest)"
    by (cases rule: story_end.cases [of "schedule embassy_storage_ops story (flatten bare_metal_boot)"]) auto
  with story_computed have final: "story_holds ls n1 n3" by simp
  from boot_run [OF run [unfolded bare_metal_boot_def]] obtain sy where
    sy: "system_run embassy_storage_ops channel_ops ls bare_metal_boot sy" "agree (unflat (Five n1 n2 n3 n4 n5, rest)) sy"
    unfolding bare_metal_boot_def .
  from agreeD(1) [OF sy(2), of 1] agreeD(1) [OF sy(2), of 3] have "n1 = sy_nodes sy 1" "n3 = sy_nodes sy 3"
    by (cases rest, simp)+
  with final that [OF sy(1)] show thesis by simp
qed

theorem bare_metal_refines_cluster_witness:
  "\<exists>ls sy acts. system_run embassy_storage_ops channel_ops ls bare_metal_boot sy \<and>
     en_replies (sy_nodes sy 3) = [WriteReply 7 (Inr ()), ReadReply 8 (Inr (Some ''1''))] \<and> submit_count acts = 1 \<and>
     nodes_match sy (run_cluster (untimed (embassy_env embassy_storage_ops)) acts
       (embassy_cluster embassy_storage_ops (\<lambda>_. emb_new)))"
proof (rule story_run)
  fix ls sy
  assume sy: "system_run embassy_storage_ops channel_ops ls bare_metal_boot sy"
    "story_holds ls (sy_nodes sy 1) (sy_nodes sy 3)"
  from bare_metal_refines_cluster [OF channel.async_transport_axioms emb_bounded sy(1) [unfolded bare_metal_boot_def]] sy
  show ?thesis by (auto simp: story_holds_def)
qed

theorem memory_channel_one_leader_per_term_witness:
  "\<exists>ls sy. system_run embassy_storage_ops channel_ops ls bare_metal_boot sy \<and>
     {i \<in> {1..5}. rn_role (en_raft (sy_nodes sy i)) = Leader \<and> rn_term (en_raft (sy_nodes sy i)) = 2} = {3}"
proof (rule story_run)
  fix ls sy
  assume sy: "system_run embassy_storage_ops channel_ops ls bare_metal_boot sy"
    and "story_holds ls (sy_nodes sy 1) (sy_nodes sy 3)"
  then have holds: "length ls = 142" "rn_role (en_raft (sy_nodes sy 3)) = Leader" "rn_term (en_raft (sy_nodes sy 3)) = 2"
    unfolding story_holds_def by blast+
  have "i = 3" if "i \<in> {1..5}" "rn_role (en_raft (sy_nodes sy i)) = Leader" "rn_term (en_raft (sy_nodes sy i)) = 2" for i
    by (rule memory_channel_one_leader_per_term [OF sy [unfolded bare_metal_boot_def] _ that(1) _ that(2) holds(2)])
      (simp_all add: holds that u64_limit_def)
  with sy holds show ?thesis by (intro exI conjI) auto
qed

theorem memory_channel_logs_match_witness:
  "\<exists>ls sy. system_run embassy_storage_ops channel_ops ls bare_metal_boot sy \<and>
     take 1 (es_log (rn_storage (en_raft (sy_nodes sy 1)))) = take 1 (es_log (rn_storage (en_raft (sy_nodes sy 3)))) \<and>
     es_log (rn_storage (en_raft (sy_nodes sy 3))) \<noteq> []"
proof (rule story_run)
  fix ls sy
  assume sy: "system_run embassy_storage_ops channel_ops ls bare_metal_boot sy"
    and "story_holds ls (sy_nodes sy 1) (sy_nodes sy 3)"
  then have holds: "length ls = 142" "write_count ls = 1"
    "es_log (rn_storage (en_raft (sy_nodes sy 1))) = [\<lparr>entry_term = 2, entry_kind = Command ''a=1''\<rparr>]"
    "es_log (rn_storage (en_raft (sy_nodes sy 3))) = [\<lparr>entry_term = 2, entry_kind = Command ''a=1''\<rparr>]"
    unfolding story_holds_def by blast+
  have "take (Suc 0) (es_log (rn_storage (en_raft (sy_nodes sy 1)))) = take (Suc 0) (es_log (rn_storage (en_raft (sy_nodes sy 3))))"
    by (rule memory_channel_logs_match [OF sy [unfolded bare_metal_boot_def] _ _ _ _ refl refl])
      (simp_all add: holds u64_limit_def del: One_nat_def)
  with sy holds show ?thesis by (intro exI [of _ ls] exI [of _ sy]) simp
qed


text \<open>Node 1 leads term 1, is unseated by the pre-vote that node 2 had begun, and starves 100 ms later.\<close>

definition unseated :: "nat command list" where
  "unseated = [Tick 600] @ moves 1 6 @ moves 2 9 @ moves 3 9 @ moves 1 14 @ moves 2 8 @ moves 3 8 @ moves 1 9 @
     moves 2 10 @ moves 1 6 @ [Tick 100] @ moves 1 2"

fun first_starves :: "(nat label list \<times> (string emb_storage, nat) flat) option \<Rightarrow> bool" where
  "first_starves None = False"
| "first_starves (Some (ls, Five n1 n2 n3 n4 n5, rest)) \<longleftrightarrow>
     rn_role (en_raft n1) = Follower \<and> en_phase n1 = Polling \<and> 1 < length (node_members (en_raft n1)) \<and>
     (case tm_heartbeat_deadline (timer_service (rn_election (en_raft n1))) of
        None \<Rightarrow> False
      | Some d \<Rightarrow> d \<le> tm_now (timer_service (rn_election (en_raft n1))))"

lemma unseated_computed: "first_starves (schedule embassy_storage_ops unseated (flatten bare_metal_boot))"
  by code_simp

lemma unseated_run:
  obtains ls sy where "system_run embassy_storage_ops channel_ops ls bare_metal_boot sy" "starving (sy_nodes sy 1)"
proof -
  from unseated_computed obtain ls n1 n2 n3 n4 n5 rest where
    run: "schedule embassy_storage_ops unseated (flatten bare_metal_boot) = Some (ls, Five n1 n2 n3 n4 n5, rest)"
    by (cases rule: first_starves.cases [of "schedule embassy_storage_ops unseated (flatten bare_metal_boot)"]) auto
  with unseated_computed have final: "first_starves (Some (ls, Five n1 n2 n3 n4 n5, rest))" by simp
  from boot_run [OF run [unfolded bare_metal_boot_def]] obtain sy where
    sy: "system_run embassy_storage_ops channel_ops ls bare_metal_boot sy" "agree (unflat (Five n1 n2 n3 n4 n5, rest)) sy"
    unfolding bare_metal_boot_def .
  from agreeD(1) [OF sy(2), of 1] have "n1 = sy_nodes sy 1" by (cases rest) simp
  with final have "starving (sy_nodes sy 1)" by (auto simp: starving_def heartbeat_overdue_def split: option.splits)
  with sy(1) show thesis by (rule that)
qed

text \<open>Whatever another 100 ms bring, node 1 hears nothing.\<close>

theorem starving_node_hears_nothing_witness:
  "\<exists>ls sy. system_run embassy_storage_ops channel_ops ls bare_metal_boot sy \<and>
     starving (sy_nodes (system_elapse 100 sy) 1)"
proof (rule unseated_run)
  fix ls sy
  assume sy: "system_run embassy_storage_ops channel_ops ls bare_metal_boot sy" "starving (sy_nodes sy 1)"
  have "system_run embassy_storage_ops channel_ops [Other] sy (system_elapse 100 sy)"
    by (rule system_run.more [OF system_step.elapsed system_run.none])
  from starving_node_hears_nothing [OF this _ sy(2)] sy(1) show ?thesis by auto
qed

text \<open>The same node with a full channel, and node 2 about to send it a message.\<close>

theorem starving_node_blocks_its_peers_witness:
  "\<exists>sy :: (string emb_storage, nat, channel_hub) embassy_system.
     starving (sy_nodes sy 1) \<and> en_phase (sy_nodes sy 2) = Sending \<and>
     en_phase (sy_nodes (system_elapse 100 sy) 2) = Sending \<and>
     en_unsent (sy_nodes (system_elapse 100 sy) 2) = [(1, PreVoteResponse 2 True)]"
proof (rule unseated_run)
  fix ls and sy0 :: "(string emb_storage, nat, channel_hub) embassy_system"
  assume sy0: "starving (sy_nodes sy0 1)"
  let ?full = "replicate 32 \<lparr>env_from = 2, env_to = 1, env_message = PreVoteRequest 2 2 0 0\<rparr>"
  define sy where "sy = (set_node 2 ((sy_nodes sy0 2)\<lparr>en_phase := Sending, en_unsent := [(1, PreVoteResponse 2 True)]\<rparr>)
    sy0)\<lparr>sy_net := \<lambda>_. ?full\<rparr>"
  have run: "system_run embassy_storage_ops channel_ops [Other] sy (system_elapse 100 sy)"
    by (rule system_run.more [OF system_step.elapsed system_run.none])
  have st: "starving (sy_nodes sy 1)" "en_phase (sy_nodes sy 2) = Sending" using sy0 by (simp_all add: sy_def)
  have "en_phase (sy_nodes (system_elapse 100 sy) 2) = Sending \<and>
      en_unsent (sy_nodes (system_elapse 100 sy) 2) = [(1, PreVoteResponse 2 True)] \<and> (\<forall>sel :: nat selected. Handled 2 sel \<notin> set [Other])"
    by (rule starving_node_blocks_its_peers [OF run _ st(1) _ st(2)]) (simp_all add: sy_def)
  with st show ?thesis by blast
qed

end
