(* ===== verification/Embassy_Part_Properties.thy ===== *)
theory Embassy_Part_Properties
  imports Udp_Runs
begin

text \<open>
  Properties of the parts of the bare-metal cluster: the wire format, the storage on the host, the state
  machine, the timers and the answers to clients.
\<close>

section \<open>The wire\<close>

text \<open>C23: A packet that was encoded decodes to its sender and message exactly when the message is within the
  bounds of the receiving collections: 128 log entries, 512 bytes of a snapshot.\<close>

theorem packet_round_trip:
  assumes "postcard_ok P" and "encode_packet P i t m = Some b"
  shows "decode_packet P b = Some (i, m) \<longleftrightarrow> msg_fits m"
proof -
  from assms have "decode_packet P b = (case try_from_wire (to_wire m) of Inl _ \<Rightarrow> None | Inr m' \<Rightarrow> Some (i, m'))"
    by (auto simp: postcard_ok_def encode_packet_def decode_packet_def Let_def split: option.splits sum.splits)
  moreover obtain m' where "try_from_wire (to_wire m) = Inr m'" using try_from_wire_ok by blast
  ultimately show ?thesis using wire_roundtrip_iff [of m] by simp
qed

text \<open>C24: Every message that a node with the storage on the host sends, whatever event it handles, is within these
  bounds, so nothing is cut off on the way.\<close>

theorem sent_messages_fit_the_wire:
  assumes "rn_outbox n = []"
    and "(t, m) \<in> set (rn_outbox (on_event (embassy_env (semihosting_storage_ops H)) ev n))"
  shows "try_from_wire (to_wire m) = Inr m"
  using on_event_sends_fit [OF _ assms] by (simp add: wire_roundtrip_iff semi_bounded)

section \<open>Timers\<close>

text \<open>C31: The timers have no part in the protocol: handling an event and forgetting the timers is the same as
  forgetting them first, for any event and any implementation of the traits.\<close>

theorem timers_do_not_influence_handlers:
  "on_event (untimed E) ev (forget n) = forget (on_event E ev n)"
  by (rule forget_on_event)

text \<open>C40: The election timer of the bare-metal node fires between 300 and 600 ms after it was reset.  Nothing but
  the tick count enters into it: two nodes whose timers had the same history, as all five have when they
  are created in the same tick, get the same deadline, and the same again at the next reset.\<close>

theorem embassy_election_timer_bounds:
  assumes "tm_entropy_state t = tm_entropy_state t'" and "tm_now t = tm_now t'"
  shows "\<exists>d. 300 \<le> d \<and> d \<le> 600 \<and>
     tm_election_deadline (embassy_reset_election t) = Some (tm_now t + d) \<and>
     tm_election_deadline (embassy_reset_election t') = Some (tm_now t' + d) \<and>
     tm_entropy_state (embassy_reset_election t) = tm_entropy_state (embassy_reset_election t')"
proof -
  have "snd (embassy_random_timeout t') = snd (embassy_random_timeout t)"
    by (simp add: embassy_random_timeout_def assms Let_def)
  moreover have "tm_election_deadline (embassy_reset_election t) = Some (tm_now t + snd (embassy_random_timeout t))" for t
    by (simp add: embassy_reset_election_def Let_def split_beta)
  moreover have "tm_entropy_state (embassy_reset_election t) = tm_entropy_state (embassy_reset_election t')"
    by (simp add: embassy_reset_election_def embassy_random_timeout_def assms Let_def)
  ultimately show ?thesis using embassy_timeout_window [of t] by auto
qed

section \<open>The state machine\<close>

text \<open>A snapshot of the state machine restores it, if its lines fit into 512 bytes and no key or value contains a
  line break.\<close>

theorem machine_snapshot_round_trip:
  assumes "esm_wf m" and "\<forall>kv\<in>set (em_data m). kv_plain kv"
    and "(\<Sum>kv\<leftarrow>em_data m. length (kv_line kv)) \<le> 512"
  shows "esm_restore_from_snapshot (esm_create_snapshot m) m' = (m, Inr ())"
  using esm_restore_created [OF assms, of m'] by simp

text \<open>After a command \<open>k=v\<close> the machine answers \<open>v\<close> for \<open>k\<close> and what it answered before for every other key,
  unless it already holds sixteen other keys; then the command does nothing.\<close>

theorem machine_apply_get:
  assumes "CHR ''='' \<notin> set k"
  shows "esm_get (esm_apply (k @ ''='' @ v) m) k' =
    (if k' = k \<and> (esm_get m k \<noteq> None \<or> length (em_data m) < 16) then Some v else esm_get m k')"
  using esm_apply_get [OF assms, of m v k'] esm_apply_full [OF assms, of m v]
  by (cases "esm_get m k \<noteq> None \<or> length (em_data m) < 16") auto

section \<open>The storage on the host\<close>

text \<open>The log file holds the commands of the log: reading back what was written gives every command with its
  term, in order, and drops the configuration changes.\<close>

theorem log_file_round_trip:
  assumes "\<forall>e\<in>set log. storable e" and "length (serialize_log log) < usize32_limit"
  shows "deserialize_log (serialize_log log) = Some (filter is_command log)"
  by (rule deserialize_serialize [OF assms])

text \<open>C37: On a host that carries out its calls, the files hold the storage after every operation that changes it.\<close>

theorem files_follow_the_storage:
  assumes "reliable_host H files" and "on_disk files s"
  shows "on_disk files (semi_set_current_term H t s) \<and> on_disk files (semi_set_voted_for H vote s) \<and>
    on_disk files (semi_append_entries H es s) \<and> on_disk files (semi_truncate_after H k s) \<and>
    on_disk files (semi_discard_entries_before H k s) \<and> on_disk files (semi_save_snapshot H sn s) \<and>
    on_disk files (fst (semi_apply_snapshot_chunk H ofs d dn lii lit s)) \<and>
    on_disk files (fst (semi_finalize_snapshot H b md s))"
  using on_disk_ops [OF assms] by blast

text \<open>C22: A node restarted from these files has the term, the vote, the snapshot and the commands of the log it had,
  at the same indices when the log held no configuration change.\<close>

theorem restart_from_files:
  assumes "reliable_host H files" and "on_disk files s" and "small_enough s" and "compacted (semi_view s)"
  shows "\<exists>s'. semi_new H (sh_node_id s) (sh_host s) = Some s' \<and>
    semi_view s' = (semi_view s)\<lparr>v_log := filter is_command (sh_log s)\<rparr> \<and> files (sh_host s') = files (sh_host s)"
  by (rule semi_restart [OF assms])

section \<open>Answers to clients\<close>

lemma delete_first: "fst p \<notin> fst ` set xs \<Longrightarrow> AList.delete (fst p) (p # xs) = xs"
  by (induction xs; cases p) auto

lemma complete_requests:
  "en_pending n = ps @ qs \<Longrightarrow> distinct (map fst (ps @ qs)) \<Longrightarrow>
   fold complete_request (map fst ps) n =
     n\<lparr>en_pending := qs, en_replies := en_replies n @ map (\<lambda>p. WriteReply (snd p) (Inr ())) ps\<rparr>"
proof (induction ps arbitrary: n)
  case (Cons p ps)
  have "AList.delete (fst p) (p # ps @ qs) = ps @ qs"
    using Cons.prems(2) by (intro delete_first) auto
  then have "complete_request (fst p) n =
      n\<lparr>en_pending := ps @ qs, en_replies := en_replies n @ [WriteReply (snd p) (Inr ())]\<rparr>"
    using Cons.prems by (cases p) (simp add: complete_request_def reply_def)
  with Cons.IH Cons.prems(2) show ?case by simp
qed simp

text \<open>C39: When the loop has handled an event, the requests whose index is committed are answered with success, in the
  order of their indices, and leave the map of pending requests; the others stay in it.\<close>

theorem committed_requests_are_answered:
  fixes n :: "('s, 'c) embassy_node"
  assumes "sorted (map fst (en_pending n))" and "distinct (map fst (en_pending n))"
    and "c = node_commit_index (en_raft n)"
  shows "process_committed_requests n =
    n\<lparr>en_pending := filter (\<lambda>p. c < fst p) (en_pending n),
      en_replies := en_replies n @ map (\<lambda>p. WriteReply (snd p) (Inr ())) (filter (\<lambda>p. fst p \<le> c) (en_pending n))\<rparr>"
proof -
  have split: "takeWhile (\<lambda>p. fst p \<le> c) ps = filter (\<lambda>p. fst p \<le> c) ps \<and>
      dropWhile (\<lambda>p. fst p \<le> c) ps = filter (\<lambda>p. c < fst p) ps" if "sorted (map fst ps)" for ps :: "(nat \<times> 'c) list"
    using that
  proof (induction ps)
    case (Cons p ps)
    show ?case
    proof (cases "fst p \<le> c")
      case False
      with Cons.prems have "\<forall>q\<in>set ps. c < fst q" by fastforce
      then have "filter (\<lambda>p. fst p \<le> c) ps = []" "filter (\<lambda>p. c < fst p) ps = ps"
        by (auto simp: filter_empty_conv filter_id_conv)
      with False show ?thesis by simp
    qed (use Cons in simp)
  qed simp
  let ?ps = "filter (\<lambda>p. fst p \<le> c) (en_pending n)" and ?qs = "filter (\<lambda>p. c < fst p) (en_pending n)"
  have parts: "en_pending n = ?ps @ ?qs"
    using split [OF assms(1)] takeWhile_dropWhile_id [of "\<lambda>p. fst p \<le> c" "en_pending n"] by simp
  have "distinct (map fst (?ps @ ?qs))" using assms(2) by (simp only: parts [symmetric])
  from complete_requests [OF parts this] show ?thesis
    using split [OF assms(1)]
    by (simp add: process_committed_requests_def completed_requests_def case_prod_beta' assms(3) [symmetric])
qed

section \<open>Witnesses\<close>

definition loud_entry :: "string log_entry" where
  "loud_entry = \<lparr>entry_term = 1, entry_kind = Command ''a=1''\<rparr>"

theorem embassy_election_timer_bounds_witness:
  "\<exists>d. 300 \<le> d \<and> d \<le> 600 \<and>
     tm_election_deadline (embassy_reset_election (embassy_timer_new 7)) = Some (7 + d) \<and>
     tm_election_deadline (embassy_reset_election ((embassy_timer_new 7)\<lparr>tm_heartbeat_deadline := Some 5\<rparr>)) = Some (7 + d)"
  using embassy_election_timer_bounds [of "embassy_timer_new 7" "(embassy_timer_new 7)\<lparr>tm_heartbeat_deadline := Some 5\<rparr>"]
  by (auto simp: embassy_timer_new_def)

theorem machine_snapshot_round_trip_witness:
  "esm_restore_from_snapshot (esm_create_snapshot \<lparr>em_data = [(''a'', ''1''), (''b'', ''2'')]\<rparr>) esm_new =
     (\<lparr>em_data = [(''a'', ''1''), (''b'', ''2'')]\<rparr>, Inr ())"
  by (rule machine_snapshot_round_trip) (unfold esm_wf_def kv_plain_def, code_simp+)

theorem machine_apply_get_witness: "esm_get (esm_apply (''a'' @ ''='' @ ''1'') esm_new) ''a'' = Some ''1''"
  using machine_apply_get [of "''a''" "''1''" esm_new "''a''"] by (simp add: esm_new_def)

theorem log_file_round_trip_witness:
  "deserialize_log (serialize_log [loud_entry, \<lparr>entry_term = 1, entry_kind = ConfigChange (AddServer 4)\<rparr>]) = Some [loud_entry]"
proof -
  let ?log = "[loud_entry, \<lparr>entry_term = 1, entry_kind = ConfigChange (AddServer 4)\<rparr>]"
  have "\<forall>e\<in>set ?log. storable e" and "length (serialize_log ?log) < usize32_limit" by code_simp+
  from log_file_round_trip [OF this] show ?thesis by (simp add: loud_entry_def is_command_def)
qed

definition stored_once :: "file_host semi_storage" where
  "stored_once = semi_append_entries file_host_ops [loud_entry] (blank_storage 1 empty_host)"

theorem files_follow_the_storage_witness: "on_disk host_files stored_once"
  using files_follow_the_storage [OF file_host_reliable blank_on_disk, of 1 1 "Some 1" "[loud_entry]"]
  unfolding stored_once_def by blast

lemma stored_once_on_disk: "on_disk host_files stored_once"
  unfolding stored_once_def by (rule on_disk_ops(3) [OF file_host_reliable blank_on_disk])

theorem restart_from_files_witness:
  "\<exists>s'. semi_new file_host_ops 1 (sh_host stored_once) = Some s' \<and> v_log (semi_view s') = [loud_entry]"
proof -
  have log: "sh_log stored_once = [loud_entry]" and "sh_node_id stored_once = 1" by code_simp+
  moreover have "sh_snapshot stored_once = None" "sh_voted_for stored_once = None" "sh_current_term stored_once = 0"
    "sh_first_index stored_once = 1" by code_simp+
  moreover have "storable loud_entry" "length (serialize_log [loud_entry]) < usize32_max" by code_simp+
  ultimately have "small_enough stored_once" "compacted (semi_view stored_once)"
    by (simp_all add: small_enough_def u64_limit_def compacted_def semi_view_def parts_view_def)
  from restart_from_files [OF file_host_reliable stored_once_on_disk this] log \<open>sh_node_id stored_once = 1\<close>
  show ?thesis by (auto simp: loud_entry_def is_command_def)
qed

text \<open>A node with two requests pending of which the first is committed.\<close>

definition busy_node :: "(string emb_storage, nat) embassy_node" where
  "busy_node = (let n = embassy_node_new embassy_storage_ops 1 emb_new 0; r = en_raft n
     in n\<lparr>en_pending := [(1, 7), (2, 8)],
          en_raft := r\<lparr>rn_replication := (rn_replication r)\<lparr>commit_index := 1\<rparr>\<rparr>\<rparr>)"

theorem committed_requests_are_answered_witness:
  "en_replies (process_committed_requests busy_node) = [WriteReply 7 (Inr ())] \<and>
   en_pending (process_committed_requests busy_node) = [(2, 8)]"
proof -
  have "en_pending busy_node = [(1, 7), (2, 8)]" "en_replies busy_node = []" "node_commit_index (en_raft busy_node) = 1"
    by code_simp+
  then show ?thesis by (subst (1 2) committed_requests_are_answered [of busy_node 1]) simp_all
qed

theorem packet_round_trip_witness:
  "decode_packet small_postcard [1, 2, 9, 1, 4, 8] = Some (1, PreVoteRequest 9 1 4 8)"
proof -
  have "encode_packet small_postcard 1 2 (PreVoteRequest 9 1 4 8) = Some [1, 2, 9, 1, 4, 8]" by code_simp
  from packet_round_trip [OF small_postcard_ok this] show ?thesis by simp
qed

definition sleepy_node :: "(file_host semi_storage, embassy_state_machine, embassy_timer, string) raft_node" where
  "sleepy_node = en_raft (embassy_node_new (semihosting_storage_ops file_host_ops) 1 (blank_storage 1 empty_host) 0 ::
     (file_host semi_storage, nat) embassy_node)"

theorem sent_messages_fit_the_wire_witness:
  "try_from_wire (to_wire (PreVoteRequest 0 1 0 0)) = Inr (PreVoteRequest 0 1 0 0)"
proof -
  have "rn_outbox sleepy_node = []"
    and "(2, PreVoteRequest 0 1 0 0) \<in> set (rn_outbox (on_event (embassy_env (semihosting_storage_ops file_host_ops)) (TimerFired Election) sleepy_node))"
    by code_simp+
  from sent_messages_fit_the_wire [OF this] show ?thesis .
qed

end
