(* ===== verification/Embassy_Deviations.thy ===== *)
theory Embassy_Deviations
  imports Embassy_Runs
begin

text \<open>
  Evaluated runs in which the bare-metal node departs from what its comments and documents promise.
\<close>

section \<open>A lost command is acknowledged\<close>

text \<open>
  Node 1 leads term 1, has appended the command of client 7 at index 1 and waits for it to be committed.
  Node 3, elected in term 2, replaces the entry by its own and commits it.  The map of pending requests
  survives the change of leader, so client 7 is told that its command succeeded.
\<close>

definition old_leader :: "(string emb_storage, nat) embassy_node" where
  "old_leader =
     (let n = embassy_node_new embassy_storage_ops 1 emb_new 0; r = en_raft n;
          st = emb_append_entries [\<lparr>entry_term = 1, entry_kind = Command ''a=1''\<rparr>] (emb_set_current_term 1 emb_new)
      in n\<lparr>en_raft := r\<lparr>rn_role := Leader, rn_term := 1, rn_storage := st\<rparr>, en_pending := [(1, 7)]\<rparr>)"

definition hears :: "node_id \<Rightarrow> string raft_msg \<Rightarrow> (string emb_storage, nat) embassy_node \<Rightarrow> (string emb_storage, nat) embassy_node" where
  "hears f m n = (case handle_selected embassy_storage_ops (Received f m) n of None \<Rightarrow> n | Some n1 \<Rightarrow> finish_iteration n1)"

theorem lost_command_is_acknowledged:
  "let new = AppendEntries 2 0 0 [\<lparr>entry_term = 2, entry_kind = Command ''b=2''\<rparr>] 1;
       n = hears 3 new (hears 3 new old_leader)
   in en_replies n = [WriteReply 7 (Inr ())] \<and>
      es_log (rn_storage (en_raft n)) = [\<lparr>entry_term = 2, entry_kind = Command ''b=2''\<rparr>] \<and>
      esm_get (rn_machine (en_raft n)) ''a'' = None"
  by code_simp

section \<open>The seventeenth key\<close>

text \<open>A committed and acknowledged command for a seventeenth key leaves the state machine as it was.\<close>

definition full_machine :: embassy_state_machine where
  "full_machine = \<lparr>em_data = map (\<lambda>k. ([char_of (k + 65)], ''1'')) [0..<16]\<rparr>"

theorem seventeenth_key_is_dropped:
  "esm_apply ''z=1'' full_machine = full_machine \<and> esm_get (esm_apply ''z=1'' full_machine) ''z'' = None"
proof -
  have "esm_get full_machine ''z'' = None" and "16 \<le> length (em_data full_machine)" by code_simp+
  then show ?thesis using esm_apply_full [of "''z''" full_machine "''1''"] by simp
qed

text \<open>A value with a line break does not survive a snapshot.\<close>

theorem line_break_breaks_the_snapshot:
  "fst (esm_restore_from_snapshot (esm_create_snapshot \<lparr>em_data = [(''a'', [CHR ''1'', newline, CHR ''2''])]\<rparr>) esm_new) =
     \<lparr>em_data = [(''a'', ''1'')]\<rparr>"
  by code_simp

end
