(* ===== verification/Embassy_Observer.thy ===== *)
theory Embassy_Observer
  imports Raft_Types Byte_Codec
begin

text \<open>
  What a bare-metal node prints: \<open>EventLevel\<close> of \<open>core/src/observer.rs\<close>, \<open>embassy/src/embassy_observer.rs\<close>,
  the choice of the level in \<open>embassy/src/config.rs\<close> with the file \<open>embassy/config.json\<close> it reads at
  compile time, and the macro of \<open>logging.rs\<close>, and \<open>NullObserver\<close> of \<open>test-utils\<close>.  Text is bytes, as
  in \<open>Byte_Codec\<close>.
\<close>

section \<open>Levels\<close>

datatype event_level = LevelNone | Essential | Info | Debug | Trace

fun level_value :: "event_level \<Rightarrow> nat" where
  "level_value LevelNone = 0"
| "level_value Essential = 1"
| "level_value Info = 2"
| "level_value Debug = 3"
| "level_value Trace = 4"

lemma level_value_inject: "level_value a = level_value b \<longleftrightarrow> a = b"
  by (cases a; cases b) simp_all

instantiation event_level :: linorder
begin

definition less_eq_event_level :: "event_level \<Rightarrow> event_level \<Rightarrow> bool" where
  "a \<le> b \<longleftrightarrow> level_value a \<le> level_value b"

definition less_event_level :: "event_level \<Rightarrow> event_level \<Rightarrow> bool" where
  "a < b \<longleftrightarrow> level_value a < level_value b"

instance
  by standard (auto simp: less_eq_event_level_def less_event_level_def level_value_inject [symmetric])

end

lemma level_le_iff: "a \<le> b \<longleftrightarrow> level_value a \<le> level_value b"
  by (simp add: less_eq_event_level_def)

section \<open>The observer of the bare-metal node\<close>

fun show_role :: "role \<Rightarrow> string" where
  "show_role RoleFollower = ''Follower''"
| "show_role RoleCandidate = ''Candidate''"
| "show_role RoleLeader = ''Leader''"

fun show_timer :: "observer_timer_kind \<Rightarrow> string" where
  "show_timer ObserverElection = ''Election''"
| "show_timer ObserverHeartbeat = ''Heartbeat''"

definition info :: "string list \<Rightarrow> string" where
  \<comment> \<open>The macro \<open>info!\<close>: the pieces of the formatted text, and a line break.\<close>
  "info pieces = concat pieces @ [CHR 0x0A]"

definition at_level :: "event_level \<Rightarrow> event_level \<Rightarrow> string list \<Rightarrow> string list" where
  "at_level level needed pieces = (if needed \<le> level then [info pieces] else [])"

text \<open>The calls a node makes, and those the core never makes, in the order of the trait.\<close>

definition on_log_appended ::
  "event_level \<Rightarrow> node_id \<Rightarrow> nat \<Rightarrow> log_index \<Rightarrow> log_term \<Rightarrow> string list" where
  "on_log_appended level node count last_index last_term =
     at_level level Debug [''Node '', decimal node, '' appended '', decimal count, '' entries (last: index='',
       decimal last_index, '', term='', decimal last_term, '')'']"

definition on_log_truncated ::
  "event_level \<Rightarrow> node_id \<Rightarrow> log_index \<Rightarrow> string list" where
  "on_log_truncated level node from_index =
     at_level level Info [''Node '', decimal node, '' log truncated from index '', decimal from_index]"

definition on_vote_requested ::
  "event_level \<Rightarrow> node_id \<Rightarrow> node_id \<Rightarrow> log_term \<Rightarrow> log_index \<Rightarrow> log_term \<Rightarrow> string list" where
  "on_vote_requested level candidate voter t last_log_index last_log_term =
     at_level level Debug [''Node '', decimal voter, '' vote requested by '', decimal candidate, '' (term '',
       decimal t, '', last_log: index='', decimal last_log_index, '', term='', decimal last_log_term, '')'']"

definition on_vote_granted ::
  "event_level \<Rightarrow> node_id \<Rightarrow> node_id \<Rightarrow> bool \<Rightarrow> log_term \<Rightarrow> string list" where
  "on_vote_granted level candidate voter granted t =
     at_level level Debug [''Node '', decimal voter, '' '', (if granted then ''granted'' else ''denied''),
       '' vote to '', decimal candidate, '' (term '', decimal t, '')'']"

definition on_voted_for ::
  "event_level \<Rightarrow> node_id \<Rightarrow> node_id \<Rightarrow> log_term \<Rightarrow> string list" where
  "on_voted_for level voter candidate t =
     at_level level Info [''Node '', decimal voter, '' voted for '', decimal candidate, '' (term '', decimal t, '')'']"

definition on_heartbeat_sent ::
  "event_level \<Rightarrow> node_id \<Rightarrow> node_id \<Rightarrow> log_term \<Rightarrow> string list" where
  "on_heartbeat_sent level leader follower t =
     at_level level Trace [''Node '', decimal leader, '' sent heartbeat to '', decimal follower, '' (term '', decimal t, '')'']"

definition on_append_entries_sent ::
  "event_level \<Rightarrow> node_id \<Rightarrow> node_id \<Rightarrow> nat \<Rightarrow> log_term \<Rightarrow> string list" where
  "on_append_entries_sent level leader follower entry_count t =
     at_level level Debug [''Node '', decimal leader, '' sent '', decimal entry_count, '' entries to '', decimal follower,
       '' (term '', decimal t, '')'']"

definition on_append_entries_response ::
  "event_level \<Rightarrow> node_id \<Rightarrow> node_id \<Rightarrow> bool \<Rightarrow> log_index \<Rightarrow> log_term \<Rightarrow> string list" where
  "on_append_entries_response level follower leader success match_index t =
     at_level level Debug [''Node '', decimal follower, '' -> Node '', decimal leader, '': AppendEntries '',
       (if success then ''success'' else ''failed''), '' (match_index='', decimal match_index, '', term='', decimal t, '')'']"

definition on_timer_fired ::
  "event_level \<Rightarrow> node_id \<Rightarrow> observer_timer_kind \<Rightarrow> log_term \<Rightarrow> string list" where
  "on_timer_fired level node timer t =
     at_level level Debug [''Node '', decimal node, '' '', show_timer timer, '' timer fired (term '', decimal t, '')'']"

definition on_timer_reset ::
  "event_level \<Rightarrow> node_id \<Rightarrow> observer_timer_kind \<Rightarrow> log_term \<Rightarrow> string list" where
  "on_timer_reset level node timer t =
     at_level level Trace [''Node '', decimal node, '' '', show_timer timer, '' timer reset (term '', decimal t, '')'']"

definition on_message_sent ::
  "event_level \<Rightarrow> node_id \<Rightarrow> node_id \<Rightarrow> 'p raft_msg \<Rightarrow> string list" where
  "on_message_sent level sender to msg =
     at_level level Trace [''Node '', decimal sender, '' -> Node '', decimal to, '': message sent'']"

definition on_message_received ::
  "event_level \<Rightarrow> node_id \<Rightarrow> node_id \<Rightarrow> 'p raft_msg \<Rightarrow> string list" where
  "on_message_received level to sender msg =
     at_level level Trace [''Node '', decimal to, '' <- Node '', decimal sender, '': message received'']"

definition on_higher_term_discovered ::
  "event_level \<Rightarrow> node_id \<Rightarrow> log_term \<Rightarrow> log_term \<Rightarrow> node_id \<Rightarrow> string list" where
  "on_higher_term_discovered level node old_term new_term from_peer =
     at_level level Info [''Node '', decimal node, '' discovered higher term from '', decimal from_peer, '' (term '',
       decimal old_term, '' -> '', decimal new_term, '')'']"

definition on_configuration_change_applied ::
  "event_level \<Rightarrow> node_id \<Rightarrow> node_id \<Rightarrow> bool \<Rightarrow> string list" where
  "on_configuration_change_applied level node target added =
     at_level level Info [''Node '', decimal node, '' config change: '', decimal target, '' '',
       (if added then ''added'' else ''removed'')]"

definition on_state_machine_applied ::
  "event_level \<Rightarrow> node_id \<Rightarrow> log_index \<Rightarrow> 'p \<Rightarrow> string list" where
  "on_state_machine_applied level node index payload =
     at_level level Debug [''Node '', decimal node, '' applied entry '', decimal index, '' to state machine'']"

definition on_state_machine_read ::
  "event_level \<Rightarrow> node_id \<Rightarrow> string \<Rightarrow> bool \<Rightarrow> string list" where
  "on_state_machine_read level node key found =
     at_level level Debug [''Node '', decimal node, '' served read: key='', key, '' '',
       (if found then [CHR 0xE2, CHR 0x9C, CHR 0x93] else [CHR 0xE2, CHR 0x9C, CHR 0x97])]"

fun embassy_observe :: "event_level \<Rightarrow> 'p obs_event \<Rightarrow> string list" where
  "embassy_observe level (LeaderElected node t) =
     at_level level Essential [''Node '', decimal node, '' became LEADER (term '', decimal t, '')'']"
| "embassy_observe level (RoleChanged node old new t) =
     at_level level Info [''Node '', decimal node, '' role changed: '', show_role old, '' -> '', show_role new,
       '' (term '', decimal t, '')'']"
| "embassy_observe level (LeaderLost node old_term new_term) =
     at_level level Essential [''Node '', decimal node, '' lost leadership (term '', decimal old_term, '' -> '',
       decimal new_term, '')'']"
| "embassy_observe level (ElectionStarted node t) =
     at_level level Info [''Node '', decimal node, '' started election (term '', decimal t, '')'']"
| "embassy_observe level (ElectionTimeout node t) =
     at_level level Info [''Node '', decimal node, '' election timeout (term '', decimal t, '')'']"
| "embassy_observe level (PreVoteStarted node t) =
     at_level level Info [''Node '', decimal node, '' started pre-vote (term '', decimal t, '')'']"
| "embassy_observe level (PreVoteRequested candidate voter t last_log_index last_log_term) =
     at_level level Debug [''Node '', decimal voter, '' pre-vote requested by '', decimal candidate, '' (term '',
       decimal t, '', last_log: index='', decimal last_log_index, '', term='', decimal last_log_term, '')'']"
| "embassy_observe level (PreVoteGranted candidate voter granted t) =
     at_level level Debug [''Node '', decimal voter, '' '', (if granted then ''granted'' else ''denied''),
       '' pre-vote to '', decimal candidate, '' (term '', decimal t, '')'']"
| "embassy_observe level (PreVoteSucceeded node t) =
     at_level level Info [''Node '', decimal node, '' pre-vote succeeded, starting real election (term '', decimal t, '')'']"
| "embassy_observe level (CommitAdvanced node old_index new_index) =
     at_level level Info [''Node '', decimal node, '' commit advanced: '', decimal old_index, '' -> '', decimal new_index]"
| "embassy_observe level (VotedFor voter candidate t) = on_voted_for level voter candidate t"
| "embassy_observe level (ObsTimerFired node timer t) = on_timer_fired level node timer t"
| "embassy_observe level (ConfigurationChangeApplied node target added) = on_configuration_change_applied level node target added"
| "embassy_observe level (StateMachineApplied node index payload) = on_state_machine_applied level node index payload"
| "embassy_observe level (StateMachineRead node key found) = on_state_machine_read level node key found"

lemmas observer_call_defs =
  on_voted_for_def on_timer_fired_def on_configuration_change_applied_def on_state_machine_applied_def
  on_state_machine_read_def

definition embassy_min_level :: "event_level \<Rightarrow> event_level" where
  "embassy_min_level level = level"

definition embassy_output :: "event_level \<Rightarrow> 'p obs_event list \<Rightarrow> string list" where
  "embassy_output level events = concat (map (embassy_observe level) events)"

section \<open>The observer of the test clusters\<close>

definition null_min_level :: event_level where
  "null_min_level = LevelNone"

definition null_observe :: "'p obs_event \<Rightarrow> string list" where
  "null_observe e = []"

section \<open>The choice of the level\<close>

text \<open>\<open>str::find\<close>: the position of the first occurrence.\<close>

fun find_str :: "string \<Rightarrow> string \<Rightarrow> nat option" where
  "find_str pat [] = (if pat = [] then Some 0 else None)"
| "find_str pat (c # cs) = (if take (length pat) (c # cs) = pat then Some 0 else map_option Suc (find_str pat cs))"

text \<open>\<open>str::trim\<close> of ASCII text.\<close>

definition is_space :: "char \<Rightarrow> bool" where
  "is_space c \<longleftrightarrow> of_char c \<in> {9, 10, 11, 12, 13, 32 :: nat}"

definition trim :: "string \<Rightarrow> string" where
  "trim s = rev (dropWhile is_space (rev (dropWhile is_space s)))"

text \<open>Both return the lines they print as well.\<close>

definition parse_level :: "string \<Rightarrow> string list \<times> event_level" where
  "parse_level level_str =
     (let s = trim level_str in
      if s = ''None'' then ([], LevelNone)
      else if s = ''Essential'' then ([], Essential)
      else if s = ''Info'' then ([], Info)
      else if s = ''Debug'' then ([], Debug)
      else if s = ''Trace'' then ([], Trace)
      else ([info [''Unknown observer level '', [CHR 0x27], level_str, [CHR 0x27], '', defaulting to Essential'']],
            Essential))"

definition level_fallback :: "string list \<times> event_level" where
  "level_fallback = ([info [''Could not parse observer_level from config, defaulting to Essential'']], Essential)"

definition get_observer_level :: "string \<Rightarrow> string list \<times> event_level" where
  "get_observer_level config =
     (case find_str (CHR 0x22 # ''observer_level'' @ [CHR 0x22]) config of
        None \<Rightarrow> level_fallback
      | Some start \<Rightarrow>
          (case find_str '':'' (drop start config) of
             None \<Rightarrow> level_fallback
           | Some colon_pos \<Rightarrow>
               (let value_start = start + colon_pos + 1 in
                case find_str [CHR 0x22] (drop value_start config) of
                  None \<Rightarrow> level_fallback
                | Some quote_start \<Rightarrow>
                    (let value_start2 = value_start + quote_start + 1 in
                     case find_str [CHR 0x22] (drop value_start2 config) of
                       None \<Rightarrow> level_fallback
                     | Some quote_end \<Rightarrow> parse_level (take quote_end (drop value_start2 config))))))"

definition config_json :: string where
  "config_json = ''{'' @ [CHR 0x0A] @ ''  '' @ [CHR 0x22] @ ''observer_level'' @ [CHR 0x22] @ '': '' @ [CHR 0x22] @
     ''Info'' @ [CHR 0x22, CHR 0x0A] @ ''}'' @ [CHR 0x0A]"

lemma config_json_level: "get_observer_level config_json = ([], Info)"
  by code_simp

section \<open>What is printed\<close>

text \<open>The level a call needs, independent of how its line reads.\<close>

fun call_level :: "'p obs_event \<Rightarrow> event_level" where
  "call_level (LeaderElected _ _) = Essential"
| "call_level (LeaderLost _ _ _) = Essential"
| "call_level (PreVoteRequested _ _ _ _ _) = Debug"
| "call_level (PreVoteGranted _ _ _ _) = Debug"
| "call_level (ObsTimerFired _ _ _) = Debug"
| "call_level (StateMachineApplied _ _ _) = Debug"
| "call_level (StateMachineRead _ _ _) = Debug"
| "call_level _ = Info"

lemma embassy_observe_level:
  "embassy_observe level e = (if call_level e \<le> level then embassy_observe Trace e else [])"
  by (cases e) (simp_all add: at_level_def level_le_iff observer_call_defs)

lemma embassy_observe_line: "\<exists>line. embassy_observe Trace e = [line]"
  by (cases e) (simp_all add: at_level_def level_le_iff observer_call_defs)

lemma embassy_output_eq:
  "embassy_output level es = embassy_output Trace (filter (\<lambda>e. call_level e \<le> level) es)"
  unfolding embassy_output_def
  by (induction es) (simp_all add: embassy_observe_level [of level])

lemma filter_subseq_mono: "(\<And>x. P x \<Longrightarrow> Q x) \<Longrightarrow> subseq (filter P xs) (filter Q xs)"
  by (induction xs) auto

lemma embassy_output_filter: "subseq xs ys \<Longrightarrow> subseq (embassy_output l xs) (embassy_output l ys)"
  by (induction rule: list_emb.induct)
    (auto simp: embassy_output_def intro: list_emb_append_mono subseq_order.order_trans)

lemma raising_the_level_adds_lines:
  "level \<le> level' \<Longrightarrow> subseq (embassy_output level es) (embassy_output level' es)"
  unfolding embassy_output_eq [of level es] embassy_output_eq [of level' es]
  by (intro embassy_output_filter filter_subseq_mono) (rule order_trans)

lemma output_extremes:
  "embassy_output LevelNone es = []" "length (embassy_output Trace es) = length es"
proof -
  have "\<not> call_level e \<le> LevelNone" for e :: "'a obs_event" by (cases e) (simp_all add: level_le_iff)
  then show "embassy_output LevelNone es = []" unfolding embassy_output_eq [of LevelNone es] by (simp add: embassy_output_def)
  have "length (embassy_observe Trace e) = 1" for e :: "'a obs_event" using embassy_observe_line [of e] by auto
  then show "length (embassy_output Trace es) = length es" by (induction es) (simp_all add: embassy_output_def)
qed

text \<open>The level only filters the lines: a higher level prints the lines of a lower one, in the same
  order, and more; at level \<open>None\<close> nothing is printed and at \<open>Trace\<close> one line for every call.\<close>

theorem levels_filter_the_output:
  assumes "level \<le> level'"
  shows "subseq (embassy_output level es) (embassy_output level' es) \<and> embassy_output LevelNone es = [] \<and>
    length (embassy_output Trace es) = length es"
  using raising_the_level_adds_lines [OF assms, of es] output_extremes [of es] by blast

definition some_calls :: "string obs_event list" where
  "some_calls = [ElectionStarted 1 2, VotedFor 1 1 2, ObsTimerFired 1 ObserverHeartbeat 2, LeaderElected 1 2]"

theorem levels_filter_the_output_witness:
  "map length [embassy_output LevelNone some_calls, embassy_output Essential some_calls, embassy_output Info some_calls,
     embassy_output Debug some_calls] = [0, 1, 3, 4] \<and>
   subseq (embassy_output Essential some_calls) (embassy_output Debug some_calls)"
proof -
  have "map length [embassy_output LevelNone some_calls, embassy_output Essential some_calls, embassy_output Info some_calls,
     embassy_output Debug some_calls] = [0, 1, 3, 4]" by code_simp
  moreover have "Essential \<le> Debug" by (simp add: level_le_iff)
  ultimately show ?thesis using levels_filter_the_output [of Essential Debug some_calls] by simp
qed

end
