(* ===== verification/Embassy_Client.thy ===== *)
theory Embassy_Client
  imports Embassy_System
begin

text \<open>
  The client of the bare-metal cluster: the calls of \<open>embassy/src/raft_client.rs\<close> with the queues of
  \<open>client_channel_hub.rs\<close>, and the waiting on the flag of \<open>cancellation_token.rs\<close>.  A call is an
  asynchronous task; the model polls it.  It sends its request to a node, waits five seconds for the
  answer, and follows a hint to another node after a pause, three times at most.

  The answers come through one static channel of a single place, which all calls of a client share.
  \<open>'v\<close> is what a call returns: \<open>unit\<close> for a command, \<open>string option\<close> for a read.
\<close>

section \<open>The queues\<close>

definition client_index :: "node_id \<Rightarrow> nat" where
  \<comment> \<open>\<open>(node_id - 1) as usize\<close> on the 32-bit target.\<close>
  "client_index i = u64_sub i 1 mod 2 ^ 32"

definition get_receiver :: "'c client_request list list \<Rightarrow> node_id \<Rightarrow> 'c client_request list option" where
  \<comment> \<open>\<open>None\<close> is the panic of the index.\<close>
  "get_receiver channels i = nth_opt channels (client_index i)"

record ('c, 'v) client_side =
  cs_channels :: "'c client_request list list"
  cs_response :: "(cluster_error + 'v) list"
  cs_now :: nat

section \<open>A call\<close>

datatype 'v call_state =
    Starting
  | Receiving nat
  | Pausing nat
  | Returned "cluster_error + 'v"
  | Panicked

record 'v client_call =
  call_attempt :: nat
  call_target :: nat
  call_state :: "'v call_state"

definition call_new :: "'v client_call" where
  "call_new = \<lparr>call_attempt = 0, call_target = 0, call_state = Starting\<rparr>"

definition max_retries :: nat where "max_retries = 3"

definition call_send ::
  "'c client_request \<Rightarrow> ('c, 'v) client_side \<Rightarrow> 'v client_call \<Rightarrow> ('c, 'v) client_side \<times> 'v client_call" where
  \<comment> \<open>\<open>while RESPONSE_CHANNEL.try_receive().is_ok() {}\<close> empties the channel; then \<open>try_send\<close>.\<close>
  "call_send req w call =
     (let w1 = w\<lparr>cs_response := []\<rparr> in
      case nth_opt (cs_channels w1) (call_target call) of
        None \<Rightarrow> (w1, call\<lparr>call_state := Panicked\<rparr>)
      | Some channel \<Rightarrow>
          (case chan_try_send 4 req channel of
             None \<Rightarrow> (w1, call\<lparr>call_state := Returned (Inl ChannelFull)\<rparr>)
           | Some channel' \<Rightarrow>
               (w1\<lparr>cs_channels := (cs_channels w1)[call_target call := channel']\<rparr>,
                call\<lparr>call_state := Receiving (cs_now w1 + 5000)\<rparr>)))"

definition call_answer :: "nat \<Rightarrow> cluster_error + 'v \<Rightarrow> 'v client_call \<Rightarrow> 'v client_call" where
  "call_answer now answer call =
     (case answer of
        Inr v \<Rightarrow> call\<lparr>call_state := Returned (Inr v)\<rparr>
      | Inl (ClusterNotLeader (Some leader_id)) \<Rightarrow>
          (let call1 = call\<lparr>call_target := client_index leader_id\<rparr> in
           if call_attempt call1 < max_retries - 1 then call1\<lparr>call_state := Pausing (now + 50)\<rparr>
           else call1\<lparr>call_state := Returned (Inl (ClusterNotLeader None))\<rparr>)
      | Inl err \<Rightarrow> call\<lparr>call_state := Returned (Inl err)\<rparr>)"

definition call_poll ::
  "'c client_request \<Rightarrow> ('c, 'v) client_side \<Rightarrow> 'v client_call \<Rightarrow> ('c, 'v) client_side \<times> 'v client_call" where
  "call_poll req w call =
     (case call_state call of
        Starting \<Rightarrow> call_send req w call
      | Receiving deadline \<Rightarrow>
          (case chan_try_receive (cs_response w) of
             (rest, Some answer) \<Rightarrow> (w\<lparr>cs_response := rest\<rparr>, call_answer (cs_now w) answer call)
           | (_, None) \<Rightarrow>
               if deadline \<le> cs_now w then (w, call\<lparr>call_state := Returned (Inl Timeout)\<rparr>) else (w, call))
      | Pausing until \<Rightarrow>
          if until \<le> cs_now w
          then (w, call\<lparr>call_attempt := call_attempt call + 1, call_state := Starting\<rparr>) else (w, call)
      | _ \<Rightarrow> (w, call))"

definition submit_command ::
  "string \<Rightarrow> 'c \<Rightarrow> ('c, unit) client_side \<Rightarrow> unit client_call \<Rightarrow> ('c, unit) client_side \<times> unit client_call" where
  "submit_command payload response_tx w call = call_poll (Write payload response_tx) w call"

definition read_value ::
  "string \<Rightarrow> 'c \<Rightarrow> ('c, string option) client_side \<Rightarrow> string option client_call
   \<Rightarrow> ('c, string option) client_side \<times> string option client_call" where
  "read_value key response_tx w call = call_poll (Read key response_tx) w call"

section \<open>The cancellation token\<close>

datatype wait_state = Checking | Asleep nat | Awake

fun wait_poll :: "bool \<Rightarrow> nat \<Rightarrow> wait_state \<Rightarrow> wait_state" where
  "wait_poll is_cancelled now Checking = (if is_cancelled then Awake else Asleep (now + 10))"
| "wait_poll is_cancelled now (Asleep until) = (if until \<le> now then Checking else Asleep until)"
| "wait_poll is_cancelled now Awake = Awake"

definition shutdown :: "('s, 'c, 'net) embassy_system \<Rightarrow> ('s, 'c, 'net) embassy_system" where
  "shutdown sy = cancel sy"

text \<open>Once the flag is set a waiting task wakes within ten milliseconds, at its second poll.\<close>

lemma cancelled_wakes:
  assumes "\<And>until. st = Asleep until \<Longrightarrow> until \<le> now"
  shows "wait_poll True now (wait_poll True now st) = Awake"
  using assms by (cases st) auto

section \<open>What happens around a call\<close>

datatype 'v client_move =
    Poll
  | Answer "cluster_error + 'v"
  | Take nat
  | Pass nat

fun client_step ::
  "'c client_request \<Rightarrow> 'v client_move \<Rightarrow> ('c, 'v) client_side \<times> 'v client_call \<Rightarrow> ('c, 'v) client_side \<times> 'v client_call" where
  "client_step req Poll (w, call) = call_poll req w call"
| "client_step req (Answer r) (w, call) =
     (case chan_try_send 1 r (cs_response w) of
        Some q \<Rightarrow> (w\<lparr>cs_response := q\<rparr>, call)
      | None \<Rightarrow> (w, call))"
| "client_step req (Take i) (w, call) = (w\<lparr>cs_channels := (cs_channels w)[i := tl (cs_channels w ! i)]\<rparr>, call)"
| "client_step req (Pass ms) (w, call) = (w\<lparr>cs_now := cs_now w + ms\<rparr>, call)"

definition client_moves ::
  "'c client_request \<Rightarrow> 'v client_move list \<Rightarrow> ('c, 'v) client_side \<times> 'v client_call \<Rightarrow> ('c, 'v) client_side \<times> 'v client_call" where
  "client_moves req ms s = fold (client_step req) ms s"

fun over :: "'v call_state \<Rightarrow> bool" where
  "over (Returned r) = True"
| "over Panicked = True"
| "over _ = False"

text \<open>A call makes progress with every poll that finds its answer or its deadline passed.\<close>

definition rank :: "'v client_call \<Rightarrow> nat" where
  "rank call =
     (case call_state call of
        Starting \<Rightarrow> 3 * (2 - call_attempt call) + 3
      | Receiving _ \<Rightarrow> 3 * (2 - call_attempt call) + 2
      | Pausing _ \<Rightarrow> 3 * (2 - call_attempt call) + 1
      | _ \<Rightarrow> 0)"

definition call_ok :: "('c, 'v) client_side \<times> 'v client_call \<Rightarrow> bool" where
  "call_ok s \<longleftrightarrow>
     (case call_state (snd s) of
        Receiving deadline \<Rightarrow> deadline \<le> cs_now (fst s) + 5000
      | Pausing until \<Rightarrow> until \<le> cs_now (fst s) + 50 \<and> call_attempt (snd s) < 2
      | _ \<Rightarrow> True)"

lemma rank_over: "rank call = 0 \<longleftrightarrow> over (call_state call)"
  by (cases "call_state call") (auto simp: rank_def)

lemma rank_new [simp]: "rank call_new = 9"
  by (simp add: rank_def call_new_def)

lemma call_answer_rank:
  assumes "call_state call = Receiving d"
  shows "rank (call_answer (cs_now w) r call) < rank call" and "call_ok (w, call_answer (cs_now w) r call)"
  using assms
  by (auto simp: call_answer_def rank_def call_ok_def max_retries_def Let_def split: sum.split cluster_error.split option.split)

lemma call_poll_rank:
  assumes "call_ok (w, call)"
  shows "rank (snd (call_poll req w call)) \<le> rank call" and "call_ok (call_poll req w call)"
    and "(case call_state call of Receiving d \<Rightarrow> d \<le> cs_now w | Pausing d \<Rightarrow> d \<le> cs_now w | _ \<Rightarrow> True) \<Longrightarrow>
      rank call \<noteq> 0 \<Longrightarrow> rank (snd (call_poll req w call)) < rank call"
proof -
  have "rank (snd (call_poll req w call)) \<le> rank call \<and> call_ok (call_poll req w call) \<and>
    ((case call_state call of Receiving d \<Rightarrow> d \<le> cs_now w | Pausing d \<Rightarrow> d \<le> cs_now w | _ \<Rightarrow> True) \<longrightarrow>
      rank call \<noteq> 0 \<longrightarrow> rank (snd (call_poll req w call)) < rank call)"
  proof (cases "call_state call")
    case (Receiving d)
    show ?thesis
    proof (cases "cs_response w")
      case Nil
      with Receiving assms show ?thesis
        by (auto simp: call_poll_def chan_try_receive_def rank_def call_ok_def)
    next
      case (Cons r rest)
      with Receiving call_answer_rank [OF Receiving, of w r] call_answer_rank(2) [OF Receiving, of "w\<lparr>cs_response := rest\<rparr>" r]
      show ?thesis by (simp add: call_poll_def chan_try_receive_def)
    qed
  next
    case Starting
    then show ?thesis
      by (auto simp: call_poll_def call_send_def rank_def call_ok_def Let_def split: option.split)
  qed (use assms in \<open>auto simp: call_poll_def rank_def call_ok_def\<close>)
  then show "rank (snd (call_poll req w call)) \<le> rank call" and "call_ok (call_poll req w call)"
    and "(case call_state call of Receiving d \<Rightarrow> d \<le> cs_now w | Pausing d \<Rightarrow> d \<le> cs_now w | _ \<Rightarrow> True) \<Longrightarrow>
      rank call \<noteq> 0 \<Longrightarrow> rank (snd (call_poll req w call)) < rank call" by blast+
qed

lemma client_step_rank:
  assumes "call_ok s"
  shows "rank (snd (client_step req m s)) \<le> rank (snd s) \<and> call_ok (client_step req m s)"
proof -
  obtain w call where s: "s = (w, call)" by fastforce
  show ?thesis
  proof (cases m)
    case Poll
    with call_poll_rank(1,2) [of w call req] assms show ?thesis by (simp add: s)
  next
    case (Answer r)
    then show ?thesis
      using assms by (auto simp: s call_ok_def chan_try_send_def split: call_state.splits)
  next
    case (Take i)
    then show ?thesis using assms by (auto simp: s call_ok_def split: call_state.splits)
  next
    case (Pass d)
    then show ?thesis using assms by (auto simp: s call_ok_def split: call_state.splits)
  qed
qed

lemma client_moves_rank:
  "call_ok s \<Longrightarrow> rank (snd (client_moves req ms s)) \<le> rank (snd s) \<and> call_ok (client_moves req ms s)"
proof (induction ms arbitrary: s)
  case (Cons m ms)
  from client_step_rank [OF Cons.prems, of req m] Cons.IH [of "client_step req m s"]
  show ?case by (auto simp: client_moves_def)
qed (simp add: client_moves_def)

lemma client_moves_append: "client_moves req (xs @ ys) s = client_moves req ys (client_moves req xs s)"
  by (simp add: client_moves_def)

text \<open>Five seconds and a poll bring a call one step further.\<close>

lemma waited_poll_rank:
  assumes "call_ok s" and "rank (snd s) \<noteq> 0"
  shows "rank (snd (client_moves req [Pass 5000, Poll] s)) < rank (snd s)"
proof -
  obtain w call where s: "s = (w, call)" by fastforce
  let ?w = "w\<lparr>cs_now := cs_now w + 5000\<rparr>"
  have ok: "call_ok (?w, call)" using assms(1) by (auto simp: s call_ok_def split: call_state.splits)
  have "rank (snd (call_poll req ?w call)) < rank call"
    by (rule call_poll_rank(3) [OF ok]) (use assms in \<open>auto simp: s call_ok_def split: call_state.splits\<close>)
  then show ?thesis by (simp add: s client_moves_def)
qed

lemma rounds_rank:
  "call_ok s \<Longrightarrow>
   rank (snd (client_moves req (concat (map (\<lambda>ms. ms @ [Pass 5000, Poll]) rounds)) s)) \<le> rank (snd s) - length rounds"
proof (induction rounds arbitrary: s)
  case (Cons ms rounds)
  let ?s1 = "client_moves req ms s" and ?s2 = "client_moves req (ms @ [Pass 5000, Poll]) s"
  have s2: "?s2 = client_moves req [Pass 5000, Poll] ?s1" by (simp add: client_moves_append)
  note ok = client_moves_rank [OF Cons.prems, of req]
  have "rank (snd ?s2) \<le> rank (snd s) - 1"
  proof (cases "rank (snd ?s1) = 0")
    case True
    with client_moves_rank [of ?s1 req "[Pass 5000, Poll]"] ok show ?thesis by (simp add: s2)
  next
    case False
    with waited_poll_rank [of ?s1 req] ok [of ms] show ?thesis unfolding s2 by linarith
  qed
  moreover have "rank (snd (client_moves req (concat (map (\<lambda>ms. ms @ [Pass 5000, Poll]) rounds)) ?s2)) \<le> rank (snd ?s2) - length rounds"
    by (rule Cons.IH) (use ok in blast)
  moreover have "client_moves req (concat (map (\<lambda>ms. ms @ [Pass 5000, Poll]) (ms # rounds))) s =
      client_moves req (concat (map (\<lambda>ms. ms @ [Pass 5000, Poll]) rounds)) ?s2"
    by (simp only: list.map concat.simps client_moves_append)
  ultimately show ?case by simp
qed (simp add: client_moves_def)

text \<open>The requests that the polls of a call put into the queues of the nodes.\<close>

definition queued :: "('c, 'v) client_side \<Rightarrow> nat" where
  "queued w = sum_list (map length (cs_channels w))"

fun requests_sent ::
  "'c client_request \<Rightarrow> 'v client_move list \<Rightarrow> ('c, 'v) client_side \<times> 'v client_call \<Rightarrow> nat" where
  "requests_sent req [] s = 0"
| "requests_sent req (m # ms) s =
     (case m of Poll \<Rightarrow> queued (fst (client_step req m s)) - queued (fst s) | _ \<Rightarrow> 0) +
     requests_sent req ms (client_step req m s)"

definition tries_left :: "'v client_call \<Rightarrow> nat" where
  "tries_left call =
     (case call_state call of
        Starting \<Rightarrow> 3 - call_attempt call
      | Receiving _ \<Rightarrow> 2 - call_attempt call
      | Pausing _ \<Rightarrow> 2 - call_attempt call
      | _ \<Rightarrow> 0)"

lemma queued_send: "i < length cs \<Longrightarrow> sum_list (map length (cs[i := cs ! i @ [x]])) = Suc (sum_list (map length cs))"
  by (simp add: map_update sum_list_update)

lemma call_poll_tries:
  assumes "call_ok (w, call)" and "call_attempt call \<le> 2"
  shows "queued (fst (call_poll req w call)) - queued w + tries_left (snd (call_poll req w call)) \<le> tries_left call"
    and "call_attempt (snd (call_poll req w call)) \<le> 2"
proof -
  have "queued (fst (call_poll req w call)) - queued w + tries_left (snd (call_poll req w call)) \<le> tries_left call \<and>
      call_attempt (snd (call_poll req w call)) \<le> 2"
  proof (cases "call_state call")
    case Starting
    then show ?thesis
      using assms by (auto simp: call_poll_def call_send_def tries_left_def queued_def chan_try_send_def nth_opt_def
          queued_send Let_def split: option.split)
  next
    case (Receiving d)
    then show ?thesis
      using assms by (auto simp: call_poll_def chan_try_receive_def call_answer_def tries_left_def queued_def max_retries_def
          Let_def split: list.split sum.split option.split cluster_error.split)
  qed (use assms in \<open>auto simp: call_poll_def tries_left_def call_ok_def\<close>)
  then show "queued (fst (call_poll req w call)) - queued w + tries_left (snd (call_poll req w call)) \<le> tries_left call"
    and "call_attempt (snd (call_poll req w call)) \<le> 2" by blast+
qed

lemma requests_sent_le:
  "call_ok s \<Longrightarrow> call_attempt (snd s) \<le> 2 \<Longrightarrow> requests_sent req ms s \<le> tries_left (snd s)"
proof (induction ms arbitrary: s)
  case (Cons m ms)
  obtain w call where s: "s = (w, call)" by fastforce
  have ok: "call_ok (client_step req m s)" using client_step_rank [OF Cons.prems(1)] by blast
  show ?case
  proof (cases m)
    case Poll
    then have step: "client_step req m s = call_poll req w call" by (simp add: s)
    note tries = call_poll_tries [OF Cons.prems(1) [unfolded s] Cons.prems(2) [unfolded s snd_conv], of req]
    from Cons.IH [OF ok] tries show ?thesis unfolding requests_sent.simps step by (simp add: Poll s)
  next
    case (Answer r)
    then have "snd (client_step req m s) = call" by (simp add: s split: option.split)
    with Cons.IH [OF ok] Cons.prems(2) show ?thesis by (simp add: Answer s)
  qed (use Cons.IH [OF ok] Cons.prems(2) in \<open>simp_all add: s\<close>)
qed simp

text \<open>Only what was put into the response channel after the request was sent can end a call with success.\<close>

fun answers :: "'v client_move list \<Rightarrow> (cluster_error + 'v) set" where
  "answers [] = {}"
| "answers (Answer r # ms) = insert r (answers ms)"
| "answers (_ # ms) = answers ms"

definition heard :: "(cluster_error + 'v) set \<Rightarrow> ('c, 'v) client_side \<times> 'v client_call \<Rightarrow> bool" where
  "heard A s \<longleftrightarrow> (case call_state (snd s) of
     Starting \<Rightarrow> True
   | Returned r \<Rightarrow> (\<forall>v. r = Inr v \<longrightarrow> r \<in> A)
   | Receiving _ \<Rightarrow> set (cs_response (fst s)) \<subseteq> A
   | _ \<Rightarrow> True)"

lemma heard_step:
  assumes "heard A s" and "\<And>r. m = Answer r \<Longrightarrow> r \<in> A"
  shows "heard A (client_step req m s)"
proof -
  obtain w call where s: "s = (w, call)" by fastforce
  show ?thesis
  proof (cases m)
    case Poll
    with assms(1) show ?thesis
      by (auto simp: s heard_def call_poll_def call_send_def call_answer_def chan_try_receive_def Let_def
          split: call_state.splits list.splits option.splits sum.splits cluster_error.splits)
  next
    case (Answer r)
    with assms show ?thesis
      by (auto simp: s heard_def chan_try_send_def split: call_state.splits)
  qed (use assms(1) in \<open>auto simp: s heard_def split: call_state.splits\<close>)
qed

lemma heard_moves: "heard A s \<Longrightarrow> answers ms \<subseteq> A \<Longrightarrow> heard A (client_moves req ms s)"
proof (induction ms arbitrary: s)
  case (Cons m ms)
  have "heard A (client_step req m s)"
    by (rule heard_step [OF Cons.prems(1)]) (use Cons.prems(2) in auto)
  moreover have "answers ms \<subseteq> A" using Cons.prems(2) by (cases m) auto
  ultimately show ?case using Cons.IH [of "client_step req m s"] by (simp add: client_moves_def)
qed (simp add: client_moves_def)

text \<open>The hints of the nodes are numbers of nodes.\<close>

fun hint_ok :: "cluster_error + 'v \<Rightarrow> bool" where
  "hint_ok (Inl (ClusterNotLeader (Some i))) = (1 \<le> i \<and> i \<le> 5)"
| "hint_ok _ = True"

text \<open>A call under way that cannot panic: there are five queues and every hint names one of them.\<close>

definition call_fine :: "('c, 'v) client_side \<Rightarrow> 'v client_call \<Rightarrow> bool" where
  "call_fine w call \<longleftrightarrow> call_ok (w, call) \<and> call_target call < 5 \<and> call_state call \<noteq> Panicked \<and>
     length (cs_channels w) = 5 \<and> list_all hint_ok (cs_response w)"

fun call_due :: "nat \<Rightarrow> 'v call_state \<Rightarrow> bool" where
  "call_due now (Receiving d) = (d \<le> now)"
| "call_due now (Pausing d) = (d \<le> now)"
| "call_due now _ = True"

lemma client_index_small: "1 \<le> i \<Longrightarrow> i \<le> 5 \<Longrightarrow> client_index i < 5"
proof -
  assume i: "1 \<le> i" "i \<le> 5"
  then have "i - 1 < 2 ^ 32" by simp
  with i show ?thesis by (simp add: client_index_def u64_simps)
qed

lemma call_answer_fine:
  assumes "hint_ok r" and "call_target call < 5"
  shows "call_target (call_answer now r call) < 5" and "call_state (call_answer now r call) \<noteq> Panicked"
  using assms client_index_small
  by (auto simp: call_answer_def Let_def split: sum.split cluster_error.split option.split)

lemma call_poll_fine:
  assumes "call_fine w call" and poll: "call_poll req w call = (w', call')"
  shows "call_fine w' call'" and "cs_now w' = cs_now w" and "rank call' \<le> rank call"
    and "call_due (cs_now w) (call_state call) \<Longrightarrow> rank call \<noteq> 0 \<Longrightarrow> rank call' < rank call"
proof -
  from assms(1) have ok: "call_ok (w, call)" and fine: "call_target call < 5" "call_state call \<noteq> Panicked"
    "length (cs_channels w) = 5" "list_all hint_ok (cs_response w)" by (simp_all add: call_fine_def)
  note r = call_poll_rank [OF ok, of req, unfolded poll]
  have "call_target call' < 5 \<and> call_state call' \<noteq> Panicked \<and> length (cs_channels w') = 5 \<and>
      list_all hint_ok (cs_response w') \<and> cs_now w' = cs_now w"
  proof (cases "call_state call")
    case Starting
    then show ?thesis
      using fine poll by (auto simp: call_poll_def call_send_def Let_def nth_opt_def split: option.splits if_splits)
  next
    case (Receiving d)
    show ?thesis
    proof (cases "cs_response w")
      case Nil
      with Receiving show ?thesis using fine poll by (auto simp: call_poll_def chan_try_receive_def split: if_splits)
    next
      case (Cons r rest)
      with fine have "hint_ok r" "list_all hint_ok rest" by simp_all
      with Cons Receiving fine poll call_answer_fine [of r call "cs_now w"] show ?thesis
        by (auto simp: call_poll_def chan_try_receive_def)
    qed
  qed (use fine poll in \<open>auto simp: call_poll_def split: if_splits\<close>)
  with r show "call_fine w' call'" and "cs_now w' = cs_now w" and "rank call' \<le> rank call"
    by (simp_all add: call_fine_def)
  show "rank call' < rank call" if "call_due (cs_now w) (call_state call)" and "rank call \<noteq> 0"
    using r(3) that by (cases "call_state call") simp_all
qed

text \<open>Nor does such a call ever panic.\<close>

lemma client_step_fine:
  assumes "case_prod call_fine s" and "\<And>r. m = Answer r \<Longrightarrow> hint_ok r"
  shows "case_prod call_fine (client_step req m s)"
proof -
  obtain w call where s: "s = (w, call)" by fastforce
  from client_step_rank [of s req m] assms(1) have ok: "call_ok (client_step req m s)" by (simp add: s call_fine_def)
  show ?thesis
  proof (cases m)
    case Poll
    with call_poll_fine(1) [of w call req] assms(1) show ?thesis by (auto simp: s split: prod.split)
  next
    case (Answer r)
    then show ?thesis using assms ok by (auto simp: s call_fine_def chan_try_send_def split: if_splits)
  qed (use assms(1) ok in \<open>auto simp: s call_fine_def\<close>)
qed

lemma client_moves_fine:
  "case_prod call_fine s \<Longrightarrow> \<forall>r\<in>answers ms. hint_ok r \<Longrightarrow> case_prod call_fine (client_moves req ms s)"
proof (induction ms arbitrary: s)
  case (Cons m ms)
  have "case_prod call_fine (client_step req m s)"
    by (rule client_step_fine [OF Cons.prems(1)]) (use Cons.prems(2) in auto)
  moreover have "\<forall>r\<in>answers ms. hint_ok r" using Cons.prems(2) by (cases m) auto
  ultimately show ?case using Cons.IH [of "client_step req m s"] by (simp add: client_moves_def)
qed (simp add: client_moves_def)

lemma call_new_fine: "length (cs_channels w) = 5 \<Longrightarrow> list_all hint_ok (cs_response w) \<Longrightarrow> call_fine w call_new"
  by (simp add: call_fine_def call_ok_def call_new_def)

text \<open>Sending is the client's step of the whole system.\<close>

lemma call_send_submits:
  assumes "cs_channels w = map (sy_clients sy) [1..<6]"
    and "call_send req w call = (w', call')" and "call_state call' = Receiving d"
  shows "\<exists>sy'. client_submit (call_target call + 1) req sy = Some sy' \<and> cs_channels w' = map (sy_clients sy') [1..<6]"
proof -
  let ?t = "call_target call"
  have upd: "(map f [1..<6])[?t := q] = map (f(?t + 1 := q)) [1..<6]" if "?t < 5" for f :: "nat \<Rightarrow> 'a client_request list" and q
    by (rule nth_equalityI) (use that in \<open>auto simp: nth_list_update\<close>)
  have "nth_opt (cs_channels w) ?t = (if ?t < 5 then Some (sy_clients sy (?t + 1)) else None)"
    by (auto simp: assms(1) nth_opt_def)
  then show ?thesis
    using assms by (auto simp: call_send_def client_submit_def upd [simplified] Let_def split: if_splits option.splits)
qed

end
