(* ===== verification/Embassy_Client_Properties.thy ===== *)
theory Embassy_Client_Properties
  imports Embassy_Client
begin

text \<open>
  What a call of the client promises: it ends after at most three requests, and it succeeds only when
  a node has answered with success while it was waiting.  Because the response channel is shared, that
  answer may be meant for an earlier call, which the last theorem evaluates.
\<close>

section \<open>A call ends\<close>

text \<open>C26: Whatever the nodes do, a call that is polled ends: once five seconds have passed before a poll
  nine times over, it is over, whatever else happened in between, and it has put at most three
  requests into the queues of the nodes.  It has then returned, and not panicked, if there are five
  queues and every hint that arrives names one of the nodes 1 to 5, as the nodes' hints do.\<close>

theorem client_calls_end:
  assumes "9 \<le> length rounds"
  shows "let ms = concat (map (\<lambda>ms. ms @ [Pass 5000, Poll]) rounds); s = client_moves req ms (w, call_new)
    in over (call_state (snd s)) \<and> requests_sent req ms (w, call_new) \<le> 3 \<and>
       (length (cs_channels w) = 5 \<and> list_all hint_ok (cs_response w) \<and> (\<forall>r\<in>answers ms. hint_ok r) \<longrightarrow>
          (\<exists>r. call_state (snd s) = Returned r))"
proof -
  let ?ms = "concat (map (\<lambda>ms. ms @ [Pass 5000, Poll]) rounds)"
  let ?s = "client_moves req ?ms (w, call_new)"
  have ok: "call_ok (w, call_new)" by (simp add: call_ok_def call_new_def)
  from rounds_rank [OF ok, of req rounds] assms have "rank (snd ?s) = 0" by simp
  then have over: "over (call_state (snd ?s))" by (simp add: rank_over)
  moreover have "requests_sent req ?ms (w, call_new) \<le> 3"
    using requests_sent_le [OF ok, of req ?ms] by (simp add: call_new_def tries_left_def)
  moreover have "\<exists>r. call_state (snd ?s) = Returned r"
    if "length (cs_channels w) = 5 \<and> list_all hint_ok (cs_response w) \<and> (\<forall>r\<in>answers ?ms. hint_ok r)"
  proof -
    have "case_prod call_fine ?s"
      by (rule client_moves_fine) (use that call_new_fine [of w] in simp_all)
    with over show ?thesis by (cases "call_state (snd ?s)") (auto simp: call_fine_def split: prod.splits)
  qed
  ultimately show ?thesis by (simp add: Let_def)
qed

definition empty_side :: "(nat, unit) client_side" where
  "empty_side = \<lparr>cs_channels = [[], [], [], [], []], cs_response = [], cs_now = 0\<rparr>"

text \<open>Every node points to node 2: three requests are sent, and the call gives up.\<close>

definition sent_around :: "unit client_move list list" where
  "sent_around = [[], [Answer (Inl (ClusterNotLeader (Some 2)))], [], [], [Answer (Inl (ClusterNotLeader (Some 2)))], [], [],
     [Answer (Inl (ClusterNotLeader (Some 2)))], []]"

definition sent_around_moves :: "unit client_move list" where
  "sent_around_moves = concat (map (\<lambda>ms. ms @ [Pass 5000, Poll]) sent_around)"

theorem client_calls_end_witness:
  "let s = client_moves (Write ''a=1'' 1) sent_around_moves (empty_side, call_new)
   in requests_sent (Write ''a=1'' 1) sent_around_moves (empty_side, call_new) \<le> 3 \<and>
      (\<exists>r. call_state (snd s) = Returned r) \<and> map length (cs_channels (fst s)) = [1, 2, 0, 0, 0]"
proof -
  have "map length (cs_channels (fst (client_moves (Write ''a=1'' (1::nat)) sent_around_moves (empty_side, call_new)))) =
      [1, 2, 0, 0, 0]"
    by code_simp
  with client_calls_end [of sent_around "Write ''a=1'' (1::nat)" empty_side, folded sent_around_moves_def] show ?thesis
    by (simp add: Let_def sent_around_moves_def sent_around_def empty_side_def)
qed

section \<open>A call succeeds only with an answer\<close>

text \<open>C27: A call returns a value only if a node put this value into the response channel while the call
  was under way: what an earlier call left in the channel is thrown away first.\<close>

theorem success_needs_an_answer:
  assumes "client_moves req ms (w, call_new) = (w', call)" and "call_state call = Returned (Inr v)"
  shows "Inr v \<in> answers ms"
proof -
  have "heard (answers ms) (w, call_new)" by (simp add: heard_def call_new_def)
  from heard_moves [OF this order_refl, of req] assms show ?thesis by (simp add: heard_def)
qed

theorem success_needs_an_answer_witness:
  "(let (w, call) = client_moves (Write ''a=1'' (1::nat)) [Poll, Take 0, Pass 10, Answer (Inr ()), Poll]
        (empty_side\<lparr>cs_response := [Inl Timeout]\<rparr>, call_new)
    in call_state call = Returned (Inr ())) \<and> Inr () \<in> answers [Poll, Take 0, Pass 10, Answer (Inr ()), Poll]"
proof -
  let ?ms = "[Poll, Take 0, Pass 10, Answer (Inr ()), Poll]"
  obtain w call where run: "client_moves (Write ''a=1'' (1::nat)) ?ms (empty_side\<lparr>cs_response := [Inl Timeout]\<rparr>, call_new) = (w, call)"
    by fastforce
  have "call_state (snd (client_moves (Write ''a=1'' (1::nat)) ?ms (empty_side\<lparr>cs_response := [Inl Timeout]\<rparr>, call_new))) =
      Returned (Inr ())"
    by code_simp
  with run have ok: "call_state call = Returned (Inr ())" by simp
  from success_needs_an_answer [OF run ok] ok show ?thesis by (simp add: run del: One_nat_def)
qed

section \<open>Whose answer it is\<close>

text \<open>
  A command times out after node 1 has taken it.  The client submits another; node 1 commits the first
  and acknowledges it, and the second call returns success while its request is still in the queue.
\<close>

definition after_timeout :: "(nat, unit) client_side" where
  "after_timeout = fst (client_moves (Write ''a=1'' (1::nat)) [Poll, Take 0, Pass 5000, Poll] (empty_side, call_new))"

theorem late_answer_counts_for_the_next_command:
  "call_state (snd (client_moves (Write ''a=1'' 1) [Poll, Take 0, Pass 5000, Poll] (empty_side, call_new))) =
     Returned (Inl Timeout) \<and>
   (let s = client_moves (Write ''b=2'' 2) [Poll, Pass 1, Answer (Inr ()), Poll] (after_timeout, call_new)
    in call_state (snd s) = Returned (Inr ()) \<and> cs_channels (fst s) = [[Write ''b=2'' 2], [], [], [], []])"
  by code_simp

end
