(* ===== verification/Network_Bus.thy ===== *)
theory Network_Bus
  imports Udp_Transport
begin

text \<open>
  The simulated Ethernet of \<open>embassy/src/configurations/transport/udp\<close>: the bus and the driver of
  \<open>driver.rs\<close>, the addresses of \<open>config.rs\<close> and the set-up of \<open>udp_transport_hub.rs\<close>.  Above it runs the
  IP stack, below it nothing: a frame is a buffer of bytes moved between five queues.  A waker is a
  name \<open>'w\<close>; the wakers called are kept in order.
\<close>

section \<open>The bus\<close>

definition mtu :: nat where "mtu = 1500"

definition bus_channel_size :: nat where "bus_channel_size = 16"

record packet =
  pk_data :: bytes
  pk_len :: nat

record 'w network_bus =
  nb_queues :: "packet list list"
  nb_wakers :: "'w option list"
  nb_woken :: "'w list"

definition network_bus_new :: "'w network_bus" where
  "network_bus_new = \<lparr>nb_queues = [[], [], [], [], []], nb_wakers = [None, None, None, None, None], nb_woken = []\<rparr>"

definition bus_index :: "nat \<Rightarrow> nat" where
  \<comment> \<open>\<open>(node_id - 1) as usize\<close>; every caller has checked that \<open>node_id\<close> is one of 1 to 5.\<close>
  "bus_index node_id = node_id - 1"

definition get_sender :: "nat \<Rightarrow> 'w network_bus \<Rightarrow> packet list" where
  "get_sender node_id bus = nb_queues bus ! bus_index node_id"

definition register_waker :: "nat \<Rightarrow> 'w \<Rightarrow> 'w network_bus \<Rightarrow> 'w network_bus" where
  "register_waker node_id waker bus =
     (if (case nb_wakers bus ! bus_index node_id of Some old_waker \<Rightarrow> old_waker \<noteq> waker | None \<Rightarrow> True)
      then bus\<lparr>nb_wakers := (nb_wakers bus)[bus_index node_id := Some waker]\<rparr> else bus)"

definition wake_node :: "nat \<Rightarrow> 'w network_bus \<Rightarrow> 'w network_bus" where
  "wake_node node_id bus =
     (case nb_wakers bus ! bus_index node_id of
        Some waker \<Rightarrow> bus\<lparr>nb_wakers := (nb_wakers bus)[bus_index node_id := None], nb_woken := nb_woken bus @ [waker]\<rparr>
      | None \<Rightarrow> bus)"

definition bus_send :: "nat \<Rightarrow> packet \<Rightarrow> 'w network_bus \<Rightarrow> 'w network_bus" where
  \<comment> \<open>\<open>get_sender(target_id).try_send(packet)\<close>, and \<open>wake_node\<close> when it succeeded.\<close>
  "bus_send target_id packet bus =
     (case chan_try_send bus_channel_size packet (get_sender target_id bus) of
        Some q \<Rightarrow> wake_node target_id (bus\<lparr>nb_queues := (nb_queues bus)[bus_index target_id := q]\<rparr>)
      | None \<Rightarrow> bus)"

section \<open>The driver\<close>

definition mac_addr :: "nat \<Rightarrow> bytes" where
  "mac_addr node_id = [0x02, 0, 0, 0, 0, word_of_nat node_id]"

definition driver_receive :: "nat \<Rightarrow> 'w \<Rightarrow> 'w network_bus \<Rightarrow> 'w network_bus \<times> packet option" where
  "driver_receive node_id waker bus =
     (case chan_try_receive (get_sender node_id bus) of
        (q, Some packet) \<Rightarrow> (bus\<lparr>nb_queues := (nb_queues bus)[bus_index node_id := q]\<rparr>, Some packet)
      | (_, None) \<Rightarrow> (register_waker node_id waker bus, None))"

definition rx_consume :: "packet option \<Rightarrow> bytes" where
  \<comment> \<open>The bytes handed to the stack.\<close>
  "rx_consume packet = (case packet of Some pkt \<Rightarrow> take (pk_len pkt) (pk_data pkt) | None \<Rightarrow> [])"

definition tx_consume :: "nat \<Rightarrow> nat \<Rightarrow> (bytes \<Rightarrow> bytes) \<Rightarrow> 'w network_bus \<Rightarrow> 'w network_bus" where
  \<comment> \<open>\<open>fill\<close> is what the stack writes into the buffer of \<open>len\<close> bytes.\<close>
  "tx_consume node_id len fill bus =
     (let buffer = fill (replicate len 0) in
      if 6 \<le> length buffer then
        if buffer ! 0 = 0xFF then
          fold (\<lambda>target_id bus. if target_id \<noteq> node_id then bus_send target_id \<lparr>pk_data = buffer, pk_len = len\<rparr> bus else bus)
            [1..<6] bus
        else
          (let target_id = unat (buffer ! 5) in
           if 1 \<le> target_id \<and> target_id \<le> 5 then bus_send target_id \<lparr>pk_data = buffer, pk_len = len\<rparr> bus else bus)
      else bus)"

section \<open>Addresses and set-up\<close>

record node_config =
  nc_address :: "nat list"
  nc_prefix :: nat
  nc_gateway :: "nat list"

definition get_node_config :: "nat \<Rightarrow> node_config" where
  "get_node_config node_id = \<lparr>nc_address = [10, 0, 0, node_id], nc_prefix = 24, nc_gateway = [10, 0, 0, 254]\<rparr>"

definition get_node_resources :: "nat \<Rightarrow> nat option" where
  \<comment> \<open>The index of the node's static resources; \<open>None\<close> is the panic out of range.\<close>
  "get_node_resources node_id = (let idx = bus_index node_id in if 1 \<le> node_id \<and> idx < 5 then Some idx else None)"

definition stack_seed :: "nat \<Rightarrow> 64 word" where
  "stack_seed node_id = 0x0123456789ABCDEF + word_of_nat node_id"

text \<open>The two \<open>match node_id as u8\<close>: the number of the inbox and of the outbox channel, or the panic.\<close>

definition inbox_channel :: "node_id \<Rightarrow> nat option" where
  "inbox_channel node_id =
     (let node_id_u8 = node_id mod 256 in if 1 \<le> node_id_u8 \<and> node_id_u8 \<le> 5 then Some node_id_u8 else None)"

definition outbox_channel :: "node_id \<Rightarrow> nat option" where
  "outbox_channel node_id =
     (let node_id_u8 = node_id mod 256 in if 1 \<le> node_id_u8 \<and> node_id_u8 \<le> 5 then Some node_id_u8 else None)"

definition udp_task_runs :: "node_id \<Rightarrow> bool" where
  \<comment> \<open>The guard of the listener and the sender task.\<close>
  "udp_task_runs node_id \<longleftrightarrow> \<not> 255 < node_id"

section \<open>The bus delivers\<close>

definition bus_ok :: "'w network_bus \<Rightarrow> bool" where
  "bus_ok bus \<longleftrightarrow> length (nb_queues bus) = 5 \<and> length (nb_wakers bus) = 5 \<and>
     (\<forall>q\<in>set (nb_queues bus). length q \<le> bus_channel_size \<and> (\<forall>p\<in>set q. pk_len p = length (pk_data p)))"

lemma network_bus_new_ok: "bus_ok network_bus_new"
  by (simp add: bus_ok_def network_bus_new_def)

lemma wake_node_simps [simp]:
  "nb_queues (wake_node i bus) = nb_queues bus" "length (nb_wakers (wake_node i bus)) = length (nb_wakers bus)"
  by (simp_all add: wake_node_def split: option.split)

lemma register_waker_simps [simp]:
  "nb_queues (register_waker i w bus) = nb_queues bus"
  "length (nb_wakers (register_waker i w bus)) = length (nb_wakers bus)"
  by (simp_all add: register_waker_def split: option.split)

lemma index_same: "1 \<le> i \<Longrightarrow> 1 \<le> j \<Longrightarrow> bus_index i = bus_index j \<longleftrightarrow> i = j"
  by (auto simp: bus_index_def)

lemma index_lt: "i \<in> {1..5} \<Longrightarrow> bus_index i < 5"
  by (auto simp: bus_index_def)

lemma bus_send_queue:
  assumes "bus_ok bus" and "t \<in> {1..5}" and "j \<in> {1..5}"
  shows "get_sender j (bus_send t p bus) =
     get_sender j bus @ (if j = t \<and> length (get_sender j bus) < bus_channel_size then [p] else [])"
  using assms index_lt [OF assms(2)] index_same [of t j]
  by (auto simp: bus_send_def get_sender_def chan_try_send_def bus_ok_def split: option.split)

lemma bus_send_ok:
  assumes "bus_ok bus" and "t \<in> {1..5}" and "pk_len p = length (pk_data p)"
  shows "bus_ok (bus_send t p bus)"
proof -
  have "nb_queues bus ! bus_index t \<in> set (nb_queues bus)"
    using assms index_lt [of t] by (simp add: bus_ok_def)
  with assms show ?thesis
    by (auto simp: bus_send_def bus_ok_def chan_try_send_def get_sender_def dest!: set_update_subset_insert [THEN subsetD]
        split: option.split)
qed

lemma bus_broadcast_queue:
  assumes "bus_ok bus" and "distinct ts" and "set ts \<subseteq> {1..5}" and "j \<in> {1..5}" and p: "pk_len p = length (pk_data p)"
  shows "get_sender j (fold (\<lambda>t bus. if t \<noteq> i then bus_send t p bus else bus) ts bus) =
     get_sender j bus @ (if j \<in> set ts \<and> j \<noteq> i \<and> length (get_sender j bus) < bus_channel_size then [p] else []) \<and>
     bus_ok (fold (\<lambda>t bus. if t \<noteq> i then bus_send t p bus else bus) ts bus)"
  using assms(1-3)
proof (induction ts arbitrary: bus)
  case (Cons t ts)
  let ?bus = "if t \<noteq> i then bus_send t p bus else bus"
  have "bus_ok ?bus" using Cons.prems bus_send_ok [OF _ _ p] by auto
  moreover have "get_sender j ?bus = get_sender j bus @ (if j = t \<and> j \<noteq> i \<and> length (get_sender j bus) < bus_channel_size then [p] else [])"
    using bus_send_queue [of bus t j p] Cons.prems assms(4) by auto
  ultimately show ?case using Cons.IH [of ?bus] Cons.prems(2,3) by auto
qed simp

definition addressed :: "nat \<Rightarrow> bytes \<Rightarrow> nat \<Rightarrow> bool" where
  \<comment> \<open>The nodes a frame of node \<open>i\<close> is for.\<close>
  "addressed i frame j \<longleftrightarrow> 6 \<le> length frame \<and> (if frame ! 0 = 0xFF then j \<noteq> i else unat (frame ! 5) = j)"

lemma all_nodes: "set [1..<6] \<subseteq> {1..5}"
  by auto

lemma tx_consume_queue:
  assumes ok: "bus_ok bus" and j: "j \<in> {1..5}" and fill: "fill (replicate len 0) = frame" "length frame = len"
  shows "get_sender j (tx_consume i len fill bus) =
      get_sender j bus @ (if addressed i frame j \<and> length (get_sender j bus) < bus_channel_size
        then [\<lparr>pk_data = frame, pk_len = len\<rparr>] else [])"
    and "bus_ok (tx_consume i len fill bus)"
proof -
  let ?p = "\<lparr>pk_data = frame, pk_len = len\<rparr>"
  note all = bus_broadcast_queue [OF ok distinct_upt all_nodes j, of ?p i]
  note one = bus_send_queue [OF ok, of "unat (frame ! 5)" j ?p] bus_send_ok [OF ok, of "unat (frame ! 5)" ?p]
  have "get_sender j (tx_consume i len fill bus) =
      get_sender j bus @ (if addressed i frame j \<and> length (get_sender j bus) < bus_channel_size then [?p] else []) \<and>
      bus_ok (tx_consume i len fill bus)"
  proof (cases "6 \<le> length frame \<and> frame ! 0 = 0xFF")
    case True
    with all j fill show ?thesis by (auto simp: tx_consume_def addressed_def Let_def)
  next
    case False
    with one j fill ok show ?thesis by (auto simp: tx_consume_def addressed_def Let_def)
  qed
  then show "get_sender j (tx_consume i len fill bus) =
      get_sender j bus @ (if addressed i frame j \<and> length (get_sender j bus) < bus_channel_size then [?p] else [])"
    "bus_ok (tx_consume i len fill bus)" by blast+
qed

text \<open>The waker a node has left is called by the first frame that is queued for it.\<close>

lemma bus_send_wakes:
  assumes "bus_ok bus" and "t \<in> {1..5}" and "j \<in> {1..5}"
  shows "nb_wakers (bus_send t p bus) ! bus_index j =
      (if j = t \<and> length (get_sender j bus) < bus_channel_size then None else nb_wakers bus ! bus_index j)"
    and "set (nb_woken (bus_send t p bus)) =
      set (nb_woken bus) \<union> (if length (get_sender t bus) < bus_channel_size then set_option (nb_wakers bus ! bus_index t) else {})"
  using assms index_lt [OF assms(2)] index_same [of t j]
  by (auto simp: bus_send_def chan_try_send_def wake_node_def bus_ok_def split: option.split)

lemma bus_broadcast_wakes:
  assumes "bus_ok bus" and "distinct ts" and "set ts \<subseteq> {1..5}" and p: "pk_len p = length (pk_data p)"
  shows "set (nb_woken (fold (\<lambda>t bus. if t \<noteq> i then bus_send t p bus else bus) ts bus)) =
     set (nb_woken bus) \<union> (\<Union>t\<in>set ts - {i}. if length (get_sender t bus) < bus_channel_size then set_option (nb_wakers bus ! bus_index t) else {})"
  using assms(1-3)
proof (induction ts arbitrary: bus)
  case (Cons t ts)
  let ?bus = "if t \<noteq> i then bus_send t p bus else bus"
  have ok: "bus_ok ?bus" using Cons.prems bus_send_ok [OF _ _ p] by auto
  have same: "get_sender u ?bus = get_sender u bus" "nb_wakers ?bus ! bus_index u = nb_wakers bus ! bus_index u" if "u \<in> set ts" for u
    using that Cons.prems bus_send_queue [of bus t u p] bus_send_wakes(1) [of bus t u p] by auto
  have "set (nb_woken (fold (\<lambda>t bus. if t \<noteq> i then bus_send t p bus else bus) ts ?bus)) =
      set (nb_woken ?bus) \<union> (\<Union>u\<in>set ts - {i}. if length (get_sender u bus) < bus_channel_size then set_option (nb_wakers bus ! bus_index u) else {})"
    using Cons.IH [OF ok] Cons.prems same by (auto split: if_splits)
  then show ?case
    using bus_send_wakes(2) [of bus t t p] Cons.prems by (cases "t = i") auto
qed simp

lemma tx_consume_wakes:
  assumes ok: "bus_ok bus" and j: "j \<in> {1..5}" and fill: "fill (replicate len 0) = frame" "length frame = len"
    and for_j: "addressed i frame j" "length (get_sender j bus) < bus_channel_size"
  shows "set_option (nb_wakers bus ! bus_index j) \<subseteq> set (nb_woken (tx_consume i len fill bus))"
  using bus_broadcast_wakes [OF ok distinct_upt all_nodes, of "\<lparr>pk_data = frame, pk_len = len\<rparr>" i]
    bus_send_wakes(2) [OF ok, of j j "\<lparr>pk_data = frame, pk_len = len\<rparr>"] j fill for_j
  by (auto simp: tx_consume_def addressed_def Let_def split: if_splits)

section \<open>Properties\<close>

text \<open>A frame a node sends is queued, whole and behind what is queued already, at exactly the nodes it
  is addressed to: at every other node when its first byte is 255, otherwise at the node its destination
  ends with; a node that has sixteen frames waiting loses it, and a frame too short for an address goes
  nowhere.\<close>

theorem frames_reach_their_receivers:
  assumes "bus_ok bus" and "j \<in> {1..5}" and "fill (replicate len 0) = frame" and "length frame = len"
  shows "get_sender j (tx_consume i len fill bus) =
      get_sender j bus @
        (if 6 \<le> len \<and> (if frame ! 0 = 0xFF then j \<noteq> i else unat (frame ! 5) = j) \<and> length (get_sender j bus) < 16
         then [\<lparr>pk_data = frame, pk_len = len\<rparr>] else []) \<and>
    bus_ok (tx_consume i len fill bus)"
  using tx_consume_queue [where fill = fill, OF assms] by (auto simp: addressed_def assms(4) bus_channel_size_def)

definition hello :: bytes where
  "hello = mac_addr 3 @ mac_addr 1 @ [0x08, 0x00, 42]"

theorem frames_reach_their_receivers_witness:
  "get_sender 3 (tx_consume 1 15 (\<lambda>_. hello) (network_bus_new :: nat network_bus)) = [\<lparr>pk_data = hello, pk_len = 15\<rparr>] \<and>
   get_sender 2 (tx_consume 1 15 (\<lambda>_. hello) (network_bus_new :: nat network_bus)) = []"
proof -
  have len: "length hello = 15" and first: "hello ! 0 \<noteq> 0xFF" and last: "unat (hello ! 5) = 3" by code_simp+
  have none: "get_sender j (network_bus_new :: nat network_bus) = []" if "j = 2 \<or> j = 3" for j
    using that by (auto simp: get_sender_def network_bus_new_def bus_index_def)
  from frames_reach_their_receivers [OF network_bus_new_ok [where 'a = nat], of 3 "\<lambda>_. hello" 15 hello 1]
    frames_reach_their_receivers [OF network_bus_new_ok [where 'a = nat], of 2 "\<lambda>_. hello" 15 hello 1]
  show ?thesis by (simp add: len first last none)
qed

text \<open>C30: No wake-up is lost: a node that found its queue empty has left its waker; when a frame for it is
  sent the waker is called, and the node's next receive hands exactly the bytes of the frame to its
  stack.\<close>

theorem no_wakeup_is_lost:
  assumes "bus_ok bus" and "j \<in> {1..5}" and "driver_receive j waker bus = (bus1, None)"
    and "fill (replicate len 0) = frame" and "length frame = len" and "addressed i frame j"
  shows "waker \<in> set (nb_woken (tx_consume i len fill bus1)) \<and>
    rx_consume (snd (driver_receive j waker (tx_consume i len fill bus1))) = frame"
proof -
  have empty: "get_sender j bus = []" and bus1: "bus1 = register_waker j waker bus"
    using assms(3) by (auto simp: driver_receive_def chan_try_receive_def split: list.splits)
  have ok: "bus_ok bus1" using assms(1) by (simp add: bus1 bus_ok_def)
  have none: "get_sender j bus1 = []" using empty by (simp add: bus1 get_sender_def)
  have "nb_wakers bus1 ! bus_index j = Some waker"
    using assms(1) index_lt [OF assms(2)] by (auto simp: bus1 register_waker_def bus_ok_def split: option.split)
  with tx_consume_wakes [where fill = fill, OF ok assms(2,4,5,6)] none
  have "waker \<in> set (nb_woken (tx_consume i len fill bus1))" by (simp add: bus_channel_size_def)
  moreover have "get_sender j (tx_consume i len fill bus1) = [\<lparr>pk_data = frame, pk_len = len\<rparr>]"
    using tx_consume_queue(1) [where fill = fill, OF ok assms(2,4,5), of i] assms(6) none by (simp add: bus_channel_size_def)
  ultimately show ?thesis
    using assms(5) by (simp add: driver_receive_def chan_try_receive_def rx_consume_def)
qed

theorem no_wakeup_is_lost_witness:
  "(7 :: nat) \<in> set (nb_woken (tx_consume 1 15 (\<lambda>_. hello) (fst (driver_receive 3 7 network_bus_new)))) \<and>
   rx_consume (snd (driver_receive 3 7 (tx_consume 1 15 (\<lambda>_. hello) (fst (driver_receive 3 (7 :: nat) network_bus_new))))) = hello"
proof -
  have "driver_receive 3 7 (network_bus_new :: nat network_bus) = (fst (driver_receive 3 7 network_bus_new), None)" by code_simp
  moreover have "length hello = 15" "addressed 1 hello 3" by code_simp+
  ultimately show ?thesis
    using no_wakeup_is_lost [OF network_bus_new_ok, of 3 7 _ "\<lambda>_. hello" 15 hello 1] by simp
qed

text \<open>
  The comment in \<open>MockTxToken::consume\<close> speaks of broadcast or multicast, but a multicast address does
  not begin with 255: a frame for all IPv6 nodes reaches the one node its last byte names.
\<close>

theorem multicast_reaches_one_node:
  "map (\<lambda>j. length (get_sender j (tx_consume 2 14 (\<lambda>_. [0x33, 0x33, 0, 0, 0, 1, 2, 0, 0, 0, 0, 2, 0x86, 0xDD])
       (network_bus_new :: nat network_bus)))) [1, 2, 3, 4, 5] = [1, 0, 0, 0, 0]"
  by code_simp

end
