(* ===== verification/Test_Cluster.thy ===== *)
theory Test_Cluster
  imports Timer_Independence In_Memory_Node
begin

text \<open>
  The methods of the test clusters of \<open>validation/src\<close>: which messages \<open>deliver_messages\<close> and its
  variants hand to the nodes and in what order, how nodes are added, connected, removed and
  partitioned.  \<open>Cluster\<close> lets a cluster move in every way; here are the moves these programs choose,
  with the proof that they are runs of \<open>Cluster\<close>.  \<open>Timefull_Cluster\<close> adds the clock.
\<close>

section \<open>\<open>IndexMap\<close>\<close>

text \<open>Pairs in insertion order; \<open>swap_remove\<close> moves the last pair into the gap.\<close>

definition index_insert :: "node_id \<Rightarrow> 'v \<Rightarrow> (node_id \<times> 'v) list \<Rightarrow> (node_id \<times> 'v) list" where
  "index_insert k v m =
     (if k \<in> set (map fst m) then map (\<lambda>(j, w). if j = k then (j, v) else (j, w)) m else m @ [(k, v)])"

definition swap_remove :: "node_id \<Rightarrow> (node_id \<times> 'v) list \<Rightarrow> (node_id \<times> 'v) list" where
  "swap_remove k m =
     (case position (\<lambda>(j, _). j = k) m of Some pos \<Rightarrow> butlast (m[pos := last m]) | None \<Rightarrow> m)"

section \<open>The cluster\<close>

type_synonym 'p log_of_messages = "(node_id \<times> node_id \<times> 'p raft_msg) list"

record ('s, 'sm, 'ts, 'p) test_cluster =
  tc_nodes :: "(node_id \<times> ('s, 'sm, 'ts, 'p) raft_node) list"
  tc_broker :: "'p message_broker"
  tc_log :: "'p log_of_messages"
  tc_threshold :: log_index

record ('s, 'sm, 'ts, 'p) timeless_cluster = "('s, 'sm, 'ts, 'p) test_cluster" +
  tl_partition :: "(node_id list \<times> node_id list) option"

type_synonym 'ts memory_node = "(string mem_storage, in_memory_state_machine, 'ts, string) raft_node"
type_synonym timeless = "(string mem_storage, in_memory_state_machine, unit, string) timeless_cluster"
type_synonym machine = "(in_memory_state_machine, string) state_machine_ops"

abbreviation timeless_env :: "machine \<Rightarrow> (string mem_storage, in_memory_state_machine, unit, string) env" where
  "timeless_env SM \<equiv> in_memory_env SM frozen_timer_ops"

definition timeless_new :: timeless where
  "timeless_new = \<lparr>tc_nodes = [], tc_broker = broker_new, tc_log = [], tc_threshold = 10, tl_partition = None\<rparr>"

definition timeless_with_snapshot_threshold :: "log_index \<Rightarrow> timeless \<Rightarrow> timeless" where
  "timeless_with_snapshot_threshold th c = c\<lparr>tc_threshold := th\<rparr>"

definition add_node_with_storage :: "machine \<Rightarrow> node_id \<Rightarrow> string mem_storage \<Rightarrow> timeless \<Rightarrow> timeless" where
  "add_node_with_storage SM i st c =
     c\<lparr>tc_nodes := index_insert i
         (build_node (timeless_env SM) i st kv_new () [] [] (tc_threshold c) frozen_clock_now) (tc_nodes c)\<rparr>"

definition add_node :: "machine \<Rightarrow> node_id \<Rightarrow> timeless \<Rightarrow> timeless" where
  "add_node SM i c = add_node_with_storage SM i mem_new c"

definition peers_match :: "node_id list \<Rightarrow> node_id list option \<Rightarrow> bool" where
  "peers_match expected_peers current =
     (case current of
        Some current_peers \<Rightarrow>
          length current_peers = length expected_peers \<and> list_all (\<lambda>p. p \<in> set current_peers) expected_peers
      | None \<Rightarrow> False)"

definition connect_node :: "machine \<Rightarrow> node_id list \<Rightarrow> node_id \<Rightarrow> timeless \<Rightarrow> timeless" where
  \<comment> \<open>One round of the loop of \<open>connect_peers\<close>.  The observer is the old one, as in \<open>rebuild\<close>.\<close>
  "connect_node SM node_ids i c =
     (let expected_peers = filter (\<lambda>j. j \<noteq> i) node_ids in
      case map_of (tc_nodes c) i of
        None \<Rightarrow> c
      | Some old_node \<Rightarrow>
          if peers_match expected_peers (node_peers old_node) then c
          else c\<lparr>tc_nodes := index_insert i
                   (build_node (timeless_env SM) i (rn_storage old_node) (rn_machine old_node) ()
                      expected_peers (rn_observed old_node) (tc_threshold c) frozen_clock_now)
                   (swap_remove i (tc_nodes c))\<rparr>)"

definition connect_peers :: "machine \<Rightarrow> timeless \<Rightarrow> timeless" where
  "connect_peers SM c = (let node_ids = map fst (tc_nodes c) in fold (connect_node SM node_ids) node_ids c)"

definition with_nodes :: "machine \<Rightarrow> nat \<Rightarrow> timeless" where
  "with_nodes SM n = connect_peers SM (fold (add_node SM) [1..<Suc n] timeless_new)"

section \<open>Delivering messages\<close>

definition feed_node ::
  "('s, 'sm, 'ts, 'p) env \<Rightarrow> node_id \<Rightarrow> 'p event
   \<Rightarrow> ('s, 'sm, 'ts, 'p, 'z) test_cluster_scheme \<Rightarrow> ('s, 'sm, 'ts, 'p, 'z) test_cluster_scheme" where
  \<comment> \<open>\<open>if let Some(node) = self.nodes.get_mut(&to)\<close>; the node's transport writes to the broker.\<close>
  "feed_node E to ev c =
     (case map_of (tc_nodes c) to of
        None \<Rightarrow> c
      | Some n \<Rightarrow>
          let n' = on_event E ev n
          in c\<lparr>tc_nodes := index_insert to (n'\<lparr>rn_outbox := []\<rparr>) (tc_nodes c),
               tc_broker := post to (rn_outbox n') (tc_broker c)\<rparr>)"

type_synonym 'p batch = "(node_id \<times> node_id \<times> 'p raft_msg) list"

function (sequential) drain_queue ::
  "(node_id \<Rightarrow> bool) \<Rightarrow> node_id \<Rightarrow> 'p message_broker \<Rightarrow> 'p message_broker \<times> 'p batch" where
  \<comment> \<open>\<open>while let Some((from, msg)) = broker.dequeue(node_id)\<close>\<close>
  "drain_queue should_deliver i b =
     (case dequeue i b of
        (b1, None) \<Rightarrow> (b1, [])
      | (b1, Some (f, msg)) \<Rightarrow>
          (case drain_queue should_deliver i b1 of
             (b2, batch) \<Rightarrow> (b2, if should_deliver f then (i, f, msg) # batch else batch)))"
  by pat_completeness auto

termination drain_queue
  by (relation "measure (\<lambda>(keep, i, b). length (queue_of b i))")
    (auto simp: dequeue_def queue_of_def split: option.splits list.splits)

declare drain_queue.simps [simp del]

fun collect :: "(node_id \<Rightarrow> node_id \<Rightarrow> bool) \<Rightarrow> node_id list \<Rightarrow> 'p message_broker \<Rightarrow> 'p message_broker \<times> 'p batch" where
  \<comment> \<open>\<open>should_deliver to from\<close> decides which messages become part of the batch; the others are gone.\<close>
  "collect should_deliver [] b = (b, [])"
| "collect should_deliver (i # is) b =
     (case drain_queue (should_deliver i) i b of
        (b1, batch1) \<Rightarrow> (case collect should_deliver is b1 of (b2, batch2) \<Rightarrow> (b2, batch1 @ batch2)))"

fun deliver_batch ::
  "('s, 'sm, 'ts, 'p) env \<Rightarrow> 'p batch
   \<Rightarrow> ('s, 'sm, 'ts, 'p, 'z) test_cluster_scheme \<Rightarrow> ('s, 'sm, 'ts, 'p, 'z) test_cluster_scheme" where
  "deliver_batch E [] c = c"
| "deliver_batch E ((to, f, msg) # batch) c =
     deliver_batch E batch (feed_node E to (Message f msg) (c\<lparr>tc_log := tc_log c @ [(f, to, msg)]\<rparr>))"

text \<open>
  The loop ends when a round finds no message; whether it does depends on the nodes.  Handling a
  message changes no key of the map, so the list of nodes is the same in every round.
\<close>

partial_function (option) deliver_loop ::
  "('s, 'sm, 'ts, 'p) env \<Rightarrow> (node_id \<Rightarrow> node_id \<Rightarrow> bool) \<Rightarrow> node_id list
   \<Rightarrow> ('s, 'sm, 'ts, 'p, 'z) test_cluster_scheme \<Rightarrow> ('s, 'sm, 'ts, 'p, 'z) test_cluster_scheme option" where
  "deliver_loop E should_deliver is c =
     (case collect should_deliver is (tc_broker c) of
        (b, messages_to_deliver) \<Rightarrow>
          if messages_to_deliver = [] then Some (c\<lparr>tc_broker := b\<rparr>)
          else deliver_loop E should_deliver is (deliver_batch E messages_to_deliver (c\<lparr>tc_broker := b\<rparr>)))"

text \<open>For evaluation: the loop with the branches of a round as equations.\<close>

fun deliver_round ::
  "('s, 'sm, 'ts, 'p) env \<Rightarrow> (node_id \<Rightarrow> node_id \<Rightarrow> bool) \<Rightarrow> node_id list \<Rightarrow> 'p message_broker \<times> 'p batch
   \<Rightarrow> ('s, 'sm, 'ts, 'p, 'z) test_cluster_scheme \<Rightarrow> ('s, 'sm, 'ts, 'p, 'z) test_cluster_scheme option" where
  "deliver_round E should_deliver is (b, []) c = Some (c\<lparr>tc_broker := b\<rparr>)"
| "deliver_round E should_deliver is (b, x # batch) c =
     deliver_loop E should_deliver is (deliver_batch E (x # batch) (c\<lparr>tc_broker := b\<rparr>))"

lemma deliver_loop_code [code]:
  "deliver_loop E should_deliver is c = deliver_round E should_deliver is (collect should_deliver is (tc_broker c)) c"
proof -
  obtain b batch where "collect should_deliver is (tc_broker c) = (b, batch)" by fastforce
  then show ?thesis
    by (subst deliver_loop.simps) (cases batch; simp)
qed

definition same_group :: "(node_id list \<times> node_id list) option \<Rightarrow> node_id \<Rightarrow> node_id \<Rightarrow> bool" where
  "same_group partition_groups to from =
     (case partition_groups of
        Some (group1, group2) \<Rightarrow>
          (from \<in> set group1 \<and> to \<in> set group1) \<or> (from \<in> set group2 \<and> to \<in> set group2)
      | None \<Rightarrow> True)"

definition deliver_messages :: "machine \<Rightarrow> timeless \<Rightarrow> timeless option" where
  "deliver_messages SM c = deliver_loop (timeless_env SM) (same_group (tl_partition c)) (map fst (tc_nodes c)) c"

definition deliver_messages_partition :: "machine \<Rightarrow> node_id list \<Rightarrow> timeless \<Rightarrow> timeless option" where
  "deliver_messages_partition SM ids c = deliver_loop (timeless_env SM) (\<lambda>to from. from \<in> set ids) ids c"

definition deliver_message_from_to :: "machine \<Rightarrow> node_id \<Rightarrow> node_id \<Rightarrow> timeless \<Rightarrow> timeless" where
  "deliver_message_from_to SM from to c =
     (case dequeue_from to from (tc_broker c) of
        (b, Some (sender, msg)) \<Rightarrow>
          feed_node (timeless_env SM) to (Message sender msg)
            (c\<lparr>tc_broker := b, tc_log := tc_log c @ [(sender, to, msg)]\<rparr>)
      | (b, None) \<Rightarrow> c\<lparr>tc_broker := b\<rparr>)"

section \<open>The other methods\<close>

definition get_node :: "node_id \<Rightarrow> ('s, 'sm, 'ts, 'p, 'z) test_cluster_scheme \<Rightarrow> ('s, 'sm, 'ts, 'p) raft_node option" where
  \<comment> \<open>\<open>None\<close> is the panic of \<open>expect\<close>.\<close>
  "get_node i c = map_of (tc_nodes c) i"

definition get_node_ids :: "('s, 'sm, 'ts, 'p, 'z) test_cluster_scheme \<Rightarrow> node_id list" where
  "get_node_ids c = map fst (tc_nodes c)"

definition get_messages :: "node_id \<Rightarrow> ('s, 'sm, 'ts, 'p, 'z) test_cluster_scheme \<Rightarrow> 'p raft_msg list" where
  "get_messages recipient c = map (\<lambda>(_, _, msg). msg) (filter (\<lambda>(_, to, _). to = recipient) (tc_log c))"

definition get_messages_from :: "node_id \<Rightarrow> node_id \<Rightarrow> ('s, 'sm, 'ts, 'p, 'z) test_cluster_scheme \<Rightarrow> 'p raft_msg list" where
  "get_messages_from from to c = map (\<lambda>(_, _, msg). msg) (filter (\<lambda>(f, t, _). f = from \<and> t = to) (tc_log c))"

definition message_count :: "('s, 'sm, 'ts, 'p, 'z) test_cluster_scheme \<Rightarrow> nat" where
  "message_count c = length (tc_log c)"

definition clear_message_log :: "('s, 'sm, 'ts, 'p, 'z) test_cluster_scheme \<Rightarrow> ('s, 'sm, 'ts, 'p, 'z) test_cluster_scheme" where
  "clear_message_log c = c\<lparr>tc_log := []\<rparr>"

definition remove_node :: "node_id \<Rightarrow> timeless \<Rightarrow> timeless" where
  "remove_node i c = c\<lparr>tc_nodes := swap_remove i (tc_nodes c)\<rparr>"

definition reconnect_node :: "machine \<Rightarrow> node_id \<Rightarrow> timeless \<Rightarrow> timeless" where
  "reconnect_node SM i c = connect_peers SM c"

definition set_partition :: "node_id list \<Rightarrow> node_id list \<Rightarrow> timeless \<Rightarrow> timeless" where
  "set_partition group1 group2 c = c\<lparr>tl_partition := Some (group1, group2)\<rparr>"

definition heal_partition :: "timeless \<Rightarrow> timeless" where
  "heal_partition c = c\<lparr>tl_partition := None\<rparr>"

definition partition_node :: "node_id \<Rightarrow> timeless \<Rightarrow> timeless" where
  "partition_node i c =
     c\<lparr>tl_partition := Some ([i], filter (\<lambda>j. j \<noteq> i) (map fst (tc_nodes c)))\<rparr>"

definition heal_partition_node :: "node_id \<Rightarrow> timeless \<Rightarrow> timeless" where
  "heal_partition_node i c = c\<lparr>tl_partition := None\<rparr>"

section \<open>Index maps as maps\<close>

lemma index_insert_keys [simp]:
  "k \<in> set (map fst m) \<Longrightarrow> map fst (index_insert k v m) = map fst m"
  "k \<notin> set (map fst m) \<Longrightarrow> map fst (index_insert k v m) = map fst m @ [k]"
  by (auto simp: index_insert_def case_prod_unfold comp_def intro!: map_cong)

lemma index_insert_key_set [simp]: "fst ` set (index_insert k v m) = insert k (fst ` set m)"
  by (cases "k \<in> set (map fst m)") (force simp: index_insert_def)+

lemma map_of_index_insert [simp]: "map_of (index_insert k v m) = (map_of m)(k \<mapsto> v)"
proof (cases "k \<in> set (map fst m)")
  case True
  have "map_of (map (\<lambda>(j, w). if j = k then (j, v) else (j, w)) m) j =
      (if j = k then map_option (\<lambda>_. v) (map_of m j) else map_of m j)" for j
    by (induction m) auto
  moreover obtain w where "map_of m k = Some w" using True by (cases "map_of m k") (auto simp: map_of_eq_None_iff)
  ultimately show ?thesis using True by (auto simp: index_insert_def fun_eq_iff)
next
  case False
  then show ?thesis
    by (simp add: index_insert_def fun_eq_iff map_add_def split: option.split)
      (simp add: map_of_eq_None_iff [symmetric])
qed

lemma position_key: "k \<in> set (map fst m) \<Longrightarrow> \<exists>pos. position (\<lambda>(j, _). j = k) m = Some pos"
  using position_None_iff [of "\<lambda>(j, _). j = k" m] by (cases "position (\<lambda>(j, _). j = k) m") auto

lemma swap_remove_map:
  assumes "distinct (map fst m)"
  shows "map_of (swap_remove k m) = (map_of m)(k := None)" "distinct (map fst (swap_remove k m))"
    "set (map fst (swap_remove k m)) = set (map fst m) - {k}"
proof -
  have "map_of (swap_remove k m) = (map_of m)(k := None) \<and> distinct (map fst (swap_remove k m)) \<and>
      set (map fst (swap_remove k m)) = set (map fst m) - {k}"
  proof (cases "position (\<lambda>(j, _). j = k) m")
    case None
    then have fresh: "k \<notin> fst ` set m" using position_None_iff [of "\<lambda>(j, _). j = k" m] by auto
    then have "map_of m k = None" by (simp add: map_of_eq_None_iff)
    with None fresh assms show ?thesis by (auto simp: swap_remove_def fun_eq_iff)
  next
    case (Some pos)
    then obtain w where pos: "pos < length m" "m ! pos = (k, w)"
      using position_first [OF Some] by (cases "m ! pos") auto
    define xs ys where "xs = take pos m" and "ys = drop (Suc pos) m"
    have m: "m = xs @ (k, w) # ys" using id_take_nth_drop [OF pos(1)] by (simp add: xs_def ys_def pos(2))
    have len: "length xs = pos" using pos by (simp add: xs_def)
    have swap: "swap_remove k m = butlast (m[pos := last m])" by (simp add: swap_remove_def Some)
    show ?thesis
    proof (cases ys rule: rev_cases)
      case Nil
      with swap have "swap_remove k m = xs" by (simp add: m flip: len)
      with m Nil assms show ?thesis
        by (simp add: fun_eq_iff map_add_def map_of_eq_None_iff split: option.split)
    next
      case (snoc zs p)
      then have rm: "swap_remove k m = xs @ p # zs"
        using swap by (simp add: m butlast_append flip: len)
      have m': "m = xs @ (k, w) # zs @ [p]" using m snoc by simp
      obtain j v where p: "p = (j, v)" by fastforce
      from assms have d: "distinct (map fst xs @ k # map fst zs @ [j])" by (simp add: m' p)
      then have fresh: "map_of xs k = None" "map_of zs k = None" "map_of xs j = None" "map_of zs j = None" "j \<noteq> k"
        and excl: "map_of xs i = None \<or> map_of zs i = None" for i
        by (auto simp: map_of_eq_None_iff)
      have "map_of (xs @ (j, v) # zs) i = ((map_of (xs @ (k, w) # zs @ [(j, v)]))(k := None)) i" for i
        using fresh excl [of i] by (cases "map_of xs i") (auto simp: map_add_def split: option.split)
      then have "map_of (xs @ (j, v) # zs) = (map_of (xs @ (k, w) # zs @ [(j, v)]))(k := None)" by (rule ext)
      with d show ?thesis unfolding rm unfolding m' p by auto
    qed
  qed
  then show "map_of (swap_remove k m) = (map_of m)(k := None)" "distinct (map fst (swap_remove k m))"
    "set (map fst (swap_remove k m)) = set (map fst m) - {k}" by blast+
qed

section \<open>A delivery is a run of the cluster\<close>

definition cluster_of ::
  "node_id list \<Rightarrow> ('s, 'sm, 'ts, 'p, 'z) test_cluster_scheme \<Rightarrow> ('s, 'sm, 'ts, 'p) cluster" where
  "cluster_of ids c = \<lparr>cl_ids = ids, cl_nodes = map_of (tc_nodes c), cl_broker = tc_broker c\<rparr>"

fun is_delivery :: "'p action \<Rightarrow> bool" where
  "is_delivery (Deliver i pos) = True"
| "is_delivery (Lose i pos) = True"
| "is_delivery _ = False"

lemma delivery_keeps_members: "is_delivery a \<Longrightarrow> keeps_members a"
  by (cases a) simp_all

lemma run_append: "run_cluster E (xs @ ys) cl = run_cluster E ys (run_cluster E xs cl)"
  by (simp add: run_cluster_def)

lemma feed_cluster_of: "cluster_of ids (feed_node E i ev c) = feed E i ev (cluster_of ids c)"
  by (simp add: feed_node_def feed_def cluster_of_def Let_def split: option.splits)

lemma queues_eqI:
  "dom (queues b) = dom (queues b') \<Longrightarrow> (\<And>i. queue_of b i = queue_of b' i) \<Longrightarrow> b = b'"
proof (rule message_broker.equality, rule ext)
  fix i assume d: "dom (queues b) = dom (queues b')" and q: "\<And>i. queue_of b i = queue_of b' i"
  from d have "i \<in> dom (queues b) \<longleftrightarrow> i \<in> dom (queues b')" by simp
  with q [of i] show "queues b i = queues b' i"
    by (auto simp: queue_of_def domIff split: option.splits)
qed simp

lemma dom_post: "dom (queues (post i out b)) = dom (queues b) \<union> fst ` set out"
proof (induction out arbitrary: b)
  case (Cons p out)
  then show ?case by (cases p) (auto simp: post_def transport_send_def enqueue_def)
qed (simp add: post_def)

lemma drain_queue_eq [code]:
  "drain_queue keep i b =
     (b\<lparr>queues := (queues b)(i := map_option (\<lambda>_. []) (queues b i))\<rparr>,
      map (Pair i) (filter (\<lambda>(f, m). keep f) (queue_of b i)))"
proof (induction keep i b rule: drain_queue.induct)
  case (1 keep i b)
  have upd: "b\<lparr>queues := (queues b)(i := map_option (\<lambda>_. []) (queues b i))\<rparr> = b" if "queue_of b i = []"
    using that by (cases b) (auto simp: queue_of_def fun_eq_iff split: option.splits)
  show ?case
  proof (cases "queue_of b i")
    case Nil
    then have "dequeue i b = (b, None)"
      by (simp add: dequeue_def queue_of_def split: option.splits)
    with Nil upd show ?thesis by (subst drain_queue.simps) simp
  next
    case (Cons p q)
    obtain f m where p: "p = (f, m)" by fastforce
    let ?b = "b\<lparr>queues := (queues b)(i \<mapsto> q)\<rparr>"
    have some: "queues b i = Some ((f, m) # q)"
      using Cons p by (simp add: queue_of_def split: option.splits)
    then have deq: "dequeue i b = (?b, Some (f, m))" by (simp add: dequeue_def)
    from 1 [OF deq [symmetric] refl refl] some p Cons show ?thesis
      by (subst drain_queue.simps) (simp add: deq queue_of_def fun_upd_def cong: if_cong)
  qed
qed

lemma collect_queues:
  assumes "collect keep is b = (b', batch)"
  shows "dom (queues b') = dom (queues b)"
    and "queue_of b' i = (if i \<in> set is then [] else queue_of b i)"
    and "map snd (filter (\<lambda>(to, _). to = i) batch) =
          (if i \<in> set is then filter (\<lambda>(f, m). keep i f) (queue_of b i) else [])"
    and "\<forall>(to, f, m)\<in>set batch. to \<in> set is \<and> keep to f"
proof -
  have "dom (queues b') = dom (queues b) \<and> (\<forall>i. queue_of b' i = (if i \<in> set is then [] else queue_of b i)) \<and>
    (\<forall>i. map snd (filter (\<lambda>(to, _). to = i) batch) =
          (if i \<in> set is then filter (\<lambda>(f, m). keep i f) (queue_of b i) else [])) \<and>
    (\<forall>(to, f, m)\<in>set batch. to \<in> set is \<and> keep to f)"
    using assms
  proof (induction "is" arbitrary: b b' batch)
    case (Cons j "is")
    define b1 where "b1 = b\<lparr>queues := (queues b)(j := map_option (\<lambda>_. []) (queues b j))\<rparr>"
    obtain batch2 where rec: "collect keep is b1 = (b', batch2)"
      and batch: "batch = map (Pair j) (filter (\<lambda>(f, m). keep j f) (queue_of b j)) @ batch2"
      using Cons.prems by (auto simp: drain_queue_eq b1_def split: prod.splits)
    have q1: "queue_of b1 i = (if i = j then [] else queue_of b i)" for i
      by (simp add: b1_def queue_of_def split: option.splits)
    have d1: "dom (queues b1) = dom (queues b)" by (auto simp: b1_def split: if_splits)
    have own: "map snd (filter (\<lambda>(to, _). to = i) (map (Pair j) xs)) = (if i = j then xs else [])" for i and xs :: "(node_id \<times> 'a raft_msg) list"
      by (induction xs) auto
    from Cons.IH [OF rec] show ?case
      by (auto simp: batch q1 d1 own)
  qed simp
  then show "dom (queues b') = dom (queues b)"
    and "queue_of b' i = (if i \<in> set is then [] else queue_of b i)"
    and "map snd (filter (\<lambda>(to, _). to = i) batch) =
          (if i \<in> set is then filter (\<lambda>(f, m). keep i f) (queue_of b i) else [])"
    and "\<forall>(to, f, m)\<in>set batch. to \<in> set is \<and> keep to f" by blast+
qed

text \<open>What a round does not put into its batch is lost.\<close>

definition keep_in :: "(node_id \<Rightarrow> node_id \<Rightarrow> bool) \<Rightarrow> node_id list \<Rightarrow> 'p message_broker \<Rightarrow> 'p message_broker" where
  "keep_in keep is b =
     \<lparr>queues = \<lambda>i. if i \<in> set is then map_option (filter (\<lambda>(f, m). keep i f)) (queues b i) else queues b i\<rparr>"

lemma queue_of_keep_in:
  "queue_of (keep_in keep is b) i = (if i \<in> set is then filter (\<lambda>(f, m). keep i f) (queue_of b i) else queue_of b i)"
  by (simp add: keep_in_def queue_of_def split: option.splits)

lemma dom_keep_in [simp]: "dom (queues (keep_in keep is b)) = dom (queues b)"
  by (auto simp: keep_in_def split: if_splits)

lemma lose_one_queue:
  "\<exists>acts. (\<forall>a\<in>set acts. is_delivery a) \<and>
     run_cluster E acts cl = cl\<lparr>cl_broker := keep_in keep [i] (cl_broker cl)\<rparr>"
proof (induction "length (queue_of (cl_broker cl) i)" arbitrary: cl rule: less_induct)
  case less
  let ?b = "cl_broker cl"
  show ?case
  proof (cases "\<forall>(f, m)\<in>set (queue_of ?b i). keep i f")
    case True
    then have "filter (\<lambda>(f, m). keep i f) (queue_of ?b i) = queue_of ?b i" by (simp add: filter_id_conv)
    then have "keep_in keep [i] ?b = ?b"
      by (intro queues_eqI) (simp_all add: queue_of_keep_in)
    then show ?thesis by (intro exI [of _ "[]"]) (simp add: run_cluster_def)
  next
    case False
    then obtain pos where pos: "pos < length (queue_of ?b i)" and drop: "\<not> keep i (fst (queue_of ?b i ! pos))"
      by (auto simp: in_set_conv_nth)
    then obtain b where rm: "remove_at i pos ?b = (b, Some (queue_of ?b i ! pos))"
      by (simp add: remove_at_def Let_def)
    note q = remove_at_Some [OF rm]
    define cl1 where "cl1 = cl\<lparr>cl_broker := b\<rparr>"
    have step: "act E (Lose i pos) cl = cl1" by (simp add: rm cl1_def)
    have "length (queue_of (cl_broker cl1) i) < length (queue_of ?b i)"
      using pos by (simp add: cl1_def q(2))
    from less [OF this] obtain acts where acts: "\<forall>a\<in>set acts. is_delivery a"
      "run_cluster E acts cl1 = cl1\<lparr>cl_broker := keep_in keep [i] b\<rparr>" by (auto simp: cl1_def)
    have "filter (\<lambda>(f, m). keep i f) (queue_of b i) = filter (\<lambda>(f, m). keep i f) (queue_of ?b i)"
      using drop arg_cong [OF q(1), of "filter (\<lambda>(f, m). keep i f)"] by (simp add: q(2) case_prod_unfold)
    moreover have "dom (queues b) = dom (queues ?b)"
      using rm pos by (auto simp: remove_at_def Let_def queue_of_def split: if_splits option.splits)
    ultimately have "keep_in keep [i] b = keep_in keep [i] ?b"
      by (intro queues_eqI) (simp_all add: queue_of_keep_in q(2))
    with acts show ?thesis
      by (intro exI [of _ "Lose i pos # acts"]) (simp add: run_cluster_def step [unfolded act.simps] cl1_def)
  qed
qed

lemma lose_queues:
  "\<exists>acts. (\<forall>a\<in>set acts. is_delivery a) \<and>
     run_cluster E acts cl = cl\<lparr>cl_broker := keep_in keep is (cl_broker cl)\<rparr>"
proof (induction "is" arbitrary: cl)
  case Nil
  have "keep_in keep [] (cl_broker cl) = cl_broker cl" by (simp add: keep_in_def)
  then show ?case by (intro exI [of _ "[]"]) (simp add: run_cluster_def)
next
  case (Cons i "is")
  obtain xs where xs: "\<forall>a\<in>set xs. is_delivery a"
    "run_cluster E xs cl = cl\<lparr>cl_broker := keep_in keep [i] (cl_broker cl)\<rparr>" using lose_one_queue by blast
  obtain ys where ys: "\<forall>a\<in>set ys. is_delivery a"
    "run_cluster E ys (run_cluster E xs cl) =
       (run_cluster E xs cl)\<lparr>cl_broker := keep_in keep is (cl_broker (run_cluster E xs cl))\<rparr>" using Cons by blast
  have "keep_in keep is (keep_in keep [i] (cl_broker cl)) = keep_in keep (i # is) (cl_broker cl)"
    by (intro queues_eqI) (simp_all add: queue_of_keep_in)
  with xs ys show ?case by (intro exI [of _ "xs @ ys"]) (auto simp: run_append)
qed

text \<open>Delivering a batch is delivering, for each of its messages, the first of the receiver's queue.\<close>

lemma deliver_batch_run:
  assumes "dom (queues B) = dom (queues (tc_broker c))"
    and "\<And>i. queue_of B i = map snd (filter (\<lambda>(to, _). to = i) batch) @ queue_of (tc_broker c) i"
  shows "run_cluster E (map (\<lambda>(to, _). Deliver to 0) batch) ((cluster_of ids c)\<lparr>cl_broker := B\<rparr>) =
    cluster_of ids (deliver_batch E batch c)"
  using assms
proof (induction batch arbitrary: B c)
  case Nil
  then have "B = tc_broker c" by (intro queues_eqI) simp_all
  then show ?case by (simp add: run_cluster_def cluster_of_def)
next
  case (Cons x batch)
  obtain to f m where x: "x = (to, f, m)" by (cases x)
  let ?rest = "map snd (filter (\<lambda>(t, _). t = to) batch) @ queue_of (tc_broker c) to"
  let ?B = "B\<lparr>queues := (queues B)(to \<mapsto> ?rest)\<rparr>"
  let ?c = "c\<lparr>tc_log := tc_log c @ [(f, to, m)]\<rparr>"
  have head: "queue_of B to = (f, m) # ?rest" using Cons.prems(2) [of to] by (simp add: x)
  then have inB: "to \<in> dom (queues B)" by (auto simp: queue_of_def split: option.splits)
  have rm: "remove_at to 0 B = (?B, Some (f, m))" by (simp add: remove_at_def head)
  let ?fed = "feed_node E to (Message f m) ?c"
  have step: "act E (Deliver to 0) ((cluster_of ids c)\<lparr>cl_broker := B\<rparr>) =
      feed E to (Message f m) ((cluster_of ids ?c)\<lparr>cl_broker := ?B\<rparr>)"
    by (simp add: rm cluster_of_def)
  define out where "out = (case map_of (tc_nodes c) to of None \<Rightarrow> [] | Some n \<Rightarrow> rn_outbox (on_event E (Message f m) n))"
  have fed: "tc_broker ?fed = post to out (tc_broker c)"
    by (simp add: feed_node_def out_def Let_def post_def split: option.splits)
  have "feed E to (Message f m) ((cluster_of ids ?c)\<lparr>cl_broker := ?B\<rparr>) = (cluster_of ids ?fed)\<lparr>cl_broker := post to out ?B\<rparr>"
    by (simp add: feed_def feed_node_def cluster_of_def out_def Let_def post_def split: option.splits)
  moreover have "dom (queues (post to out ?B)) = dom (queues (tc_broker ?fed))"
    using Cons.prems(1) inB by (auto simp: fed dom_post)
  moreover have "queue_of (post to out ?B) i = map snd (filter (\<lambda>(t, _). t = i) batch) @ queue_of (tc_broker ?fed) i" for i
    using Cons.prems(2) [of i] by (simp add: fed queue_of_post x) (simp add: queue_of_def)
  ultimately show ?case
    using Cons.IH [of "post to out ?B" ?fed] step by (simp add: x run_cluster_def)
qed

lemma feed_node_frame:
  "tc_log (feed_node E i ev c) = tc_log c" "tc_threshold (feed_node E i ev c) = tc_threshold c"
  "test_cluster.more (feed_node E i ev c) = test_cluster.more c"
  "map fst (tc_nodes (feed_node E i ev c)) = map fst (tc_nodes c)"
  by (force simp: feed_node_def Let_def dest: map_of_SomeD split: option.splits intro!: index_insert_keys(1))+

lemma deliver_batch_frame:
  "tc_log (deliver_batch E batch c) = tc_log c @ map (\<lambda>(to, f, m). (f, to, m)) batch"
  "tc_threshold (deliver_batch E batch c) = tc_threshold c"
  "test_cluster.more (deliver_batch E batch c) = test_cluster.more c"
  "map fst (tc_nodes (deliver_batch E batch c)) = map fst (tc_nodes c)"
  by (induction E batch c rule: deliver_batch.induct) (simp_all add: feed_node_frame)

definition delivered ::
  "('s, 'sm, 'ts, 'p) env \<Rightarrow> (node_id \<Rightarrow> node_id \<Rightarrow> bool) \<Rightarrow> node_id list
   \<Rightarrow> ('s, 'sm, 'ts, 'p, 'z) test_cluster_scheme \<Rightarrow> ('s, 'sm, 'ts, 'p, 'z) test_cluster_scheme \<Rightarrow> bool" where
  "delivered E keep is c c' \<longleftrightarrow>
    (\<forall>ids. \<exists>acts. (\<forall>a\<in>set acts. is_delivery a) \<and> run_cluster E acts (cluster_of ids c) = cluster_of ids c') \<and>
    (\<forall>i\<in>set is. queue_of (tc_broker c') i = []) \<and>
    (\<exists>new. tc_log c' = tc_log c @ new \<and> (\<forall>(f, to, m)\<in>set new. to \<in> set is \<and> keep to f)) \<and>
    tc_threshold c' = tc_threshold c \<and> test_cluster.more c' = test_cluster.more c \<and>
    map fst (tc_nodes c') = map fst (tc_nodes c)"

lemma deliver_loop_delivered:
  assumes "deliver_loop E keep is c = Some c'"
  shows "delivered E keep is c c'"
proof (rule deliver_loop.raw_induct [OF _ assms, of delivered], goal_cases)
  case (1 loop E keep "is" c c')
  obtain b batch where col: "collect keep is (tc_broker c) = (b, batch)" by fastforce
  note q = collect_queues [OF col]
  let ?c = "c\<lparr>tc_broker := b\<rparr>"
  let ?B = "keep_in keep is (tc_broker c)" and ?c1 = "deliver_batch E batch ?c"
  have run: "\<exists>acts. (\<forall>a\<in>set acts. is_delivery a) \<and> run_cluster E acts (cluster_of ids c) = cluster_of ids ?c1" for ids
  proof -
    obtain lost where lost: "\<forall>a\<in>set lost. is_delivery a"
      "run_cluster E lost (cluster_of ids c) = (cluster_of ids c)\<lparr>cl_broker := ?B\<rparr>"
      using lose_queues [of E "cluster_of ids c" keep "is"] by (auto simp: cluster_of_def)
    have "run_cluster E (map (\<lambda>(to, _). Deliver to 0) batch) ((cluster_of ids ?c)\<lparr>cl_broker := ?B\<rparr>) = cluster_of ids ?c1"
      by (rule deliver_batch_run) (simp_all add: q queue_of_keep_in)
    then have "run_cluster E (lost @ map (\<lambda>(to, _). Deliver to 0) batch) (cluster_of ids c) = cluster_of ids ?c1"
      by (simp add: run_append lost(2)) (simp add: cluster_of_def)
    with lost(1) show ?thesis by (intro exI [of _ "lost @ map (\<lambda>(to, _). Deliver to 0) batch"]) auto
  qed
  show ?case
  proof (cases "batch = []")
    case True
    then have c': "c' = ?c" using 1(2) by (simp add: col)
    have "\<forall>i\<in>set is. queue_of b i = []" using q(2) by simp
    with True run show ?thesis by (simp add: delivered_def c')
  next
    case False
    with 1(2) have "loop E keep is ?c1 = Some c'" by (simp add: col)
    from 1(1) [OF this] have IH: "delivered E keep is ?c1 c'" .
    have "\<exists>acts. (\<forall>a\<in>set acts. is_delivery a) \<and> run_cluster E acts (cluster_of ids c) = cluster_of ids c'" for ids
    proof -
      obtain xs ys where "\<forall>a\<in>set xs. is_delivery a" "run_cluster E xs (cluster_of ids c) = cluster_of ids ?c1"
        "\<forall>a\<in>set ys. is_delivery a" "run_cluster E ys (cluster_of ids ?c1) = cluster_of ids c'"
        using run [of ids] IH unfolding delivered_def by blast
      then show ?thesis by (intro exI [of _ "xs @ ys"]) (auto simp: run_append)
    qed
    moreover obtain new where "tc_log c' = tc_log ?c1 @ new" "\<forall>(f, to, m)\<in>set new. to \<in> set is \<and> keep to f"
      using IH unfolding delivered_def by blast
    then have "\<exists>new. tc_log c' = tc_log c @ new \<and> (\<forall>(f, to, m)\<in>set new. to \<in> set is \<and> keep to f)"
      using q(4) by (intro exI [of _ "map (\<lambda>(to, f, m). (f, to, m)) batch @ new"])
        (auto simp: deliver_batch_frame)
    ultimately show ?thesis using IH by (simp add: delivered_def deliver_batch_frame)
  qed
qed

section \<open>Connecting the nodes\<close>

definition reconnected ::
  "machine \<Rightarrow> node_id list \<Rightarrow> log_index \<Rightarrow> node_id \<Rightarrow> unit memory_node \<Rightarrow> unit memory_node" where
  "reconnected SM node_ids th i n =
     (let expected = filter (\<lambda>j. j \<noteq> i) node_ids in
      if peers_match expected (node_peers n) then n
      else build_node (timeless_env SM) i (rn_storage n) (rn_machine n) () expected (rn_observed n) th frozen_clock_now)"

lemma reinsert:
  assumes "distinct (map fst m)"
  shows "map_of (index_insert i n (swap_remove i m)) = (map_of m)(i \<mapsto> n)"
    and "distinct (map fst (index_insert i n (swap_remove i m)))"
  using swap_remove_map [OF assms, of i] by simp_all

lemma fold_nodes:
  fixes c :: "('s, 'sm, 'ts, 'p, 'z) test_cluster_scheme"
  assumes step: "\<And>i c. Q c \<Longrightarrow> distinct (map fst (tc_nodes c)) \<Longrightarrow>
      Q (g i c) \<and> distinct (map fst (tc_nodes (g i c))) \<and>
      map_of (tc_nodes (g i c)) = (map_of (tc_nodes c))(i := map_option (r i) (map_of (tc_nodes c) i))"
    and "Q c" "distinct (map fst (tc_nodes c))" "distinct is"
  shows "Q (fold g is c) \<and> distinct (map fst (tc_nodes (fold g is c))) \<and>
    map_of (tc_nodes (fold g is c)) =
      (\<lambda>i. if i \<in> set is then map_option (r i) (map_of (tc_nodes c) i) else map_of (tc_nodes c) i)"
  using assms(2-)
proof (induction "is" arbitrary: c)
  case (Cons i "is")
  note one = step [OF Cons.prems(1,2), of i]
  from Cons.IH [of "g i c"] one Cons.prems(3) show ?case by (auto simp: fun_eq_iff)
qed simp

lemma connect_nodes:
  fixes c :: timeless
  assumes "distinct (map fst (tc_nodes c))" and "distinct is"
  shows "map_of (tc_nodes (fold (connect_node SM node_ids) is c)) =
      (\<lambda>i. if i \<in> set is then map_option (reconnected SM node_ids (tc_threshold c) i) (map_of (tc_nodes c) i)
           else map_of (tc_nodes c) i) \<and>
    tc_broker (fold (connect_node SM node_ids) is c) = tc_broker c"
proof -
  let ?Q = "\<lambda>c'. tc_threshold c' = tc_threshold c \<and> tc_broker c' = tc_broker c"
  have "?Q (connect_node SM node_ids i c') \<and> distinct (map fst (tc_nodes (connect_node SM node_ids i c'))) \<and>
      map_of (tc_nodes (connect_node SM node_ids i c')) =
        (map_of (tc_nodes c'))(i := map_option (reconnected SM node_ids (tc_threshold c) i) (map_of (tc_nodes c') i))"
    if "?Q c'" "distinct (map fst (tc_nodes c'))" for i and c' :: timeless
    using that by (cases "map_of (tc_nodes c') i")
      (auto simp: connect_node_def reconnected_def reinsert Let_def fun_eq_iff simp del: map_of_eq_Some_iff map_of_index_insert)
  from fold_nodes [where Q = ?Q and g = "connect_node SM node_ids", OF this _ assms] show ?thesis by simp
qed

lemma add_node_fields:
  "tc_nodes (add_node SM i c) =
     index_insert i (build_node (timeless_env SM) i mem_new kv_new () [] [] (tc_threshold c) frozen_clock_now) (tc_nodes c)"
  "tc_broker (add_node SM i c) = tc_broker c" "tc_threshold (add_node SM i c) = tc_threshold c"
  by (simp_all add: add_node_def add_node_with_storage_def)

lemma index_insert_fresh: "k \<notin> set (map fst m) \<Longrightarrow> index_insert k v m = m @ [(k, v)]"
  by (simp add: index_insert_def)

lemma added_nodes:
  "distinct is \<Longrightarrow> tc_nodes (fold (add_node SM) is timeless_new) =
     map (\<lambda>i. (i, build_node (timeless_env SM) i mem_new kv_new () [] [] 10 frozen_clock_now)) is \<and>
   tc_broker (fold (add_node SM) is timeless_new) = broker_new \<and> tc_threshold (fold (add_node SM) is timeless_new) = 10"
proof (induction "is" rule: rev_induct)
  case (snoc i "is")
  then have IH: "tc_nodes (fold (add_node SM) is timeless_new) =
     map (\<lambda>i. (i, build_node (timeless_env SM) i mem_new kv_new () [] [] 10 frozen_clock_now)) is"
    "tc_broker (fold (add_node SM) is timeless_new) = broker_new" "tc_threshold (fold (add_node SM) is timeless_new) = 10"
    by simp_all
  with snoc.prems show ?case
    by (simp add: add_node_fields index_insert_fresh image_iff)
qed (simp add: timeless_new_def)

lemma alone:
  "node_peers (build_node (in_memory_env SM TO) i st sm ts [] obs th clk) = Some [i]"
  by (simp add: node_peers_def) (simp add: in_memory_node_push_def push_ok_def extend_ok_def vec_push_def has_room_def)

lemma alone_differs: "\<not> peers_match (filter (\<lambda>j. j \<noteq> i) is) (Some [i])"
proof
  assume "peers_match (filter (\<lambda>j. j \<noteq> i) is) (Some [i])"
  then have "length (filter (\<lambda>j. j \<noteq> i) is) = 1" "\<forall>p\<in>set (filter (\<lambda>j. j \<noteq> i) is). p = i"
    by (auto simp: peers_match_def list_all_iff)
  then show False by (cases "filter (\<lambda>j. j \<noteq> i) is") (auto dest: filter_eq_ConsD)
qed

lemma blank_machine: "rn_machine (build_node (in_memory_env SM TO) i mem_new sm ts ps obs th clk) = sm"
  by (simp add: build_node_def with_transport_def with_replication_def with_election_def with_snapshot_threshold_def
      builder_new_def new_from_builder_applied(3) mem_ops_defs mem_new_def)

text \<open>The cluster \<open>with_nodes\<close> builds is the initial cluster of the runs.\<close>

lemma connected_init:
  fixes SM :: machine
  assumes ids: "distinct ids"
  shows "cluster_of ids (connect_peers SM (fold (add_node SM) ids timeless_new)) =
     cluster_init (timeless_env SM) ids (\<lambda>_. mem_new) kv_new (\<lambda>_. ()) 10"
proof -
  let ?c = "fold (add_node SM) ids timeless_new"
  let ?node = "\<lambda>i. build_node (timeless_env SM) i mem_new kv_new () [] [] 10 frozen_clock_now"
  have nodes: "tc_nodes ?c = map (\<lambda>i. (i, ?node i)) ids" "tc_broker ?c = broker_new" "tc_threshold ?c = 10"
    using added_nodes [OF ids, of SM] by simp_all
  have keys: "map fst (tc_nodes ?c) = ids" by (simp only: nodes) (simp add: comp_def)
  have "map_of (map (\<lambda>i. (i, f i)) is) i = (if i \<in> set is then Some (f i) else None)" for f :: "node_id \<Rightarrow> unit memory_node" and "is" i
    by (induction "is") auto
  then have old: "map_of (tc_nodes ?c) i = (if i \<in> set ids then Some (?node i) else None)" for i
    by (simp only: nodes)
  have new: "reconnected SM ids 10 i (?node i) =
      build_node (timeless_env SM) i mem_new kv_new () (filter (\<lambda>j. j \<noteq> i) ids) [] 10 0" for i
    by (simp add: reconnected_def alone alone_differs blank_machine frozen_clock_now_def instant_from_millis_def)
  note connected = connect_nodes [of ?c ids SM ids, unfolded keys, OF ids ids]
  have "map_of (tc_nodes (connect_peers SM ?c)) i = (if i \<in> set ids
      then Some (build_node (timeless_env SM) i mem_new kv_new () (filter (\<lambda>j. j \<noteq> i) ids) [] 10 0) else None)" for i
    using connected by (simp add: connect_peers_def keys nodes(3) old new)
  moreover have "tc_broker (connect_peers SM ?c) = broker_new"
    using connected by (simp add: connect_peers_def keys nodes(2))
  ultimately show ?thesis
    by (simp add: cluster_of_def cluster_init_def fun_eq_iff)
qed

lemma with_nodes_init:
  "cluster_of [1..<Suc n] (with_nodes SM n) =
     cluster_init (timeless_env SM) [1..<Suc n] (\<lambda>_. mem_new) kv_new (\<lambda>_. ()) 10"
  unfolding with_nodes_def by (rule connected_init) simp

section \<open>Programs that drive a cluster\<close>

text \<open>
  The commands from which most tests are made, once the nodes are connected: a test lets messages
  through, makes a node handle a timer or a client command, reads, and sets partitions.  Some tests
  do more, and are no programs of these commands: they change the membership, hand a node a message
  of their own making, choose another snapshot threshold, or add a node with a used storage.
\<close>

datatype timeless_command =
    DeliverAll
  | DeliverWithin "node_id list"
  | DeliverOne node_id node_id
  | FireTimer node_id timer_kind
  | ClientSubmits node_id string
  | ClientReads node_id string
  | PartitionInto "node_id list" "node_id list"
  | PartitionOff node_id
  | Heal
  | ClearLog

definition update_node ::
  "node_id \<Rightarrow> (('s, 'sm, 'ts, 'p) raft_node \<Rightarrow> ('s, 'sm, 'ts, 'p) raft_node)
   \<Rightarrow> ('s, 'sm, 'ts, 'p, 'z) test_cluster_scheme \<Rightarrow> ('s, 'sm, 'ts, 'p, 'z) test_cluster_scheme option" where
  \<comment> \<open>\<open>get_node_mut(id)\<close>, which panics when there is no such node.\<close>
  "update_node i f c = map_option (\<lambda>n. c\<lparr>tc_nodes := index_insert i (f n) (tc_nodes c)\<rparr>) (get_node i c)"

definition event_at ::
  "('s, 'sm, 'ts, 'p) env \<Rightarrow> node_id \<Rightarrow> 'p event
   \<Rightarrow> ('s, 'sm, 'ts, 'p, 'z) test_cluster_scheme \<Rightarrow> ('s, 'sm, 'ts, 'p, 'z) test_cluster_scheme option" where
  \<comment> \<open>\<open>get_node_mut(id).on_event(event)\<close>\<close>
  "event_at E i ev c = (if get_node i c = None then None else Some (feed_node E i ev c))"

fun timeless_command_step :: "machine \<Rightarrow> timeless_command \<Rightarrow> timeless \<Rightarrow> timeless option" where
  "timeless_command_step SM DeliverAll c = deliver_messages SM c"
| "timeless_command_step SM (DeliverWithin ids) c = deliver_messages_partition SM ids c"
| "timeless_command_step SM (DeliverOne from to) c = Some (deliver_message_from_to SM from to c)"
| "timeless_command_step SM (FireTimer i k) c = event_at (timeless_env SM) i (TimerFired k) c"
| "timeless_command_step SM (ClientSubmits i p) c = event_at (timeless_env SM) i (ClientCommand p) c"
| "timeless_command_step SM (ClientReads i key) c = update_node i (\<lambda>n. fst (read_linearizable (timeless_env SM) key n)) c"
| "timeless_command_step SM (PartitionInto g1 g2) c = Some (set_partition g1 g2 c)"
| "timeless_command_step SM (PartitionOff i) c = Some (partition_node i c)"
| "timeless_command_step SM Heal c = Some (heal_partition c)"
| "timeless_command_step SM ClearLog c = Some (clear_message_log c)"

fun timeless_program :: "machine \<Rightarrow> timeless_command list \<Rightarrow> timeless \<Rightarrow> timeless option" where
  "timeless_program SM [] c = Some c"
| "timeless_program SM (cmd # cmds) c =
     (case timeless_command_step SM cmd c of Some c' \<Rightarrow> timeless_program SM cmds c' | None \<Rightarrow> None)"

definition simulated :: "('s, 'sm, 'ts, 'p) env \<Rightarrow> node_id list
   \<Rightarrow> ('s, 'sm, 'ts, 'p, 'z) test_cluster_scheme \<Rightarrow> ('s, 'sm, 'ts, 'p, 'z) test_cluster_scheme \<Rightarrow> bool" where
  "simulated E ids c c' \<longleftrightarrow>
     (\<exists>acts. (\<forall>a\<in>set acts. keeps_members a) \<and> cluster_of ids c' = run_cluster E acts (cluster_of ids c))"

lemma simulated_none: "cluster_of ids c' = cluster_of ids c \<Longrightarrow> simulated E ids c c'"
  unfolding simulated_def by (intro exI [of _ "[]"]) (simp add: run_cluster_def)

lemma simulated_one:
  "keeps_members a \<Longrightarrow> cluster_of ids c' = act E a (cluster_of ids c) \<Longrightarrow> simulated E ids c c'"
  unfolding simulated_def by (intro exI [of _ "[a]"]) (simp add: run_cluster_def)

lemma simulated_trans: "simulated E ids c1 c2 \<Longrightarrow> simulated E ids c2 c3 \<Longrightarrow> simulated E ids c1 c3"
  unfolding simulated_def by (metis Un_iff run_append set_append)

lemma simulated_delivery: "delivered E keep is c c' \<Longrightarrow> simulated E ids c c'"
  unfolding delivered_def simulated_def using delivery_keeps_members by metis

lemma simulated_event:
  "event_at E i ev c = Some c' \<Longrightarrow> act E a (cluster_of ids c) = feed E i ev (cluster_of ids c) \<Longrightarrow> keeps_members a
   \<Longrightarrow> simulated E ids c c'"
  by (rule simulated_one [of a]) (auto simp: event_at_def feed_cluster_of split: if_splits)

lemma timeless_step_simulated:
  assumes "timeless_command_step SM cmd c = Some c'"
  shows "simulated (timeless_env SM) ids c c'"
proof (cases cmd)
  case DeliverAll
  with assms show ?thesis
    by (auto simp: deliver_messages_def dest!: deliver_loop_delivered intro: simulated_delivery)
next
  case (DeliverWithin g)
  with assms show ?thesis
    by (auto simp: deliver_messages_partition_def dest!: deliver_loop_delivered intro: simulated_delivery)
next
  case (DeliverOne f t)
  then have c': "c' = deliver_message_from_to SM f t c" using assms by simp
  show ?thesis
  proof (cases "dequeue_from t f (tc_broker c)")
    case (Pair b x)
    show ?thesis
    proof (cases x)
      case None
      with Pair have "b = tc_broker c"
        by (auto simp: dequeue_from_def dest: remove_at_None split: option.splits)
      with Pair None show ?thesis by (intro simulated_none) (simp add: c' deliver_message_from_to_def)
    next
      case (Some y)
      obtain s m where y: "y = (s, m)" by fastforce
      obtain pos where pos: "remove_at t pos (tc_broker c) = (b, Some (s, m))"
        using dequeue_from_Some [of t f "tc_broker c" b y] Pair Some y by auto
      have "cluster_of ids c' = act (timeless_env SM) (Deliver t pos) (cluster_of ids c)"
        using Pair Some y pos by (simp add: c' deliver_message_from_to_def feed_cluster_of) (simp add: cluster_of_def)
      then show ?thesis by (rule simulated_one [rotated]) simp
    qed
  qed
next
  case (FireTimer i k)
  with assms show ?thesis by (auto intro: simulated_event [where a = "Fire i k"])
next
  case (ClientSubmits i p)
  with assms show ?thesis by (auto intro: simulated_event [where a = "Submit i p"])
next
  case (ClientReads i key)
  with assms show ?thesis
    by (intro simulated_one [of "ReadKey i key"]) (auto simp: update_node_def get_node_def cluster_of_def)
qed (use assms in \<open>auto intro!: simulated_none simp: cluster_of_def set_partition_def partition_node_def
      heal_partition_def clear_message_log_def\<close>)

lemma timeless_program_simulated:
  "timeless_program SM cmds c = Some c' \<Longrightarrow> simulated (timeless_env SM) ids c c'"
proof (induction cmds arbitrary: c)
  case (Cons cmd cmds)
  then show ?case by (auto intro: simulated_trans timeless_step_simulated split: option.splits)
qed (simp add: simulated_none)

end
