(* ===== verification/Timefull_Cluster.thy ===== *)
theory Timefull_Cluster
  imports Test_Cluster
begin

text \<open>
  \<open>validation/src/timefull_test_cluster.rs\<close>: the test cluster with a clock.  The clock is one cell all
  nodes share; a node's timer and its lease hold the reading, and \<open>advance_time\<close> moves all of them.
  Timers fire when they have expired.  A program that drives such a cluster is a run of \<open>Cluster\<close> up
  to the timers.
\<close>

section \<open>The cluster\<close>

record ('s, 'sm, 'ts, 'p) timefull_cluster = "('s, 'sm, 'ts, 'p) test_cluster" +
  tf_clock :: instant

type_synonym timefull = "(string mem_storage, in_memory_state_machine, mock_timer, string) timefull_cluster"

abbreviation timefull_env :: "machine \<Rightarrow> (string mem_storage, in_memory_state_machine, mock_timer, string) env" where
  "timefull_env SM \<equiv> in_memory_env SM mock_timer_ops"

definition timefull_new :: timefull where
  "timefull_new = \<lparr>tc_nodes = [], tc_broker = broker_new, tc_log = [], tc_threshold = 10, tf_clock = 0\<rparr>"

definition timefull_with_snapshot_threshold :: "log_index \<Rightarrow> timefull \<Rightarrow> timefull" where
  "timefull_with_snapshot_threshold th c = c\<lparr>tc_threshold := th\<rparr>"

definition add_node_with_timeouts :: "machine \<Rightarrow> node_id \<Rightarrow> nat \<Rightarrow> nat \<Rightarrow> timefull \<Rightarrow> timefull" where
  "add_node_with_timeouts SM i timeout_min timeout_max c =
     (let timer = mock_timer_new timeout_min timeout_max 50 (tf_clock c) i;
          node = build_node (timefull_env SM) i mem_new kv_new timer [] [] (tc_threshold c) (tf_clock c)
      in c\<lparr>tc_nodes := index_insert i node (tc_nodes c)\<rparr>)"

definition timefull_add_node :: "machine \<Rightarrow> node_id \<Rightarrow> timefull \<Rightarrow> timefull" where
  "timefull_add_node SM i c = add_node_with_timeouts SM i 150 300 c"

definition timefull_connect_node :: "machine \<Rightarrow> node_id list \<Rightarrow> node_id \<Rightarrow> timefull \<Rightarrow> timefull" where
  "timefull_connect_node SM all_ids i c =
     (case map_of (tc_nodes c) i of
        None \<Rightarrow> c
      | Some old_node \<Rightarrow>
          c\<lparr>tc_nodes := index_insert i
              (build_node (timefull_env SM) i (rn_storage old_node) (rn_machine old_node)
                 (timer_service (rn_election old_node)) (filter (\<lambda>j. j \<noteq> i) all_ids) (rn_observed old_node)
                 (tc_threshold c) (tf_clock c))
              (swap_remove i (tc_nodes c))\<rparr>)"

definition timefull_connect_peers :: "machine \<Rightarrow> timefull \<Rightarrow> timefull" where
  "timefull_connect_peers SM c =
     (let all_ids = map fst (tc_nodes c) in fold (timefull_connect_node SM all_ids) all_ids c)"

section \<open>Time\<close>

definition read_clock :: "instant \<Rightarrow> mock_timer memory_node \<Rightarrow> mock_timer memory_node" where
  \<comment> \<open>What the clones of the shared clock, in the lease and in the timer, read from now on.\<close>
  "read_clock now n =
     n\<lparr>rn_lease := (rn_lease n)\<lparr>lease_clock := now\<rparr>,
       rn_election := (rn_election n)\<lparr>timer_service := (timer_service (rn_election n))\<lparr>mt_clock := now\<rparr>\<rparr>\<rparr>"

definition advance_clock :: "nat \<Rightarrow> timefull \<Rightarrow> timefull" where
  "advance_clock millis c =
     (let now = mock_clock_advance millis (tf_clock c)
      in c\<lparr>tc_nodes := map (\<lambda>(i, n). (i, read_clock now n)) (tc_nodes c), tf_clock := now\<rparr>)"

definition fire_expired :: "machine \<Rightarrow> node_id \<Rightarrow> timefull \<Rightarrow> timefull" where
  \<comment> \<open>The body of the loop of \<open>process_timer_events\<close>.\<close>
  "fire_expired SM i c =
     (case get_node i c of
        None \<Rightarrow> c
      | Some n \<Rightarrow>
          (let fired_timers = mock_check_expired (timer_service (rn_election n))
           in fold (\<lambda>timer_kind. feed_node (timefull_env SM) i (TimerFired timer_kind)) (expired_iter fired_timers) c))"

definition process_timer_events :: "machine \<Rightarrow> timefull \<Rightarrow> timefull" where
  "process_timer_events SM c = (let node_ids = map fst (tc_nodes c) in fold (fire_expired SM) node_ids c)"

definition timefull_deliver_messages :: "machine \<Rightarrow> timefull \<Rightarrow> timefull option" where
  "timefull_deliver_messages SM c = deliver_loop (timefull_env SM) (\<lambda>to from. True) (map fst (tc_nodes c)) c"

definition advance_time :: "machine \<Rightarrow> nat \<Rightarrow> timefull \<Rightarrow> timefull" where
  "advance_time SM millis c = process_timer_events SM (advance_clock millis c)"

section \<open>The clock of the lease\<close>

text \<open>No handler moves the clock a lease reads.\<close>

abbreviation lease_reading :: "('s, 'sm, 'ts, 'p) raft_node \<Rightarrow> instant" where
  "lease_reading n \<equiv> lease_clock (rn_lease n)"

lemma reading_simps [simp]:
  "lease_clock (lease_grant l) = lease_clock l" "lease_clock (lease_revoke l) = lease_clock l"
  by (simp_all add: lease_grant_def lease_revoke_def)

lemma reading_sends [simp]:
  "lease_reading (broadcast E m n) = lease_reading n"
  "lease_reading (send_append_entries_to_followers E n) = lease_reading n"
  "lease_reading (fst (validate_term_and_step_down E t n)) = lease_reading n"
  by (simp_all add: broadcast_eq send_append_entries_eq validate_term_and_step_down_def)

lemma reading_elections [simp]:
  "lease_reading (become_leader E n) = lease_reading n"
  "lease_reading (start_pre_vote E n) = lease_reading n"
  "lease_reading (start_election E n) = lease_reading n"
  by (simp_all add: become_leader_def start_pre_vote_def start_election_def Let_def split: prod.splits)

lemma reading_timers [simp]: "lease_reading (handle_timer E k n) = lease_reading n"
  by (cases k) (simp_all add: handle_heartbeat_timer_def handle_election_timer_def send_heartbeats_def Let_def)

lemma reading_votes [simp]:
  "lease_reading (handle_pre_vote_request E from trm cand lli llt n) = lease_reading n"
  "lease_reading (handle_pre_vote_response E from trm g n) = lease_reading n"
  "lease_reading (handle_vote_request E from trm cand lli llt n) = lease_reading n"
  "lease_reading (handle_vote_response E from trm g n) = lease_reading n"
  using reading_sends(3) [of E trm n]
  by (auto simp: handle_pre_vote_request_def handle_pre_vote_response_def handle_vote_request_def
      handle_vote_response_def Let_def simp del: reading_sends(3) split: prod.splits raft_msg.splits)

lemma reading_replication [simp]:
  "lease_reading (create_snapshot_internal E n) = lease_reading n"
  "lease_reading (fst (submit_entry E kind n)) = lease_reading n"
  by (auto simp: create_snapshot_internal_def submit_entry_def Let_def split: prod.splits)

lemma reading_append [simp]:
  "lease_reading (handle_append_entries E from trm pli plt es lc n) = lease_reading n"
  "lease_reading (handle_append_entries_response E from trm ok mi n) = lease_reading n"
  using reading_sends(3) [of E trm n]
  by (auto simp: handle_append_entries_def handle_append_entries_response_def Let_def
      simp del: reading_sends(3) split: prod.splits option.splits)

lemma reading_install [simp]:
  "lease_reading (handle_install_snapshot E from trm lid lii lit ofs d dn n) = lease_reading n"
  "lease_reading (handle_install_snapshot_response E from trm ok n) = lease_reading n"
  using reading_sends(3) [of E trm n]
  by (auto simp: handle_install_snapshot_def handle_install_snapshot_response_def Let_def
      simp del: reading_sends(3) split: prod.splits option.splits)

lemma reading_on_event [simp]: "lease_reading (on_event E ev n) = lease_reading n"
proof (cases ev)
  case (Message f m)
  then show ?thesis by (cases m) simp_all
qed (simp_all add: submit_client_command_def submit_config_change_def)

section \<open>Runs up to the timers\<close>

definition forget_cluster :: "('s, 'sm, 'ts, 'p) cluster \<Rightarrow> ('s, 'sm, unit, 'p) cluster" where
  "forget_cluster cl = \<lparr>cl_ids = cl_ids cl, cl_nodes = (\<lambda>i. map_option forget (cl_nodes cl i)), cl_broker = cl_broker cl\<rparr>"

lemma forget_feed: "forget_cluster (feed E i ev cl) = feed (untimed E) i ev (forget_cluster cl)"
  by (auto simp: feed_def forget_cluster_def forget_on_event forget_update Let_def fun_eq_iff split: option.splits)

lemma forget_cluster_simps [simp]:
  "cl_ids (forget_cluster cl) = cl_ids cl" "cl_broker (forget_cluster cl) = cl_broker cl"
  "cl_nodes (forget_cluster cl) i = map_option forget (cl_nodes cl i)"
  "forget_cluster (cl\<lparr>cl_broker := b\<rparr>) = (forget_cluster cl)\<lparr>cl_broker := b\<rparr>"
  "forget_cluster (cl\<lparr>cl_nodes := (cl_nodes cl)(i \<mapsto> n)\<rparr>) =
     (forget_cluster cl)\<lparr>cl_nodes := (cl_nodes (forget_cluster cl))(i \<mapsto> forget n)\<rparr>"
  by (auto simp: forget_cluster_def fun_eq_iff)

lemma forget_rebuild: "rebuild (untimed E) ids (forget n) = forget (rebuild E ids n)"
  by (simp add: rebuild_def forget_em_def flip: forget_build_node [where ts = "timer_service (rn_election n)"])

lemma forget_act: "forget_cluster (act E a cl) = act (untimed E) a (forget_cluster cl)"
  by (cases a) (auto simp: forget_feed forget_rebuild forget_update read_linearizable_eq split: prod.splits option.splits)

lemma forget_run: "forget_cluster (run_cluster E acts cl) = run_cluster (untimed E) acts (forget_cluster cl)"
  by (induction acts arbitrary: cl) (simp_all add: run_cluster_def forget_act)

definition timefull_view ::
  "node_id list \<Rightarrow> timefull \<Rightarrow> (string mem_storage, in_memory_state_machine, unit, string) cluster" where
  "timefull_view ids c = forget_cluster (cluster_of ids c)"

definition same_time :: "timefull \<Rightarrow> bool" where
  "same_time c \<longleftrightarrow> distinct (map fst (tc_nodes c)) \<and> (\<forall>(i, n)\<in>set (tc_nodes c). lease_reading n = tf_clock c)"

definition timefull_simulated :: "machine \<Rightarrow> node_id list \<Rightarrow> timefull \<Rightarrow> timefull \<Rightarrow> bool" where
  "timefull_simulated SM ids c c' \<longleftrightarrow> same_time c' \<and>
     (\<exists>acts. (\<forall>a\<in>set acts. keeps_members a) \<and>
        timefull_view ids c' = run_cluster (untimed (timefull_env SM)) acts (timefull_view ids c))"

lemma timefull_simulatedI:
  "same_time c' \<Longrightarrow> \<forall>a\<in>set acts. keeps_members a \<Longrightarrow>
   timefull_view ids c' = run_cluster (untimed (timefull_env SM)) acts (timefull_view ids c) \<Longrightarrow>
   timefull_simulated SM ids c c'"
  by (auto simp: timefull_simulated_def)

lemma timefull_simulated_trans:
  "timefull_simulated SM ids c1 c2 \<Longrightarrow> timefull_simulated SM ids c2 c3 \<Longrightarrow> timefull_simulated SM ids c1 c3"
  unfolding timefull_simulated_def by (metis Un_iff run_append set_append)

lemma timefull_simulated_untimed:
  "same_time c' \<Longrightarrow> simulated (timefull_env SM) ids c c' \<Longrightarrow> timefull_simulated SM ids c c'"
  unfolding simulated_def timefull_view_def by (auto simp: timefull_view_def forget_run intro: timefull_simulatedI)

text \<open>The nodes keep the common time whatever they handle.\<close>

lemma same_time_node: "same_time c \<Longrightarrow> map_of (tc_nodes c) i = Some n \<Longrightarrow> lease_reading n = tf_clock c"
  by (auto simp: same_time_def dest: map_of_SomeD)

lemma set_index_insert: "set (index_insert k v m) \<subseteq> insert (k, v) (set m)"
  by (auto simp: index_insert_def split: if_splits)

lemma same_time_insert:
  assumes "same_time c" and "lease_reading n = tf_clock c" and "i \<in> fst ` set (tc_nodes c)"
    and "tc_nodes c' = index_insert i n (tc_nodes c)" and "tf_clock c' = tf_clock c"
  shows "same_time c'"
proof -
  have "lease_reading m = tf_clock c" if "(j, m) \<in> set (tc_nodes c')" for j m
    using that assms(1,2) set_index_insert [of i n "tc_nodes c"] by (auto simp: assms(4) same_time_def)
  then show ?thesis using assms(1,3,5) by (auto simp: same_time_def assms(4))
qed

lemma known_node: "map_of m i = Some n \<Longrightarrow> i \<in> fst ` set m"
  by (force dest: map_of_SomeD)

lemma same_time_feed: "same_time c \<Longrightarrow> same_time (feed_node (timefull_env SM) i ev c)"
proof (cases "map_of (tc_nodes c) i")
  case (Some n)
  assume "same_time c"
  then show ?thesis
    by (rule same_time_insert [where n = "(on_event (timefull_env SM) ev n)\<lparr>rn_outbox := []\<rparr>" and i = i])
      (use Some same_time_node [OF \<open>same_time c\<close> Some] in \<open>simp_all add: feed_node_def Let_def known_node\<close>)
qed (simp add: feed_node_def)

lemma same_time_batch: "same_time c \<Longrightarrow> same_time (deliver_batch (timefull_env SM) batch c)"
proof (induction batch arbitrary: c)
  case (Cons x batch)
  obtain to f m where "x = (to, f, m)" by (cases x)
  then show ?case
    using Cons.IH [OF same_time_feed, of "c\<lparr>tc_log := tc_log c @ [(f, to, m)]\<rparr>" SM to "Message f m"] Cons.prems
    by (simp add: same_time_def)
qed simp

lemma same_time_loop:
  assumes "deliver_loop (timefull_env SM) keep is c = Some c'" and "same_time c"
  shows "same_time c'"
proof -
  have "E = timefull_env SM \<longrightarrow> same_time c \<longrightarrow> same_time c'" if "deliver_loop E keep is c = Some c'" for E and c c' :: timefull
  proof (rule deliver_loop.raw_induct [OF _ that, of "\<lambda>E keep is c c'. E = timefull_env SM \<longrightarrow> same_time c \<longrightarrow> same_time c'"], goal_cases)
    case (1 loop E keep "is" c c')
    obtain b batch where col: "collect keep is (tc_broker c) = (b, batch)" by fastforce
    have "same_time (c\<lparr>tc_broker := b\<rparr>)" if "same_time c" using that by (simp add: same_time_def)
    with 1 same_time_batch show ?case by (fastforce simp: col split: if_splits)
  qed
  with assms show ?thesis by blast
qed

section \<open>The moves are runs\<close>

lemma timefull_simulated_refl: "same_time c \<Longrightarrow> timefull_simulated SM ids c c"
  by (rule timefull_simulatedI [of _ "[]"]) (simp_all add: run_cluster_def)

lemma timefull_delivery:
  assumes "deliver_loop (timefull_env SM) keep is c = Some c'" and "same_time c"
  shows "timefull_simulated SM ids c c'"
  by (rule timefull_simulated_untimed [OF same_time_loop [OF assms] simulated_delivery [OF deliver_loop_delivered [OF assms(1)]]])

lemma timefull_feed:
  assumes "same_time c" and "act (timefull_env SM) a (cluster_of ids c) = feed (timefull_env SM) i ev (cluster_of ids c)"
    and "keeps_members a"
  shows "timefull_simulated SM ids c (feed_node (timefull_env SM) i ev c)"
  by (rule timefull_simulated_untimed [OF same_time_feed [OF assms(1)] simulated_one [OF assms(3)]])
    (simp add: feed_cluster_of assms(2))

lemma feed_node_clock [simp]: "tf_clock (feed_node E i ev c) = tf_clock c"
  by (simp add: feed_node_def Let_def split: option.split)

lemma timefull_fires:
  "same_time c \<Longrightarrow>
   timefull_simulated SM ids c (fold (\<lambda>k. feed_node (timefull_env SM) i (TimerFired k)) ks c) \<and>
   tf_clock (fold (\<lambda>k. feed_node (timefull_env SM) i (TimerFired k)) ks c) = tf_clock c"
proof (induction ks arbitrary: c)
  case (Cons k ks)
  have "timefull_simulated SM ids c (feed_node (timefull_env SM) i (TimerFired k) c)"
    by (rule timefull_feed [OF Cons.prems, of _ "Fire i k"]) simp_all
  with Cons.IH [OF same_time_feed [OF Cons.prems]] show ?case
    by (auto intro: timefull_simulated_trans)
qed (simp add: timefull_simulated_refl)

lemma timefull_timer_events:
  "same_time c \<Longrightarrow> timefull_simulated SM ids c (fold (fire_expired SM) js c) \<and>
   tf_clock (fold (fire_expired SM) js c) = tf_clock c"
proof (induction js arbitrary: c)
  case (Cons i js)
  have step: "timefull_simulated SM ids c (fire_expired SM i c) \<and> tf_clock (fire_expired SM i c) = tf_clock c"
    using timefull_fires [OF Cons.prems] timefull_simulated_refl [OF Cons.prems]
    by (auto simp: fire_expired_def Let_def split: option.split)
  then have "same_time (fire_expired SM i c)" by (simp add: timefull_simulated_def)
  from Cons.IH [OF this] step show ?case by (auto intro: timefull_simulated_trans)
qed (simp add: timefull_simulated_refl)

text \<open>Time that passes for the shared clock passes for every node.\<close>

lemma timefull_elapse:
  assumes time: "same_time c" and fits: "tf_clock c + millis < u64_limit" and ids: "set (map fst (tc_nodes c)) \<subseteq> set ids" "distinct ids"
  shows "timefull_simulated SM ids c (advance_clock millis c)" "tf_clock (advance_clock millis c) = tf_clock c + millis"
proof -
  have now: "mock_clock_advance millis (tf_clock c) = tf_clock c + millis"
    using fits by (simp add: mock_clock_advance_def u64_add_small)
  then show "tf_clock (advance_clock millis c) = tf_clock c + millis" by (simp add: advance_clock_def Let_def)
  have keys: "map fst (tc_nodes (advance_clock millis c)) = map fst (tc_nodes c)"
    by (simp add: advance_clock_def Let_def comp_def case_prod_unfold)
  have "same_time (advance_clock millis c)"
    using time keys by (auto simp: same_time_def) (auto simp: advance_clock_def read_clock_def Let_def)
  moreover have "timefull_view ids (advance_clock millis c) =
      run_cluster (untimed (timefull_env SM)) (map (\<lambda>i. Elapse i millis) ids) (timefull_view ids c)"
  proof -
    have map: "map_of (map (\<lambda>(i, n). (i, f n)) m) i = map_option f (map_of m i)" for f :: "mock_timer memory_node \<Rightarrow> mock_timer memory_node" and m i
      by (induction m) auto
    have "forget (read_clock (tf_clock c + millis) n) =
        (forget n)\<lparr>rn_lease := lease_advance millis (rn_lease (forget n))\<rparr>" if "map_of (tc_nodes c) i = Some n" for i n
      using same_time_node [OF time that] by (simp add: read_clock_def forget_update lease_advance_def)
    moreover have "map_of (tc_nodes c) i = None" if "i \<notin> set ids" for i
      using that ids(1) by (force simp: map_of_eq_None_iff)
    ultimately show ?thesis
      by (auto simp: run_elapse [OF ids(2)] timefull_view_def cluster_of_def forget_cluster_def advance_clock_def now
          map fun_eq_iff option.map_comp comp_def Let_def intro!: option.map_cong0 split: option.split)
  qed
  ultimately show "timefull_simulated SM ids c (advance_clock millis c)"
    by (intro timefull_simulatedI [where acts = "map (\<lambda>i. Elapse i millis) ids"]) auto
qed

text \<open>No move adds or removes a node.\<close>

lemma act_dom: "cl_nodes (act E a cl) i = None \<longleftrightarrow> cl_nodes cl i = None"
  by (cases a) (auto simp: feed_def Let_def split: option.splits prod.splits)

lemma run_dom: "cl_nodes (run_cluster E acts cl) i = None \<longleftrightarrow> cl_nodes cl i = None"
  by (induction acts arbitrary: cl) (simp_all add: run_cluster_def act_dom)

lemma timefull_keys: "timefull_simulated SM ids c c' \<Longrightarrow> set (map fst (tc_nodes c')) = set (map fst (tc_nodes c))"
proof -
  assume "timefull_simulated SM ids c c'"
  then obtain acts where "timefull_view ids c' = run_cluster (untimed (timefull_env SM)) acts (timefull_view ids c)"
    by (auto simp: timefull_simulated_def)
  then have "map_of (tc_nodes c') i = None \<longleftrightarrow> map_of (tc_nodes c) i = None" for i
    using run_dom [of "untimed (timefull_env SM)" acts "timefull_view ids c" i]
    by (metis (no_types) cluster.select_convs(2) cluster_of_def forget_cluster_simps(3) option.map_disc_iff timefull_view_def)
  then show ?thesis by (auto simp: map_of_eq_None_iff)
qed

section \<open>Programs that drive the cluster\<close>

datatype timefull_command =
    AdvanceTime nat
  | ProcessTimers
  | DeliverPending
  | TimerAt node_id timer_kind
  | SubmitAt node_id string
  | ReadAt node_id string

fun timefull_command_step :: "machine \<Rightarrow> timefull_command \<Rightarrow> timefull \<Rightarrow> timefull option" where
  "timefull_command_step SM (AdvanceTime millis) c = Some (advance_time SM millis c)"
| "timefull_command_step SM ProcessTimers c = Some (process_timer_events SM c)"
| "timefull_command_step SM DeliverPending c = timefull_deliver_messages SM c"
| "timefull_command_step SM (TimerAt i k) c = event_at (timefull_env SM) i (TimerFired k) c"
| "timefull_command_step SM (SubmitAt i p) c = event_at (timefull_env SM) i (ClientCommand p) c"
| "timefull_command_step SM (ReadAt i key) c = update_node i (\<lambda>n. fst (read_linearizable (timefull_env SM) key n)) c"

fun timefull_program :: "machine \<Rightarrow> timefull_command list \<Rightarrow> timefull \<Rightarrow> timefull option" where
  "timefull_program SM [] c = Some c"
| "timefull_program SM (cmd # cmds) c =
     (case timefull_command_step SM cmd c of Some c' \<Rightarrow> timefull_program SM cmds c' | None \<Rightarrow> None)"

fun time_taken :: "timefull_command list \<Rightarrow> nat" where
  "time_taken [] = 0"
| "time_taken (AdvanceTime millis # cmds) = millis + time_taken cmds"
| "time_taken (_ # cmds) = time_taken cmds"

definition timefull_start :: "machine \<Rightarrow> node_id list \<Rightarrow> timefull" where
  "timefull_start SM ids = timefull_connect_peers SM (fold (timefull_add_node SM) ids timefull_new)"

lemma deliver_batch_clock [simp]: "tf_clock (deliver_batch E batch c) = tf_clock c"
  by (induction E batch c rule: deliver_batch.induct) simp_all

lemma deliver_loop_clock: "deliver_loop E keep is c = Some c' \<Longrightarrow> tf_clock c' = tf_clock c"
  using deliver_loop_delivered [of E keep "is" c c'] by (cases c; cases c') (simp add: delivered_def)

lemma timefull_step_simulated:
  assumes step: "timefull_command_step SM cmd c = Some c'" and time: "same_time c"
    and fits: "tf_clock c + time_taken [cmd] < u64_limit" and ids: "set (map fst (tc_nodes c)) \<subseteq> set ids" "distinct ids"
  shows "timefull_simulated SM ids c c' \<and> tf_clock c' = tf_clock c + time_taken [cmd]"
proof (cases cmd)
  case (AdvanceTime millis)
  note moved = timefull_elapse [OF time _ ids]
  from AdvanceTime fits have fits': "tf_clock c + millis < u64_limit" by simp
  have "same_time (advance_clock millis c)" using moved(1) [OF fits'] by (simp add: timefull_simulated_def)
  note fired = timefull_timer_events [OF this, where ids = ids and SM = SM and js = "map fst (tc_nodes (advance_clock millis c))"]
  have "c' = fold (fire_expired SM) (map fst (tc_nodes (advance_clock millis c))) (advance_clock millis c)"
    using AdvanceTime step by (simp add: advance_time_def process_timer_events_def)
  with fired AdvanceTime moved(2) [OF fits'] timefull_simulated_trans [OF moved(1) [OF fits']] show ?thesis by simp
next
  case ProcessTimers
  with step timefull_timer_events [OF time] show ?thesis by (auto simp: process_timer_events_def)
next
  case DeliverPending
  with step timefull_delivery [OF _ time] deliver_loop_clock show ?thesis
    by (auto simp: timefull_deliver_messages_def)
next
  case (TimerAt i k)
  with step timefull_feed [OF time, of SM "Fire i k" ids i "TimerFired k", simplified] show ?thesis
    by (auto simp: event_at_def split: if_splits)
next
  case (SubmitAt i p)
  with step timefull_feed [OF time, of SM "Submit i p" ids i "ClientCommand p", simplified] show ?thesis
    by (auto simp: event_at_def split: if_splits)
next
  case (ReadAt i key)
  with step obtain n where n: "map_of (tc_nodes c) i = Some n"
    and c': "c' = c\<lparr>tc_nodes := index_insert i (fst (read_linearizable (timefull_env SM) key n)) (tc_nodes c)\<rparr>"
    by (auto simp: update_node_def get_node_def)
  have "same_time c'"
    by (rule same_time_insert [OF time _ known_node [OF n]])
      (use same_time_node [OF time n] in \<open>auto simp: c' read_linearizable_eq\<close>)
  moreover have "simulated (timefull_env SM) ids c c'"
    by (rule simulated_one [of "ReadKey i key"]) (simp_all add: c' n cluster_of_def)
  ultimately show ?thesis using ReadAt c' by (simp add: timefull_simulated_untimed)
qed

lemma timefull_program_simulated:
  assumes "timefull_program SM cmds c = Some c'" and "same_time c" and "tf_clock c + time_taken cmds < u64_limit"
    and "set (map fst (tc_nodes c)) \<subseteq> set ids" "distinct ids"
  shows "timefull_simulated SM ids c c'"
  using assms
proof (induction cmds arbitrary: c)
  case (Cons cmd cmds)
  then obtain c1 where step: "timefull_command_step SM cmd c = Some c1" "timefull_program SM cmds c1 = Some c'"
    by (auto split: option.splits)
  have taken: "time_taken (cmd # cmds) = time_taken [cmd] + time_taken cmds" by (cases cmd) simp_all
  from timefull_step_simulated [OF step(1) Cons.prems(2) _ Cons.prems(4,5)] Cons.prems(3)
  have one: "timefull_simulated SM ids c c1" "tf_clock c1 = tf_clock c + time_taken [cmd]"
    unfolding taken by auto
  have "timefull_simulated SM ids c1 c'"
    by (rule Cons.IH [OF step(2)]) (use one Cons.prems taken timefull_keys [OF one(1)] in \<open>auto simp: timefull_simulated_def\<close>)
  with one(1) show ?case by (rule timefull_simulated_trans)
qed (simp add: timefull_simulated_refl)

section \<open>The start\<close>

definition timefull_reconnected :: "machine \<Rightarrow> node_id list \<Rightarrow> log_index \<Rightarrow> instant \<Rightarrow> node_id \<Rightarrow> mock_timer memory_node \<Rightarrow> mock_timer memory_node" where
  "timefull_reconnected SM all_ids th now i n =
     build_node (timefull_env SM) i (rn_storage n) (rn_machine n) (timer_service (rn_election n))
       (filter (\<lambda>j. j \<noteq> i) all_ids) (rn_observed n) th now"

lemma timefull_connect_nodes:
  fixes c :: timefull
  assumes "distinct (map fst (tc_nodes c))" and "distinct is"
  shows "map_of (tc_nodes (fold (timefull_connect_node SM all_ids) is c)) =
      (\<lambda>i. if i \<in> set is then map_option (timefull_reconnected SM all_ids (tc_threshold c) (tf_clock c) i) (map_of (tc_nodes c) i)
           else map_of (tc_nodes c) i) \<and>
    tc_broker (fold (timefull_connect_node SM all_ids) is c) = tc_broker c \<and>
    tf_clock (fold (timefull_connect_node SM all_ids) is c) = tf_clock c \<and>
    distinct (map fst (tc_nodes (fold (timefull_connect_node SM all_ids) is c)))"
proof -
  let ?Q = "\<lambda>c'. tc_threshold c' = tc_threshold c \<and> tc_broker c' = tc_broker c \<and> tf_clock c' = tf_clock c"
  let ?r = "timefull_reconnected SM all_ids (tc_threshold c) (tf_clock c)"
  have "?Q (timefull_connect_node SM all_ids i c') \<and> distinct (map fst (tc_nodes (timefull_connect_node SM all_ids i c'))) \<and>
      map_of (tc_nodes (timefull_connect_node SM all_ids i c')) =
        (map_of (tc_nodes c'))(i := map_option (?r i) (map_of (tc_nodes c') i))"
    if "?Q c'" "distinct (map fst (tc_nodes c'))" for i and c' :: timefull
    using that by (cases "map_of (tc_nodes c') i")
      (auto simp: timefull_connect_node_def timefull_reconnected_def reinsert fun_eq_iff simp del: map_of_eq_Some_iff map_of_index_insert)
  from fold_nodes [where Q = ?Q and g = "timefull_connect_node SM all_ids", OF this _ assms] show ?thesis by simp
qed

lemma timefull_add_fields:
  "tc_nodes (timefull_add_node SM i c) = index_insert i
     (build_node (timefull_env SM) i mem_new kv_new (mock_timer_new 150 300 50 (tf_clock c) i) [] [] (tc_threshold c) (tf_clock c))
     (tc_nodes c)"
  "tc_broker (timefull_add_node SM i c) = tc_broker c" "tc_threshold (timefull_add_node SM i c) = tc_threshold c"
  "tf_clock (timefull_add_node SM i c) = tf_clock c"
  by (simp_all add: timefull_add_node_def add_node_with_timeouts_def Let_def)

lemma timefull_added:
  "distinct is \<Longrightarrow> tc_nodes (fold (timefull_add_node SM) is timefull_new) =
     map (\<lambda>i. (i, build_node (timefull_env SM) i mem_new kv_new (mock_timer_new 150 300 50 0 i) [] [] 10 0)) is \<and>
   tc_broker (fold (timefull_add_node SM) is timefull_new) = broker_new \<and>
   tc_threshold (fold (timefull_add_node SM) is timefull_new) = 10 \<and> tf_clock (fold (timefull_add_node SM) is timefull_new) = 0"
proof (induction "is" rule: rev_induct)
  case (snoc i "is")
  then show ?case by (simp add: timefull_add_fields index_insert_fresh image_iff)
qed (simp add: timefull_new_def)

lemma timefull_start_init:
  fixes SM :: machine
  assumes ids: "distinct ids"
  shows "timefull_view ids (timefull_start SM ids) = cluster_init (timeless_env SM) ids (\<lambda>_. mem_new) kv_new (\<lambda>_. ()) 10"
    and "same_time (timefull_start SM ids)" and "tf_clock (timefull_start SM ids) = 0"
    and "set (map fst (tc_nodes (timefull_start SM ids))) = set ids"
proof -
  let ?c = "fold (timefull_add_node SM) ids timefull_new"
  let ?node = "\<lambda>i. build_node (timefull_env SM) i mem_new kv_new (mock_timer_new 150 300 50 0 i) [] [] 10 0"
  note added = timefull_added [OF ids, of SM]
  have keys: "map fst (tc_nodes ?c) = ids" using added by (simp add: comp_def)
  have "map_of (map (\<lambda>i. (i, f i)) is) i = (if i \<in> set is then Some (f i) else None)" for f :: "node_id \<Rightarrow> mock_timer memory_node" and "is" i
    by (induction "is") auto
  with added have old: "map_of (tc_nodes ?c) i = (if i \<in> set ids then Some (?node i) else None)" for i by simp
  note connected = timefull_connect_nodes [of ?c ids SM ids, unfolded keys, OF ids ids]
  have start: "map_of (tc_nodes (timefull_start SM ids)) i =
      (if i \<in> set ids then Some (timefull_reconnected SM ids 10 0 i (?node i)) else None)" for i
    using connected added [THEN conjunct2] by (simp add: timefull_start_def timefull_connect_peers_def keys old)
  have frame: "tc_broker (timefull_start SM ids) = broker_new" "tf_clock (timefull_start SM ids) = 0"
    "distinct (map fst (tc_nodes (timefull_start SM ids)))"
    using connected added [THEN conjunct2] by (simp_all add: timefull_start_def timefull_connect_peers_def keys)
  then show "tf_clock (timefull_start SM ids) = 0" by simp
  have env: "untimed (timefull_env SM) = timeless_env SM" by (simp add: untimed_def in_memory_env_def)
  have "forget (timefull_reconnected SM ids 10 0 i (?node i)) =
      build_node (timeless_env SM) i mem_new kv_new () (filter (\<lambda>j. j \<noteq> i) ids) [] 10 0" for i
    by (simp add: timefull_reconnected_def blank_machine env flip: forget_build_node)
  then show "timefull_view ids (timefull_start SM ids) = cluster_init (timeless_env SM) ids (\<lambda>_. mem_new) kv_new (\<lambda>_. ()) 10"
    by (simp add: timefull_view_def cluster_of_def forget_cluster_def cluster_init_def start frame fun_eq_iff)
  have "lease_reading n = 0" if "(i, n) \<in> set (tc_nodes (timefull_start SM ids))" for i n
  proof -
    from that frame(3) have "map_of (tc_nodes (timefull_start SM ids)) i = Some n" by simp
    then show ?thesis
      by (auto simp: start timefull_reconnected_def build_node_def with_transport_def with_replication_def with_election_def
          with_snapshot_threshold_def builder_new_def lease_new_def simp del: map_of_eq_Some_iff split: if_splits)
  qed
  with frame show "same_time (timefull_start SM ids)" by (auto simp: same_time_def)
  have "dom (map_of (tc_nodes (timefull_start SM ids))) = set ids"
    by (auto simp: start dom_def simp del: map_of_eq_Some_iff split: if_splits)
  then show "set (map fst (tc_nodes (timefull_start SM ids))) = set ids" by (simp add: dom_map_of_conv_image_fst)
qed

lemma timefull_program_run:
  assumes "distinct ids" and "time_taken cmds < u64_limit" and "timefull_program SM cmds (timefull_start SM ids) = Some c"
  obtains acts where "\<forall>a\<in>set acts. keeps_members a"
    "timefull_view ids c = run_cluster (timeless_env SM) acts (cluster_init (timeless_env SM) ids (\<lambda>_. mem_new) kv_new (\<lambda>_. ()) 10)"
proof -
  note start = timefull_start_init [OF assms(1), of SM]
  have "timefull_simulated SM ids (timefull_start SM ids) c"
    by (rule timefull_program_simulated [OF assms(3) start(2)]) (use assms start in auto)
  moreover have "untimed (timefull_env SM) = timeless_env SM" by (simp add: untimed_def in_memory_env_def)
  ultimately show thesis using that by (auto simp: timefull_simulated_def start(1))
qed

end
