(* ===== verification/Test_Cluster_Properties.thy ===== *)
theory Test_Cluster_Properties
  imports Timefull_Cluster
begin

text \<open>
  The test clusters do nothing but what \<open>Cluster\<close> allows: what a program of the commands listed in
  \<open>Test_Cluster\<close> and \<open>Timefull_Cluster\<close> reaches is reached by a run, so the safety of runs is the safety of the clusters the tests look at.  And a
  delivery does what its caller expects of partitions and of pending messages.
\<close>

section \<open>The cluster without time\<close>

text \<open>\<open>serde_json\<close>, which the runs below never reach.\<close>

definition small_machine :: machine where
  "small_machine = in_memory_machine_ops (\<lambda>_. None) (\<lambda>_. None)"

definition timeless_story :: "timeless_command list" where
  "timeless_story = [FireTimer 1 Election, DeliverAll, PartitionInto [1, 2] [3], ClientSubmits 1 ''SET a=1'', DeliverAll,
     Heal, FireTimer 1 Heartbeat, DeliverAll, ClientReads 1 ''a'']"

definition logs_of :: "('s, 'sm, 'ts, 'p, 'z) test_cluster_scheme \<Rightarrow> ('s \<Rightarrow> nat) \<Rightarrow> (node_id \<times> node_state \<times> nat) list" where
  "logs_of c len = map (\<lambda>(i, n). (i, rn_role n, len (rn_storage n))) (tc_nodes c)"

definition log_size :: "'p mem_storage \<Rightarrow> nat" where
  "log_size s = length (ms_log s)"

text \<open>C14: Every program of the harness commands modelled here, from the cluster that \<open>with_nodes\<close> builds of
  the nodes 1 to n with new storages and the default snapshot threshold: whatever sequence of
  deliveries, partitions, timer firings, client commands and reads it is, the nodes and the queues it
  ends with are those of a run of the cluster that starts with blank nodes and keeps its membership.
  Tests that forge messages, set another threshold, change the membership or start a node on a used
  storage do other things, which are no programs of this kind.\<close>

theorem timeless_programs_are_runs:
  assumes "timeless_program SM cmds (with_nodes SM n) = Some c"
  shows "\<exists>acts. (\<forall>a\<in>set acts. keeps_members a) \<and>
    \<lparr>cl_ids = [1..<Suc n], cl_nodes = map_of (tc_nodes c), cl_broker = tc_broker c\<rparr> =
      run_cluster (timeless_env SM) acts
        (cluster_init (timeless_env SM) [1..<Suc n] (\<lambda>_. mem_new) kv_new (\<lambda>_. ()) 10)"
  using timeless_program_simulated [OF assms, of "[1..<Suc n]"]
  unfolding simulated_def with_nodes_init by (simp only: cluster_of_def)

lemma timeless_story_end:
  "\<exists>c. timeless_program small_machine timeless_story (with_nodes small_machine 3) = Some c \<and>
     logs_of c log_size = [(2, Follower, 1), (1, Leader, 1), (3, Follower, 1)]"
proof -
  have "map_option (\<lambda>c. logs_of c log_size) (timeless_program small_machine timeless_story (with_nodes small_machine 3)) =
      Some [(2, Follower, 1), (1, Leader, 1), (3, Follower, 1)]"
    by code_simp
  then show ?thesis by (cases "timeless_program small_machine timeless_story (with_nodes small_machine 3)") auto
qed

theorem timeless_programs_are_runs_witness:
  "\<exists>acts c. timeless_program small_machine timeless_story (with_nodes small_machine 3) = Some c \<and>
    logs_of c log_size = [(2, Follower, 1), (1, Leader, 1), (3, Follower, 1)] \<and>
    map_of (tc_nodes c) = cl_nodes (run_cluster (timeless_env small_machine) acts
      (cluster_init (timeless_env small_machine) [1..<Suc 3] (\<lambda>_. mem_new) kv_new (\<lambda>_. ()) 10))"
proof -
  obtain c where c: "timeless_program small_machine timeless_story (with_nodes small_machine 3) = Some c"
    "logs_of c log_size = [(2, Follower, 1), (1, Leader, 1), (3, Follower, 1)]"
    using timeless_story_end by blast
  from timeless_programs_are_runs [OF c(1)] c show ?thesis by (metis cluster.select_convs(2))
qed

text \<open>C25: When \<open>deliver_messages\<close> returns, no message for a node of the cluster is left, and what it
  delivered, which the message log shows, never crossed the partition that was set.\<close>

theorem delivery_respects_partitions:
  assumes "deliver_messages SM c = Some c'"
  shows "(\<forall>(i, n)\<in>set (tc_nodes c'). queue_of (tc_broker c') i = []) \<and> tl_partition c' = tl_partition c \<and>
    (\<exists>new. tc_log c' = tc_log c @ new \<and> (\<forall>(from, to, msg)\<in>set new. same_group (tl_partition c) to from))"
proof -
  have d: "delivered (timeless_env SM) (same_group (tl_partition c)) (map fst (tc_nodes c)) c c'"
    using deliver_loop_delivered assms unfolding deliver_messages_def by blast
  then have keys: "map fst (tc_nodes c') = map fst (tc_nodes c)" by (simp add: delivered_def)
  have "queue_of (tc_broker c') i = []" if "(i, n) \<in> set (tc_nodes c')" for i n
  proof -
    from that have "i \<in> set (map fst (tc_nodes c'))" by force
    with d show ?thesis unfolding keys delivered_def by blast
  qed
  moreover have "tl_partition c' = tl_partition c" using d by (cases c; cases c') (simp add: delivered_def)
  ultimately show ?thesis using d unfolding delivered_def by blast
qed

definition parted :: timeless where
  "parted = the (timeless_program small_machine [PartitionInto [1, 2] [3], FireTimer 1 Election] (with_nodes small_machine 3))"

lemma parted_delivery:
  "\<exists>c. deliver_messages small_machine parted = Some c \<and> message_count parted = 0 \<and> message_count c = 6"
proof -
  have "map_option message_count (deliver_messages small_machine parted) = Some 6" by code_simp
  moreover have "message_count parted = 0" by code_simp
  ultimately show ?thesis by (cases "deliver_messages small_machine parted") auto
qed

theorem delivery_respects_partitions_witness:
  "\<exists>c. deliver_messages small_machine parted = Some c \<and> message_count parted = 0 \<and> message_count c = 6 \<and>
    (\<forall>(from, to, msg)\<in>set (tc_log c). same_group (Some ([1, 2], [3])) to from)"
proof -
  obtain c where c: "deliver_messages small_machine parted = Some c" "message_count parted = 0" "message_count c = 6"
    using parted_delivery by blast
  have "tl_partition parted = Some ([1, 2], [3])" by code_simp
  moreover have "tc_log parted = []" using c(2) by (simp add: message_count_def)
  ultimately show ?thesis using delivery_respects_partitions [OF c(1)] c by auto
qed

text \<open>
  \<open>connect_peers\<close> means to leave a node alone whose peers are as expected; but the list it compares
  with includes the node itself, so it builds every node anew that is a member of its configuration.
\<close>

theorem connecting_rebuilds_members:
  assumes "i \<in> set (node_members n)" and "distinct (node_members n)" and "distinct node_ids"
  shows "\<not> peers_match (filter (\<lambda>j. j \<noteq> i) node_ids) (node_peers n)"
proof
  let ?expected = "filter (\<lambda>j. j \<noteq> i) node_ids"
  assume "peers_match ?expected (node_peers n)"
  then have len: "length (node_members n) = length ?expected" and sub: "set ?expected \<subseteq> set (node_members n)"
    using assms(1) by (auto simp: peers_match_def node_peers_def list_all_iff split: if_splits)
  have "set ?expected \<subset> set (node_members n)" using sub assms(1) by auto
  then have "card (set ?expected) < card (set (node_members n))" by (intro psubset_card_mono) simp_all
  moreover have "card (set ?expected) = length ?expected" by (rule distinct_card) (simp add: assms(3))
  moreover have "card (set (node_members n)) = length (node_members n)" using assms(2) by (rule distinct_card)
  ultimately show False using len by linarith
qed

section \<open>The cluster with time\<close>

definition timefull_story :: "timefull_command list" where
  "timefull_story = [AdvanceTime 175, DeliverPending, SubmitAt 3 ''SET a=1'', DeliverPending, AdvanceTime 50,
     DeliverPending, ReadAt 3 ''a'']"

text \<open>C15: The same of the cluster with time, whose timers fire when they have expired: up to its timers,
  a program that drives the cluster for less than \<open>2 ^ 64\<close> milliseconds ends where a run ends.\<close>

theorem timefull_programs_are_runs:
  assumes "distinct ids" and "time_taken cmds < u64_limit"
    and "timefull_program SM cmds (timefull_start SM ids) = Some c"
  shows "\<exists>acts. (\<forall>a\<in>set acts. keeps_members a) \<and>
    \<lparr>cl_ids = ids, cl_nodes = (\<lambda>i. map_option forget (map_of (tc_nodes c) i)), cl_broker = tc_broker c\<rparr> =
      run_cluster (timeless_env SM) acts (cluster_init (timeless_env SM) ids (\<lambda>_. mem_new) kv_new (\<lambda>_. ()) 10)"
proof -
  from timefull_program_run [OF assms] obtain acts where "\<forall>a\<in>set acts. keeps_members a"
    "timefull_view ids c = run_cluster (timeless_env SM) acts
      (cluster_init (timeless_env SM) ids (\<lambda>_. mem_new) kv_new (\<lambda>_. ()) 10)" by blast
  then show ?thesis by (intro exI [of _ acts]) (simp add: timefull_view_def forget_cluster_def cluster_of_def)
qed

lemma timefull_story_end:
  "\<exists>c. timefull_program small_machine timefull_story (timefull_start small_machine [1, 2, 3]) = Some c \<and>
     logs_of c log_size = [(2, Follower, 1), (1, Follower, 1), (3, Leader, 1)] \<and> tf_clock c = 225"
proof -
  have "map_option (\<lambda>c. (logs_of c log_size, tf_clock c))
      (timefull_program small_machine timefull_story (timefull_start small_machine [1, 2, 3])) =
      Some ([(2, Follower, 1), (1, Follower, 1), (3, Leader, 1)], 225)"
    by code_simp
  then show ?thesis
    by (cases "timefull_program small_machine timefull_story (timefull_start small_machine [1, 2, 3])") auto
qed

theorem timefull_programs_are_runs_witness:
  "\<exists>acts c. timefull_program small_machine timefull_story (timefull_start small_machine [1, 2, 3]) = Some c \<and>
    logs_of c log_size = [(2, Follower, 1), (1, Follower, 1), (3, Leader, 1)] \<and> tf_clock c = 225 \<and>
    (\<lambda>i. map_option forget (map_of (tc_nodes c) i)) = cl_nodes (run_cluster (timeless_env small_machine) acts
      (cluster_init (timeless_env small_machine) [1, 2, 3] (\<lambda>_. mem_new) kv_new (\<lambda>_. ()) 10))"
proof -
  obtain c where c: "timefull_program small_machine timefull_story (timefull_start small_machine [1, 2, 3]) = Some c"
    "logs_of c log_size = [(2, Follower, 1), (1, Follower, 1), (3, Leader, 1)]" "tf_clock c = 225"
    using timefull_story_end by blast
  have "\<exists>acts. (\<forall>a\<in>set acts. keeps_members a) \<and>
    \<lparr>cl_ids = [1, 2, 3], cl_nodes = (\<lambda>i. map_option forget (map_of (tc_nodes c) i)), cl_broker = tc_broker c\<rparr> =
      run_cluster (timeless_env small_machine) acts
        (cluster_init (timeless_env small_machine) [1, 2, 3] (\<lambda>_. mem_new) kv_new (\<lambda>_. ()) 10)"
    by (rule timefull_programs_are_runs [OF _ _ c(1)]) (simp_all add: timefull_story_def u64_limit_def)
  with c show ?thesis by (metis cluster.select_convs(2))
qed

end
