(* ===== verification/Election_Progress.thy ===== *)
theory Election_Progress
  imports In_Memory_Node
begin

text \<open>
  Elections can always be brought to an end: a node whose log is as up to date as those of a quorum can
  be elected by firing its timer once and delivering messages.  Nothing is assumed of the other
  messages under way, which may be left where they are.
\<close>

section \<open>A request and its answer\<close>

fun is_deliver :: "'p action \<Rightarrow> bool" where
  "is_deliver (Deliver _ _) = True"
| "is_deliver _ = False"

lemma deliver_last:
  assumes "queue_of (cl_broker cl) i = q @ [(f, m)]" and "cl_nodes cl i = Some n"
  shows "cl_nodes (act E (Deliver i (length q)) cl) = (cl_nodes cl)(i \<mapsto> (on_event E (Message f m) n)\<lparr>rn_outbox := []\<rparr>)"
    and "queue_of (cl_broker (act E (Deliver i (length q)) cl)) j =
      (if j = i then q else queue_of (cl_broker cl) j) @
      map (\<lambda>(to, m). (i, m)) (filter (\<lambda>(to, m). to = j) (rn_outbox (on_event E (Message f m) n)))"
proof -
  let ?b = "(cl_broker cl)\<lparr>queues := (queues (cl_broker cl))(i \<mapsto> q)\<rparr>"
  have rem: "remove_at i (length q) (cl_broker cl) = (?b, Some (f, m))"
    by (simp add: remove_at_def assms(1))
  show "cl_nodes (act E (Deliver i (length q)) cl) = (cl_nodes cl)(i \<mapsto> (on_event E (Message f m) n)\<lparr>rn_outbox := []\<rparr>)"
    by (simp add: rem feed_def assms(2) Let_def)
  show "queue_of (cl_broker (act E (Deliver i (length q)) cl)) j =
      (if j = i then q else queue_of (cl_broker cl) j) @
      map (\<lambda>(to, m). (i, m)) (filter (\<lambda>(to, m). to = j) (rn_outbox (on_event E (Message f m) n)))"
  proof -
    have "queue_of ?b j = (if j = i then q else queue_of (cl_broker cl) j)" by (simp add: queue_of_def)
    then show ?thesis by (simp add: rem feed_def assms(2) Let_def queue_of_post del: on_event.simps)
  qed
qed

text \<open>Node \<open>i\<close> has asked \<open>p\<close>; \<open>p\<close> answers, and \<open>i\<close> hears the answer.\<close>

lemma ask_one:
  fixes cl :: "('s, 'sm, 'ts, 'p) cluster"
  assumes p: "cl_nodes cl p = Some np" "rn_outbox (on_event E (Message i req) np) = [(i, resp)]"
    and i: "cl_nodes cl i = Some ni" and "p \<noteq> i"
    and q: "queue_of (cl_broker cl) p = q @ [(i, req)]"
  shows "\<exists>acts. (\<forall>a\<in>set acts. is_deliver a) \<and>
    cl_nodes (run_cluster E acts cl) = (cl_nodes cl)(p \<mapsto> (on_event E (Message i req) np)\<lparr>rn_outbox := []\<rparr>,
      i \<mapsto> (on_event E (Message p resp) ni)\<lparr>rn_outbox := []\<rparr>) \<and>
    (\<forall>j. queue_of (cl_broker (run_cluster E acts cl)) j = (if j = p then q else queue_of (cl_broker cl) j) @
      map (\<lambda>(to, m). (i, m)) (filter (\<lambda>(to, m). to = j) (rn_outbox (on_event E (Message p resp) ni))))"
proof -
  define a1 :: "'p action" where "a1 = Deliver p (length q)"
  define cl1 where "cl1 = act E a1 cl"
  note 1 = deliver_last [OF q p(1), of E, folded a1_def, folded cl1_def]
  define a2 :: "'p action" where "a2 = Deliver i (length (queue_of (cl_broker cl) i))"
  have "queue_of (cl_broker cl1) i = queue_of (cl_broker cl) i @ [(p, resp)]" and "cl_nodes cl1 i = Some ni"
    using 1 p(2) i \<open>p \<noteq> i\<close> by simp_all
  note 2 = deliver_last [OF this, of E, folded a2_def]
  have "run_cluster E [a1, a2] cl = act E a2 cl1" by (simp add: run_cluster_def cl1_def)
  moreover have "\<forall>a\<in>set [a1, a2]. is_deliver a" by (simp add: a1_def a2_def)
  ultimately show ?thesis
    using 1 2 p(2) \<open>p \<noteq> i\<close> by (intro exI [of _ "[a1, a2]"]) auto
qed

text \<open>The same for a list of nodes that have all been asked.\<close>

definition answered ::
  "('s, 'sm, 'ts, 'p) env \<Rightarrow> node_id \<Rightarrow> 'p raft_msg \<Rightarrow> (node_id \<Rightarrow> 'p raft_msg) \<Rightarrow> node_id list
   \<Rightarrow> ('s, 'sm, 'ts, 'p) cluster \<Rightarrow> ('s, 'sm, 'ts, 'p) cluster \<Rightarrow> bool" where
  "answered E i req resp ps cl cl' \<longleftrightarrow>
     (let n = fold (\<lambda>p. on_event E (Message p (resp p))) ps (the (cl_nodes cl i)) in
      cl_nodes cl' i = Some (n\<lparr>rn_outbox := []\<rparr>) \<and>
      (\<forall>p\<in>set ps. cl_nodes cl' p = Some ((on_event E (Message i req) (the (cl_nodes cl p)))\<lparr>rn_outbox := []\<rparr>)) \<and>
      (\<forall>j. j \<noteq> i \<longrightarrow> j \<notin> set ps \<longrightarrow> cl_nodes cl' j = cl_nodes cl j) \<and>
      (\<forall>j. \<exists>q. queue_of (cl_broker cl') j = q @ map (\<lambda>(to, m). (i, m)) (filter (\<lambda>(to, m). to = j) (rn_outbox n))))"

lemma ask_all:
  assumes "ps \<noteq> []" and "distinct ps" and "i \<notin> set ps" and "cl_nodes cl i = Some ni"
    and "\<And>p. p \<in> set ps \<Longrightarrow> \<exists>np. cl_nodes cl p = Some np \<and> rn_outbox (on_event E (Message i req) np) = [(i, resp p)]"
    and "\<And>p. p \<in> set ps \<Longrightarrow> \<exists>q. queue_of (cl_broker cl) p = q @ [(i, req)]"
    and "\<And>k. 0 < k \<Longrightarrow> k < length ps \<Longrightarrow> rn_outbox (fold (\<lambda>p. on_event E (Message p (resp p))) (take k ps) ni) = []"
  shows "\<exists>acts. (\<forall>a\<in>set acts. is_deliver a) \<and> answered E i req resp ps cl (run_cluster E acts cl)"
  using assms
proof (induction ps arbitrary: cl ni)
  case Nil
  then show ?case by simp
next
  case (Cons p ps)
  let ?ev = "\<lambda>p. on_event E (Message p (resp p))"
  have "p \<noteq> i" using Cons.prems(3) by auto
  obtain np where p: "cl_nodes cl p = Some np" "rn_outbox (on_event E (Message i req) np) = [(i, resp p)]"
    using Cons.prems(5) by auto
  obtain q where q: "queue_of (cl_broker cl) p = q @ [(i, req)]" using Cons.prems(6) [of p] by auto
  obtain acts where acts: "\<forall>a\<in>set acts. is_deliver a"
    "cl_nodes (run_cluster E acts cl) = (cl_nodes cl)(p \<mapsto> (on_event E (Message i req) np)\<lparr>rn_outbox := []\<rparr>,
      i \<mapsto> (?ev p ni)\<lparr>rn_outbox := []\<rparr>)"
    "\<And>j. queue_of (cl_broker (run_cluster E acts cl)) j = (if j = p then q else queue_of (cl_broker cl) j) @
      map (\<lambda>(to, m). (i, m)) (filter (\<lambda>(to, m). to = j) (rn_outbox (?ev p ni)))"
    using ask_one [OF p Cons.prems(4) \<open>p \<noteq> i\<close> q] by blast
  let ?cl = "run_cluster E acts cl"
  show ?case
  proof (cases "ps = []")
    case True
    with acts p(1) \<open>p \<noteq> i\<close> Cons.prems(4) show ?thesis
      by (intro exI [of _ acts]) (auto simp: answered_def Let_def simp del: on_event.simps)
  next
    case False
    then have out: "rn_outbox (?ev p ni) = []" using Cons.prems(7) [of 1] by (cases ps) simp_all
    then have "(?ev p ni)\<lparr>rn_outbox := []\<rparr> = ?ev p ni" by simp
    with acts(2) have i: "cl_nodes ?cl i = Some (?ev p ni)" by simp
    have kept: "cl_nodes ?cl j = cl_nodes cl j" if "j \<noteq> p" "j \<noteq> i" for j using that acts(2) by simp
    have "\<exists>acts'. (\<forall>a\<in>set acts'. is_deliver a) \<and> answered E i req resp ps ?cl (run_cluster E acts' ?cl)"
    proof (rule Cons.IH [OF False _ _ i])
      show "distinct ps" and "i \<notin> set ps" using Cons.prems(2,3) by auto
      show "\<exists>np. cl_nodes ?cl r = Some np \<and> rn_outbox (on_event E (Message i req) np) = [(i, resp r)]" if "r \<in> set ps" for r
      proof -
        have "r \<noteq> p" "r \<noteq> i" using that Cons.prems(2,3) by auto
        with kept Cons.prems(5) [of r] that show ?thesis by simp
      qed
      show "\<exists>q. queue_of (cl_broker ?cl) r = q @ [(i, req)]" if "r \<in> set ps" for r
        using Cons.prems(2) Cons.prems(6) [of r] that acts(3) [of r] out by (auto simp del: on_event.simps)
      show "rn_outbox (fold ?ev (take k ps) (?ev p ni)) = []" if "0 < k" "k < length ps" for k
        using Cons.prems(7) [of "Suc k"] that by (simp del: on_event.simps)
    qed
    then obtain acts' where acts': "\<forall>a\<in>set acts'. is_deliver a" "answered E i req resp ps ?cl (run_cluster E acts' ?cl)"
      by blast
    have run: "run_cluster E acts' ?cl = run_cluster E (acts @ acts') cl" by (simp add: run_cluster_def)
    have "answered E i req resp (p # ps) cl (run_cluster E (acts @ acts') cl)"
      using acts'(2) i kept Cons.prems(2-4) p(1) acts(2) \<open>p \<noteq> i\<close>
      unfolding run answered_def Let_def by (simp del: on_event.simps) metis
    with acts(1) acts'(1) show ?thesis by (intro exI [of _ "acts @ acts'"]) auto
  qed
qed

section \<open>The two rounds\<close>

lemma fold_take_steps:
  assumes "\<And>k p n. P k n \<Longrightarrow> Suc k < m \<Longrightarrow> P (Suc k) (f p n)" and "P 0 n" and "k \<le> length ps" and "k < m"
  shows "P k (fold f (take k ps) n)"
  using assms(3,4)
proof (induction k)
  case (Suc k)
  then have "P k (fold f (take k ps) n)" by simp
  from assms(1) [OF this Suc.prems(2)] Suc.prems(1) show ?case by (simp add: take_Suc_conv_app_nth)
qed (simp add: assms(2))

lemma fold_last:
  assumes "\<And>k p n. P k n \<Longrightarrow> Suc k < length ps \<Longrightarrow> P (Suc k) (f p n)" and "P 0 n" and "ps \<noteq> []"
    and "\<And>p n. P (length ps - 1) n \<Longrightarrow> Q (f p n)"
  shows "Q (fold f ps n)"
proof -
  have "P (length ps - 1) (fold f (take (length ps - 1) ps) n)"
    by (rule fold_take_steps [where m = "length ps"]) (use assms in auto)
  from assms(4) [OF this, of "last ps"] have "Q (fold f (take (length ps - 1) ps @ [last ps]) n)" by simp
  moreover have "take (length ps - 1) ps @ [last ps] = ps"
    using assms(3) append_butlast_last_id [of ps] by (simp add: butlast_conv_take)
  ultimately show ?thesis by (simp only:)
qed

definition asks_pre_votes :: "('p mem_storage, 'sm, 'ts, 'p) raft_node \<Rightarrow> nat \<Rightarrow> ('p mem_storage, 'sm, 'ts, 'p) raft_node \<Rightarrow> bool" where
  "asks_pre_votes n0 k n \<longleftrightarrow> rn_id n = rn_id n0 \<and> rn_term n = rn_term n0 \<and> rn_storage n = rn_storage n0 \<and>
     rn_config n = rn_config n0 \<and> in_pre_vote (rn_election n) \<and> length (pre_votes_received (rn_election n)) = Suc k \<and>
     rn_outbox n = []"

definition asks_votes :: "('p mem_storage, 'sm, 'ts, 'p) raft_node \<Rightarrow> nat \<Rightarrow> ('p mem_storage, 'sm, 'ts, 'p) raft_node \<Rightarrow> bool" where
  "asks_votes n0 k n \<longleftrightarrow> rn_role n = Candidate \<and> rn_term n = Suc (rn_term n0) \<and> rn_config n = rn_config n0 \<and>
     length (votes_received (rn_election n)) = Suc k \<and> rn_outbox n = []"

definition request_at :: "('p raft_msg) \<Rightarrow> ('p mem_storage, 'sm, 'ts, 'p) raft_node \<Rightarrow> (node_id \<times> 'p raft_msg) list" where
  "request_at m n0 = map (\<lambda>p. (p, m)) (filter (\<lambda>j. j \<noteq> rn_id n0) (node_members n0))"

lemma peer_ids_in_memory: "peer_ids (in_memory_env SM TO) n = filter (\<lambda>j. j \<noteq> rn_id n) (node_members n)"
proof -
  have push: "in_memory_node_push = vec_push None" by (intro ext) (simp add: in_memory_node_push_def)
  show ?thesis by (simp add: peer_ids_def peers_def push)
qed

lemma timer_asks:
  assumes "rn_role n0 \<noteq> Leader" and "2 \<le> length (node_members n0)" and "rn_outbox n0 = []"
    and n: "n = on_event (in_memory_env SM TO) (TimerFired Election) n0"
  shows "asks_pre_votes n0 0 (n\<lparr>rn_outbox := []\<rparr>)"
    and "rn_outbox n = request_at (PreVoteRequest (rn_term n0) (rn_id n0) (mem_last_log_index (rn_storage n0))
      (mem_last_log_term (rn_storage n0))) n0"
proof -
  have push: "push_ok in_memory_node_push x [] = [x]" for x
    by (simp add: push_ok_def in_memory_node_push_def vec_push_def has_room_def)
  have "\<not> length (node_members n0) \<le> Suc 0" using assms(2) by simp
  then show "asks_pre_votes n0 0 (n\<lparr>rn_outbox := []\<rparr>)"
    "rn_outbox n = request_at (PreVoteRequest (rn_term n0) (rn_id n0) (mem_last_log_index (rn_storage n0))
      (mem_last_log_term (rn_storage n0))) n0"
    using assms(1,3)
    by (simp_all add: n asks_pre_votes_def request_at_def handle_election_timer_def start_pre_vote_def rt_start_pre_vote_def
        em_start_pre_vote_def broadcast_eq peer_ids_in_memory Let_def push in_memory_storage_ops_def)
qed

lemma pre_vote_heard:
  assumes "asks_pre_votes n0 k n" and "t \<le> rn_term n0" and "Suc (rn_term n0) < u64_limit" and "2 \<le> length (node_members n0)"
    and n: "n' = on_event (in_memory_env SM TO) (Message p (PreVoteResponse t True)) n"
  shows "\<not> has_quorum (cm_config (rn_config n0)) (k + 2) \<Longrightarrow> asks_pre_votes n0 (Suc k) n'"
    and "has_quorum (cm_config (rn_config n0)) (k + 2) \<Longrightarrow> asks_votes n0 0 (n'\<lparr>rn_outbox := []\<rparr>) \<and>
      rn_outbox n' = request_at (RequestVote (Suc (rn_term n0)) (rn_id n0) (mem_last_log_index (rn_storage n0))
        (mem_last_log_term (rn_storage n0))) n0"
proof -
  have push: "push_ok in_memory_node_push x xs = xs @ [x]" for x xs
    by (simp add: push_ok_def in_memory_node_push_def vec_push_def has_room_def)
  show "asks_pre_votes n0 (Suc k) n'" if "\<not> has_quorum (cm_config (rn_config n0)) (k + 2)"
    using assms(1,2) that
    by (simp add: n asks_pre_votes_def handle_pre_vote_response_def em_handle_pre_vote_response_def Let_def push)
  have "u64_add (rn_term n0) 1 = Suc (rn_term n0)" using assms(3) by (simp add: u64_simps)
  moreover have "mem_last_log_index (mem_set_voted_for v (mem_set_current_term t s)) = mem_last_log_index s"
    "mem_last_log_term (mem_set_voted_for v (mem_set_current_term t s)) = mem_last_log_term s" for v t and s :: "'a mem_storage"
    by (simp_all add: mem_last_log_index_def mem_last_log_term_def mem_set_voted_for_def mem_set_current_term_def)
  moreover have "\<not> length (node_members n0) \<le> Suc 0" using assms(4) by simp
  ultimately show "asks_votes n0 0 (n'\<lparr>rn_outbox := []\<rparr>) \<and>
      rn_outbox n' = request_at (RequestVote (Suc (rn_term n0)) (rn_id n0) (mem_last_log_index (rn_storage n0))
        (mem_last_log_term (rn_storage n0))) n0" if "has_quorum (cm_config (rn_config n0)) (k + 2)"
    using assms(1,2) that
    by (simp add: n asks_pre_votes_def asks_votes_def request_at_def handle_pre_vote_response_def
        em_handle_pre_vote_response_def start_election_def rt_start_election_def em_start_election_def
        broadcast_eq peer_ids_in_memory Let_def push in_memory_storage_ops_def)
qed

lemma vote_heard:
  assumes "asks_votes n0 k n"
    and n: "n' = on_event (in_memory_env SM TO) (Message p (RequestVoteResponse (Suc (rn_term n0)) True)) n"
  shows "\<not> has_quorum (cm_config (rn_config n0)) (k + 2) \<Longrightarrow> asks_votes n0 (Suc k) n'"
    and "has_quorum (cm_config (rn_config n0)) (k + 2) \<Longrightarrow> rn_role n' = Leader \<and> rn_term n' = Suc (rn_term n0)"
proof -
  have push: "push_ok in_memory_node_push x xs = xs @ [x]" for x xs
    by (simp add: push_ok_def in_memory_node_push_def vec_push_def has_room_def)
  show "asks_votes n0 (Suc k) n'" if "\<not> has_quorum (cm_config (rn_config n0)) (k + 2)"
    using assms(1) that
    by (simp add: n asks_votes_def handle_vote_response_def validate_term_and_step_down_def em_handle_vote_response_def
        Let_def push)
  show "rn_role n' = Leader \<and> rn_term n' = Suc (rn_term n0)" if "has_quorum (cm_config (rn_config n0)) (k + 2)"
    using assms(1) that
    by (simp add: n asks_votes_def handle_vote_response_def validate_term_and_step_down_def em_handle_vote_response_def
        become_leader_def rt_become_leader_def send_append_entries_eq Let_def push)
qed

section \<open>The peers\<close>

text \<open>A peer that is idle, not ahead in terms, and whose log is not ahead of the candidate's.\<close>

definition would_support ::
  "('p mem_storage, 'sm, 'ts, 'p) raft_node \<Rightarrow> ('p mem_storage, 'sm, 'ts, 'p) raft_node \<Rightarrow> bool" where
  "would_support n np \<longleftrightarrow> rn_outbox np = [] \<and> rn_term np \<le> rn_term n \<and>
     is_log_up_to_date in_memory_storage_ops (mem_last_log_index (rn_storage n)) (mem_last_log_term (rn_storage n))
       (rn_storage np)"

lemma peer_grants_pre_vote:
  assumes "would_support n np"
    and n: "np' = on_event (in_memory_env SM TO) (Message i (PreVoteRequest (rn_term n) (rn_id n)
      (mem_last_log_index (rn_storage n)) (mem_last_log_term (rn_storage n)))) np"
  shows "rn_outbox np' = [(i, PreVoteResponse (rn_term np) True)]" and "would_support n (np'\<lparr>rn_outbox := []\<rparr>)"
  using assms(1)
  by (simp_all add: n would_support_def handle_pre_vote_request_def em_handle_pre_vote_request_def Let_def)

lemma peer_grants_vote:
  assumes "would_support n np"
  shows "rn_outbox (on_event (in_memory_env SM TO) (Message i (RequestVote (Suc (rn_term n)) (rn_id n)
      (mem_last_log_index (rn_storage n)) (mem_last_log_term (rn_storage n)))) np) =
    [(i, RequestVoteResponse (Suc (rn_term n)) True)]"
proof -
  have log: "is_log_up_to_date in_memory_storage_ops li lt (mem_set_voted_for v (mem_set_current_term t s)) =
      is_log_up_to_date in_memory_storage_ops li lt s"
    "is_log_up_to_date in_memory_storage_ops li lt (mem_set_current_term t s) =
      is_log_up_to_date in_memory_storage_ops li lt s" for li lt v t and s :: "'a mem_storage"
    by (simp_all add: is_log_up_to_date_def in_memory_storage_ops_def mem_last_log_index_def mem_last_log_term_def
        mem_set_voted_for_def mem_set_current_term_def)
  have ops: "st_set_voted_for in_memory_storage_ops = mem_set_voted_for"
    "st_set_current_term in_memory_storage_ops = mem_set_current_term"
    "st_voted_for in_memory_storage_ops (mem_set_voted_for v s) = v" for v and s :: "'a mem_storage"
    by (simp_all add: in_memory_storage_ops_def mem_voted_for_def mem_set_voted_for_def)
  from assms show ?thesis
    by (simp add: would_support_def handle_vote_request_def em_handle_vote_request_def validate_term_and_step_down_def
        step_down_def rt_step_down_def should_grant_vote_def log ops Let_def)
qed

section \<open>The election\<close>

lemma request_reaches:
  assumes "p \<in> set (node_members n)" and "p \<noteq> rn_id n"
  shows "\<exists>q. a @ map (\<lambda>(to, m). (i, m)) (filter (\<lambda>(to, m). to = p) (request_at req n)) = q @ [(i, req)]"
proof -
  have copies: "map (\<lambda>(to, m). (i, m)) (filter (\<lambda>(to, m). to = p) (map (\<lambda>p. (p, req)) js)) =
      replicate (length (filter (\<lambda>j. j = p) js)) (i, req)" for js
    by (induction js) auto
  have "filter (\<lambda>j. j = p) (filter (\<lambda>j. j \<noteq> rn_id n) (node_members n)) \<noteq> []"
    using assms by (auto simp: filter_empty_conv)
  then obtain k where "length (filter (\<lambda>j. j = p) (filter (\<lambda>j. j \<noteq> rn_id n) (node_members n))) = Suc k"
    by (metis length_greater_0_conv less_imp_Suc_add add_0)
  then show ?thesis
    by (intro exI [of _ "a @ replicate k (i, req)"]) (simp only: request_at_def copies replicate_Suc append_assoc replicate_append_same)
qed

text \<open>A round of requests and answers, when the answers bring the asking node from \<open>P 0\<close> to \<open>Q\<close>.\<close>

lemma round_brings:
  assumes "ps \<noteq> []" and "distinct ps" and "i \<notin> set ps" and "cl_nodes cl i = Some ni"
    and "\<And>p. p \<in> set ps \<Longrightarrow> \<exists>np. cl_nodes cl p = Some np \<and> rn_outbox (on_event E (Message i req) np) = [(i, resp p)]"
    and "\<And>p. p \<in> set ps \<Longrightarrow> \<exists>q. queue_of (cl_broker cl) p = q @ [(i, req)]"
    and "P 0 ni" and "\<And>k n. P k n \<Longrightarrow> rn_outbox n = []"
    and "\<And>k p n. P k n \<Longrightarrow> Suc k < length ps \<Longrightarrow> P (Suc k) (on_event E (Message p (resp p)) n)"
    and "\<And>p n. P (length ps - 1) n \<Longrightarrow> Q (on_event E (Message p (resp p)) n)"
  shows "\<exists>acts n. (\<forall>a\<in>set acts. is_deliver a) \<and> Q n \<and> (let cl' = run_cluster E acts cl in
      cl_nodes cl' i = Some (n\<lparr>rn_outbox := []\<rparr>) \<and>
      (\<forall>p\<in>set ps. cl_nodes cl' p = Some ((on_event E (Message i req) (the (cl_nodes cl p)))\<lparr>rn_outbox := []\<rparr>)) \<and>
      (\<forall>j. \<exists>q. queue_of (cl_broker cl') j = q @ map (\<lambda>(to, m). (i, m)) (filter (\<lambda>(to, m). to = j) (rn_outbox n))))"
proof -
  let ?f = "\<lambda>p. on_event E (Message p (resp p))"
  have "Q (fold ?f ps ni)" by (rule fold_last [where P = P and Q = Q and ps = ps and f = ?f, OF assms(9,7,1,10)])
  moreover have "\<exists>acts. (\<forall>a\<in>set acts. is_deliver a) \<and> answered E i req resp ps cl (run_cluster E acts cl)"
  proof (rule ask_all [where ni = ni])
    show "rn_outbox (fold ?f (take k ps) ni) = []" if "0 < k" and "k < length ps" for k
    proof -
      have "P k (fold ?f (take k ps) ni)" by (rule fold_take_steps [where P = P and m = "length ps" and f = ?f, OF assms(9,7)]) (use that in simp_all)
      then show ?thesis by (rule assms(8))
    qed
  qed (fact assms)+
  ultimately show ?thesis unfolding answered_def Let_def assms(4) option.sel by blast
qed

definition asked :: "node_id \<Rightarrow> 'p raft_msg \<Rightarrow> node_id list \<Rightarrow> ('s, 'sm, 'ts, 'p) cluster \<Rightarrow> bool" where
  "asked i req ps cl \<longleftrightarrow> (\<forall>p\<in>set ps. \<exists>q. queue_of (cl_broker cl) p = q @ [(i, req)])"

lemma asked_when_sent:
  assumes "\<forall>j. \<exists>q. queue_of (cl_broker cl) j =
      q @ map (\<lambda>(to, m). (i, m)) (filter (\<lambda>(to, m). to = j) (request_at req n))"
    and "set ps \<subseteq> set (node_members n) - {rn_id n}"
  shows "asked i req ps cl"
  unfolding asked_def
proof
  fix p
  assume "p \<in> set ps"
  with assms(2) have p: "p \<in> set (node_members n)" "p \<noteq> rn_id n" by auto
  from assms(1) obtain q where
    "queue_of (cl_broker cl) p = q @ map (\<lambda>(to, m). (i, m)) (filter (\<lambda>(to, m). to = p) (request_at req n))"
    by blast
  with request_reaches [OF p, of q i req] show "\<exists>q. queue_of (cl_broker cl) p = q @ [(i, req)]" by simp
qed

text \<open>The candidate, the peers it asks, and what these hold.\<close>

definition electable :: "('p mem_storage, 'sm, 'ts, 'p) raft_node \<Rightarrow> node_id list \<Rightarrow> bool" where
  "electable n ps \<longleftrightarrow> Suc (rn_term n) < u64_limit \<and> ps \<noteq> [] \<and> distinct ps \<and>
     set ps \<subseteq> set (node_members n) - {rn_id n} \<and> Suc (length ps) = quorum_size (cm_config (rn_config n))"

lemma electable_quorum:
  assumes "electable n ps"
  shows "2 \<le> length (node_members n)" and "length ps = Suc (length ps - 1)"
    and "has_quorum (cm_config (rn_config n)) (k + 2) \<longleftrightarrow> \<not> Suc k < length ps"
proof -
  from assms have ps: "ps \<noteq> []" "Suc (length ps) = quorum_size (cm_config (rn_config n))"
    by (simp_all add: electable_def)
  then show "length ps = Suc (length ps - 1)" by (cases ps) simp_all
  from ps have "1 \<le> length (node_members n) div 2"
    by (cases ps) (auto simp: quorum_size_def config_size_def split: if_splits)
  then show "2 \<le> length (node_members n)" by linarith
  show "has_quorum (cm_config (rn_config n)) (k + 2) \<longleftrightarrow> \<not> Suc k < length ps"
    using ps(2) by (auto simp: has_quorum_def)
qed

definition peers_support :: "('p mem_storage, 'sm, 'ts, 'p) cluster \<Rightarrow> ('p mem_storage, 'sm, 'ts, 'p) raft_node \<Rightarrow> node_id list \<Rightarrow> bool" where
  "peers_support cl n ps \<longleftrightarrow> list_all (\<lambda>p. case cl_nodes cl p of None \<Rightarrow> False | Some np \<Rightarrow> would_support n np) ps"

lemma peers_supportD:
  assumes "peers_support cl n ps" and "p \<in> set ps"
  shows "\<exists>np. cl_nodes cl p = Some np \<and> would_support n np"
  using assms by (auto simp: peers_support_def list_all_iff split: option.splits)

abbreviation pre_vote_request :: "('p mem_storage, 'sm, 'ts, 'p) raft_node \<Rightarrow> 'p raft_msg" where
  "pre_vote_request n \<equiv> PreVoteRequest (rn_term n) (rn_id n) (mem_last_log_index (rn_storage n)) (mem_last_log_term (rn_storage n))"

abbreviation vote_request :: "('p mem_storage, 'sm, 'ts, 'p) raft_node \<Rightarrow> 'p raft_msg" where
  "vote_request n \<equiv> RequestVote (Suc (rn_term n)) (rn_id n) (mem_last_log_index (rn_storage n)) (mem_last_log_term (rn_storage n))"

lemma timer_round:
  assumes "cl_nodes cl (rn_id n) = Some n" and "rn_role n \<noteq> Leader" and "rn_outbox n = []" and "electable n ps"
    and "peers_support cl n ps" and cl': "cl' = act (in_memory_env SM TO) (Fire (rn_id n) Election) cl"
  shows "\<exists>n1. cl_nodes cl' (rn_id n) = Some n1 \<and> asks_pre_votes n 0 n1"
    and "asked (rn_id n) (pre_vote_request n) ps cl'" and "peers_support cl' n ps"
proof -
  let ?n1 = "on_event (in_memory_env SM TO) (TimerFired Election) n"
  note fired = timer_asks [OF assms(2) electable_quorum(1) [OF assms(4)] assms(3) refl, of SM TO]
  have nodes: "cl_nodes cl' = (cl_nodes cl)(rn_id n \<mapsto> ?n1\<lparr>rn_outbox := []\<rparr>)"
    by (simp add: cl' feed_def assms(1) Let_def del: on_event.simps)
  with fired(1) show "\<exists>n1. cl_nodes cl' (rn_id n) = Some n1 \<and> asks_pre_votes n 0 n1"
    by (simp del: on_event.simps)
  have peers: "set ps \<subseteq> set (node_members n) - {rn_id n}" using assms(4) by (simp add: electable_def)
  have "queue_of (cl_broker cl') j = queue_of (cl_broker cl) j @
      map (\<lambda>(to, m). (rn_id n, m)) (filter (\<lambda>(to, m). to = j) (request_at (pre_vote_request n) n))" for j
    by (simp add: cl' feed_def assms(1) Let_def queue_of_post fired(2) del: on_event.simps)
  then show "asked (rn_id n) (pre_vote_request n) ps cl'" by (intro asked_when_sent [OF _ peers]) blast
  have "cl_nodes cl' p = cl_nodes cl p" if "p \<in> set ps" for p using nodes peers that by auto
  with assms(5) show "peers_support cl' n ps" by (simp add: peers_support_def list_all_iff)
qed

lemma pre_vote_round:
  assumes "cl_nodes cl (rn_id n) = Some n1" and "asks_pre_votes n 0 n1" and e: "electable n ps"
    and "asked (rn_id n) (pre_vote_request n) ps cl" and "peers_support cl n ps"
  shows "\<exists>acts n2. (\<forall>a\<in>set acts. is_deliver a) \<and>
    (let cl' = run_cluster (in_memory_env SM TO) acts cl in
      cl_nodes cl' (rn_id n) = Some n2 \<and> asks_votes n 0 n2 \<and> asked (rn_id n) (vote_request n) ps cl' \<and> peers_support cl' n ps)"
proof -
  let ?E = "in_memory_env SM TO" and ?i = "rn_id n"
  let ?resp = "\<lambda>p. PreVoteResponse (min (rn_term (the (cl_nodes cl p))) (rn_term n)) True"
  let ?Q = "\<lambda>m. asks_votes n 0 (m\<lparr>rn_outbox := []\<rparr>) \<and> rn_outbox m = request_at (vote_request n) n"
  have ps: "ps \<noteq> []" "distinct ps" "?i \<notin> set ps" "set ps \<subseteq> set (node_members n) - {?i}" "Suc (rn_term n) < u64_limit"
    using e by (auto simp: electable_def)
  have supp: "\<exists>np. cl_nodes cl p = Some np \<and> rn_term np \<le> rn_term n \<and>
      rn_outbox (on_event ?E (Message ?i (pre_vote_request n)) np) = [(?i, PreVoteResponse (rn_term np) True)] \<and>
      would_support n ((on_event ?E (Message ?i (pre_vote_request n)) np)\<lparr>rn_outbox := []\<rparr>)" if "p \<in> set ps" for p
    using peers_supportD [OF assms(5) that] peer_grants_pre_vote [OF _ refl, of n] by (metis would_support_def)
  have "\<exists>acts m. (\<forall>a\<in>set acts. is_deliver a) \<and> ?Q m \<and> (let cl' = run_cluster ?E acts cl in
      cl_nodes cl' ?i = Some (m\<lparr>rn_outbox := []\<rparr>) \<and>
      (\<forall>p\<in>set ps. cl_nodes cl' p = Some ((on_event ?E (Message ?i (pre_vote_request n)) (the (cl_nodes cl p)))\<lparr>rn_outbox := []\<rparr>)) \<and>
      (\<forall>j. \<exists>q. queue_of (cl_broker cl') j = q @ map (\<lambda>(to, m). (?i, m)) (filter (\<lambda>(to, m). to = j) (rn_outbox m))))"
  proof (rule round_brings [where P = "asks_pre_votes n" and ni = n1 and resp = ?resp])
    show "\<exists>np. cl_nodes cl p = Some np \<and> rn_outbox (on_event ?E (Message ?i (pre_vote_request n)) np) = [(?i, ?resp p)]"
      if "p \<in> set ps" for p using supp [OF that] by (metis option.sel min.absorb1)
    show "\<exists>q. queue_of (cl_broker cl) p = q @ [(?i, pre_vote_request n)]" if "p \<in> set ps" for p
      using assms(4) that by (simp add: asked_def)
    show "asks_pre_votes n (Suc k) (on_event ?E (Message p (?resp p)) m)"
      if "asks_pre_votes n k m" and "Suc k < length ps" for k p m
      using pre_vote_heard(1) [OF that(1) _ ps(5) electable_quorum(1) [OF e] refl] electable_quorum(3) [OF e] that(2)
      by (simp del: on_event.simps)
    show "?Q (on_event ?E (Message p (?resp p)) m)" if "asks_pre_votes n (length ps - 1) m" for p m
      using pre_vote_heard(2) [OF that _ ps(5) electable_quorum(1) [OF e] refl] electable_quorum(2,3) [OF e]
      by (metis lessI min.cobounded2 not_less_iff_gr_or_eq)
    show "rn_outbox m = []" if "asks_pre_votes n k m" for k m using that by (simp add: asks_pre_votes_def)
  qed (fact ps assms)+
  then obtain acts m where acts: "\<forall>a\<in>set acts. is_deliver a" and m: "?Q m"
    and nodes: "cl_nodes (run_cluster ?E acts cl) ?i = Some (m\<lparr>rn_outbox := []\<rparr>)"
      "\<forall>p\<in>set ps. cl_nodes (run_cluster ?E acts cl) p =
        Some ((on_event ?E (Message ?i (pre_vote_request n)) (the (cl_nodes cl p)))\<lparr>rn_outbox := []\<rparr>)"
    and queues: "\<forall>j. \<exists>q. queue_of (cl_broker (run_cluster ?E acts cl)) j =
      q @ map (\<lambda>(to, m). (?i, m)) (filter (\<lambda>(to, m). to = j) (rn_outbox m))"
    unfolding Let_def by blast
  have "would_support n ((on_event ?E (Message ?i (pre_vote_request n)) (the (cl_nodes cl p)))\<lparr>rn_outbox := []\<rparr>)"
    if "p \<in> set ps" for p using supp [OF that] by (metis option.sel)
  with nodes(2) have "peers_support (run_cluster ?E acts cl) n ps"
    by (simp add: peers_support_def list_all_iff del: on_event.simps)
  with acts m nodes(1) asked_when_sent [OF _ ps(4)] queues show ?thesis
    by (intro exI [of _ acts] exI [of _ "m\<lparr>rn_outbox := []\<rparr>"]) (simp add: Let_def del: on_event.simps)
qed

lemma vote_round:
  assumes "cl_nodes cl (rn_id n) = Some n2" and "asks_votes n 0 n2" and e: "electable n ps"
    and "asked (rn_id n) (vote_request n) ps cl" and "peers_support cl n ps"
  shows "\<exists>acts n3. (\<forall>a\<in>set acts. is_deliver a) \<and> cl_nodes (run_cluster (in_memory_env SM TO) acts cl) (rn_id n) = Some n3 \<and>
    rn_role n3 = Leader \<and> rn_term n3 = Suc (rn_term n)"
proof -
  let ?E = "in_memory_env SM TO" and ?i = "rn_id n" and ?resp = "\<lambda>_. RequestVoteResponse (Suc (rn_term n)) True"
  let ?Q = "\<lambda>m. rn_role m = Leader \<and> rn_term m = Suc (rn_term n)"
  have ps: "ps \<noteq> []" "distinct ps" "?i \<notin> set ps" using e by (auto simp: electable_def)
  have "\<exists>acts m. (\<forall>a\<in>set acts. is_deliver a) \<and> ?Q m \<and> (let cl' = run_cluster ?E acts cl in
      cl_nodes cl' ?i = Some (m\<lparr>rn_outbox := []\<rparr>) \<and>
      (\<forall>p\<in>set ps. cl_nodes cl' p = Some ((on_event ?E (Message ?i (vote_request n)) (the (cl_nodes cl p)))\<lparr>rn_outbox := []\<rparr>)) \<and>
      (\<forall>j. \<exists>q. queue_of (cl_broker cl') j = q @ map (\<lambda>(to, m). (?i, m)) (filter (\<lambda>(to, m). to = j) (rn_outbox m))))"
  proof (rule round_brings [where P = "asks_votes n" and ni = n2 and resp = ?resp])
    show "\<exists>np. cl_nodes cl p = Some np \<and> rn_outbox (on_event ?E (Message ?i (vote_request n)) np) = [(?i, ?resp p)]"
      if "p \<in> set ps" for p using peers_supportD [OF assms(5) that] peer_grants_vote by blast
    show "\<exists>q. queue_of (cl_broker cl) p = q @ [(?i, vote_request n)]" if "p \<in> set ps" for p
      using assms(4) that by (simp add: asked_def)
    show "asks_votes n (Suc k) (on_event ?E (Message p (?resp p)) m)"
      if "asks_votes n k m" and "Suc k < length ps" for k p m
      using vote_heard(1) [OF that(1) refl] electable_quorum(3) [OF e] that(2) by blast
    show "?Q (on_event ?E (Message p (?resp p)) m)" if "asks_votes n (length ps - 1) m" for p m
      using vote_heard(2) [OF that refl] electable_quorum(2,3) [OF e] by (metis not_less_iff_gr_or_eq)
    show "rn_outbox m = []" if "asks_votes n k m" for k m using that by (simp add: asks_votes_def)
  qed (fact ps assms)+
  then show ?thesis unfolding Let_def by (elim exE conjE) (intro exI conjI, assumption+, simp_all)
qed

end
