(* ===== verification/Log_Repair.thy ===== *)
theory Log_Repair
  imports Log_Properties Election_Progress
begin

text \<open>
  How a leader brings a follower's log in line with its own: a heartbeat carries the entries from the
  follower's next index on, a refusal moves that index down, and the first batch that is accepted ends
  the search.  The theory follows the leader and the follower as nodes, through the events they handle.
\<close>

section \<open>One heartbeat and its answer\<close>

definition sent_to :: "node_id \<Rightarrow> ('s, 'sm, 'ts, 'p) raft_node \<Rightarrow> ('s, 'sm, 'ts, 'p) raft_node \<Rightarrow> 'p raft_msg" where
  \<comment> \<open>The last message for \<open>to\<close> that was sent on the way from \<open>n\<close> to \<open>n'\<close>.\<close>
  "sent_to to n n' = last (map snd (filter (\<lambda>(t, m). t = to) (drop (length (rn_outbox n)) (rn_outbox n'))))"

definition heartbeat_round ::
  "('s, 'sm, 'ts, 'p) env \<Rightarrow> ('s, 'sm, 'ts, 'p) raft_node \<times> ('s, 'sm, 'ts, 'p) raft_node
   \<Rightarrow> ('s, 'sm, 'ts, 'p) raft_node \<times> ('s, 'sm, 'ts, 'p) raft_node" where
  "heartbeat_round E = (\<lambda>(l, f).
     let l1 = on_event E (TimerFired Heartbeat) l;
         f1 = on_event E (Message (rn_id l) (sent_to (rn_id f) l l1)) f
     in (on_event E (Message (rn_id f) (sent_to (rn_id l) f f1)) l1, f1))"

lemma sent_to_one: "rn_outbox n' = rn_outbox n @ [(to, m)] \<Longrightarrow> sent_to to n n' = m"
  by (simp add: sent_to_def)

lemma sent_to_each:
  assumes "rn_outbox n' = rn_outbox n @ map (\<lambda>p. (p, msg p)) ps" and "to \<in> set ps"
  shows "sent_to to n n' = msg to"
proof -
  have "filter (\<lambda>(t, m). t = to) (map (\<lambda>p. (p, msg p)) ps) = replicate (length (filter (\<lambda>p. p = to) ps)) (to, msg to)"
    by (induction ps) auto
  moreover have "0 < length (filter (\<lambda>p. p = to) ps)"
    using assms(2) by (auto simp: filter_empty_conv)
  ultimately show ?thesis by (simp add: sent_to_def assms(1))
qed

lemma heartbeat_sends:
  assumes "rn_role l = Leader" and "to \<in> set (node_members l)" and "to \<noteq> rn_id l"
    and "l1 = on_event (in_memory_env SM TO) (TimerFired Heartbeat) l"
  shows "sent_to to l l1 = get_append_entries_for_peer in_memory_map_ops in_memory_storage_ops to (rn_id l)
      (rn_storage l) (rn_replication l)"
    and "rn_storage l1 = rn_storage l" and "rn_replication l1 = rn_replication l" and "rn_role l1 = Leader"
    and "rn_term l1 = rn_term l" and "rn_config l1 = rn_config l" and "rn_id l1 = rn_id l"
    and "rn_snapshots l1 = rn_snapshots l"
proof -
  show "sent_to to l l1 = get_append_entries_for_peer in_memory_map_ops in_memory_storage_ops to (rn_id l)
      (rn_storage l) (rn_replication l)"
  proof (rule sent_to_each)
    show "rn_outbox l1 = rn_outbox l @ map (\<lambda>p. (p, get_append_entries_for_peer in_memory_map_ops in_memory_storage_ops p
        (rn_id l) (rn_storage l) (rn_replication l))) (filter (\<lambda>i. i \<noteq> rn_id l) (node_members l))"
      using assms(1) by (simp add: assms(4) handle_heartbeat_timer_def send_heartbeats_def send_append_entries_eq
          peer_ids_in_memory Let_def)
    show "to \<in> set (filter (\<lambda>i. i \<noteq> rn_id l) (node_members l))" using assms(2,3) by simp
  qed
qed (use assms(1) in \<open>simp_all add: assms(4) handle_heartbeat_timer_def send_heartbeats_def send_append_entries_eq Let_def\<close>)

section \<open>The batch\<close>

lemma mem_log_wf_view:
  assumes "mem_log_wf K n"
  shows "view_ok (mem_view (rn_storage n))" and "v_next (mem_view (rn_storage n)) = Suc (length (ms_log (rn_storage n)))"
    and "ms_first_index (rn_storage n) = 1" and "ms_snapshot (rn_storage n) = None"
    and "Suc (length (ms_log (rn_storage n))) < u64_limit" and "rn_term n = ms_current_term (rn_storage n)"
  using assms by (auto simp: mem_log_wf_def view_ok_def compacted_def v_next_def)

lemma term_in_log:
  assumes "mem_log_wf K n" and "0 < i"
  shows "v_term_at (mem_view (rn_storage n)) i =
    (if i \<le> length (ms_log (rn_storage n)) then Some (entry_term (ms_log (rn_storage n) ! (i - 1))) else None)"
  using assms by (auto simp: v_term_at_def v_entry_def nth_opt_def mem_log_wf_def)

lemma peer_batch:
  assumes wf: "mem_log_wf K l" and i: "in_memory_map_get (next_index (rn_replication l)) to = Some i"
    and range: "1 \<le> i" "i \<le> Suc (length (ms_log (rn_storage l)))"
  shows "get_append_entries_for_peer in_memory_map_ops in_memory_storage_ops to (rn_id l) (rn_storage l) (rn_replication l) =
    AppendEntries (rn_term l) (i - 1) (if i = 1 then 0 else entry_term (ms_log (rn_storage l) ! (i - 2)))
      (drop (i - 1) (ms_log (rn_storage l))) (commit_index (rn_replication l))"
proof -
  note v = mem_log_wf_view [OF wf]
  have n: "i = unwrap_or 1 (mc_get in_memory_map_ops (next_index (rn_replication l)) to)"
    using i by (simp add: in_memory_map_ops_def)
  have seg: "v_segment (mem_view (rn_storage l)) i (Suc (length (ms_log (rn_storage l)))) = drop (i - 1) (ms_log (rn_storage l))"
    using range by (simp add: v_segment_def v(3))
  have "i - 1 = 0 \<longleftrightarrow> i = 1" using range by auto
  then show ?thesis
    using mem.follower_message [OF v(1) _ _ n, of "rn_id l"] range term_in_log [OF wf, of "i - 1"] v
    by (auto simp: seg clip_def numeral_2_eq_2)
qed

section \<open>The follower's answer\<close>

definition log_fits :: "log_index \<Rightarrow> log_term \<Rightarrow> 'p log_entry list \<Rightarrow> bool" where
  \<comment> \<open>The log has the previous entry of the message.\<close>
  "log_fits prev pt log \<longleftrightarrow> prev = 0 \<or> prev \<le> length log \<and> entry_term (log ! (prev - 1)) = pt"

lemma consistency_in_log:
  "mem_log_wf K f \<Longrightarrow> check_log_consistency in_memory_storage_ops prev pt (rn_storage f) = log_fits prev pt (ms_log (rn_storage f))"
  using mem_log.log_view_consistency [where K = K and n = f and prev = prev and pt = pt] by (simp add: mem_log_wf_iff log_fits_def)

lemma try_append_in_log:
  assumes wf: "mem_log_wf K f" and small: "prev + length es \<le> K"
    and run: "try_append_entries in_memory_storage_ops SM in_memory_change_ops me prev pt es lc (rn_storage f) sm obs lrm
      = (lrm', st', sm', obs', res)"
  shows "(res \<noteq> None) = log_fits prev pt (ms_log (rn_storage f))"
    and "res = None \<Longrightarrow> st' = rn_storage f"
    and "res \<noteq> None \<Longrightarrow> ms_log st' = (if es = [] then ms_log (rn_storage f) else take prev (ms_log (rn_storage f)) @ es)"
    and "ms_first_index st' = 1"
proof -
  note v = mem_log_wf_view [OF wf]
  show "(res \<noteq> None) = log_fits prev pt (ms_log (rn_storage f))"
    using run consistency_in_log [OF wf, of prev pt]
    by (auto simp: try_append_entries_def Let_def split: if_splits prod.splits)
  show 1: "st' = rn_storage f" if "res = None"
    using run that by (auto simp: try_append_entries_def Let_def split: if_splits prod.splits)
  have view: "mem_view st' = v_replace_after prev es (mem_view (rn_storage f))" if "res \<noteq> None"
  proof -
    from that obtain cs where "res = Some cs" by auto
    moreover have "Suc prev < u64_limit" using small wf by (auto simp: mem_log_wf_def)
    ultimately show ?thesis using mem.try_append_spec [OF run v(1)] v(3) by simp
  qed
  show "ms_log st' = (if es = [] then ms_log (rn_storage f) else take prev (ms_log (rn_storage f)) @ es)" if "res \<noteq> None"
    using arg_cong [OF view [OF that], of v_log] v(3) by (simp add: v_replace_after_def)
  show "ms_first_index st' = 1"
    using 1 arg_cong [OF view, of v_first] v(3) by (cases res) (auto simp: v_replace_after_def)
qed

lemma follower_answers:
  assumes wf: "mem_log_wf K f" and small: "prev + length es \<le> K"
    and f1: "f1 = on_event (in_memory_env SM TO) (Message lid (AppendEntries (rn_term f) prev pt es lc)) f"
  defines "log' \<equiv> (if log_fits prev pt (ms_log (rn_storage f)) \<and> es \<noteq> [] then take prev (ms_log (rn_storage f)) @ es
      else ms_log (rn_storage f))"
  shows "sent_to lid f f1 = AppendEntriesResponse (rn_term f) (log_fits prev pt (ms_log (rn_storage f))) (length log')"
    and "ms_log (rn_storage f1) = log'" and "rn_term f1 = rn_term f" and "rn_id f1 = rn_id f" and "mem_log_wf K f1"
proof -
  let ?E = "in_memory_env SM TO"
  define n2 where "n2 = (reset_election_timer_if_valid_term ?E (rn_term f) f)\<lparr>rn_leader := Some lid\<rparr>"
  have n2: "rn_term n2 = rn_term f" "rn_storage n2 = rn_storage f" "rn_id n2 = rn_id f" "rn_replication n2 = rn_replication f"
    "rn_outbox n2 = rn_outbox f"
    by (simp_all add: n2_def)
  obtain lrm st sm obs res where app: "try_append_entries in_memory_storage_ops SM in_memory_change_ops (rn_id f) prev pt es lc
      (rn_storage f) (rn_machine n2) (rn_observed n2) (rn_replication f) = (lrm, st, sm, obs, res)"
    by (metis prod_cases5)
  note log = try_append_in_log [OF wf small app]
  have log': "ms_log st = log'" using log(1-3) by (auto simp: log'_def)
  have "mem_log.log_ok K f (handle_append_entries ?E lid (rn_term f) prev pt es lc f)"
    by (rule mem_log.event_append_entries [THEN conjunct1]) (use wf small in \<open>simp_all add: mem_log_wf_iff\<close>)
  then show wf1: "mem_log_wf K f1" by (simp add: f1 mem_log_wf_iff mem_log.log_ok_def)
  obtain lrm2 ct st2 sm2 rl obs2 msg cs where run: "lrm_handle_append_entries in_memory_storage_ops SM in_memory_change_ops
      (rn_id n2) (rn_term f) prev pt es lc (rn_term n2) (rn_storage n2) (rn_machine n2) (rn_role n2) (rn_observed n2)
      (rn_replication n2) = (lrm2, ct, st2, sm2, rl, obs2, msg, cs)"
    using prod.exhaust by metis
  then have parts: "ct = rn_term f" "st2 = st"
    "msg = AppendEntriesResponse (rn_term f) (res \<noteq> None) (st_last_log_index in_memory_storage_ops st)"
    by (auto simp: lrm_handle_append_entries_def n2 app Let_def split: if_splits option.splits)
  have eq: "f1 = send lid msg (apply_config_changes ?E cs (n2\<lparr>rn_replication := lrm2, rn_term := ct, rn_storage := st2,
      rn_machine := sm2, rn_role := rl, rn_observed := obs2\<rparr>))"
    using run unfolding f1 on_event.simps handle_message.simps handle_append_entries_def
    by (simp add: validate_term_and_step_down_def Let_def flip: n2_def)
  show "rn_term f1 = rn_term f" "rn_id f1 = rn_id f" and here: "ms_log (rn_storage f1) = log'"
    by (simp_all add: eq n2 parts log')
  have "st_last_log_index in_memory_storage_ops st = length log'"
    using mem_log.log_wf_last [of K f1 SM TO] wf1 here by (simp add: mem_log_wf_iff eq parts)
  then show "sent_to lid f f1 = AppendEntriesResponse (rn_term f) (log_fits prev pt (ms_log (rn_storage f))) (length log')"
    using log(1) by (intro sent_to_one) (simp add: eq n2 parts)
qed

section \<open>What the leader learns\<close>

lemma response_indices:
  assumes run: "lrm_handle_append_entries_response in_memory_map_ops in_memory_storage_ops SM in_memory_change_ops
      fid success mi config lid me st sm obs lrm = (lrm', sm', obs', cs)"
  shows "\<not> success \<Longrightarrow> in_memory_map_get (next_index lrm) fid = Some i \<Longrightarrow> 1 < i \<Longrightarrow>
      in_memory_map_get (next_index lrm') fid = Some (i - 1)"
    and "success \<Longrightarrow> mi \<le> unwrap_or 0 (in_memory_map_get (match_index lrm') fid)"
proof -
  show "in_memory_map_get (next_index lrm') fid = Some (i - 1)"
    if "\<not> success" "in_memory_map_get (next_index lrm) fid = Some i" "1 < i"
    using run that mem_maps.get_insert_present [of "next_index lrm" fid "i - 1"]
    by (auto simp: lrm_handle_append_entries_response_def in_memory_map_ops_def Let_def)
  show "mi \<le> unwrap_or 0 (in_memory_map_get (match_index lrm') fid)" if success
  proof (cases "unwrap_or 0 (in_memory_map_get (match_index lrm) fid) < mi")
    case True
    define lrm1 where "lrm1 = check_and_promote_caught_up_server in_memory_map_ops fid
        (lrm\<lparr>match_index := in_memory_map_insert fid mi (match_index lrm),
             next_index := in_memory_map_insert fid (u64_add mi 1) (next_index lrm)\<rparr>)"
    have "advance_commit_index in_memory_map_ops in_memory_storage_ops SM in_memory_change_ops config lid me st sm obs lrm1
        = (lrm', sm', obs', cs)"
      using run that True
      by (simp add: lrm_handle_append_entries_response_def Let_def lrm1_def in_memory_map_ops_def)
    from mem.advance_commit_frame(3) [OF this] have "match_index lrm' = in_memory_map_insert fid mi (match_index lrm)"
      by (simp add: lrm1_def check_and_promote_caught_up_server_def Let_def)
    moreover have "in_memory_map_get (in_memory_map_insert fid mi (match_index lrm)) fid = Some mi"
      by (simp add: in_memory_map_get_def in_memory_map_insert_def update_conv')
    ultimately show ?thesis by simp
  next
    case False
    with run that show ?thesis
      by (simp add: lrm_handle_append_entries_response_def Let_def in_memory_map_ops_def)
  qed
qed

lemma leader_hears:
  assumes wf: "mem_log_wf K l" and lead: "rn_role l = Leader" and cmds: "list_all is_command (ms_log (rn_storage l))"
    and l2: "l2 = on_event (in_memory_env SM TO) (Message fid (AppendEntriesResponse (rn_term l) success mi)) l"
  shows "rn_storage l2 = rn_storage l" and "rn_role l2 = Leader" and "rn_term l2 = rn_term l" and "rn_id l2 = rn_id l"
    and "node_members l2 = node_members l" and "mem_log_wf K l2"
    and "\<not> success \<Longrightarrow> in_memory_map_get (next_index (rn_replication l)) fid = Some i \<Longrightarrow> 1 < i \<Longrightarrow>
      in_memory_map_get (next_index (rn_replication l2)) fid = Some (i - 1)"
    and "success \<Longrightarrow> mi \<le> unwrap_or 0 (in_memory_map_get (match_index (rn_replication l2)) fid)"
proof -
  let ?E = "in_memory_env SM TO"
  obtain lrm sm obs cs where run: "lrm_handle_append_entries_response in_memory_map_ops in_memory_storage_ops SM
      in_memory_change_ops fid success mi (cm_config (rn_config l)) (rn_id l) (rn_id l) (rn_storage l) (rn_machine l)
      (rn_observed l) (rn_replication l) = (lrm, sm, obs, cs)"
    by (metis prod_cases4)
  have "mem.commands_only (rn_storage l)" using cmds by (simp add: mem.commands_only_def list_all_iff)
  from mem.ae_response_quiet(1) [OF run this] have cs: "cs = []" .
  have ok: "mem_log.log_ok K l (handle_append_entries_response ?E fid (rn_term l) success mi l)"
    by (rule mem_log.event_append_entries_response [THEN conjunct1]) (use wf in \<open>simp add: mem_log_wf_iff\<close>)
  then show wf2: "mem_log_wf K l2" by (simp add: l2 mem_log_wf_iff mem_log.log_ok_def)
  define n2 where "n2 = l\<lparr>rn_replication := lrm, rn_machine := sm, rn_observed := obs\<rparr>"
  define n4 where "n4 = (observe (CommitAdvanced (rn_id l) (commit_index (rn_replication l)) (commit_index lrm)) n2)
      \<lparr>rn_lease := lease_grant (rn_lease l)\<rparr>"
  have l2_eq: "l2 = (if commit_index (rn_replication l) < commit_index lrm
      then if node_should_create_snapshot ?E n4 then create_snapshot_internal ?E n4 else n4 else n2)"
    using lead by (simp add: l2 handle_append_entries_response_def validate_term_and_step_down_def run cs Let_def n4_def n2_def)
  then have "rn_replication l2 = lrm"
    by (simp add: n4_def n2_def create_snapshot_internal_def split: prod.splits)
  with wf2 have "commit_index lrm \<le> K" by (simp add: mem_log_wf_def)
  then have "\<not> node_should_create_snapshot ?E n4"
    using wf by (simp add: n4_def n2_def mem_log_wf_def node_should_create_snapshot_def should_create_def)
  then have "l2 = n2 \<or> l2 = n4"
    by (simp add: l2_eq)
  then have l2': "rn_storage l2 = rn_storage l" "rn_role l2 = rn_role l" "rn_term l2 = rn_term l" "rn_id l2 = rn_id l"
    "rn_config l2 = rn_config l" "rn_replication l2 = lrm"
    by (auto simp: n4_def n2_def)
  then show "rn_storage l2 = rn_storage l" "rn_role l2 = Leader" "rn_term l2 = rn_term l" "rn_id l2 = rn_id l"
    "node_members l2 = node_members l"
    using lead by simp_all
  show "in_memory_map_get (next_index (rn_replication l2)) fid = Some (i - 1)"
    if "\<not> success" "in_memory_map_get (next_index (rn_replication l)) fid = Some i" "1 < i"
    using response_indices(1) [OF run that] l2' by simp
  show "mi \<le> unwrap_or 0 (in_memory_map_get (match_index (rn_replication l2)) fid)" if success
    using response_indices(2) [OF run that] l2' by simp
qed

section \<open>Rounds\<close>

definition repairing ::
  "nat \<Rightarrow> ('p mem_storage, 'sm, 'ts, 'p) raft_node \<times> ('p mem_storage, 'sm, 'ts, 'p) raft_node \<Rightarrow> bool" where
  "repairing K = (\<lambda>(l, f). mem_log_wf K l \<and> mem_log_wf K f \<and> rn_role l = Leader \<and> rn_term f = rn_term l \<and>
     rn_id f \<noteq> rn_id l \<and> rn_id f \<in> set (node_members l) \<and> list_all is_command (ms_log (rn_storage l)))"

text \<open>A round either moves the next index one down and leaves the logs alone, or repairs the log.\<close>

lemma round_outcome:
  assumes inv: "repairing K (l, f)" and i: "in_memory_map_get (next_index (rn_replication l)) (rn_id f) = Some i"
    and range: "1 \<le> i" "i \<le> Suc (length (ms_log (rn_storage l)))"
    and round: "heartbeat_round (in_memory_env SM TO) (l, f) = (l', f')"
  defines "ll \<equiv> ms_log (rn_storage l)" and "lf \<equiv> ms_log (rn_storage f)"
    and "pt \<equiv> (if i = 1 then 0 else entry_term (ms_log (rn_storage l) ! (i - 2)))"
  shows "repairing K (l', f')" and "rn_storage l' = rn_storage l" and "rn_id f' = rn_id f"
    and "\<not> log_fits (i - 1) pt lf \<Longrightarrow> 1 < i \<and> ms_log (rn_storage f') = lf \<and>
      in_memory_map_get (next_index (rn_replication l')) (rn_id f') = Some (i - 1)"
    and "log_fits (i - 1) pt lf \<Longrightarrow>
      ms_log (rn_storage f') = (if i \<le> length ll then take (i - 1) lf @ drop (i - 1) ll else lf) \<and>
      length (ms_log (rn_storage f')) \<le> unwrap_or 0 (in_memory_map_get (match_index (rn_replication l')) (rn_id f'))"
proof -
  let ?E = "in_memory_env SM TO"
  have wfl: "mem_log_wf K l" and wff: "mem_log_wf K f" and lead: "rn_role l = Leader" and same: "rn_term f = rn_term l"
    and other: "rn_id f \<noteq> rn_id l" and mem: "rn_id f \<in> set (node_members l)" and cmds: "list_all is_command ll"
    using inv by (simp_all add: repairing_def ll_def)
  define l1 where "l1 = on_event ?E (TimerFired Heartbeat) l"
  note beat = heartbeat_sends [OF lead mem other l1_def]
  define m where "m = AppendEntries (rn_term f) (i - 1) pt (drop (i - 1) ll) (commit_index (rn_replication l))"
  have m: "sent_to (rn_id f) l l1 = m"
    using beat(1) peer_batch [OF wfl i range] by (simp add: m_def same ll_def pt_def)
  define f1 where "f1 = on_event ?E (Message (rn_id l) m) f"
  have "i - 1 + length (drop (i - 1) ll) \<le> K"
    using range wfl by (simp add: ll_def mem_log_wf_def)
  note answer = follower_answers [OF wff this f1_def [unfolded m_def], folded lf_def]
  have wfl1: "mem_log_wf K l1" using wfl beat by (simp add: mem_log_wf_def)
  have l': "l' = on_event ?E (Message (rn_id f) (sent_to (rn_id l) f f1)) l1" and f': "f' = f1"
    using round by (auto simp: heartbeat_round_def Let_def m simp del: on_event.simps simp flip: l1_def f1_def)
  have cmds1: "list_all is_command (ms_log (rn_storage l1))" using cmds by (simp add: beat ll_def)
  note hears = leader_hears [OF wfl1 beat(4) cmds1 l' [unfolded answer(1) same beat(5) [symmetric]], unfolded beat]
  show "rn_storage l' = rn_storage l" "rn_id f' = rn_id f" by (simp_all add: hears f' answer)
  show "repairing K (l', f')"
    using hears answer other mem cmds by (simp add: repairing_def f' same ll_def beat)
  show "1 < i \<and> ms_log (rn_storage f') = lf \<and> in_memory_map_get (next_index (rn_replication l')) (rn_id f') = Some (i - 1)"
    if "\<not> log_fits (i - 1) pt lf"
  proof -
    have "1 < i" using that range by (auto simp: log_fits_def)
    with that hears(7) [OF _ i] answer show ?thesis by (simp add: f')
  qed
  show "ms_log (rn_storage f') = (if i \<le> length ll then take (i - 1) lf @ drop (i - 1) ll else lf) \<and>
      length (ms_log (rn_storage f')) \<le> unwrap_or 0 (in_memory_map_get (match_index (rn_replication l')) (rn_id f'))"
    if "log_fits (i - 1) pt lf"
    using that hears(8) answer range(1) by (auto simp: f')
qed

text \<open>Two logs match: where they hold entries of the same term, they are the same so far.\<close>

definition logs_agree :: "'p log_entry list \<Rightarrow> 'p log_entry list \<Rightarrow> bool" where
  "logs_agree xs ys \<longleftrightarrow> (\<forall>k. k < length xs \<longrightarrow> k < length ys \<longrightarrow> entry_term (xs ! k) = entry_term (ys ! k) \<longrightarrow>
     take (Suc k) xs = take (Suc k) ys)"

lemma repaired:
  assumes agree: "logs_agree ll lf" and range: "1 \<le> i" "i \<le> Suc (length ll)"
    and fits: "log_fits (i - 1) (if i = 1 then 0 else entry_term (ll ! (i - 2))) lf"
    and log': "lf' = (if i \<le> length ll then take (i - 1) lf @ drop (i - 1) ll else lf)"
  shows "take (length ll) lf' = ll \<and> length ll \<le> length lf'"
proof -
  have prefix: "i - 1 \<le> length lf \<and> take (i - 1) lf = take (i - 1) ll"
  proof (cases "i = 1")
    case False
    with range fits have "i - 2 < length ll" "i - 2 < length lf" "entry_term (ll ! (i - 2)) = entry_term (lf ! (i - 2))"
      by (auto simp: log_fits_def numeral_2_eq_2)
    with agree have "take (Suc (i - 2)) ll = take (Suc (i - 2)) lf" by (simp add: logs_agree_def)
    moreover have "Suc (i - 2) = i - 1" using False range by simp
    ultimately show ?thesis using \<open>i - 2 < length lf\<close> by simp
  qed simp
  show ?thesis
  proof (cases "i \<le> length ll")
    case True
    then have "lf' = ll" using prefix by (simp add: log')
    then show ?thesis by simp
  next
    case False
    with range have "i = Suc (length ll)" by simp
    with prefix show ?thesis by (simp add: log')
  qed
qed

lemma rounds_repair:
  assumes "repairing K (l, f)" and "in_memory_map_get (next_index (rn_replication l)) (rn_id f) = Some i"
    and "1 \<le> i" "i \<le> Suc (length (ms_log (rn_storage l)))" and "logs_agree (ms_log (rn_storage l)) (ms_log (rn_storage f))"
  shows "\<exists>k\<le>i. \<exists>l' f'. (heartbeat_round (in_memory_env SM TO) ^^ k) (l, f) = (l', f') \<and> repairing K (l', f') \<and>
    rn_storage l' = rn_storage l \<and>
    take (length (ms_log (rn_storage l))) (ms_log (rn_storage f')) = ms_log (rn_storage l) \<and>
    length (ms_log (rn_storage l)) \<le> unwrap_or 0 (in_memory_map_get (match_index (rn_replication l')) (rn_id f'))"
  using assms
proof (induction i arbitrary: l f)
  case 0
  then show ?case by simp
next
  case (Suc j)
  let ?R = "heartbeat_round (in_memory_env SM TO)"
  obtain l' f' where round: "?R (l, f) = (l', f')" by fastforce
  note out = round_outcome [OF Suc.prems(1-4) round]
  let ?fits = "log_fits (Suc j - 1) (if Suc j = 1 then 0 else entry_term (ms_log (rn_storage l) ! (Suc j - 2))) (ms_log (rn_storage f))"
  show ?case
  proof (cases ?fits)
    case True
    note log' = out(5) [OF True, THEN conjunct1] and match = out(5) [OF True, THEN conjunct2]
    from repaired [OF Suc.prems(5,3,4) True log'] match out(1-3) round show ?thesis
      by (intro exI [of _ "Suc 0"]) (auto intro!: exI)
  next
    case False
    note down = out(4) [OF False]
    then obtain k l'' f'' where "k \<le> j" and run: "(?R ^^ k) (l', f') = (l'', f'')" "repairing K (l'', f'')"
      "rn_storage l'' = rn_storage l'"
      "take (length (ms_log (rn_storage l'))) (ms_log (rn_storage f'')) = ms_log (rn_storage l')"
      "length (ms_log (rn_storage l')) \<le> unwrap_or 0 (in_memory_map_get (match_index (rn_replication l'')) (rn_id f''))"
      using Suc.IH [OF out(1)] Suc.prems(4,5) out(2) by (auto simp del: One_nat_def)
    moreover have "(?R ^^ Suc k) (l, f) = (l'', f'')" using run(1) round by (simp add: funpow_swap1)
    ultimately show ?thesis using out(2) by (intro exI [of _ "Suc k"]) auto
  qed
qed

end
