(* ===== verification/Applied_Commands.thy ===== *)
theory Applied_Commands
  imports Node_Steps
begin

text \<open>
  What a node has done to its state machine, read off the calls its observer received: whatever events
  a node is fed, the indices it reports as applied go up, and the machine is what the reported commands
  make of it.  Nothing is assumed of the events: messages may be forged, duplicated or out of order.
\<close>

section \<open>The commands reported as applied\<close>

fun applied_call :: "'p obs_event \<Rightarrow> (log_index \<times> 'p) list" where
  "applied_call (StateMachineApplied _ i p) = [(i, p)]"
| "applied_call _ = []"

definition applied_in :: "'p obs_event list \<Rightarrow> (log_index \<times> 'p) list" where
  "applied_in obs = concat (map applied_call obs)"

lemma applied_in_simps [simp]:
  "applied_in [] = []" "applied_in (ev # obs) = applied_call ev @ applied_in obs"
  "applied_in (xs @ ys) = applied_in xs @ applied_in ys"
  by (simp_all add: applied_in_def)

lemma applied_in_map [simp]: "applied_in (map (\<lambda>(i, p). StateMachineApplied node i p) cmds) = cmds"
  by (induction cmds) auto

text \<open>
  \<open>applies SM (sm, la, obs) (sm', la', obs')\<close>: between the two states commands with increasing indices
  in \<open>(la, la']\<close> were reported; \<open>replays\<close> adds that the machine ran exactly these.
\<close>

type_synonym ('sm, 'p) applied_state = "'sm \<times> log_index \<times> 'p obs_event list"

definition applied_state :: "('s, 'sm, 'ts, 'p) raft_node \<Rightarrow> ('sm, 'p) applied_state" where
  "applied_state n = (rn_machine n, last_applied (rn_replication n), rn_observed n)"

definition applies ::
  "bool \<Rightarrow> ('sm, 'p) state_machine_ops \<Rightarrow> ('sm, 'p) applied_state \<Rightarrow> ('sm, 'p) applied_state \<Rightarrow> bool" where
  "applies replays SM = (\<lambda>(sm, la, obs) (sm', la', obs'). la \<le> la' \<and>
     (\<exists>new. obs' = obs @ new \<and> sorted_wrt (<) (map fst (applied_in new)) \<and>
        fst ` set (applied_in new) \<subseteq> {la<..la'} \<and>
        (replays \<longrightarrow> sm' = fold (sm_apply SM) (map snd (applied_in new)) sm)))"

lemma applies_refl [simp]: "applies r SM a a"
  by (cases a) (auto simp: applies_def intro!: exI [of _ "[]"])

lemma applies_trans:
  assumes "applies r SM a b" and "applies r SM b c"
  shows "applies r SM a c"
proof -
  obtain sm la obs where a: "a = (sm, la, obs)" by (cases a)
  obtain sm1 la1 obs1 where b: "b = (sm1, la1, obs1)" by (cases b)
  obtain sm2 la2 obs2 where c: "c = (sm2, la2, obs2)" by (cases c)
  from assms(1) obtain n1 where 1: "la \<le> la1" "obs1 = obs @ n1" "sorted_wrt (<) (map fst (applied_in n1))"
    "fst ` set (applied_in n1) \<subseteq> {la<..la1}" "r \<longrightarrow> sm1 = fold (sm_apply SM) (map snd (applied_in n1)) sm"
    by (auto simp: a b applies_def)
  from assms(2) obtain n2 where 2: "la1 \<le> la2" "obs2 = obs1 @ n2" "sorted_wrt (<) (map fst (applied_in n2))"
    "fst ` set (applied_in n2) \<subseteq> {la1<..la2}" "r \<longrightarrow> sm2 = fold (sm_apply SM) (map snd (applied_in n2)) sm1"
    by (auto simp: b c applies_def)
  have "i < j" if "i \<in> fst ` set (applied_in n1)" "j \<in> fst ` set (applied_in n2)" for i j
    using that 1(4) 2(4) by fastforce
  with 1 2 show ?thesis
    by (force simp: a c applies_def sorted_wrt_append intro!: exI [of _ "n1 @ n2"])
qed

lemma applies_quiet: "applied_in new = [] \<Longrightarrow> la \<le> la' \<Longrightarrow> (r \<longrightarrow> sm' = sm) \<Longrightarrow> applies r SM (sm, la, obs) (sm', la', obs @ new)"
  by (auto simp: applies_def)

lemma commands_at_index: "fst ` set (commands_at e i) \<subseteq> {i}" "sorted_wrt (<) (map fst (commands_at e i))"
  by (auto simp: commands_at_def split: option.splits entry_type.splits)

lemma commands_between_range: "fst ` set (commands_between get la commit) \<subseteq> {la<..commit}"
proof -
  have "i \<in> {la + 1..<commit + 1}" if "(i, p) \<in> set (commands_between get la commit)" for i p
  proof -
    from that obtain j where "j \<in> set [la + 1..<commit + 1]" "(i, p) \<in> set (commands_at (get j) j)"
      by (auto simp: commands_between_def)
    with commands_at_index(1) [of "get j" j] show ?thesis by force
  qed
  then show ?thesis by force
qed

lemma commands_between_sorted: "sorted_wrt (<) (map fst (commands_between get la commit))"
proof (induction "commit - la" arbitrary: la)
  case 0
  then show ?case by (simp add: between_done)
next
  case (Suc d)
  then have tail: "sorted_wrt (<) (map fst (commands_between get (la + 1) commit))" by simp
  have "x < y" if "x \<in> set (map fst (commands_at (get (la + 1)) (la + 1)))"
    and "y \<in> set (map fst (commands_between get (la + 1) commit))" for x y
  proof -
    from that(1) have "x = la + 1" using commands_at_index(1) [of "get (la + 1)" "la + 1"] by auto
    moreover from that(2) have "la + 1 < y" using commands_between_range [of get "la + 1" commit] by auto
    ultimately show ?thesis by simp
  qed
  moreover have "la < commit" using Suc.hyps(2) by simp
  ultimately show ?case
    using tail commands_at_index(2) [of "get (la + 1)" "la + 1"]
    by (simp only: between_step(1) map_append sorted_wrt_append) blast
qed

lemma apply_committed_applies:
  assumes "apply_committed_entries S SM CO node st sm obs lrm = (lrm', sm', obs', cs)"
  shows "applies r SM (sm, last_applied lrm, obs) (sm', last_applied lrm', obs')"
proof -
  let ?c = "commands_between (st_get_entry S st) (last_applied lrm) (commit_index lrm)"
  have "fst ` set ?c \<subseteq> {last_applied lrm<..max (last_applied lrm) (commit_index lrm)}"
    using commands_between_range [of "st_get_entry S st" "last_applied lrm" "commit_index lrm"] by auto
  with assms commands_between_sorted [of "st_get_entry S st" "last_applied lrm" "commit_index lrm"] show ?thesis
    by (auto simp: apply_committed_spec applies_def Let_def)
qed

section \<open>The handlers\<close>

text \<open>Most steps apply nothing: they leave the machine and the applied index alone and only add other calls.\<close>

definition idle :: "('s, 'sm, 'ts, 'p) raft_node \<Rightarrow> ('s, 'sm, 'ts, 'p) raft_node \<Rightarrow> bool" where
  "idle n n' \<longleftrightarrow> rn_machine n' = rn_machine n \<and> last_applied (rn_replication n') = last_applied (rn_replication n) \<and>
     (\<exists>new. rn_observed n' = rn_observed n @ new \<and> applied_in new = [])"

lemma idle_applies: "idle n n' \<Longrightarrow> applies r SM (applied_state n) (applied_state n')"
  by (auto simp: idle_def applied_state_def intro: applies_quiet)

lemma idle_refl [simp]: "idle n n"
  by (simp add: idle_def)

lemma idle_trans: "idle n n1 \<Longrightarrow> idle n1 n2 \<Longrightarrow> idle n n2"
  by (auto simp: idle_def)

lemma idle_same:
  "rn_machine n' = rn_machine n \<Longrightarrow> rn_replication n' = rn_replication n \<Longrightarrow> rn_observed n' = rn_observed n \<Longrightarrow> idle n n'"
  by (simp add: idle_def)

lemma idle_observe: "applied_call ev = [] \<Longrightarrow> idle n (observe ev n)"
  by (simp add: idle_def)

lemma idle_send: "idle n (send to m n)"
  by (simp add: idle_def)

lemma idle_broadcast: "idle n (broadcast E m n)"
  by (simp add: broadcast_eq idle_same)

lemma idle_send_append: "idle n (send_append_entries_to_followers E n)"
  by (simp add: send_append_entries_eq idle_same)

lemma idle_heartbeats: "idle n (send_heartbeats E n)"
  unfolding send_heartbeats_def Let_def
  by (rule idle_trans [OF idle_send_append], rule idle_same) simp_all

lemma idle_step_down: "idle n (step_down E t n)"
  by (auto simp: idle_def step_down_def rt_step_down_def Let_def)

lemma idle_validate: "validate_term_and_step_down E t n = (n1, sd) \<Longrightarrow> idle n n1"
  using idle_step_down [of n E t] by (auto simp: validate_term_and_step_down_def split: if_splits)

lemma idle_become_leader: "idle n (become_leader E n)"
  unfolding become_leader_def rt_become_leader_def Let_def prod.case
  by (rule idle_trans [OF _ idle_send_append]) (simp add: idle_def)

lemma idle_start_pre_vote: "idle n (start_pre_vote E n)"
proof -
  have "idle n (broadcast E m (n\<lparr>rn_election := em, rn_observed := rn_observed n @ [PreVoteStarted i t]\<rparr>))" for m em i t
    by (rule idle_trans [OF _ idle_broadcast]) (simp add: idle_def)
  then show ?thesis
    by (simp add: start_pre_vote_def rt_start_pre_vote_def Let_def split: prod.splits)
qed

lemma idle_start_election: "idle n (start_election E n)"
proof -
  have 1: "idle n (broadcast E m (n\<lparr>rn_election := em, rn_term := t, rn_storage := st, rn_role := rl,
      rn_observed := rn_observed n @ [ElectionStarted i t, RoleChanged i ro RoleCandidate t, VotedFor i i t]\<rparr>))"
    for m em t st rl i ro
    by (rule idle_trans [OF _ idle_broadcast]) (simp add: idle_def)
  show ?thesis
    using 1 idle_trans [OF 1 idle_become_leader]
    by (auto simp: start_election_def rt_start_election_def Let_def split: prod.splits)
qed

lemma apply_change_idle:
  "apply_change NO MO i l ch (cm, lrm, obs, rl) = (cm', lrm', obs', rl') \<Longrightarrow>
   \<exists>new. obs' = obs @ new \<and> applied_in new = []"
  by (cases ch; cases "snd ch") (auto simp: Let_def)

lemma cm_apply_changes_idle:
  "cm_apply_changes NO MO cs i l (cm, lrm, obs, rl) = (cm', lrm', obs', rl') \<Longrightarrow>
   \<exists>new. obs' = obs @ new \<and> applied_in new = []"
proof (induction cs arbitrary: cm lrm obs rl)
  case (Cons c cs)
  obtain cm1 lrm1 obs1 rl1 where st: "apply_change NO MO i l c (cm, lrm, obs, rl) = (cm1, lrm1, obs1, rl1)"
    by (metis prod_cases4)
  with Cons.prems have "cm_apply_changes NO MO cs i l (cm1, lrm1, obs1, rl1) = (cm', lrm', obs', rl')"
    by (simp add: cm_apply_changes_def)
  from Cons.IH [OF this] apply_change_idle [OF st] show ?case by auto
qed simp

lemma idle_config_changes: "idle n (apply_config_changes E cs n)"
proof -
  have "\<exists>new. rn_observed (apply_config_changes E cs n) = rn_observed n @ new \<and> applied_in new = []"
    by (auto simp: apply_config_changes_def Let_def dest!: cm_apply_changes_idle split: prod.splits)
  then show ?thesis by (simp add: idle_def)
qed

section \<open>Every event\<close>

text \<open>Events that cannot move the applied index.\<close>

lemma idle_pre_vote_request: "idle n (handle_pre_vote_request E f t c li lt n)"
  by (simp add: handle_pre_vote_request_def Let_def idle_def split: raft_msg.split)

lemma idle_pre_vote_response: "idle n (handle_pre_vote_response E f t g n)"
proof -
  obtain em start where run: "em_handle_pre_vote_response (env_nodes E) f g (cm_config (rn_config n)) (rn_election n) = (em, start)"
    by fastforce
  let ?n1 = "n\<lparr>rn_election := em\<rparr>"
  have "idle n (observe (PreVoteSucceeded (rn_id ?n1) (rn_term ?n1)) ?n1)" by (simp add: idle_def)
  then have "idle n (start_election E (observe (PreVoteSucceeded (rn_id ?n1) (rn_term ?n1)) ?n1))"
    by (rule idle_trans [OF _ idle_start_election])
  moreover have "idle n ?n1" by (simp add: idle_same)
  ultimately show ?thesis by (simp add: handle_pre_vote_response_def run Let_def)
qed

lemma idle_vote_request: "idle n (handle_vote_request E f t c li lt n)"
proof -
  obtain n1 sd where val: "validate_term_and_step_down E t n = (n1, sd)" by fastforce
  obtain em ct st msg where run: "em_handle_vote_request (env_timers E) (env_storage E) t c li lt
      (rn_term n1) (rn_storage n1) (rn_election n1) = (em, ct, st, msg)"
    by (metis prod_cases4)
  have "idle n1 (send f msg (n1\<lparr>rn_election := em, rn_term := ct, rn_storage := st\<rparr>))"
    by (simp add: idle_def)
  from idle_trans [OF idle_validate [OF val] this] show ?thesis
    by (simp add: handle_vote_request_def val run)
qed

lemma idle_vote_response: "idle n (handle_vote_response E f t g n)"
proof -
  obtain n1 sd where val: "validate_term_and_step_down E t n = (n1, sd)" by fastforce
  obtain em won where run: "em_handle_vote_response (env_nodes E) f t g (rn_term n1) (rn_role n1)
      (cm_config (rn_config n1)) (rn_election n1) = (em, won)" by fastforce
  have 1: "idle n n1" by (rule idle_validate [OF val])
  have 2: "idle n1 (n1\<lparr>rn_election := em\<rparr>)" by (simp add: idle_same)
  show ?thesis
    using 1 idle_trans [OF 1 2] idle_trans [OF idle_trans [OF 1 2] idle_become_leader]
    by (simp add: handle_vote_response_def val run Let_def)
qed

lemma idle_install_snapshot_response: "idle n (handle_install_snapshot_response E f t g n)"
proof -
  obtain n1 sd where val: "validate_term_and_step_down E t n = (n1, sd)" by fastforce
  have "idle n1 (n1\<lparr>rn_replication := lrm_handle_install_snapshot_response MO f g i (rn_replication n1)\<rparr>)" for MO i
    by (simp add: idle_def lrm_handle_install_snapshot_response_def check_and_promote_caught_up_server_def Let_def)
  with idle_validate [OF val] show ?thesis
    by (auto simp: handle_install_snapshot_response_def val Let_def intro: idle_trans split: option.split)
qed

lemma idle_timer: "idle n (handle_timer E kind n)"
proof (cases kind)
  case Election
  let ?n1 = "observe (ObsTimerFired (rn_id n) ObserverElection (rn_term n)) n"
  let ?n2 = "start_pre_vote E (observe (ElectionTimeout (rn_id ?n1) (rn_term ?n1)) ?n1)"
  have 1: "idle n ?n1" by (simp add: idle_observe)
  have "idle n (observe (ElectionTimeout (rn_id ?n1) (rn_term ?n1)) ?n1)"
    by (rule idle_trans [OF 1]) (simp add: idle_observe)
  then have 2: "idle n ?n2" by (rule idle_trans [OF _ idle_start_pre_vote])
  show ?thesis
    using 1 2 idle_trans [OF 2 idle_start_election] by (simp add: Election handle_election_timer_def Let_def)
next
  case Heartbeat
  let ?n1 = "observe (ObsTimerFired (rn_id n) ObserverHeartbeat (rn_term n)) n"
  have 1: "idle n ?n1" by (simp add: idle_observe)
  then show ?thesis
    using idle_trans [OF 1 idle_heartbeats] by (simp add: Heartbeat handle_heartbeat_timer_def Let_def)
qed

text \<open>Entries a follower accepts.\<close>

lemma try_append_applies:
  assumes "try_append_entries S SM CO node prev pt es lc st sm obs lrm = (lrm', st', sm', obs', res)"
  shows "applies r SM (sm, last_applied lrm, obs) (sm', last_applied lrm', obs')"
proof (cases "check_log_consistency S prev pt st \<and> commit_index lrm < lc")
  case False
  with assms show ?thesis by (auto simp: try_append_entries_def Let_def split: if_splits)
next
  case True
  with assms show ?thesis
    by (auto simp: try_append_entries_def Let_def split: prod.splits if_splits dest!: apply_committed_applies [where r = r])
qed

lemma append_entries_applies:
  "applies r (env_machine E) (applied_state n) (applied_state (handle_append_entries E f t prev pt es lc n))"
proof -
  obtain n1 sd where val: "validate_term_and_step_down E t n = (n1, sd)" by fastforce
  have 1: "applies r (env_machine E) (applied_state n) (applied_state n1)"
    by (rule idle_applies [OF idle_validate [OF val]])
  define n2 where "n2 = (reset_election_timer_if_valid_term E t n1)\<lparr>rn_leader := Some f\<rparr>"
  obtain lrm ct st sm rl obs msg cs where run: "lrm_handle_append_entries (env_storage E) (env_machine E)
      (env_changes E) (rn_id n2) t prev pt es lc (rn_term n2) (rn_storage n2) (rn_machine n2) (rn_role n2)
      (rn_observed n2) (rn_replication n2) = (lrm, ct, st, sm, rl, obs, msg, cs)"
    using prod.exhaust by metis
  define n3 where "n3 = n2\<lparr>rn_replication := lrm, rn_term := ct, rn_storage := st, rn_machine := sm,
      rn_role := rl, rn_observed := obs\<rparr>"
  have "applies r (env_machine E) (applied_state n2) (applied_state n3)"
    using run unfolding lrm_handle_append_entries_def
    by (auto simp: applied_state_def n3_def Let_def split: prod.splits option.splits if_splits dest!: try_append_applies [where r = r])
  moreover have "idle n1 n2" by (simp add: n2_def idle_same)
  moreover have "idle n3 (send f msg (apply_config_changes E cs n3))"
    by (rule idle_trans [OF idle_config_changes idle_send])
  ultimately have "applies r (env_machine E) (applied_state n1) (applied_state (send f msg (apply_config_changes E cs n3)))"
    by (blast intro: applies_trans idle_applies)
  with 1 have "applies r (env_machine E) (applied_state n) (applied_state (send f msg (apply_config_changes E cs n3)))"
    by (rule applies_trans)
  with 1 show ?thesis
    by (simp add: handle_append_entries_def val run Let_def flip: n2_def n3_def)
qed

text \<open>Acknowledgements, submissions and snapshots.\<close>

lemma advance_commit_applies:
  assumes "advance_commit_index MO S SM CO config lid node st sm obs lrm = (lrm', sm', obs', cs)"
  shows "applies r SM (sm, last_applied lrm, obs) (sm', last_applied lrm', obs')"
proof -
  have "applies r SM (sm, last_applied lrm, obs) (sm2, last_applied lrm2, obs2)"
    if "apply_committed_entries S SM CO node st sm obs (lrm\<lparr>commit_index := c\<rparr>) = (lrm2, sm2, obs2, cs2)"
    for c lrm2 sm2 obs2 cs2
    using apply_committed_applies [OF that, of r] by simp
  with assms show ?thesis
    by (auto simp: advance_commit_index_def Let_def split: option.splits if_splits)
qed

lemma append_response_applies:
  assumes "lrm_handle_append_entries_response MO S SM CO f success mi config lid node st sm obs lrm = (lrm', sm', obs', cs)"
  shows "applies r SM (sm, last_applied lrm, obs) (sm', last_applied lrm', obs')"
proof -
  let ?lrm = "check_and_promote_caught_up_server MO f (lrm\<lparr>match_index := mc_insert MO f mi (match_index lrm),
      next_index := mc_insert MO f (u64_add mi 1) (next_index lrm)\<rparr>)"
  have "last_applied ?lrm = last_applied lrm"
    by (simp add: check_and_promote_caught_up_server_def Let_def)
  then show ?thesis
    using assms advance_commit_applies [where lrm = ?lrm and r = r]
    by (auto simp: lrm_handle_append_entries_response_def Let_def split: if_splits)
qed

lemma append_entries_response_applies:
  "applies r (env_machine E) (applied_state n) (applied_state (handle_append_entries_response E f t success mi n))"
proof -
  obtain n1 sd where val: "validate_term_and_step_down E t n = (n1, sd)" by fastforce
  have 1: "applies r (env_machine E) (applied_state n) (applied_state n1)"
    by (rule idle_applies [OF idle_validate [OF val]])
  obtain lrm sm obs cs where run: "lrm_handle_append_entries_response (env_maps E) (env_storage E) (env_machine E)
      (env_changes E) f success mi (cm_config (rn_config n1)) (rn_id n1) (rn_id n1) (rn_storage n1) (rn_machine n1)
      (rn_observed n1) (rn_replication n1) = (lrm, sm, obs, cs)"
    by (metis prod_cases4)
  define n2 where "n2 = n1\<lparr>rn_replication := lrm, rn_machine := sm, rn_observed := obs\<rparr>"
  have "applies r (env_machine E) (applied_state n1) (applied_state n2)"
    using append_response_applies [OF run, of r] by (simp add: applied_state_def n2_def)
  note 2 = applies_trans [OF 1 this]
  define n4 where "n4 = (observe (CommitAdvanced (rn_id n2) (commit_index (rn_replication n1))
      (commit_index (rn_replication n2))) n2)\<lparr>rn_lease := lease_grant (rn_lease n2)\<rparr>"
  have "idle n2 n4" by (simp add: n4_def idle_def)
  then have 3: "idle n2 (apply_config_changes E cs n4)" by (rule idle_trans [OF _ idle_config_changes])
  have "idle m (create_snapshot_internal E m)" for m
    by (simp add: create_snapshot_internal_def idle_same split: prod.splits)
  note 4 = idle_trans [OF 3 this]
  have "applies r (env_machine E) (applied_state n) (applied_state m)" if "idle n2 m" for m
    using applies_trans [OF 2 idle_applies [OF that]] .
  with 1 2 3 4 show ?thesis
    by (simp add: handle_append_entries_response_def val run Let_def observe_simps flip: n2_def n4_def)
qed

lemma submit_applies:
  "applies r (env_machine E) (applied_state n) (applied_state (fst (submit_entry E kind n)))"
proof -
  define n1 where "n1 = n\<lparr>rn_storage := st_append_entries (env_storage E)
      [\<lparr>entry_term = rn_term n, entry_kind = kind\<rparr>] (rn_storage n)\<rparr>"
  obtain lrm sm obs cs where run: "advance_commit_index (env_maps E) (env_storage E) (env_machine E) (env_changes E)
      (cm_config (rn_config n1)) (rn_id n1) (rn_id n1) (rn_storage n1) (rn_machine n1) (rn_observed n1)
      (rn_replication n1) = (lrm, sm, obs, cs)"
    by (metis prod_cases4)
  define n2 where "n2 = n1\<lparr>rn_replication := lrm, rn_machine := sm, rn_observed := obs\<rparr>"
  have 1: "idle n n1" by (simp add: n1_def idle_same)
  have "applies r (env_machine E) (applied_state n1) (applied_state n2)"
    using advance_commit_applies [OF run, of r] by (simp add: applied_state_def n2_def)
  with 1 have 2: "applies r (env_machine E) (applied_state n) (applied_state n2)"
    by (blast intro: applies_trans idle_applies)
  have "idle n2 (send_append_entries_to_followers E (apply_config_changes E cs n2))"
    by (rule idle_trans [OF idle_config_changes idle_send_append])
  with 2 have 3: "applies r (env_machine E) (applied_state n)
      (applied_state (send_append_entries_to_followers E (apply_config_changes E cs n2)))"
    by (blast intro: applies_trans idle_applies)
  have 4: "applies r (env_machine E) (applied_state n) (applied_state (send_append_entries_to_followers E n1))"
    by (rule idle_applies [OF idle_trans [OF 1 idle_send_append]])
  show ?thesis
    using 3 4 by (simp add: submit_entry_def run Let_def flip: n1_def n2_def)
qed

lemma install_snapshot_applies:
  "applies False (env_machine E) (applied_state n) (applied_state (handle_install_snapshot E f t lid li lt ofs d fin n))"
proof -
  define n1 where "n1 = reset_election_timer_if_valid_term E t n"
  obtain lrm ct st sm rl msg where run: "lrm_handle_install_snapshot (env_storage E) (env_machine E) t lid li lt ofs d
      fin (rn_term n1) (rn_storage n1) (rn_machine n1) (rn_role n1) (rn_replication n1) = (lrm, ct, st, sm, rl, msg)"
    by (metis prod_cases6)
  have "last_applied (rn_replication n1) \<le> last_applied lrm"
    using run unfolding lrm_handle_install_snapshot_def
    by (auto simp: Let_def split: prod.splits sum.splits option.splits if_splits)
  moreover have "last_applied (rn_replication n1) = last_applied (rn_replication n)" "rn_observed n1 = rn_observed n"
    by (simp_all add: n1_def)
  ultimately show ?thesis
    using applies_quiet [of "[]" "last_applied (rn_replication n)" "last_applied lrm" False sm "rn_machine n"]
    by (simp add: handle_install_snapshot_def Let_def run applied_state_def flip: n1_def)
qed

text \<open>Whatever the event.\<close>

fun is_install :: "'p event \<Rightarrow> bool" where
  "is_install (Message _ (InstallSnapshot _ _ _ _ _ _ _)) = True"
| "is_install _ = False"

lemma on_event_applies:
  assumes "r \<longrightarrow> \<not> is_install ev"
  shows "applies r (env_machine E) (applied_state n) (applied_state (on_event E ev n))"
proof (cases ev)
  case (Message f m)
  then show ?thesis
    using assms idle_applies [OF idle_pre_vote_request] idle_applies [OF idle_pre_vote_response]
      idle_applies [OF idle_vote_request] idle_applies [OF idle_vote_response]
      idle_applies [OF idle_install_snapshot_response] append_entries_applies append_entries_response_applies
      install_snapshot_applies
    by (cases m) auto
next
  case (TimerFired kind)
  then show ?thesis using idle_applies [OF idle_timer] by simp
qed (simp_all add: submit_client_command_def submit_config_change_def submit_applies)

lemma events_apply:
  "r \<longrightarrow> (\<forall>ev\<in>set evs. \<not> is_install ev) \<Longrightarrow>
   applies r (env_machine E) (applied_state n) (applied_state (fold (on_event E) evs n))"
proof (induction evs arbitrary: n)
  case (Cons ev evs)
  from Cons.prems have "applies r (env_machine E) (applied_state n) (applied_state (on_event E ev n))"
    by (intro on_event_applies) simp
  moreover have "applies r (env_machine E) (applied_state (on_event E ev n)) (applied_state (fold (on_event E) evs (on_event E ev n)))"
    by (rule Cons.IH) (use Cons.prems in simp)
  ultimately show ?case by (simp add: applies_trans)
qed simp

end
