(* ===== verification/Run_Properties.thy ===== *)
theory Run_Properties
  imports Log_Repair Applied_Commands
begin

text \<open>
  What is reached along runs of the test clusters, by the lemmas on elections, on heartbeats and on the
  commands a node applies: a quorum can elect, a leader's log reaches its followers, and a state machine
  is what the reported commands make of it.
\<close>

section \<open>Progress\<close>

text \<open>C7: a quorum can always elect.  Take a node that is not the leader and \<open>ps\<close>, one peer less than a
  quorum, all of them idle, at no later a term and with logs not ahead of the node's.  If the
  node's election timer fires, there is an order of deliveries alone after which it is the leader of
  the next term.  The messages already under way may be anything.\<close>

theorem a_quorum_can_elect:
  fixes cl :: "('p mem_storage, 'sm, 'ts, 'p) cluster"
  assumes "cl_nodes cl (rn_id n) = Some n" and "rn_role n \<noteq> Leader" and "rn_outbox n = []" and "electable n ps"
    and "peers_support cl n ps"
  shows "\<exists>acts n'. (\<forall>a\<in>set acts. is_deliver a) \<and>
    cl_nodes (run_cluster (in_memory_env SM TO) (Fire (rn_id n) Election # acts) cl) (rn_id n) = Some n' \<and>
    rn_role n' = Leader \<and> rn_term n' = Suc (rn_term n)"
proof -
  let ?E = "in_memory_env SM TO"
  let ?cl1 = "act ?E (Fire (rn_id n) Election) cl"
  note fired = timer_round [OF assms refl, of SM TO]
  from fired(1) obtain n1 where n1: "cl_nodes ?cl1 (rn_id n) = Some n1" "asks_pre_votes n 0 n1" by blast
  obtain acts1 n2 where acts1: "\<forall>a\<in>set acts1. is_deliver a"
    and n2: "cl_nodes (run_cluster ?E acts1 ?cl1) (rn_id n) = Some n2" "asks_votes n 0 n2"
    and asked: "asked (rn_id n) (vote_request n) ps (run_cluster ?E acts1 ?cl1)"
    and supp: "peers_support (run_cluster ?E acts1 ?cl1) n ps"
    using pre_vote_round [OF n1 assms(4) fired(2,3), of SM TO] unfolding Let_def by blast
  obtain acts2 n3 where "\<forall>a\<in>set acts2. is_deliver a" "rn_role n3 = Leader" "rn_term n3 = Suc (rn_term n)"
    "cl_nodes (run_cluster ?E acts2 (run_cluster ?E acts1 ?cl1)) (rn_id n) = Some n3"
    using vote_round [OF n2 assms(4) asked supp, of SM TO] by blast
  with acts1 show ?thesis
    by (intro exI [of _ "acts1 @ acts2"] exI [of _ n3]) (auto simp: run_cluster_def simp del: act.simps)
qed


section \<open>The commands that were applied\<close>

text \<open>C9: the state machine is what the applied commands make of it.  Whatever events a node handles,
  forged and duplicated messages included, the commands it reports as applied have increasing indices
  above what was applied before, so none is applied twice; and as long as no snapshot is installed the
  state machine is the old one with exactly these commands applied in order.\<close>

theorem machine_is_the_applied_commands:
  "let n' = fold (on_event E) evs n
   in last_applied (rn_replication n) \<le> last_applied (rn_replication n') \<and>
      (\<exists>new. rn_observed n' = rn_observed n @ new \<and> sorted_wrt (<) (map fst (applied_in new)) \<and>
        fst ` set (applied_in new) \<subseteq> {last_applied (rn_replication n)<..last_applied (rn_replication n')} \<and>
        (list_all (\<lambda>ev. \<not> is_install ev) evs \<longrightarrow>
           rn_machine n' = fold (sm_apply (env_machine E)) (map snd (applied_in new)) (rn_machine n)))"
  using events_apply [of "list_all (\<lambda>ev. \<not> is_install ev) evs" evs E n]
  by (simp add: applied_state_def applies_def list_all_iff Let_def)

section \<open>Witnesses\<close>

theorem a_quorum_can_elect_witness:
  "\<exists>acts n'. (\<forall>a\<in>set acts. is_deliver a) \<and>
    cl_nodes (run_cluster example_env (Fire 1 Election # acts) three_nodes) 1 = Some n' \<and>
    rn_role n' = Leader \<and> rn_term n' = 1"
proof -
  let ?n = "the (cl_nodes three_nodes 1)"
  have n: "cl_nodes three_nodes 1 = Some ?n" "rn_id ?n = 1"
    and "rn_role ?n \<noteq> Leader" "rn_outbox ?n = []" "electable ?n [2]" "peers_support three_nodes ?n [2]" "rn_term ?n = 0"
    unfolding u64_limit_def electable_def by code_simp+
  with a_quorum_can_elect [of three_nodes ?n "[2]" example_machine frozen_timer_ops] show ?thesis
    by (simp add: example_env_def del: act.simps)
qed




theorem machine_is_the_applied_commands_witness:
  "let n' = fold (on_event example_env)
       [Message 1 (AppendEntries 1 0 0 [example_entry 100] 1), Message 1 (AppendEntries 1 0 0 [example_entry 100] 1)] log_follower
   in \<exists>new. rn_observed n' = new \<and> applied_in new = [(1, 100)] \<and>
        rn_machine n' = fold (sm_apply example_machine) (map snd (applied_in new)) []"
proof -
  let ?evs = "[Message 1 (AppendEntries 1 0 0 [example_entry 100] 1), Message 1 (AppendEntries 1 0 0 [example_entry 100] 1)]"
  have "rn_observed log_follower = []" "rn_machine log_follower = []"
    "applied_in (rn_observed (fold (on_event example_env) ?evs log_follower)) = [(1, 100)]"
    "list_all (\<lambda>ev. \<not> is_install ev) ?evs" by code_simp+
  with machine_is_the_applied_commands [of example_env ?evs log_follower] show ?thesis
    by (simp add: Let_def example_env_def del: fold_simps on_event.simps)
qed

end
