(* ===== verification/Embassy_Setup.thy ===== *)
theory Embassy_Setup
  imports Embassy_Client Embassy_Network Network_Bus Semihosting_Storage
begin

text \<open>
  How the bare-metal cluster is put together: \<open>initialize_client\<close> of the two
  \<open>embassy/src/configurations\<close> and the network stacks of \<open>transport/udp/udp_transport_hub.rs\<close>.  Starting
  a task is adding it to the list of the tasks that were spawned; the executor has five places for
  each task function, and \<open>unwrap\<close> panics (\<open>None\<close>) when they are taken.  Of \<open>embassy_net\<close> a stack is what
  it is created from.  The wait for the links and addresses of the stacks, between their creation and
  that of the nodes, takes no step in these functions; it is a stage of the main task in \<open>Embassy_Main\<close>,
  to which \<open>udp_setup\<close> and \<open>channel_setup\<close> tell the course of the set-up.
\<close>

section \<open>Tasks\<close>

record network_stack =
  ns_driver :: nat
  ns_config :: node_config
  ns_resources :: nat
  ns_seed :: "64 word"

text \<open>\<open>UdpTransport\<close>: the node, the outbox channel it sends into and the inbox channel it receives from.\<close>

record udp_transport =
  ut_node_id :: node_id
  ut_sender :: nat
  ut_receiver :: nat

text \<open>
  A listener task puts messages into an inbox channel, a sender task takes them from an outbox
  channel; a node task has its transport and the queue of its clients.
\<close>

datatype 'n task =
    NetStackTask nat network_stack
  | UdpListenerTask node_id network_stack nat
  | UdpSenderTask node_id network_stack nat
  | UdpRaftNodeTask 'n udp_transport nat
  | ChannelRaftNodeTask 'n channel_transport nat

fun task_function :: "'n task \<Rightarrow> string" where
  "task_function (NetStackTask _ _) = ''net_stack_task''"
| "task_function (UdpListenerTask _ _ _) = ''udp_listener_task''"
| "task_function (UdpSenderTask _ _ _) = ''udp_sender_task''"
| "task_function (UdpRaftNodeTask _ _ _) = ''udp_raft_node_task''"
| "task_function (ChannelRaftNodeTask _ _ _) = ''channel_raft_node_task''"

definition pool_size :: nat where "pool_size = 5"

definition spawn :: "'n task \<Rightarrow> 'n task list \<Rightarrow> 'n task list option" where
  "spawn task tasks =
     (if length (filter (\<lambda>t. task_function t = task_function task) tasks) < pool_size
      then Some (tasks @ [task]) else None)"

fun try_fold :: "('a \<Rightarrow> 'b \<Rightarrow> 'b option) \<Rightarrow> 'a list \<Rightarrow> 'b \<Rightarrow> 'b option" where
  "try_fold f [] s = Some s"
| "try_fold f (x # xs) s = (case f x s of None \<Rightarrow> None | Some s' \<Rightarrow> try_fold f xs s')"

section \<open>The network stacks\<close>

definition create_network_stack_and_spawn_runner ::
  "nat \<Rightarrow> 'n task list \<Rightarrow> (network_stack \<times> 'n task list) option" where
  "create_network_stack_and_spawn_runner node_id tasks =
     (case get_node_resources node_id of
        None \<Rightarrow> None
      | Some resources \<Rightarrow>
          (let stack = \<lparr>ns_driver = node_id, ns_config = get_node_config node_id, ns_resources = resources,
                        ns_seed = stack_seed node_id\<rparr>
           in map_option (\<lambda>tasks'. (stack, tasks')) (spawn (NetStackTask node_id stack) tasks)))"

definition initialize_network_stacks ::
  "'n task list \<Rightarrow> (network_stack list \<times> 'n task list) option" where
  "initialize_network_stacks tasks =
     try_fold (\<lambda>node_id (stacks, ts).
         map_option (\<lambda>(stack, ts'). (stacks @ [stack], ts')) (create_network_stack_and_spawn_runner node_id ts))
       [1..<6] ([], tasks)"

definition create_transport_and_spawn_tasks ::
  "node_id \<Rightarrow> network_stack \<Rightarrow> 'n task list \<Rightarrow> (udp_transport \<times> 'n task list) option" where
  "create_transport_and_spawn_tasks node_id stack tasks =
     (case inbox_channel node_id of
        None \<Rightarrow> None
      | Some inbox \<Rightarrow>
          (case outbox_channel node_id of
             None \<Rightarrow> None
           | Some outbox \<Rightarrow>
               (case spawn (UdpListenerTask node_id stack inbox) tasks of
                  None \<Rightarrow> None
                | Some tasks1 \<Rightarrow>
                    map_option (\<lambda>tasks2. (\<lparr>ut_node_id = node_id, ut_sender = outbox, ut_receiver = inbox\<rparr>, tasks2))
                      (spawn (UdpSenderTask node_id stack outbox) tasks1))))"

section \<open>The two configurations\<close>

definition client_queue :: "node_id \<Rightarrow> nat option" where
  \<comment> \<open>\<open>client_hub.get_receiver(node_id)\<close>: the number of the queue, one of five.\<close>
  "client_queue node_id = (if client_index node_id < 5 then Some (client_index node_id) else None)"

definition client_senders :: "nat list" where
  "client_senders = [0, 1, 2, 3, 4]"

definition udp_start_node ::
  "('s, string) storage_ops \<Rightarrow> (node_id \<Rightarrow> 's option) \<Rightarrow> nat \<Rightarrow> nat \<times> network_stack
   \<Rightarrow> ('s, 'c) embassy_node task list \<Rightarrow> ('s, 'c) embassy_node task list option" where
  \<comment> \<open>\<open>open_storage\<close> is \<open>SemihostingStorage::new\<close>, which panics on a damaged log file.\<close>
  "udp_start_node S open_storage now = (\<lambda>(i, stack) tasks.
     let node_id = i + 1 in
     case create_transport_and_spawn_tasks node_id stack tasks of
       None \<Rightarrow> None
     | Some (transport, tasks1) \<Rightarrow>
         (case open_storage node_id of
            None \<Rightarrow> None
          | Some storage \<Rightarrow>
              (case client_queue node_id of
                 None \<Rightarrow> None
               | Some client_rx \<Rightarrow>
                   spawn (UdpRaftNodeTask (embassy_node_new S node_id storage now) transport client_rx) tasks1)))"

definition udp_initialize_client ::
  "('s, string) storage_ops \<Rightarrow> (node_id \<Rightarrow> 's option) \<Rightarrow> nat \<Rightarrow> ('s, 'c) embassy_node task list
   \<Rightarrow> (nat list \<times> ('s, 'c) embassy_node task list) option" where
  \<comment> \<open>The client is the list of the queues it sends to.\<close>
  "udp_initialize_client S open_storage now tasks =
     (case initialize_network_stacks tasks of
        None \<Rightarrow> None
      | Some (stacks, tasks1) \<Rightarrow>
          map_option (\<lambda>tasks2. (client_senders, tasks2))
            (try_fold (udp_start_node S open_storage now) (List.enumerate 0 stacks) tasks1))"

definition semihosting_initialize_client ::
  "'h host_ops \<Rightarrow> (node_id \<Rightarrow> 'h) \<Rightarrow> nat \<Rightarrow> ('h semi_storage, 'c) embassy_node task list
   \<Rightarrow> (nat list \<times> ('h semi_storage, 'c) embassy_node task list) option" where
  "semihosting_initialize_client H files now tasks =
     udp_initialize_client (semihosting_storage_ops H) (\<lambda>i. semi_new H i (files i)) now tasks"

definition channel_start_node ::
  "('s, string) storage_ops \<Rightarrow> (node_id \<Rightarrow> 's) \<Rightarrow> nat \<Rightarrow> node_id
   \<Rightarrow> ('s, 'c) embassy_node task list \<Rightarrow> ('s, 'c) embassy_node task list option" where
  "channel_start_node S storage now node_id tasks =
     (case create_transport node_id of
        None \<Rightarrow> None
      | Some transport \<Rightarrow>
          (case client_queue node_id of
             None \<Rightarrow> None
           | Some client_rx \<Rightarrow>
               spawn (ChannelRaftNodeTask (embassy_node_new S node_id (storage node_id) now) transport client_rx) tasks))"

definition channel_initialize_client ::
  "('s, string) storage_ops \<Rightarrow> (node_id \<Rightarrow> 's) \<Rightarrow> nat \<Rightarrow> ('s, 'c) embassy_node task list
   \<Rightarrow> (nat list \<times> ('s, 'c) embassy_node task list) option" where
  "channel_initialize_client S storage now tasks =
     map_option (\<lambda>tasks'. (client_senders, tasks')) (try_fold (channel_start_node S storage now) [1..<6] tasks)"

text \<open>
  What the main task sees of the set-up: it panics, it returns at once, or it waits until the links of
  the five stacks are up and configured and then returns (\<open>True\<close>) or panics.
\<close>

datatype setup_course = SetupPanics | SetupDone | SetupWaits bool

definition udp_setup ::
  "('s, string) storage_ops \<Rightarrow> (node_id \<Rightarrow> 's option) \<Rightarrow> nat \<Rightarrow> ('s, 'c) embassy_node task list \<Rightarrow> setup_course" where
  "udp_setup S open_storage now tasks =
     (case initialize_network_stacks tasks of
        None \<Rightarrow> SetupPanics
      | Some _ \<Rightarrow> SetupWaits (udp_initialize_client S open_storage now tasks \<noteq> None))"

definition channel_setup ::
  "('s, string) storage_ops \<Rightarrow> (node_id \<Rightarrow> 's) \<Rightarrow> nat \<Rightarrow> ('s, 'c) embassy_node task list \<Rightarrow> setup_course" where
  "channel_setup S storage now tasks =
     (case channel_initialize_client S storage now tasks of None \<Rightarrow> SetupPanics | Some _ \<Rightarrow> SetupDone)"

section \<open>What is started\<close>

lemma one_to_five: "[Suc 0..<6] = [1, 2, 3, 4, 5]"
  by code_simp

definition node_stack :: "nat \<Rightarrow> network_stack" where
  "node_stack i = \<lparr>ns_driver = i, ns_config = get_node_config i, ns_resources = i - 1, ns_seed = stack_seed i\<rparr>"

definition stack_tasks :: "'n task list" where
  "stack_tasks = map (\<lambda>i. NetStackTask i (node_stack i)) [1..<6]"

definition udp_transport_of :: "node_id \<Rightarrow> udp_transport" where
  "udp_transport_of i = \<lparr>ut_node_id = i, ut_sender = i, ut_receiver = i\<rparr>"

definition channel_of :: "node_id \<Rightarrow> channel_transport" where
  "channel_of i = \<lparr>ct_node_id = i, ct_rx = i - 1, ct_tx_list = get_all_senders\<rparr>"

lemma stack_started:
  assumes "1 \<le> i" and "i \<le> 5"
  shows "create_network_stack_and_spawn_runner i tasks = map_option (\<lambda>ts. (node_stack i, ts)) (spawn (NetStackTask i (node_stack i)) tasks)"
proof -
  have "i - 1 < 5" using assms by linarith
  with assms show ?thesis
    by (simp add: create_network_stack_and_spawn_runner_def get_node_resources_def bus_index_def node_stack_def Let_def)
qed

lemma initialize_network_stacks_empty:
  "initialize_network_stacks [] = Some (map node_stack [1..<6], stack_tasks)"
  by (simp add: initialize_network_stacks_def one_to_five stack_started spawn_def pool_size_def stack_tasks_def)

lemma initialize_network_stacks_twice:
  "initialize_network_stacks (stack_tasks @ tasks) = None"
  by (simp add: initialize_network_stacks_def one_to_five stack_started spawn_def pool_size_def stack_tasks_def)

lemma udp_node_started:
  assumes "1 \<le> i" and "i \<le> 5"
  shows "udp_start_node S open_storage now (i - 1, node_stack i) tasks =
    (case spawn (UdpListenerTask i (node_stack i) i) tasks of None \<Rightarrow> None | Some tasks1 \<Rightarrow>
      (case spawn (UdpSenderTask i (node_stack i) i) tasks1 of None \<Rightarrow> None | Some tasks2 \<Rightarrow>
        (case open_storage i of None \<Rightarrow> None | Some st \<Rightarrow>
          spawn (UdpRaftNodeTask (embassy_node_new S i st now) (udp_transport_of i) (i - 1)) tasks2)))"
proof -
  have "inbox_channel i = Some i" "outbox_channel i = Some i"
    using assms by (simp_all add: inbox_channel_def outbox_channel_def Let_def)
  moreover have "client_queue i = Some (i - 1)"
  proof -
    have "i - 1 < 2 ^ 32" "i - 1 < 5" using assms by simp_all
    with assms show ?thesis by (simp add: client_queue_def client_index_def u64_simps)
  qed
  moreover have "i - 1 + 1 = i" using assms by simp
  ultimately show ?thesis
    by (simp add: udp_start_node_def create_transport_and_spawn_tasks_def udp_transport_of_def
        Let_def split: option.split del: One_nat_def)
qed

lemma channel_node_started:
  assumes "1 \<le> i" and "i \<le> 5"
  shows "channel_start_node S storage now i tasks =
    spawn (ChannelRaftNodeTask (embassy_node_new S i (storage i) now) (channel_of i) (i - 1)) tasks"
proof -
  have "i - 1 < 2 ^ 32" "i - 1 < 5" using assms by simp_all
  with assms show ?thesis
    by (simp add: channel_start_node_def create_transport_def channel_of_def client_queue_def client_index_def u64_simps)
qed

lemma channel_started:
  "channel_initialize_client S storage now [] =
     Some (client_senders, map (\<lambda>i. ChannelRaftNodeTask (sy_nodes (system_boot S storage now net) i) (channel_of i) (i - 1)) [1..<6])"
  by (simp add: channel_initialize_client_def one_to_five channel_node_started spawn_def pool_size_def system_boot_def)

lemma udp_started:
  "udp_initialize_client S open_storage now [] =
     (if list_all (\<lambda>i. open_storage i \<noteq> None) [1..<6]
      then Some (client_senders, stack_tasks @ concat (map (\<lambda>i.
        [UdpListenerTask i (node_stack i) i, UdpSenderTask i (node_stack i) i,
         UdpRaftNodeTask (sy_nodes (system_boot S (\<lambda>i. the (open_storage i)) now net) i) (udp_transport_of i) (i - 1)]) [1..<6]))
      else None)"
proof -
  have stacks: "List.enumerate 0 (map node_stack [1..<6]) = map (\<lambda>i. (i - 1, node_stack i)) [1..<6]"
    by (simp add: one_to_five)
  note started = udp_node_started [where i = 1, simplified] udp_node_started [where i = 2, simplified]
    udp_node_started [where i = 3, simplified] udp_node_started [where i = 4, simplified]
    udp_node_started [where i = 5, simplified]
  show ?thesis
    unfolding udp_initialize_client_def initialize_network_stacks_empty prod.case option.case stacks
    by (cases "open_storage (Suc 0)"; cases "open_storage 2"; cases "open_storage 3"; cases "open_storage 4";
        cases "open_storage 5"; simp add: one_to_five started spawn_def pool_size_def stack_tasks_def system_boot_def)
qed

text \<open>The first set-up succeeds if the storages can be read.\<close>

lemma first_setup:
  "channel_setup S storage now [] = SetupDone"
  "udp_setup S open_storage now [] = SetupWaits (list_all (\<lambda>i. open_storage i \<noteq> None) [1..<6])"
  unfolding channel_setup_def channel_started [where net = "()"] udp_setup_def initialize_network_stacks_empty
    udp_started [where net = "()"]
  by (auto simp: list_all_iff)

text \<open>C29: both configurations start the cluster the other theories reason about.  Started once, each
  spawns the tasks of five nodes, which are the nodes of \<open>system_boot\<close>, each with channels, network
  resources and a client queue of its own; the network configuration panics exactly when a storage
  cannot be read.  Started a second time, with the first cluster's tasks still there, both panic.\<close>

theorem configurations_boot_the_cluster:
  "channel_initialize_client S storage now [] =
     Some (client_senders, map (\<lambda>i. ChannelRaftNodeTask (sy_nodes (system_boot S storage now net) i) (channel_of i) (i - 1)) [1..<6]) \<and>
   channel_initialize_client S storage now
     (map (\<lambda>i. ChannelRaftNodeTask (sy_nodes (system_boot S storage now net) i) (channel_of i) (i - 1)) [1..<6]) = None \<and>
   udp_initialize_client S open_storage now [] =
     (if list_all (\<lambda>i. open_storage i \<noteq> None) [1..<6]
      then Some (client_senders, stack_tasks @ concat (map (\<lambda>i.
        [UdpListenerTask i (node_stack i) i, UdpSenderTask i (node_stack i) i,
         UdpRaftNodeTask (sy_nodes (system_boot S (\<lambda>i. the (open_storage i)) now net) i) (udp_transport_of i) (i - 1)]) [1..<6]))
      else None) \<and>
   udp_initialize_client S open_storage now (stack_tasks @ tasks) = None"
proof (intro conjI)
  show "channel_initialize_client S storage now
     (map (\<lambda>i. ChannelRaftNodeTask (sy_nodes (system_boot S storage now net) i) (channel_of i) (i - 1)) [1..<6]) = None"
    by (simp add: channel_initialize_client_def one_to_five channel_node_started spawn_def pool_size_def)
  show "udp_initialize_client S open_storage now (stack_tasks @ tasks) = None"
    by (simp add: udp_initialize_client_def initialize_network_stacks_twice)
qed (rule channel_started udp_started)+

end
