(* ===== verification/Embassy_Main.thy ===== *)
theory Embassy_Main
  imports Embassy_Setup Embassy_Observer Embassy_Machine Semihosting_Recovery
begin

text \<open>
  The main task of the bare-metal program, \<open>embassy/src/main.rs\<close>: it starts the cluster, waits for an
  election, submits three commands, reads three keys, and shuts the cluster down.  The task is polled
  like the client's calls it makes; between two polls the nodes answer, requests are taken from the
  queues and time passes.  Setting up the heap, the clock and the peripherals is the platform's.
\<close>

section \<open>The task\<close>

datatype main_stage =
    AwaitingLinks bool
  | AwaitingElection nat
  | Submitting nat "unit client_call"
  | Settling nat
  | ReadingBack nat "string option client_call"
  | Elapsing nat
  | ShuttingDown nat
  | Exited
  | MainPanicked

record 'c main_task =
  mt_stage :: main_stage
  mt_channels :: "'c client_request list list"
  mt_writes :: "(cluster_error + unit) list"
  mt_reads :: "(cluster_error + string option) list"
  mt_now :: nat
  mt_links :: bool
  mt_cancelled :: bool
  mt_output :: "string list"

definition mt_info :: "string list \<Rightarrow> 'c main_task \<Rightarrow> 'c main_task" where
  "mt_info pieces m = m\<lparr>mt_output := mt_output m @ [info pieces]\<rparr>"

text \<open>What \<open>derive(Debug)\<close> prints.\<close>

fun debug_level :: "event_level \<Rightarrow> string" where
  "debug_level LevelNone = ''None''"
| "debug_level Essential = ''Essential''"
| "debug_level Info = ''Info''"
| "debug_level Debug = ''Debug''"
| "debug_level Trace = ''Trace''"

fun debug_error :: "cluster_error \<Rightarrow> string" where
  "debug_error (ClusterNotLeader None) = ''NotLeader { hint: None }''"
| "debug_error (ClusterNotLeader (Some i)) = ''NotLeader { hint: Some('' @ decimal i @ '') }''"
| "debug_error ChannelFull = ''ChannelFull''"
| "debug_error Timeout = ''Timeout''"

definition demo_key :: "nat \<Rightarrow> string" where
  "demo_key i = ''key'' @ decimal i"

definition demo_command :: "nat \<Rightarrow> string" where
  "demo_command i = ''key'' @ decimal i @ ''=value'' @ decimal i"

definition await_election :: "'c main_task \<Rightarrow> 'c main_task" where
  "await_election m =
     (mt_info [''Waiting for leader election...''] (mt_info [''All nodes started.''] m))
       \<lparr>mt_stage := AwaitingElection (mt_now m + 5000)\<rparr>"

definition main_start :: "string \<Rightarrow> nat \<Rightarrow> setup_course \<Rightarrow> 'c main_task" where
  \<comment> \<open>Up to the first wait; \<open>config\<close> is the file that \<open>get_observer_level\<close> reads, \<open>setup\<close> the course of
      \<open>setup::initialize_client\<close>, whose own output is left out.\<close>
  "main_start config now setup =
     (let (warnings, observer_level) = get_observer_level config;
          m = \<lparr>mt_stage = MainPanicked, mt_channels = [[], [], [], [], []], mt_writes = [], mt_reads = [],
               mt_now = now, mt_links = False, mt_cancelled = False,
               mt_output = [info [''Starting 5-node Raft cluster in Embassy''], info [''Runtime: 30 seconds'']] @ warnings @
                 [info [''Observer level: '', debug_level observer_level]]\<rparr>
      in case setup of
           SetupPanics \<Rightarrow> m
         | SetupDone \<Rightarrow> await_election m
         | SetupWaits ok \<Rightarrow> m\<lparr>mt_stage := AwaitingLinks ok\<rparr>)"

definition begin_command :: "nat \<Rightarrow> 'c main_task \<Rightarrow> 'c main_task" where
  "begin_command i m = (mt_info [''Submitting: '', demo_command i] m)\<lparr>mt_stage := Submitting i call_new\<rparr>"

definition command_reported :: "nat \<Rightarrow> cluster_error + unit \<Rightarrow> 'c main_task \<Rightarrow> 'c main_task" where
  "command_reported i r m =
     (let m1 = (case r of
                  Inr _ \<Rightarrow> mt_info [''Command '', decimal i, '' committed successfully!''] m
                | Inl e \<Rightarrow> mt_info [''Command '', decimal i, '' failed: '', debug_error e] m)
      in if i < 3 then begin_command (i + 1) m1
         else (mt_info [''All commands processed!''] m1)\<lparr>mt_stage := Settling (mt_now m1 + 100)\<rparr>)"

definition value_reported :: "nat \<Rightarrow> cluster_error + string option \<Rightarrow> 'c main_task \<Rightarrow> 'c main_task" where
  "value_reported i r m =
     (let m1 = (case r of
                  Inr (Some v) \<Rightarrow> mt_info [''READ '', demo_key i, '' = '', v] m
                | Inr None \<Rightarrow> mt_info [''READ '', demo_key i, '' = <not found>''] m
                | Inl e \<Rightarrow> mt_info [''READ '', demo_key i, '' failed: '', debug_error e] m)
      in if i < 3 then m1\<lparr>mt_stage := ReadingBack (i + 1) call_new\<rparr>
         else (mt_info [''All reads completed!''] m1)\<lparr>mt_stage := Elapsing (mt_now m1 + 1000)\<rparr>)"

definition main_poll :: "'c \<Rightarrow> 'c main_task \<Rightarrow> 'c main_task" where
  \<comment> \<open>\<open>tx\<close> stands for the sender of the response channel that a request carries.\<close>
  "main_poll tx m =
     (case mt_stage m of
        AwaitingLinks ok \<Rightarrow>
          if mt_links m then (if ok then await_election m else m\<lparr>mt_stage := MainPanicked\<rparr>) else m
      | AwaitingElection until \<Rightarrow>
          if until \<le> mt_now m then begin_command 1 (mt_info [''Submitting test commands...''] m) else m
      | Submitting i call \<Rightarrow>
          (let (w, call') = submit_command (demo_command i) tx
                 \<lparr>cs_channels = mt_channels m, cs_response = mt_writes m, cs_now = mt_now m\<rparr> call;
               m1 = m\<lparr>mt_channels := cs_channels w, mt_writes := cs_response w\<rparr>
           in case call_state call' of
                Returned r \<Rightarrow> command_reported i r m1
              | Panicked \<Rightarrow> m1\<lparr>mt_stage := MainPanicked\<rparr>
              | _ \<Rightarrow> m1\<lparr>mt_stage := Submitting i call'\<rparr>)
      | Settling until \<Rightarrow>
          if until \<le> mt_now m
          then (mt_info [''Reading back committed values...''] m)\<lparr>mt_stage := ReadingBack 1 call_new\<rparr> else m
      | ReadingBack i call \<Rightarrow>
          (let (w, call') = read_value (demo_key i) tx
                 \<lparr>cs_channels = mt_channels m, cs_response = mt_reads m, cs_now = mt_now m\<rparr> call;
               m1 = m\<lparr>mt_channels := cs_channels w, mt_reads := cs_response w\<rparr>
           in case call_state call' of
                Returned r \<Rightarrow> value_reported i r m1
              | Panicked \<Rightarrow> m1\<lparr>mt_stage := MainPanicked\<rparr>
              | _ \<Rightarrow> m1\<lparr>mt_stage := ReadingBack i call'\<rparr>)
      | Elapsing until \<Rightarrow>
          if until \<le> mt_now m
          then (mt_info [''1 seconds elapsed. Initiating graceful shutdown...''] m)
                 \<lparr>mt_cancelled := True, mt_stage := ShuttingDown (mt_now m + 500)\<rparr>
          else m
      | ShuttingDown until \<Rightarrow>
          if until \<le> mt_now m then (mt_info [''Shutdown complete. Exiting.''] m)\<lparr>mt_stage := Exited\<rparr> else m
      | _ \<Rightarrow> m)"

section \<open>What happens around it\<close>

datatype main_move =
    MainPoll
  | LinksUp
  | WriteAnswer "cluster_error + unit"
  | ReadAnswer "cluster_error + string option"
  | MainTake nat
  | MainPass nat

fun main_step :: "'c \<Rightarrow> main_move \<Rightarrow> 'c main_task \<Rightarrow> 'c main_task" where
  "main_step tx MainPoll m = main_poll tx m"
| "main_step tx LinksUp m = m\<lparr>mt_links := True\<rparr>"
| "main_step tx (WriteAnswer r) m =
     (case chan_try_send 1 r (mt_writes m) of Some q \<Rightarrow> m\<lparr>mt_writes := q\<rparr> | None \<Rightarrow> m)"
| "main_step tx (ReadAnswer r) m =
     (case chan_try_send 1 r (mt_reads m) of Some q \<Rightarrow> m\<lparr>mt_reads := q\<rparr> | None \<Rightarrow> m)"
| "main_step tx (MainTake i) m = m\<lparr>mt_channels := (mt_channels m)[i := tl (mt_channels m ! i)]\<rparr>"
| "main_step tx (MainPass ms) m = m\<lparr>mt_now := mt_now m + ms\<rparr>"

definition main_moves :: "'c \<Rightarrow> main_move list \<Rightarrow> 'c main_task \<Rightarrow> 'c main_task" where
  "main_moves tx ms m = fold (main_step tx) ms m"

section \<open>The program ends\<close>

fun answer_ok :: "main_move \<Rightarrow> bool" where
  "answer_ok (WriteAnswer r) = hint_ok r"
| "answer_ok (ReadAnswer r) = hint_ok r"
| "answer_ok _ = True"

abbreviation write_side :: "'c main_task \<Rightarrow> ('c, unit) client_side" where
  "write_side m \<equiv> \<lparr>cs_channels = mt_channels m, cs_response = mt_writes m, cs_now = mt_now m\<rparr>"

abbreviation read_side :: "'c main_task \<Rightarrow> ('c, string option) client_side" where
  "read_side m \<equiv> \<lparr>cs_channels = mt_channels m, cs_response = mt_reads m, cs_now = mt_now m\<rparr>"

definition main_ok :: "'c main_task \<Rightarrow> bool" where
  "main_ok m \<longleftrightarrow> length (mt_channels m) = 5 \<and> list_all hint_ok (mt_writes m) \<and> list_all hint_ok (mt_reads m) \<and>
     (case mt_stage m of
        AwaitingLinks ok \<Rightarrow> \<not> mt_cancelled m \<and> ok
      | AwaitingElection d \<Rightarrow> \<not> mt_cancelled m \<and> d \<le> mt_now m + 5000
      | Submitting i call \<Rightarrow> \<not> mt_cancelled m \<and> i \<le> 3 \<and> rank call \<noteq> 0 \<and> call_fine (write_side m) call
      | Settling d \<Rightarrow> \<not> mt_cancelled m \<and> d \<le> mt_now m + 100
      | ReadingBack i call \<Rightarrow> \<not> mt_cancelled m \<and> i \<le> 3 \<and> rank call \<noteq> 0 \<and> call_fine (read_side m) call
      | Elapsing d \<Rightarrow> \<not> mt_cancelled m \<and> d \<le> mt_now m + 1000
      | ShuttingDown d \<Rightarrow> mt_cancelled m \<and> d \<le> mt_now m + 500
      | Exited \<Rightarrow> mt_cancelled m
      | MainPanicked \<Rightarrow> False)"

fun stage_rank :: "main_stage \<Rightarrow> nat" where
  "stage_rank (AwaitingLinks _) = 59"
| "stage_rank (AwaitingElection _) = 58"
| "stage_rank (Submitting i call) = 30 + (3 - i) * 9 + rank call"
| "stage_rank (Settling _) = 30"
| "stage_rank (ReadingBack i call) = 2 + (3 - i) * 9 + rank call"
| "stage_rank (Elapsing _) = 2"
| "stage_rank (ShuttingDown _) = 1"
| "stage_rank _ = 0"

fun stage_due :: "bool \<Rightarrow> nat \<Rightarrow> main_stage \<Rightarrow> bool" where
  "stage_due links now (AwaitingLinks _) = links"
| "stage_due links now (AwaitingElection d) = (d \<le> now)"
| "stage_due links now (Submitting i call) = call_due now (call_state call)"
| "stage_due links now (Settling d) = (d \<le> now)"
| "stage_due links now (ReadingBack i call) = call_due now (call_state call)"
| "stage_due links now (Elapsing d) = (d \<le> now)"
| "stage_due links now (ShuttingDown d) = (d \<le> now)"
| "stage_due links now _ = True"

text \<open>A set-up that waits does so until the links are up.\<close>

definition linked :: "'c main_task \<Rightarrow> bool" where
  "linked m \<longleftrightarrow> (\<forall>ok. mt_stage m = AwaitingLinks ok \<longrightarrow> mt_links m)"

lemma mt_info_simps [simp]:
  "mt_stage (mt_info ps m) = mt_stage m" "mt_channels (mt_info ps m) = mt_channels m"
  "mt_writes (mt_info ps m) = mt_writes m" "mt_reads (mt_info ps m) = mt_reads m"
  "mt_now (mt_info ps m) = mt_now m" "mt_cancelled (mt_info ps m) = mt_cancelled m"
  "mt_links (mt_info ps m) = mt_links m"
  by (simp_all add: mt_info_def)

definition progress :: "'c main_task \<Rightarrow> 'c main_task \<Rightarrow> bool" where
  "progress m m' \<longleftrightarrow> main_ok m' \<and> stage_rank (mt_stage m') \<le> stage_rank (mt_stage m) \<and>
     (stage_due (mt_links m) (mt_now m) (mt_stage m) \<and> stage_rank (mt_stage m) \<noteq> 0 \<longrightarrow>
        stage_rank (mt_stage m') < stage_rank (mt_stage m))"

lemma reported_progress:
  assumes "main_ok m" and "mt_stage m = Submitting i call" and "list_all hint_ok q" and "length cs = 5"
  shows "progress m (command_reported i r (m\<lparr>mt_channels := cs, mt_writes := q\<rparr>))"
  using assms
  by (auto simp: progress_def main_ok_def command_reported_def begin_command_def Let_def call_new_fine split: sum.split)

lemma value_progress:
  assumes "main_ok m" and "mt_stage m = ReadingBack i call" and "list_all hint_ok q" and "length cs = 5"
  shows "progress m (value_reported i r (m\<lparr>mt_channels := cs, mt_reads := q\<rparr>))"
  using assms
  by (auto simp: progress_def main_ok_def value_reported_def Let_def call_new_fine split: sum.split option.split)

lemma main_poll_progress:
  assumes "main_ok m"
  shows "progress m (main_poll tx m)"
proof (cases "mt_stage m")
  case (Submitting i call)
  obtain w call' where run: "submit_command (demo_command i) tx (write_side m) call = (w, call')" by fastforce
  from assms Submitting have fine: "call_fine (write_side m) call" and "rank call \<noteq> 0" and i: "i \<le> 3" and "\<not> mt_cancelled m"
    and reads: "list_all hint_ok (mt_reads m)"
    by (simp_all add: main_ok_def)
  note r = call_poll_fine [OF fine run [unfolded submit_command_def]]
  from r(1) have w: "length (cs_channels w) = 5" "list_all hint_ok (cs_response w)" "call_state call' \<noteq> Panicked"
    by (simp_all add: call_fine_def)
  show ?thesis
  proof (cases "over (call_state call')")
    case True
    with w(3) obtain v where "call_state call' = Returned v" by (cases "call_state call'") simp_all
    with reported_progress [OF assms Submitting w(2,1), of v] show ?thesis
      by (simp add: main_poll_def Submitting run)
  next
    case False
    then have "main_poll tx m = m\<lparr>mt_channels := cs_channels w, mt_writes := cs_response w, mt_stage := Submitting i call'\<rparr>"
      by (cases "call_state call'") (simp_all add: main_poll_def Submitting run Let_def)
    moreover have "w = \<lparr>cs_channels = cs_channels w, cs_response = cs_response w, cs_now = mt_now m\<rparr>" using r(2) by simp
    ultimately show ?thesis
      using r(1,3,4) w(1,2) i reads False \<open>rank call \<noteq> 0\<close> \<open>\<not> mt_cancelled m\<close>
      by (simp add: progress_def main_ok_def Submitting rank_over)
  qed
next
  case (ReadingBack i call)
  obtain w call' where run: "read_value (demo_key i) tx (read_side m) call = (w, call')" by fastforce
  from assms ReadingBack have fine: "call_fine (read_side m) call" and "rank call \<noteq> 0" and i: "i \<le> 3" and "\<not> mt_cancelled m"
    and writes: "list_all hint_ok (mt_writes m)"
    by (simp_all add: main_ok_def)
  note r = call_poll_fine [OF fine run [unfolded read_value_def]]
  from r(1) have w: "length (cs_channels w) = 5" "list_all hint_ok (cs_response w)" "call_state call' \<noteq> Panicked"
    by (simp_all add: call_fine_def)
  show ?thesis
  proof (cases "over (call_state call')")
    case True
    with w(3) obtain v where "call_state call' = Returned v" by (cases "call_state call'") simp_all
    with value_progress [OF assms ReadingBack w(2,1), of v] show ?thesis
      by (simp add: main_poll_def ReadingBack run)
  next
    case False
    then have "main_poll tx m = m\<lparr>mt_channels := cs_channels w, mt_reads := cs_response w, mt_stage := ReadingBack i call'\<rparr>"
      by (cases "call_state call'") (simp_all add: main_poll_def ReadingBack run Let_def)
    moreover have "w = \<lparr>cs_channels = cs_channels w, cs_response = cs_response w, cs_now = mt_now m\<rparr>" using r(2) by simp
    ultimately show ?thesis
      using r(1,3,4) w(1,2) i writes False \<open>rank call \<noteq> 0\<close> \<open>\<not> mt_cancelled m\<close>
      by (simp add: progress_def main_ok_def ReadingBack rank_over)
  qed
qed (use assms in \<open>auto simp: progress_def main_ok_def main_poll_def begin_command_def await_election_def call_new_fine\<close>)

lemma call_fine_side:
  assumes "call_fine \<lparr>cs_channels = cs, cs_response = q, cs_now = t\<rparr> call"
  shows "length cs' = 5 \<Longrightarrow> list_all hint_ok q' \<Longrightarrow> t \<le> t' \<Longrightarrow>
    call_fine \<lparr>cs_channels = cs', cs_response = q', cs_now = t'\<rparr> call"
  using assms by (auto simp: call_fine_def call_ok_def split: call_state.splits)

lemma main_ok_around:
  assumes "main_ok m" and "length cs = 5" and "list_all hint_ok ws" and "list_all hint_ok rs" and "mt_now m \<le> t"
  shows "main_ok (m\<lparr>mt_channels := cs, mt_writes := ws, mt_reads := rs, mt_now := t\<rparr>)"
  using assms by (auto simp: main_ok_def intro: call_fine_side split: main_stage.splits)

lemma main_step_rank:
  assumes "main_ok m" and "answer_ok mv"
  shows "main_ok (main_step tx mv m) \<and> stage_rank (mt_stage (main_step tx mv m)) \<le> stage_rank (mt_stage m)"
proof -
  from assms(1) have q: "length (mt_channels m) = 5" "list_all hint_ok (mt_writes m)" "list_all hint_ok (mt_reads m)"
    by (simp_all add: main_ok_def)
  note around = main_ok_around [OF assms(1)]
  show ?thesis
  proof (cases mv)
    case MainPoll
    then show ?thesis using main_poll_progress [OF assms(1)] by (simp add: progress_def)
  next
    case LinksUp
    then show ?thesis using assms(1) by (auto simp: main_ok_def split: main_stage.splits)
  next
    case (WriteAnswer r)
    then show ?thesis
      using assms around [OF q(1) _ q(3) order_refl, of "mt_writes m @ [r]"] q(2)
      by (auto simp: chan_try_send_def)
  next
    case (ReadAnswer r)
    then show ?thesis
      using assms around [OF q(1,2) _ order_refl, of "mt_reads m @ [r]"] q(3)
      by (auto simp: chan_try_send_def)
  next
    case (MainTake i)
    then show ?thesis
      using around [OF _ q(2,3) order_refl, of "(mt_channels m)[i := tl (mt_channels m ! i)]"] q(1) by simp
  next
    case (MainPass ms)
    then show ?thesis using around [OF q, of "mt_now m + ms"] by simp
  qed
qed

lemma main_moves_rank:
  "main_ok m \<Longrightarrow> list_all answer_ok ms \<Longrightarrow>
   main_ok (main_moves tx ms m) \<and> stage_rank (mt_stage (main_moves tx ms m)) \<le> stage_rank (mt_stage m)"
proof (induction ms arbitrary: m)
  case (Cons mv ms)
  from Cons.prems have "answer_ok mv" "list_all answer_ok ms" by simp_all
  note step = main_step_rank [OF Cons.prems(1) this(1), of tx]
  with Cons.IH [OF conjunct1 [OF step] \<open>list_all answer_ok ms\<close>] show ?case
    by (simp add: main_moves_def del: main_step.simps)
qed (simp add: main_moves_def)

text \<open>Once the links are up they stay up, and no stage leads back to waiting for them.\<close>

lemma reported_links:
  "mt_links (command_reported i r m) = mt_links m" "mt_stage (command_reported i r m) \<noteq> AwaitingLinks ok"
  "mt_links (value_reported i v m) = mt_links m" "mt_stage (value_reported i v m) \<noteq> AwaitingLinks ok"
  by (simp_all add: command_reported_def value_reported_def begin_command_def Let_def split: sum.split option.split)

lemma main_poll_links:
  "mt_links (main_poll tx m) = mt_links m \<and>
   (mt_stage (main_poll tx m) = AwaitingLinks ok \<longrightarrow> mt_stage m = AwaitingLinks ok)"
proof (cases "mt_stage m")
  case (Submitting i call)
  obtain w call' where "submit_command (demo_command i) tx (write_side m) call = (w, call')" by fastforce
  then show ?thesis
    by (cases "call_state call'") (simp_all add: main_poll_def Submitting reported_links Let_def)
next
  case (ReadingBack i call)
  obtain w call' where "read_value (demo_key i) tx (read_side m) call = (w, call')" by fastforce
  then show ?thesis
    by (cases "call_state call'") (simp_all add: main_poll_def ReadingBack reported_links Let_def)
qed (simp_all add: main_poll_def await_election_def begin_command_def)

lemma main_step_linked: "linked m \<Longrightarrow> linked (main_step tx mv m)"
proof (cases mv)
  case MainPoll
  show "linked m \<Longrightarrow> ?thesis"
    unfolding linked_def MainPoll main_step.simps using main_poll_links [of tx m] by metis
qed (simp_all add: linked_def split: option.split)

lemma main_moves_linked: "linked m \<or> LinksUp \<in> set ms \<Longrightarrow> linked (main_moves tx ms m)"
proof (induction ms arbitrary: m)
  case (Cons mv ms)
  have "linked (main_step tx mv m) \<or> LinksUp \<in> set ms"
    using Cons.prems main_step_linked [of m tx mv] by (auto simp: linked_def)
  from Cons.IH [OF this] show ?case by (simp add: main_moves_def del: main_step.simps)
qed (simp add: main_moves_def)

lemma main_moves_append: "main_moves tx (xs @ ys) m = main_moves tx ys (main_moves tx xs m)"
  by (simp add: main_moves_def)

lemma waited_round:
  fixes tx :: 'c
  assumes "main_ok m" and "list_all answer_ok ms" and "linked m \<or> LinksUp \<in> set ms"
  defines "m' \<equiv> main_moves tx (ms @ [MainPass 5000, MainPoll]) m"
  shows "main_ok m' \<and> stage_rank (mt_stage m') \<le> stage_rank (mt_stage m) - 1"
proof -
  let ?m1 = "main_moves tx (ms @ [MainPass 5000]) m" and ?m0 = "main_moves tx ms m"
  from main_moves_rank [OF assms(1), of "ms @ [MainPass 5000]" tx] assms(2)
  have ok: "main_ok ?m1" and le: "stage_rank (mt_stage ?m1) \<le> stage_rank (mt_stage m)" by simp_all
  have m1: "?m1 = ?m0\<lparr>mt_now := mt_now ?m0 + 5000\<rparr>" by (simp add: main_moves_append) (simp add: main_moves_def)
  have "main_ok ?m0" using main_moves_rank [OF assms(1,2), of tx] by blast
  moreover have "linked ?m0" by (rule main_moves_linked [OF assms(3)])
  ultimately have "stage_due (mt_links ?m1) (mt_now ?m1) (mt_stage ?m1)"
    by (auto simp: m1 linked_def main_ok_def call_fine_def call_ok_def split: main_stage.splits call_state.splits)
  with main_poll_progress [OF ok, of tx] le show ?thesis
    by (auto simp: m'_def progress_def main_moves_append) (simp_all add: main_moves_def)
qed

definition main_rounds :: "main_move list list \<Rightarrow> main_move list" where
  "main_rounds rounds = concat (map (\<lambda>ms. ms @ [MainPass 5000, MainPoll]) rounds)"

lemma main_rounds_simps [simp]:
  "main_rounds [] = []" "main_rounds (ms # rounds) = (ms @ [MainPass 5000, MainPoll]) @ main_rounds rounds"
  "main_rounds (rs @ rounds) = main_rounds rs @ main_rounds rounds"
  by (simp_all add: main_rounds_def)

lemma waited_rounds:
  "main_ok m \<Longrightarrow> list_all answer_ok (concat rounds) \<Longrightarrow> linked m \<Longrightarrow>
   main_ok (main_moves tx (main_rounds rounds) m) \<and>
   stage_rank (mt_stage (main_moves tx (main_rounds rounds) m)) \<le> stage_rank (mt_stage m) - length rounds"
proof (induction rounds arbitrary: m)
  case (Cons ms rounds)
  then have *: "list_all answer_ok ms" by simp
  let ?m = "main_moves tx (ms @ [MainPass 5000, MainPoll]) m"
  have "linked ?m" by (rule main_moves_linked) (simp add: Cons.prems(3))
  moreover have "main_moves tx (main_rounds (ms # rounds)) m = main_moves tx (main_rounds rounds) ?m"
    by (simp only: main_rounds_simps main_moves_append)
  ultimately show ?case
    using waited_round [OF Cons.prems(1) *, of tx] Cons.IH [of ?m] Cons.prems(2,3) by auto
qed (simp add: main_moves_def)

lemma main_rounds_ok: "list_all answer_ok (main_rounds rounds) \<longleftrightarrow> list_all answer_ok (concat rounds)"
  by (induction rounds) simp_all

text \<open>Rounds in which the links come up make a set-up that waits return.\<close>

lemma links_come_up:
  fixes tx :: 'c
  assumes "main_ok m" and "list_all answer_ok (concat rounds)" and "stage_rank (mt_stage m) \<le> 59"
    and "LinksUp \<in> set (concat rounds)"
  defines "m' \<equiv> main_moves tx (main_rounds rounds) m"
  shows "main_ok m' \<and> linked m' \<and> stage_rank (mt_stage m') \<le> 58"
proof -
  obtain r1 ms r2 where rounds: "rounds = r1 @ ms # r2" and up: "LinksUp \<in> set ms"
    using assms(4) by (auto dest: split_list)
  with assms(2) have ok: "list_all answer_ok (main_rounds r1)" "list_all answer_ok ms" "list_all answer_ok (main_rounds r2)"
    by (simp_all add: main_rounds_ok)
  let ?m1 = "main_moves tx (main_rounds r1) m"
  let ?m2 = "main_moves tx (ms @ [MainPass 5000, MainPoll]) ?m1"
  from main_moves_rank [OF assms(1) ok(1), of tx] assms(3)
  have 1: "main_ok ?m1" "stage_rank (mt_stage ?m1) \<le> 59" by auto
  from waited_round [OF 1(1) ok(2), of tx] up 1(2) have 2: "main_ok ?m2" "stage_rank (mt_stage ?m2) \<le> 58" by auto
  have "linked ?m2" by (rule main_moves_linked) (simp add: up)
  then have "linked (main_moves tx (main_rounds r2) ?m2)" by (rule main_moves_linked [OF disjI1])
  moreover have "m' = main_moves tx (main_rounds r2) ?m2"
    unfolding m'_def rounds by (simp only: main_rounds_simps main_moves_append)
  ultimately show ?thesis using main_moves_rank [OF 2(1) ok(3), of tx] 2(2) by auto
qed

lemma main_start_ok:
  "main_ok (main_start config now SetupDone)" "stage_rank (mt_stage (main_start config now SetupDone)) = 58"
  "linked (main_start config now SetupDone)"
  "main_ok (main_start config now (SetupWaits True))" "stage_rank (mt_stage (main_start config now (SetupWaits True))) = 59"
  by (simp_all add: main_ok_def main_start_def await_election_def linked_def split: prod.split)

lemma main_over: "main_ok m \<Longrightarrow> stage_rank (mt_stage m) = 0 \<Longrightarrow> mt_stage m = Exited \<and> mt_cancelled m"
  by (auto simp: main_ok_def split: main_stage.splits)

text \<open>The commands it submits set the keys it reads.\<close>

lemma demonstration_reads_what_it_writes:
  "map (\<lambda>i. esm_get (fold esm_apply (map demo_command [1, 2, 3]) esm_new) (demo_key i)) [1, 2, 3] =
     [Some ''value1'', Some ''value2'', Some ''value3'']"
  by code_simp

text \<open>C28: the program ends.  Whatever the nodes answer, and whether or not they answer and take
  requests, the main task has exited and the nodes have been told to stop after 58 rounds in which five
  seconds pass and the task is polled: in the in-memory configuration counted from the start, in the
  network configuration, where \<open>initialize_client\<close> waits for the links of the stacks and panics if a storage
  cannot be read, counted from a time by which the links are up.  Hints name one of the five nodes.\<close>

theorem main_ends:
  assumes "58 \<le> length rounds" and "list_all answer_ok (concat rounds)"
  shows "(let m = main_moves tx (main_rounds rounds) (main_start config now (channel_setup S storage now []))
      in mt_stage m = Exited \<and> mt_cancelled m) \<and>
    (list_all (\<lambda>i. open_storage i \<noteq> None) [1..<6] \<and> list_all answer_ok (concat before) \<and> LinksUp \<in> set (concat before) \<longrightarrow>
     (let m = main_moves tx (main_rounds (before @ rounds)) (main_start config now (udp_setup S' open_storage now []))
      in mt_stage m = Exited \<and> mt_cancelled m))"
proof (intro conjI impI)
  note ends = waited_rounds [OF main_start_ok(1) assms(2) main_start_ok(3), of tx config now, unfolded main_start_ok(2)]
  show "let m = main_moves tx (main_rounds rounds) (main_start config now (channel_setup S storage now []))
      in mt_stage m = Exited \<and> mt_cancelled m"
    unfolding Let_def first_setup by (rule main_over) (use ends assms(1) in auto)
next
  assume before: "list_all (\<lambda>i. open_storage i \<noteq> None) [1..<6] \<and> list_all answer_ok (concat before) \<and>
    LinksUp \<in> set (concat before)"
  then have course: "udp_setup S' open_storage now [] = SetupWaits True" by (simp only: first_setup)
  let ?m = "main_moves tx (main_rounds before) (main_start config now (SetupWaits True))"
  from links_come_up [OF main_start_ok(4) _ _, of before config now tx] before
  have m: "main_ok ?m" "linked ?m" "stage_rank (mt_stage ?m) \<le> 58" by (simp_all add: main_start_ok(5))
  show "let m = main_moves tx (main_rounds (before @ rounds)) (main_start config now (udp_setup S' open_storage now []))
      in mt_stage m = Exited \<and> mt_cancelled m"
    unfolding Let_def course main_rounds_simps main_moves_append
    by (rule main_over) (use waited_rounds [OF m(1) assms(2) m(2), of tx] m(3) assms(1) in auto)
qed

theorem main_ends_witness:
  "let m = main_moves () (main_rounds ([[LinksUp]] @ [WriteAnswer (Inl (ClusterNotLeader (Some 3)))] # replicate 57 []))
       (main_start config_json 0 (udp_setup (semihosting_storage_ops file_host_ops)
          (\<lambda>i. Some (blank_storage i empty_host)) 0 ([] :: (file_host semi_storage, nat) embassy_node task list)))
   in mt_stage m = Exited \<and> mt_cancelled m"
  by (rule conjunct2 [OF main_ends, THEN mp]) (simp_all add: list_all_iff)

end
