(* ===== verification/Spec2Isabelle.thy ===== *)
theory Spec2Isabelle
  imports Log_Properties Log_Collections Embassy_Properties Embassy_Part_Properties Embassy_Deviations Embassy_Observer
    Embassy_Client_Properties Network_Bus Test_Cluster_Properties Run_Properties Embassy_Main
begin

text \<open>
  A model of \<^verbatim>\<open>metal_raft\<close>, a Raft implementation in Rust that runs in hosted test clusters and on
  bare-metal embassy targets, with the theorems that make it correct.

  \<^bold>\<open>The program.\<close>  \<^verbatim>\<open>core/src\<close> is the protocol: a \<open>RaftNode\<close> receives events (a message, a timer, a
  client command, a membership change) through \<open>on_event\<close>, and \<open>MessageHandler\<close> dispatches them to
  handlers that mutate the node through \<open>MessageHandlerContext\<close>.  The handlers use one manager per
  concern: \<open>ElectionManager\<close>, \<open>LogReplicationManager\<close>, \<open>ConfigChangeManager\<close>, \<open>SnapshotManager\<close>,
  \<open>RoleTransitionManager\<close>, \<open>LeaderLease\<close>.  Everything a node touches (storage, state machine, timers,
  collections, transport, observer, clock) is a trait; \<^verbatim>\<open>test-utils/src\<close> and \<^verbatim>\<open>embassy/src\<close> implement the
  traits.  \<^verbatim>\<open>validation/src\<close> builds clusters of nodes that a test drives step by step; \<^verbatim>\<open>embassy/src\<close> runs
  five nodes as asynchronous tasks with a client, over channels in memory or over UDP on a simulated
  Ethernet, with a storage in memory or one that writes the files of the debugging host.

  \<^bold>\<open>The theories of the core\<close>, in the order the code has its parts:

  \<^item> \<open>Raft_Prelude\<close>: \<open>u64\<close> arithmetic (\<open>u64_add\<close> wraps as a release build does), results as sums, order
    statistics, the counting argument behind quorums.
  \<^item> \<open>Raft_Types\<close>: \<^verbatim>\<open>types.rs\<close>, \<^verbatim>\<open>node_state.rs\<close>, \<^verbatim>\<open>log_entry.rs\<close>, \<^verbatim>\<open>raft_messages.rs\<close>, \<^verbatim>\<open>snapshot.rs\<close>,
    \<^verbatim>\<open>event.rs\<close>, \<^verbatim>\<open>observer.rs\<close> and the expired timers of \<^verbatim>\<open>timer_service.rs\<close>.
  \<^item> \<open>Raft_Collections\<close>, \<open>Log_Collections\<close>: \<^verbatim>\<open>collections/*.rs\<close> with the collections of \<^verbatim>\<open>test-utils\<close> and
    \<^verbatim>\<open>embassy\<close>; the locales \<open>node_collection\<close> and \<open>map_collection\<close> state what the core relies on.
  \<^item> \<open>Storage_Interface\<close>, \<open>In_Memory_Storage\<close>: the traits of \<^verbatim>\<open>storage.rs\<close> and \<^verbatim>\<open>state_machine.rs\<close> as
    dictionaries, their contract as the locales \<open>storage_frame\<close> and \<open>raft_storage\<close> over an abstract
    view of a storage, and \<^verbatim>\<open>in_memory_storage.rs\<close>, which keeps it.
  \<^item> \<open>Clock_Timers\<close>: \<^verbatim>\<open>clock.rs\<close>, \<^verbatim>\<open>leader_lease.rs\<close>, the timer services of \<^verbatim>\<open>test-utils\<close>.
  \<^item> \<open>Election_Manager\<close>, \<open>Log_Replication\<close>, \<open>Log_Replication_Facts\<close>, \<open>Config_Change\<close>,
    \<open>Snapshot_Manager\<close>, \<open>Role_Transition\<close>: one theory per manager.
  \<^item> \<open>Raft_Context\<close>, \<open>Message_Handler\<close>, \<open>Raft_Node\<close>: the node's state, the helpers of
    \<^verbatim>\<open>message_handler/common.rs\<close>, every handler, the builders and \<open>on_event\<close>.
  \<^item> \<open>Election_Protocol\<close>: the abstract specification of elections, a protocol on terms, votes and
    ballots under way, with its invariant; \<open>Node_Election\<close> and \<open>Node_Steps\<close> show that every event at
    the detailed node is a step of it (the locale \<open>election_env\<close>).
  \<^item> \<open>Message_Broker\<close>, \<open>Cluster\<close>: \<^verbatim>\<open>message_broker.rs\<close>, \<^verbatim>\<open>in_memory_transport.rs\<close>, and clusters of nodes
    in which messages are delivered in any order or lost, timers fire at any time, and nodes restart;
    a run of a cluster refines the election protocol.
  \<^item> \<open>Log_Protocol\<close>: the abstract specification of log replication, with log matching as its invariant;
    \<open>Log_Steps\<close> and \<open>Log_Runs\<close> show that the node and whole runs follow it while no log is compacted.
  \<^item> \<open>In_Memory_Node\<close>: \<^verbatim>\<open>in_memory_state_machine.rs\<close> and the environment of the test clusters, on which
    \<open>election_env\<close> and \<open>log_env\<close>, the locale of \<open>Log_Steps\<close>, are interpreted.
  \<^item> \<open>Test_Cluster\<close>, \<open>Timefull_Cluster\<close>, \<open>Test_Cluster_Properties\<close>: \<^verbatim>\<open>timeless_test_cluster.rs\<close> and
    \<^verbatim>\<open>timefull_test_cluster.rs\<close>, and that a program that delivers, partitions, fires timers, submits
    commands and reads is a run of \<open>Cluster\<close>.
  \<^item> \<open>Election_Progress\<close>, \<open>Log_Repair\<close>, \<open>Applied_Commands\<close>, \<open>Run_Properties\<close>: what runs reach, with the
    in-memory environment: the two rounds of an election, heartbeats that bring a follower's log in
    line with the leader's, and the state machine read off the commands the observer was told of.
  \<^item> \<open>Vote_Record\<close>: what any event at all, forged messages and membership changes included, does to the term
    and the vote of a node, and the majority that an elected node had.
  \<^item> \<open>Election_Properties\<close>, \<open>Replication_Properties\<close>, \<open>Membership_Properties\<close>, \<open>Service_Properties\<close>,
    \<open>Log_Properties\<close> and this theory: the properties.  \<open>Known_Deviations\<close>: evaluated runs in which the
    code departs from the protocol it documents.

  \<^bold>\<open>The theories of the bare-metal cluster\<close>:

  \<^item> \<open>Byte_Codec\<close>: little-endian integers, decimal numbers, strings as bytes.
  \<^item> \<open>Embassy_Storage\<close>, \<open>Semihosting_Storage\<close>, \<open>Semihosting_Recovery\<close>: the two storages, with the format
    of the files and what a restart recovers from them.
  \<^item> \<open>Embassy_Timer\<close>, \<open>Embassy_Machine\<close>, \<open>Embassy_Observer\<close>: the timers over 64-bit ticks, the bounded
    key/value machine, and what a node prints at each level.
  \<^item> \<open>Embassy_Node\<close>: the event loop of \<^verbatim>\<open>embassy_node.rs\<close>, split at its await points.  \<open>Message_Bounds\<close>: a
    node sends no more entries or bytes than the message types hold.  \<open>Timer_Independence\<close>: the
    handlers never read the timers.
  \<^item> \<open>Wire_Codec\<close>, \<open>Embassy_Network\<close>, \<open>Udp_Transport\<close>, \<open>Network_Bus\<close>: \<^verbatim>\<open>serde_raft_message.rs\<close>, the
    contract of a transport as the locale \<open>async_transport\<close>, which the channel transport keeps, and the UDP
    transport over an IP stack that does not duplicate, and the simulated Ethernet of \<^verbatim>\<open>driver.rs\<close>.
  \<^item> \<open>Embassy_System\<close>, \<open>Embassy_Runs\<close>: the step relation of the five tasks, and the simulation of its
    runs by \<open>Cluster\<close>.  \<open>Embassy_Schedules\<close>, \<open>Udp_Runs\<close>, \<open>Embassy_Starvation\<close>: runs that can be evaluated;
    the locale \<open>transport_relation\<close> lets them be computed on five of everything, as data.
  \<^item> \<open>Embassy_Client\<close>: the calls of \<^verbatim>\<open>raft_client.rs\<close> with the queues of the client channel hub.
  \<^item> \<open>Embassy_Setup\<close>, \<open>Embassy_Main\<close>: the two \<open>initialize_client\<close> functions and \<^verbatim>\<open>udp_transport_hub.rs\<close>, with
    the tasks they spawn, and the main task of \<^verbatim>\<open>main.rs\<close>, polled like the client's calls it makes.
  \<^item> \<open>Embassy_Properties\<close>, \<open>Embassy_Part_Properties\<close>, \<open>Embassy_Client_Properties\<close>: the properties.
    \<open>Embassy_Deviations\<close>: evaluated runs that depart from the comments and documents.

  \<^bold>\<open>How the code is represented.\<close>  A trait is a record of functions passed as an argument (\<open>S\<close>, \<open>SM\<close>,
  \<open>TO\<close>, \<open>NO\<close>, \<open>MO\<close>, \<open>CO\<close>, packed as \<open>env\<close> for a node), as the Rust code is generic in it.  A \<open>&mut\<close>
  parameter is an argument that is returned updated.  \<open>u64\<close> and \<open>usize\<close> values are naturals; sums go
  through \<open>u64_add\<close>, so hypotheses such as \<open>Suc k < u64_limit\<close> state where the theorems rely on the
  absence of a wrap; bytes and the mixing of the timers' seeds are words.  The transport is the list of
  messages sent, the observer the list of its calls, a clock its reading.  Maps are association lists
  read by \<open>get\<close>, because the core only inserts, looks up and removes; where iteration order matters, as
  for the \<open>IndexMap\<close> of a test cluster, the list is in that order.  An asynchronous function is a state
  with one constructor per await point and a function that polls it; a bounded channel is a list with
  its capacity.  \<open>serde_json\<close>, \<open>postcard\<close>, the IP stack and the semihosting calls of the host are not
  part of the repository: they are parameters, with what the theorems rely on as named hypotheses
  (\<open>postcard_ok\<close>, \<open>never_duplicates\<close>, \<open>reliable_host\<close>); of \<open>heapless\<close> only the capacity is used.  A cast
  \<open>as usize\<close> is left out where the value is a position in a bounded log, below \<open>2 ^ 32\<close>.

  \<^bold>\<open>Bounds and fuel.\<close>  A run of a cluster is bounded by \<open>length acts < u64_limit\<close>: a term grows by at most
  one per action, so no term wraps.  \<open>deliver_loop\<close>, the loop of \<open>deliver_messages\<close>, runs until a round
  finds no message, which the nodes decide; it is a partial function, and theorems about programs that
  use it assume that it returned, as their witnesses do.  \<open>drain_queue\<close> and the other loops are total.  A
  call of the client ends after nine polls that are five seconds apart: three attempts of three states;
  the main task makes six calls and four waits, so 58 such polls bring it to its end once the cluster
  is set up.

  \<^bold>\<open>What is shown.\<close>  At most one node is elected in any term of a run with a fixed membership, however
  messages are delayed, reordered or lost and nodes restarted; votes are final and durable; terms never go
  back, whatever the event; an elected node had a majority of distinct members; leaders commit only entries of their own term that a majority has
  acknowledged; committed entries are applied in order, each once; an accepted append-entries message
  makes the follower's log agree with the leader's, and logs match in whole runs without compaction;
  quorums intersect within a configuration and across a single change; changes are validated; snapshots
  compact and transfer faithfully; leases, timers, broker and state machine do what they promise.  A
  node as up to date as a quorum can be elected by its timer and deliveries alone; heartbeats bring a
  follower's log in line within as many rounds as its next index; whatever a node is fed, it applies no
  command twice and its machine is what the applied commands make of it.  The
  bare-metal cluster refines the cluster model over either transport and either storage: elections are
  safe there too, and logs match with the storage in memory before the first snapshot; what it writes to files or to the wire is read back; its
  buses lose no wakeup, its clients' calls end after at most three requests, and its main task ends
  with the cluster told to stop.

  \<^bold>\<open>What is not shown.\<close>  State-machine safety of whole runs does not hold of the code, nor log matching
  once snapshots are installed (\<open>Known_Deviations\<close>).  Runs that duplicate messages or change the
  membership are outside election safety and the refinements; ADR-R2 allows duplicates, and with them
  elections are not safe (\<open>duplicated_vote_counts_twice\<close>).  The properties of logs in whole runs are for runs
  with fewer submissions than the snapshot threshold.  The programs of the test clusters are made of
  the commands listed in \<open>Test_Cluster\<close>: tests that forge messages, choose another threshold, change the
  membership or re-use storages are not among them.  The bare-metal cluster is followed from its first
  boot; what a later boot finds in the files is \<open>Semihosting_Recovery\<close>, for a single node.

  \<^bold>\<open>Not modelled.\<close>  What only calls the platform: the allocator, the systick registers and the
  semihosting console; the executor, but for the pools its tasks come from; the third-party IP stack,
  and serialisers; the tests; and the methods of
  \<open>MessageHandler\<close> and \<open>RaftNode\<close> that only pass their arguments on, which are the functions they call.
\<close>

section \<open>Election safety of the test clusters\<close>

text \<open>C1: Election safety: in any run of a cluster with a fixed membership, with any state machine and any
  timers, no two nodes are ever elected leader in the same term, whatever messages are delayed, reordered
  or lost, and whichever nodes are restarted from their storage.\<close>

theorem at_most_one_winner_per_term:
  assumes "distinct ids"
    and "cl = run_cluster (in_memory_env SM TO) acts (cluster_init (in_memory_env SM TO) ids (\<lambda>_. mem_new) sm ts th)"
    and "\<forall>a\<in>set acts. keeps_members a" and "length acts < u64_limit"
    and "cl_nodes cl a = Some na" and "cl_nodes cl b = Some nb"
    and "LeaderElected a t \<in> set (rn_observed na)" and "LeaderElected b t \<in> set (rn_observed nb)"
  shows "a = b"
  by (rule mem_node.election_safety [OF assms(1) _ mem_all_blank assms(2-8)])
    (simp add: in_memory_members_fit)

text \<open>C2: At no point of such a run do two nodes lead in the same term.\<close>

theorem at_most_one_leader_per_term:
  assumes "distinct ids"
    and "cl = run_cluster (in_memory_env SM TO) acts (cluster_init (in_memory_env SM TO) ids (\<lambda>_. mem_new) sm ts th)"
    and "\<forall>a\<in>set acts. keeps_members a" and "length acts < u64_limit"
    and "cl_nodes cl a = Some na" and "cl_nodes cl b = Some nb"
    and "rn_role na = Leader" and "rn_role nb = Leader" and "rn_term na = rn_term nb"
  shows "a = b"
  by (rule mem_node.one_leader_per_term [OF assms(1) _ mem_all_blank assms(2-9)])
    (simp add: in_memory_members_fit)

text \<open>C18: A node that has been elected had a majority: in any run of a cluster with a fixed
  membership more than half of the members, each counted once, have gone past the term it won or
  are in that term and have their vote for it on their storage.\<close>

theorem elected_by_a_majority:
  assumes "distinct ids"
    and "cl = run_cluster (in_memory_env SM TO) acts (cluster_init (in_memory_env SM TO) ids (\<lambda>_. mem_new) sm ts th)"
    and "\<forall>a\<in>set acts. keeps_members a" and "length acts < u64_limit"
    and "cl_nodes cl a = Some na" and "LeaderElected a t \<in> set (rn_observed na)"
  shows "length ids < 2 * card {v \<in> set ids. \<exists>nv. cl_nodes cl v = Some nv \<and>
    (t < rn_term nv \<or> rn_term nv = t \<and> ms_voted_for (rn_storage nv) = Some a)}"
proof -
  have "st_voted_for (env_storage (in_memory_env SM TO)) s = ms_voted_for s" for s
    by (simp add: mem_ops_defs in_memory_env_def)
  with mem_node.winner_has_majority [OF assms(1) _ mem_all_blank assms(2-6)] show ?thesis
    by (simp add: in_memory_members_fit)
qed

section \<open>Witnesses\<close>

text \<open>The run in which node 1 of three is elected for term 1.\<close>

definition first_election :: "nat action list" where
  "first_election = [Fire 1 Election, Deliver 2 0, Deliver 1 0, Deliver 2 0, Deliver 1 0]"

lemma first_election_run:
  "\<exists>n. cl_nodes (run_cluster example_env first_election three_nodes) 1 = Some n \<and> rn_role n = Leader \<and>
     rn_term n = 1 \<and> LeaderElected 1 1 \<in> set (rn_observed n)"
proof -
  have "(case cl_nodes (run_cluster example_env first_election three_nodes) 1 of None \<Rightarrow> False
     | Some n \<Rightarrow> rn_role n = Leader \<and> rn_term n = 1 \<and> LeaderElected 1 1 \<in> set (rn_observed n))"
    by code_simp
  then show ?thesis by (auto split: option.splits)
qed

lemma first_election_hyps:
  "distinct [1, 2, 3 :: nat]" "\<forall>a\<in>set first_election. keeps_members a" "length first_election < u64_limit"
  by (simp_all add: first_election_def u64_limit_def)

theorem at_most_one_winner_per_term_witness:
  "{b. \<exists>n. cl_nodes (run_cluster example_env first_election three_nodes) b = Some n \<and>
     LeaderElected b 1 \<in> set (rn_observed n)} = {1}"
  using first_election_run
    at_most_one_winner_per_term [OF first_election_hyps(1) refl first_election_hyps(2,3),
      of example_machine frozen_timer_ops "[]" "\<lambda>_. ()" 10]
  unfolding example_env_def three_nodes_def by blast

theorem elected_by_a_majority_witness:
  "3 < 2 * card {v \<in> {1, 2, 3}. \<exists>nv. cl_nodes (run_cluster example_env first_election three_nodes) v = Some nv \<and>
     (1 < rn_term nv \<or> rn_term nv = 1 \<and> ms_voted_for (rn_storage nv) = Some 1)}"
  using first_election_run
    elected_by_a_majority [OF first_election_hyps(1) refl first_election_hyps(2,3),
      of example_machine frozen_timer_ops "[]" "\<lambda>_. ()" 10 1 _ 1]
  unfolding example_env_def three_nodes_def by auto

theorem at_most_one_leader_per_term_witness:
  "{b. \<exists>n. cl_nodes (run_cluster example_env first_election three_nodes) b = Some n \<and>
     rn_role n = Leader \<and> rn_term n = 1} = {1}"
  using first_election_run
    at_most_one_leader_per_term [OF first_election_hyps(1) refl first_election_hyps(2,3),
      of example_machine frozen_timer_ops "[]" "\<lambda>_. ()" 10]
  unfolding example_env_def three_nodes_def by force

end
